(* ===== verification/Prelude.thy ===== *)
theory Prelude
  imports Main "HOL-Library.Word"
begin

text \<open>
  Shared ground of the development: the machine types of the C++ sources (bytes and
  unsigned words, on the little-endian x86-64 host the servers are built for), the result
  type in which every abnormal end of a handler is a value, checked and unchecked access
  to byte buffers, the conversions between characters and bytes, and the fixed-width
  little-endian integer layout of packed structs.
\<close>

unbundle bit_operations_syntax

section \<open>Machine types\<close>

type_synonym byte = "8 word"
type_synonym bytes = "byte list"
type_synonym u16 = "16 word"
type_synonym u32 = "32 word"
type_synonym u64 = "64 word"

named_theorems buffer_simps \<open>lengths and reads of byte buffers\<close>
named_theorems layout_simps \<open>reading back a packed field\<close>

section \<open>Results: every abnormal end is a value\<close>

text \<open>
  \<open>Assert_failed\<close>: an \<^verbatim>\<open>assert\<close> of the source does not hold (the servers are built as
  Debug, CMakeLists.txt). \<open>Out_of_bounds\<close>: a read or write outside the buffer it is made
  in, undefined in C++. \<open>Uncaught\<close>: an exception nothing catches, which terminates the
  process. \<open>Blocked\<close>: the call waits on a condition variable in this state.
  \<open>Fuel_exhausted\<close>: a loop that need not end was cut off by the model.
\<close>

datatype halt = Assert_failed | Out_of_bounds | Uncaught | Blocked | Fuel_exhausted

type_synonym 'a res = "halt + 'a"

definition res_bind :: "'a res \<Rightarrow> ('a \<Rightarrow> 'b res) \<Rightarrow> 'b res" where
  "res_bind r f = (case r of Inl h \<Rightarrow> Inl h | Inr a \<Rightarrow> f a)"

definition assert_that :: "bool \<Rightarrow> unit res" where
  "assert_that b = (if b then Inr () else Inl Assert_failed)"

lemma res_bind_Inr [simp]: "res_bind (Inr a) f = f a"
  by (simp add: res_bind_def)

lemma res_bind_Inl [simp]: "res_bind (Inl h) f = Inl h"
  by (simp add: res_bind_def)

lemma res_bind_eq_Inr: "res_bind r f = Inr b \<longleftrightarrow> (\<exists>a. r = Inr a \<and> f a = Inr b)"
  by (cases r) auto

lemma res_bind_assoc: "res_bind (res_bind r f) g = res_bind r (\<lambda>a. res_bind (f a) g)"
  by (cases r) auto

lemma assert_that_simps [simp]:
  "assert_that True = Inr ()" "assert_that False = Inl Assert_failed"
  by (simp_all add: assert_that_def)

lemma assert_that_eq_Inr [simp]: "assert_that b = Inr u \<longleftrightarrow> b"
  by (simp add: assert_that_def)

section \<open>Byte buffers\<close>

text \<open>
  \<open>slice_at o n xs\<close> is the \<open>n\<close> elements at offset \<open>o\<close>; \<open>load\<close> and \<open>load_n\<close> are
  reads that fail outside the buffer; \<open>put_at o src dst\<close> is a \<^verbatim>\<open>memcpy\<close> into a buffer
  known to be large enough, \<open>store\<close> the checked form.
\<close>

definition slice_at :: "nat \<Rightarrow> nat \<Rightarrow> 'a list \<Rightarrow> 'a list" where
  "slice_at ofs n xs = take n (drop ofs xs)"

definition load :: "'a list \<Rightarrow> nat \<Rightarrow> 'a res" where
  "load xs i = (if i < length xs then Inr (xs ! i) else Inl Out_of_bounds)"

definition load_n :: "'a list \<Rightarrow> nat \<Rightarrow> nat \<Rightarrow> 'a list res" where
  "load_n xs ofs n = (if ofs + n \<le> length xs then Inr (slice_at ofs n xs) else Inl Out_of_bounds)"

definition put_at :: "nat \<Rightarrow> 'a list \<Rightarrow> 'a list \<Rightarrow> 'a list" where
  "put_at ofs src dst = take ofs dst @ src @ drop (ofs + length src) dst"

definition store :: "nat \<Rightarrow> 'a list \<Rightarrow> 'a list \<Rightarrow> 'a list res" where
  "store ofs src dst =
     (if ofs + length src \<le> length dst then Inr (put_at ofs src dst) else Inl Out_of_bounds)"

lemma length_slice_at [buffer_simps]: "ofs + n \<le> length xs \<Longrightarrow> length (slice_at ofs n xs) = n"
  by (simp add: slice_at_def)

lemma nth_slice_at [buffer_simps]:
  "i < n \<Longrightarrow> ofs + n \<le> length xs \<Longrightarrow> slice_at ofs n xs ! i = xs ! (ofs + i)"
  by (simp add: slice_at_def)

lemma slice_at_zero [simp]: "slice_at ofs 0 xs = []"
  by (simp add: slice_at_def)

lemma slice_at_all [simp]: "n = length xs \<Longrightarrow> slice_at 0 n xs = xs"
  by (simp add: slice_at_def)

lemma slice_at_append_left [buffer_simps]:
  "ofs + n \<le> length xs \<Longrightarrow> slice_at ofs n (xs @ ys) = slice_at ofs n xs"
  by (simp add: slice_at_def)

lemma slice_at_append_right [buffer_simps]:
  "length xs \<le> ofs \<Longrightarrow> slice_at ofs n (xs @ ys) = slice_at (ofs - length xs) n ys"
  by (simp add: slice_at_def)

lemma slice_at_slice_at [buffer_simps]:
  "i + k \<le> n \<Longrightarrow> slice_at i k (slice_at ofs n xs) = slice_at (ofs + i) k xs"
  by (simp add: slice_at_def drop_take min_def add.commute)

lemma length_put_at [buffer_simps]:
  "ofs + length src \<le> length dst \<Longrightarrow> length (put_at ofs src dst) = length dst"
  by (simp add: put_at_def)

lemma slice_at_put_at_same [buffer_simps]:
  "ofs + length src \<le> length dst \<Longrightarrow> n = length src \<Longrightarrow> slice_at ofs n (put_at ofs src dst) = src"
  by (simp add: slice_at_def put_at_def)

lemma slice_at_put_at_before [buffer_simps]:
  "o1 + n \<le> o2 \<Longrightarrow> o2 \<le> length dst \<Longrightarrow> slice_at o1 n (put_at o2 src dst) = slice_at o1 n dst"
  by (simp add: slice_at_def put_at_def drop_take)

lemma slice_at_put_at_after [buffer_simps]:
  "o2 + length src \<le> o1 \<Longrightarrow> o2 + length src \<le> length dst \<Longrightarrow>
   slice_at o1 n (put_at o2 src dst) = slice_at o1 n dst"
  by (simp add: slice_at_def put_at_def)

lemma put_at_slice_at [buffer_simps]:
  "ofs + n \<le> length xs \<Longrightarrow> put_at ofs (slice_at ofs n xs) xs = xs"
  by (simp add: put_at_def slice_at_def) (metis append_take_drop_id drop_drop add.commute)

lemma load_n_Inr [simp]: "ofs + n \<le> length xs \<Longrightarrow> load_n xs ofs n = Inr (slice_at ofs n xs)"
  by (simp add: load_n_def)

lemma load_Inr [simp]: "i < length xs \<Longrightarrow> load xs i = Inr (xs ! i)"
  by (simp add: load_def)

lemma store_Inr [simp]: "ofs + length src \<le> length dst \<Longrightarrow> store ofs src dst = Inr (put_at ofs src dst)"
  by (simp add: store_def)

section \<open>Characters, strings and bytes\<close>

text \<open>
  A \<^verbatim>\<open>std::string\<close> is a \<open>string\<close>, its bytes in the payload of a message a byte list.
  \<open>c_str\<close> is the string a NUL-terminated buffer holds.
\<close>

definition byte_of_char :: "char \<Rightarrow> byte" where
  "byte_of_char c = of_char c"

definition char_of_byte :: "byte \<Rightarrow> char" where
  "char_of_byte b = char_of (unat b)"

definition to_bytes :: "string \<Rightarrow> bytes" where
  "to_bytes s = map byte_of_char s"

definition of_bytes :: "bytes \<Rightarrow> string" where
  "of_bytes bs = map char_of_byte bs"

definition c_str :: "bytes \<Rightarrow> string" where
  "c_str bs = of_bytes (takeWhile (\<lambda>b. b \<noteq> 0) bs)"

lemma char_of_byte_of_char [simp]: "char_of_byte (byte_of_char c) = c"
proof -
  have "(of_char c :: nat) < 2 ^ LENGTH(8)" by (simp add: of_char_def of_bool_def)
  then have "unat (of_nat (of_char c) :: byte) = of_char c" by (simp add: unat_of_nat)
  then show ?thesis by (simp add: char_of_byte_def byte_of_char_def of_nat_of_char)
qed

lemma of_bytes_to_bytes [simp]: "of_bytes (to_bytes s) = s"
  by (simp add: of_bytes_def to_bytes_def comp_def)

lemma length_to_bytes [simp]: "length (to_bytes s) = length s"
  by (simp add: to_bytes_def)

lemma length_of_bytes [simp]: "length (of_bytes bs) = length bs"
  by (simp add: of_bytes_def)

lemma to_bytes_append [simp]: "to_bytes (s @ t) = to_bytes s @ to_bytes t"
  by (simp add: to_bytes_def)

lemma byte_of_char_eq_0 [simp]: "byte_of_char c = 0 \<longleftrightarrow> c = CHR 0x00"
proof
  assume "byte_of_char c = 0"
  then have "char_of_byte (byte_of_char c) = char_of_byte 0" by (rule arg_cong)
  then show "c = CHR 0x00" by (simp only: char_of_byte_of_char) (simp add: char_of_byte_def char_of_def)
qed (simp add: byte_of_char_def)

text \<open>A name without NUL characters, stored with at least one NUL behind it, reads back.\<close>

lemma c_str_to_bytes:
  assumes "CHR 0x00 \<notin> set s"
  shows "c_str (to_bytes s @ 0 # bs) = s"
proof -
  have "takeWhile (\<lambda>b. b \<noteq> 0) (to_bytes s @ 0 # bs) = to_bytes s"
    using assms by (subst takeWhile_append2) (auto simp: to_bytes_def)
  then show ?thesis by (simp add: c_str_def)
qed

section \<open>Little-endian integers of packed structs\<close>

fun le_enc :: "nat \<Rightarrow> nat \<Rightarrow> bytes" where
  "le_enc 0 n = []"
| "le_enc (Suc k) n = word_of_nat n # le_enc k (n div 256)"

fun le_dec :: "bytes \<Rightarrow> nat" where
  "le_dec [] = 0"
| "le_dec (b # bs) = unat b + 256 * le_dec bs"

lemma byte_lt: "unat (b :: byte) < 256"
  using unsigned_less[of b] by simp

lemma length_le_enc [simp, buffer_simps]: "length (le_enc k n) = k"
  by (induction k arbitrary: n) auto

lemma le_dec_le_enc: "le_dec (le_enc k n) = n mod 256 ^ k"
proof (induction k arbitrary: n)
  case (Suc k)
  have "le_dec (le_enc (Suc k) n) = n mod 256 + 256 * (n div 256 mod 256 ^ k)"
    using Suc.IH by (simp add: unat_of_nat)
  also have "\<dots> = n mod (256 * 256 ^ k)" by (simp add: mod_mult2_eq)
  finally show ?case by simp
qed simp

lemma le_enc_le_dec: "le_enc (length bs) (le_dec bs) = bs"
proof (induction bs)
  case (Cons b bs)
  have "unat b < 256" by (rule byte_lt)
  then have "(unat b + 256 * le_dec bs) div 256 = le_dec bs" by simp
  moreover have "(word_of_nat (unat b + 256 * le_dec bs) :: byte) = b"
    by (simp del: of_nat_mult add: word_of_nat_eq_0_iff)
  ultimately show ?case using Cons by simp
qed simp

lemma le_dec_bound: "le_dec bs < 256 ^ length bs"
proof (induction bs)
  case (Cons b bs)
  have "unat b < 256" by (rule byte_lt)
  with Cons show ?case by simp
qed simp

lemma le_dec_le_enc_word [layout_simps]:
  "256 ^ k = (2 ^ LENGTH('a) :: nat) \<Longrightarrow> word_of_nat (le_dec (le_enc k (unat (w :: 'a::len word)))) = w"
  by (simp add: le_dec_le_enc unsigned_less)

lemma le_dec_le_enc_small [layout_simps]: "n < 256 ^ k \<Longrightarrow> le_dec (le_enc k n) = n"
  by (simp add: le_dec_le_enc)

end
