(* ===== verification/Shm.thy ===== *)
theory Shm
  imports Prelude "HOL-Library.Multiset" "HOL-Library.Sublist"
begin

text \<open>
  \<^verbatim>\<open>src/utils/shm.h\<close> and \<^verbatim>\<open>src/utils/shm.cpp\<close>: the message queue in a shared memory
  segment through which all servers talk.  A segment is modelled byte by byte (packed
  message headers, padding to 8, \<^verbatim>\<open>memmove\<close> on removal); the theorems show that the bytes
  implement a bounded list of messages.  Every operation below is the body of the
  source's critical section, so it is one atomic step of the concurrent system.
\<close>

section \<open>Messages\<close>

definition max_id_length :: nat where
  "max_id_length = 32"

definition msg_any :: u32 where "msg_any = 0"
definition msg_new :: u32 where "msg_new = 1"
definition msg_reply :: u32 where "msg_reply = 2"

record message =
  msg_id :: u64
  sent_at :: u64
  msg_size :: u32
  msg_type :: u32
  msg_nr :: u64
  sender :: bytes
  msg_data :: bytes

text \<open>\<^verbatim>\<open>sizeof(message)\<close> of the packed struct.\<close>

definition sizeof_message :: nat where
  "sizeof_message = 64"

definition enc_message :: "message \<Rightarrow> bytes" where
  "enc_message m = le_enc 8 (unat (msg_id m)) @ le_enc 8 (unat (sent_at m)) @ le_enc 4 (unat (msg_size m))
     @ le_enc 4 (unat (msg_type m)) @ le_enc 8 (unat (msg_nr m)) @ sender m @ msg_data m"

definition dec_message :: "bytes \<Rightarrow> message" where
  "dec_message bs = \<lparr> msg_id = word_of_nat (le_dec (slice_at 0 8 bs)),
     sent_at = word_of_nat (le_dec (slice_at 8 8 bs)),
     msg_size = word_of_nat (le_dec (slice_at 16 4 bs)),
     msg_type = word_of_nat (le_dec (slice_at 20 4 bs)),
     msg_nr = word_of_nat (le_dec (slice_at 24 8 bs)),
     sender = slice_at 32 32 bs,
     msg_data = drop 64 bs \<rparr>"

text \<open>\<open>allocate_shm_message\<close>: zeroed by \<^verbatim>\<open>calloc\<close>, so the type is \<open>msg_any\<close>.\<close>

definition allocate_shm_message :: "nat \<Rightarrow> message" where
  "allocate_shm_message sz = \<lparr> msg_id = 0, sent_at = 0, msg_size = word_of_nat sz, msg_type = 0,
     msg_nr = 0, sender = replicate max_id_length 0, msg_data = replicate sz 0 \<rparr>"

definition PAD8 :: "nat \<Rightarrow> nat" where
  "PAD8 x = (if x AND 7 \<noteq> 0 then x + 8 - (x AND 7) else x)"

section \<open>Segments\<close>

record segment =
  total_size :: nat
  filled :: nat
  most_recent_msg_nr :: u64
  seg_data :: bytes

text \<open>\<open>begin\<close>: what it makes of a segment of that name left by an earlier run, if any.\<close>

definition begin_segment :: "segment option \<Rightarrow> nat \<Rightarrow> segment" where
  "begin_segment existing sz =
     (case existing of
        None \<Rightarrow> \<lparr> total_size = sz, filled = 0, most_recent_msg_nr = 0, seg_data = replicate sz 0 \<rparr>
      | Some s \<Rightarrow> s\<lparr> total_size := sz, filled := 0,
          seg_data := (if length (seg_data s) \<noteq> sz
                       then take sz (seg_data s) @ replicate (sz - length (seg_data s)) 0
                       else seg_data s) \<rparr>)"

section \<open>send\_message\<close>

text \<open>Before the loop: the sender stamps the message under the lock of the remote segment.\<close>

definition send_stamp :: "string \<Rightarrow> u64 \<Rightarrow> message \<Rightarrow> segment \<Rightarrow> message \<times> segment" where
  "send_stamp local_identifier now m s =
     (let m = m\<lparr> sent_at := now \<rparr>;
          nr = most_recent_msg_nr s + 1;
          (m, s) = (if msg_type m \<noteq> msg_reply
                    then (m\<lparr> msg_nr := nr \<rparr>, s\<lparr> most_recent_msg_nr := nr \<rparr>) else (m, s))
      in (m\<lparr> sender := to_bytes local_identifier @ replicate (max_id_length - length local_identifier) 0 \<rparr>, s))"

text \<open>One turn of the loop: \<open>None\<close> when the message does not fit.\<close>

definition send_put :: "message \<Rightarrow> segment \<Rightarrow> segment option res" where
  "send_put m s =
     (let total_msg_length = sizeof_message + unat (msg_size m);
          padded_msg_length = PAD8 total_msg_length
      in if filled s + padded_msg_length \<le> total_size s then
           res_bind (load_n (enc_message m) 0 total_msg_length) (\<lambda>src.
           res_bind (store (filled s) src (seg_data s)) (\<lambda>d.
           Inr (Some (s\<lparr> seg_data := d, filled := filled s + padded_msg_length \<rparr>))))
         else Inr None)"

text \<open>
  What a call of \<^verbatim>\<open>pthread_cond_(timed)wait\<close> returns: woken, with the segment as the other
  processes left it, timed out, or another error.  A list of them drives each waiting loop;
  \<open>Blocked\<close> is the value of a loop whose list has run out while it still waits.
\<close>

datatype wakeup = Woken segment | Timed_out | Wait_error

fun send_loop :: "message \<Rightarrow> bool \<Rightarrow> segment \<Rightarrow> wakeup list \<Rightarrow> (bool \<times> segment) res" where
  "send_loop m blocking s ws =
     res_bind (send_put m s) (\<lambda>r. case r of
         Some s' \<Rightarrow> Inr (True, s')
       | None \<Rightarrow> if \<not> blocking then Inr (False, s)
           else (case ws of
               [] \<Rightarrow> Inl Blocked
             | Woken s' # ws' \<Rightarrow> send_loop m blocking s' ws'
             | Timed_out # ws' \<Rightarrow> Inr (False, s)
             | Wait_error # ws' \<Rightarrow> Inr (False, s)))"

declare send_loop.simps [simp del]

text \<open>The call on one mapped segment: whether the message was placed, the stamped message
  (the caller's buffer) and the segment.\<close>

definition segment_send ::
  "string \<Rightarrow> u64 \<Rightarrow> message \<Rightarrow> bool \<Rightarrow> segment \<Rightarrow> wakeup list \<Rightarrow> (bool \<times> message \<times> segment) res" where
  "segment_send local_identifier now m blocking s ws =
     (if msg_size m = 0 then Inl Assert_failed
      else (case send_stamp local_identifier now m s of (m, s) \<Rightarrow>
        res_bind (send_loop m blocking s ws) (\<lambda>(ok, s'). Inr (ok, m, s'))))"

section \<open>wait\_for\_message\<close>

definition wanted :: "u32 \<Rightarrow> u64 option \<Rightarrow> message \<Rightarrow> bool" where
  "wanted search_type nr m =
     ((msg_type m = search_type \<or> search_type = msg_any)
      \<and> (case nr of None \<Rightarrow> True | Some n \<Rightarrow> n = msg_nr m))"

lemma PAD8_mod: "PAD8 x = (if x mod 8 \<noteq> 0 then x + 8 - x mod 8 else x)"
  using take_bit_eq_mask[of 3 x] by (simp add: PAD8_def take_bit_eq_mod mask_eq_exp_minus_1)

lemma PAD8_bounds: "x \<le> PAD8 x" "PAD8 x < x + 8"
proof -
  have "x mod 8 < 8" by simp
  then show "x \<le> PAD8 x" "PAD8 x < x + 8" by (auto simp: PAD8_mod)
qed

lemma PAD8_dvd: "8 dvd PAD8 x"
  unfolding PAD8_mod by presburger

text \<open>The inner loop: position and padded length of the first wanted message before \<open>fin\<close>.\<close>

function scan :: "bytes \<Rightarrow> nat \<Rightarrow> nat \<Rightarrow> u32 \<Rightarrow> u64 option \<Rightarrow> (nat \<times> nat) option res" where
  "scan d cur fin search_type nr =
     (if cur + sizeof_message \<le> fin then
        (let m = dec_message (drop cur d);
             total_length = PAD8 (sizeof_message + unat (msg_size m))
         in if msg_size m = 0 then Inl Assert_failed
            else if wanted search_type nr m then Inr (Some (cur, total_length))
            else if \<not> 8 dvd (cur + total_length) then Inl Assert_failed
            else scan d (cur + total_length) fin search_type nr)
      else Inr None)"
  by pat_completeness auto
termination
proof (relation "measure (\<lambda>(d, cur, fin, t, nr). fin - cur)")
  fix d cur fin and search_type :: u32 and nr :: "u64 option" and m total_length
  assume a: "cur + sizeof_message \<le> fin" "total_length = PAD8 (sizeof_message + unat (msg_size (m :: message)))"
  then have "64 \<le> total_length" using PAD8_bounds(1)[of "64 + unat (msg_size m)"] by (simp add: sizeof_message_def)
  with a show "((d, cur + total_length, fin, search_type, nr), d, cur, fin, search_type, nr)
      \<in> measure (\<lambda>(d, cur, fin, t, nr). fin - cur)"
    by (simp add: sizeof_message_def)
qed simp

declare scan.simps [simp del]

text \<open>One pass over the segment under the lock: the copy handed out and what remains.\<close>

definition take_message :: "u32 \<Rightarrow> u64 option \<Rightarrow> segment \<Rightarrow> (message \<times> segment) option res" where
  "take_message search_type nr s =
     (let fin = filled s in
      res_bind (scan (seg_data s) 0 fin search_type nr) (\<lambda>r. case r of
          None \<Rightarrow> Inr None
        | Some (cur, total_length) \<Rightarrow>
            res_bind (load_n (seg_data s) cur total_length) (\<lambda>copy.
            res_bind (assert_that (total_length \<le> fin - cur)) (\<lambda>_.
            res_bind (assert_that (8 dvd cur \<and> 8 dvd total_length)) (\<lambda>_.
            let left = fin - cur - total_length;
                d = put_at cur (slice_at (cur + total_length) left (seg_data s)) (seg_data s)
            in Inr (Some (dec_message copy, s\<lparr> seg_data := d, filled := filled s - total_length \<rparr>)))))))"

text \<open>
  The outer loop.  The last component of the result says whether the mutex is still held on
  return: the source unlocks it on success and on a timeout, not on another error.
\<close>

fun wait_for_message ::
  "u32 \<Rightarrow> u64 option \<Rightarrow> segment \<Rightarrow> wakeup list \<Rightarrow> (message option \<times> segment \<times> bool) res" where
  "wait_for_message search_type nr s ws =
     res_bind (take_message search_type nr s) (\<lambda>r. case r of
         Some (m, s') \<Rightarrow> Inr (Some m, s', False)
       | None \<Rightarrow> (case ws of
             [] \<Rightarrow> Inl Blocked
           | Woken s' # ws' \<Rightarrow> wait_for_message search_type nr s' ws'
           | Timed_out # ws' \<Rightarrow> Inr (None, s, False)
           | Wait_error # ws' \<Rightarrow> Inr (None, s, True)))"

declare wait_for_message.simps [simp del]

text \<open>The absolute deadline of a wait of \<open>timeout\<close> ms from \<open>(tv_sec, tv_usec)\<close>.\<close>

function normalise_ts :: "nat \<Rightarrow> nat \<Rightarrow> nat \<times> nat" where
  "normalise_ts sec nsec =
     (if 1000000000 \<le> nsec then normalise_ts (sec + 1) (nsec - 1000000000) else (sec, nsec))"
  by pat_completeness auto
termination
  by (relation "measure snd") auto

declare normalise_ts.simps [simp del]

definition wait_deadline :: "nat \<Rightarrow> nat \<Rightarrow> nat \<Rightarrow> nat \<times> nat" where
  "wait_deadline tv_sec tv_usec timeout =
     normalise_ts (tv_sec + timeout div 1000) (tv_usec * 1000 + (timeout mod 1000) * 1000000)"

section \<open>Layout lemmas\<close>

lemma length_enc_message: "length (enc_message m) = 32 + length (sender m) + length (msg_data m)"
  by (simp add: enc_message_def)

lemma dec_enc_message:
  assumes "length (sender m) = 32"
  shows "dec_message (enc_message m @ extra) = m\<lparr> msg_data := msg_data m @ extra \<rparr>"
proof -
  have "dec_message (enc_message m @ extra) = \<lparr> msg_id = msg_id m, sent_at = sent_at m,
      msg_size = msg_size m, msg_type = msg_type m, msg_nr = msg_nr m, sender = sender m,
      msg_data = msg_data m @ extra \<rparr>"
    using assms unfolding dec_message_def enc_message_def
    by (simp add: slice_at_def layout_simps)
  then show ?thesis by simp
qed

text \<open>
  A well-formed message: the payload has the length the header announces, which is not 0.
  \<open>padded m c\<close>: the bytes \<open>c\<close> are message \<open>m\<close> followed by its padding.
\<close>

definition wf_message :: "message \<Rightarrow> bool" where
  "wf_message m \<longleftrightarrow> msg_size m \<noteq> 0 \<and> length (msg_data m) = unat (msg_size m) \<and> length (sender m) = 32"

definition padded_length :: "message \<Rightarrow> nat" where
  "padded_length m = PAD8 (sizeof_message + unat (msg_size m))"

definition padded :: "message \<Rightarrow> bytes \<Rightarrow> bool" where
  "padded m c \<longleftrightarrow> length c = padded_length m \<and> take (sizeof_message + unat (msg_size m)) c = enc_message m"

text \<open>The abstraction: the segment's bytes are a row of padded messages.\<close>

definition holds :: "segment \<Rightarrow> message list \<Rightarrow> bool" where
  "holds s ms \<longleftrightarrow> (\<exists>chunks rest. seg_data s = concat chunks @ rest \<and> filled s = length (concat chunks)
     \<and> list_all2 padded ms chunks \<and> list_all wf_message ms \<and> length (seg_data s) = total_size s)"

lemma padded_length_dvd: "8 dvd padded_length m"
  by (simp add: padded_length_def PAD8_dvd)

lemma padded_length_ge: "sizeof_message + unat (msg_size m) \<le> padded_length m"
  by (simp add: padded_length_def PAD8_bounds)

lemma length_enc_wf: "wf_message m \<Longrightarrow> length (enc_message m) = sizeof_message + unat (msg_size m)"
  by (simp add: wf_message_def length_enc_message sizeof_message_def)

lemma dec_padded:
  assumes "wf_message m" "padded m c"
  shows "dec_message (c @ r) = m\<lparr> msg_data := msg_data m @ drop (sizeof_message + unat (msg_size m)) c @ r \<rparr>"
proof -
  have "c @ r = enc_message m @ drop (sizeof_message + unat (msg_size m)) c @ r"
    using assms by (metis append.assoc append_take_drop_id padded_def)
  then show ?thesis using assms by (metis dec_enc_message wf_message_def)
qed

lemma wanted_data [simp]: "wanted t nr (m\<lparr> msg_data := d \<rparr>) = wanted t nr m"
  by (simp add: wanted_def cong: option.case_cong)

lemma padded_nonempty: "padded m c \<Longrightarrow> 64 \<le> length c"
  using padded_length_ge[of m] by (simp add: padded_def sizeof_message_def)

lemma padded_exists:
  assumes "wf_message m" "length c = padded_length m"
  shows "padded m (enc_message m @ drop (length (enc_message m)) c)"
  using assms padded_length_ge[of m] by (simp add: padded_def length_enc_wf)

section \<open>The scan finds the first wanted message\<close>

lemma concat_lengths:
  "list_all2 padded ms chunks \<Longrightarrow> length (concat chunks) = sum_list (map padded_length ms)"
  by (induction rule: list_all2_induct) (auto simp: padded_def)

lemma scan_chunks:
  assumes "list_all2 padded ms chunks" "list_all wf_message ms" "8 dvd length pre"
  shows "scan (pre @ concat chunks @ rest) (length pre) (length pre + length (concat chunks)) t nr =
    Inr (case List.extract (wanted t nr) ms of
           None \<Rightarrow> None
         | Some (ys, m, zs) \<Rightarrow> Some (length pre + sum_list (map padded_length ys), padded_length m))"
  using assms
proof (induction ms chunks arbitrary: pre rule: list_all2_induct)
  case Nil
  then show ?case by (simp add: scan.simps sizeof_message_def extract_Nil_code)
next
  case (Cons m ms c chunks)
  let ?d = "pre @ concat (c # chunks) @ rest"
  have wf: "wf_message m" using Cons by simp
  have "dec_message (drop (length pre) ?d)
      = m\<lparr> msg_data := msg_data m @ drop (sizeof_message + unat (msg_size m)) c @ (concat chunks @ rest) \<rparr>"
    using dec_padded[OF wf \<open>padded m c\<close>, of "concat chunks @ rest"] by simp
  then have hd: "msg_size (dec_message (drop (length pre) ?d)) = msg_size m"
    "wanted t nr (dec_message (drop (length pre) ?d)) = wanted t nr m" by simp_all
  have len: "length c = padded_length m" using \<open>padded m c\<close> by (simp add: padded_def)
  have nz: "msg_size m \<noteq> 0" using wf by (simp add: wf_message_def)
  have dv: "8 dvd length (pre @ c)" using Cons.prems padded_length_dvd len by simp
  have IH: "scan ?d (length pre + length c) (length pre + (length c + length (concat chunks))) t nr =
      Inr (case List.extract (wanted t nr) ms of None \<Rightarrow> None
         | Some (ys, m', zs) \<Rightarrow> Some (length pre + length c + sum_list (map padded_length ys), padded_length m'))"
    using Cons.IH[of "pre @ c"] Cons.prems dv by (auto simp: add.assoc split: option.splits)
  have ge: "sizeof_message \<le> length c"
    using padded_nonempty[OF \<open>padded m c\<close>] by (simp add: sizeof_message_def)
  have pl: "PAD8 (sizeof_message + unat (msg_size m)) = length c"
    by (simp only: len padded_length_def)
  have "scan ?d (length pre) (length pre + length (concat (c # chunks))) t nr
      = (if wanted t nr m then Inr (Some (length pre, length c))
         else scan ?d (length pre + length c) (length pre + (length c + length (concat chunks))) t nr)"
    using ge dv nz by (subst scan.simps) (simp only: Let_def hd pl, simp)
  also have "\<dots> = Inr (case List.extract (wanted t nr) (m # ms) of None \<Rightarrow> None
         | Some (ys, m', zs) \<Rightarrow> Some (length pre + sum_list (map padded_length ys), padded_length m'))"
    unfolding IH by (auto simp: extract_Cons_code len split: option.splits)
  finally show ?case .
qed


section \<open>The segment implements a queue of messages\<close>

text \<open>What \<open>take_message\<close> hands out: the message with the padding behind its payload.\<close>

definition handed_out :: "message \<Rightarrow> message \<Rightarrow> bool" where
  "handed_out m m' \<longleftrightarrow> (\<exists>pad. m' = m\<lparr> msg_data := msg_data m @ pad \<rparr>)"

lemma handed_out_fields:
  assumes "handed_out m m'"
  shows "msg_id m' = msg_id m" "sent_at m' = sent_at m" "msg_size m' = msg_size m"
    "msg_type m' = msg_type m" "msg_nr m' = msg_nr m" "sender m' = sender m"
  using assms by (auto simp: handed_out_def)

lemma handed_out_payload:
  assumes "handed_out m m'" "wf_message m"
  shows "take (unat (msg_size m')) (msg_data m') = msg_data m"
  using assms by (auto simp: handed_out_def wf_message_def)

lemma take_message_None:
  assumes "holds s ms" "List.extract (wanted t nr) ms = None"
  shows "take_message t nr s = Inr None"
proof -
  obtain chunks rest where "seg_data s = concat chunks @ rest" "filled s = length (concat chunks)"
    "list_all2 padded ms chunks" "list_all wf_message ms"
    using assms(1) by (auto simp: holds_def)
  then show ?thesis
    using scan_chunks[of ms chunks "[]" rest t nr] assms(2) by (simp add: take_message_def)
qed

lemma take_message_Some:
  assumes "holds s ms" "List.extract (wanted t nr) ms = Some (ys, m, zs)"
  shows "\<exists>m' s'. take_message t nr s = Inr (Some (m', s')) \<and> handed_out m m' \<and> holds s' (ys @ zs)
    \<and> total_size s' = total_size s \<and> most_recent_msg_nr s' = most_recent_msg_nr s"
proof -
  obtain chunks rest where d: "seg_data s = concat chunks @ rest" and f: "filled s = length (concat chunks)"
    and p: "list_all2 padded ms chunks" and wf: "list_all wf_message ms"
    and tot: "length (seg_data s) = total_size s"
    using assms(1) by (auto simp: holds_def)
  have ms: "ms = ys @ m # zs" using assms(2) by (simp add: extract_Some_iff)
  obtain cs c ds where ch: "chunks = cs @ c # ds" and pys: "list_all2 padded ys cs"
    and pm: "padded m c" and pzs: "list_all2 padded zs ds"
    using p ms by (auto simp: list_all2_append1 list_all2_Cons1)
  let ?cur = "length (concat cs)"
  have len: "length c = padded_length m" using pm by (simp add: padded_def)
  have sc: "scan (seg_data s) 0 (filled s) t nr = Inr (Some (?cur, length c))"
    using scan_chunks[OF p wf, of "[]" rest t nr] assms(2) len concat_lengths[OF pys] d f by simp
  have dv: "8 dvd ?cur" unfolding concat_lengths[OF pys]
    by (induction ys) (auto simp: padded_length_dvd)
  have wm: "wf_message m" and wr: "list_all wf_message (ys @ zs)" using wf ms by simp_all
  let ?s' = "s\<lparr> seg_data := put_at ?cur (concat ds) (seg_data s), filled := filled s - length c \<rparr>"
  let ?m' = "m\<lparr> msg_data := msg_data m @ drop (sizeof_message + unat (msg_size m)) c \<rparr>"
  have "take_message t nr s = Inr (Some (?m', ?s'))"
    using sc dv len padded_length_dvd[of m] d f ch dec_padded[OF wm pm, of "[]"]
    by (simp add: take_message_def slice_at_def)
  moreover have "holds ?s' (ys @ zs)"
    unfolding holds_def using d f ch pys pzs wr tot
    by (intro exI[of _ "cs @ ds"] exI[of _ "drop (length (concat ds)) (c @ concat ds @ rest)"])
      (auto simp: put_at_def list_all2_appendI)
  ultimately show ?thesis by (auto simp: handed_out_def)
qed

lemma send_put_holds:
  assumes "holds s ms" "wf_message m"
  shows "if filled s + padded_length m \<le> total_size s
         then \<exists>s'. send_put m s = Inr (Some s') \<and> holds s' (ms @ [m]) \<and> total_size s' = total_size s
                \<and> most_recent_msg_nr s' = most_recent_msg_nr s
         else send_put m s = Inr None"
proof (cases "filled s + padded_length m \<le> total_size s")
  case True
  obtain chunks rest where d: "seg_data s = concat chunks @ rest" and f: "filled s = length (concat chunks)"
    and p: "list_all2 padded ms chunks" and wf: "list_all wf_message ms"
    and tot: "length (seg_data s) = total_size s"
    using assms(1) by (auto simp: holds_def)
  let ?c = "take (padded_length m) rest"
  let ?c' = "enc_message m @ drop (length (enc_message m)) ?c"
  have le: "length (enc_message m) = sizeof_message + unat (msg_size m)" using assms(2) by (rule length_enc_wf)
  have room: "padded_length m \<le> length rest" using True d f tot by simp
  then have pm: "padded m ?c'" using padded_exists[OF assms(2), of ?c] by simp
  have ge: "length (enc_message m) \<le> padded_length m" unfolding le by (rule padded_length_ge)
  let ?s' = "s\<lparr> seg_data := put_at (filled s) (enc_message m) (seg_data s), filled := filled s + padded_length m \<rparr>"
  have "send_put m s = Inr (Some ?s')"
    using True ge room d f tot le padded_length_def[of m] by (simp add: send_put_def)
  moreover have "drop (length (enc_message m)) rest
      = drop (length (enc_message m)) ?c @ drop (padded_length m) rest"
    using ge by (metis append_take_drop_id drop_append drop_take le_add_diff_inverse drop_drop add.commute)
  then have "holds ?s' (ms @ [m])"
    unfolding holds_def using d f p wf tot pm assms(2) room ge
    by (intro exI[of _ "chunks @ [?c']"] exI[of _ "drop (padded_length m) rest"])
      (auto simp: put_at_def list_all2_appendI)
  ultimately show ?thesis using True by auto
next
  case False
  then show ?thesis by (simp add: send_put_def padded_length_def)
qed


section \<open>The abstraction as a function\<close>

function parse :: "bytes \<Rightarrow> nat \<Rightarrow> nat \<Rightarrow> message list" where
  "parse d cur fin =
     (if cur + sizeof_message \<le> fin then
        (let m = dec_message (drop cur d)
         in m\<lparr> msg_data := take (unat (msg_size m)) (msg_data m) \<rparr>
            # parse d (cur + padded_length m) fin)
      else [])"
  by pat_completeness auto
termination
proof (relation "measure (\<lambda>(d, cur, fin). fin - cur)")
  fix d cur fin and m :: message
  assume "cur + sizeof_message \<le> fin"
  then show "((d, cur + padded_length m, fin), d, cur, fin) \<in> measure (\<lambda>(d, cur, fin). fin - cur)"
    using padded_length_ge[of m] by (simp add: sizeof_message_def)
qed simp

declare parse.simps [simp del]

definition contents :: "segment \<Rightarrow> message list" where
  "contents s = parse (seg_data s) 0 (filled s)"

definition well_formed :: "segment \<Rightarrow> bool" where
  "well_formed s \<longleftrightarrow> holds s (contents s)"

lemma parse_chunks:
  assumes "list_all2 padded ms chunks" "list_all wf_message ms"
  shows "parse (pre @ concat chunks @ rest) (length pre) (length pre + length (concat chunks)) = ms"
  using assms
proof (induction ms chunks arbitrary: pre rule: list_all2_induct)
  case Nil
  then show ?case by (simp add: parse.simps sizeof_message_def)
next
  case (Cons m ms c chunks)
  let ?d = "pre @ concat (c # chunks) @ rest"
  have wf: "wf_message m" using Cons by simp
  then have "length (msg_data m) = unat (msg_size m)"
    by (simp add: wf_message_def)
  then have "(let m' = dec_message (drop (length pre) ?d)
      in m'\<lparr> msg_data := take (unat (msg_size m')) (msg_data m') \<rparr>) = m"
    using dec_padded[OF wf \<open>padded m c\<close>, of "concat chunks @ rest"] by simp
  moreover have "padded_length (dec_message (drop (length pre) ?d)) = length c"
    using dec_padded[OF wf \<open>padded m c\<close>, of "concat chunks @ rest"] \<open>padded m c\<close>
    by (simp add: padded_length_def padded_def)
  moreover have "parse ?d (length pre + length c) (length pre + (length c + length (concat chunks))) = ms"
    using Cons.IH[of "pre @ c"] Cons.prems by (simp add: add.assoc)
  moreover have "sizeof_message \<le> length c"
    using padded_nonempty[OF \<open>padded m c\<close>] by (simp add: sizeof_message_def)
  ultimately show ?case by (subst parse.simps) (simp add: Let_def)
qed

lemma holds_contents: "holds s ms \<Longrightarrow> contents s = ms"
  using parse_chunks[of ms _ "[]"] by (auto simp: holds_def contents_def)

lemma holds_well_formed: "holds s ms \<longleftrightarrow> well_formed s \<and> contents s = ms"
  by (auto simp: well_formed_def dest: holds_contents)

lemma well_formed_messages: "well_formed s \<Longrightarrow> m \<in> set (contents s) \<Longrightarrow> wf_message m"
  by (auto simp: well_formed_def holds_def list_all_iff)

lemma begin_segment_empty:
  "well_formed (begin_segment old sz)" "contents (begin_segment old sz) = []"
proof -
  have "holds (begin_segment old sz) []"
    by (auto simp: holds_def begin_segment_def split: option.split)
  then show "well_formed (begin_segment old sz)" "contents (begin_segment old sz) = []"
    by (simp_all add: holds_well_formed)
qed


section \<open>What a send and a receive do to the queue\<close>

text \<open>A message as a caller fills it in, and the stamp \<open>send_stamp\<close> puts on it.\<close>

definition filled_in :: "message \<Rightarrow> bool" where
  "filled_in m \<longleftrightarrow> msg_size m \<noteq> 0 \<and> length (msg_data m) = unat (msg_size m)"

abbreviation stamped :: "string \<Rightarrow> u64 \<Rightarrow> message \<Rightarrow> segment \<Rightarrow> message" where
  "stamped lid now m s \<equiv> fst (send_stamp lid now m s)"

lemma send_stamp_fields:
  "msg_data (stamped lid now m s) = msg_data m"
  "msg_size (stamped lid now m s) = msg_size m"
  "msg_type (stamped lid now m s) = msg_type m"
  "msg_id (stamped lid now m s) = msg_id m"
  "sent_at (stamped lid now m s) = now"
  "msg_nr (stamped lid now m s) = (if msg_type m \<noteq> msg_reply then most_recent_msg_nr s + 1 else msg_nr m)"
  "sender (stamped lid now m s) = to_bytes lid @ replicate (max_id_length - length lid) 0"
  by (simp_all add: send_stamp_def Let_def)

lemma send_stamp_segment:
  "snd (send_stamp lid now m s)
     = s\<lparr> most_recent_msg_nr := (if msg_type m \<noteq> msg_reply then most_recent_msg_nr s + 1
                               else most_recent_msg_nr s) \<rparr>"
  by (simp add: send_stamp_def Let_def)

lemma wf_stamped:
  assumes "filled_in m" "length lid < max_id_length"
  shows "wf_message (stamped lid now m s)"
  using assms by (simp add: wf_message_def filled_in_def send_stamp_fields max_id_length_def)

lemma contents_counter [simp]: "contents (s\<lparr> most_recent_msg_nr := n \<rparr>) = contents s"
  by (simp add: contents_def)

lemma well_formed_counter [simp]: "well_formed (s\<lparr> most_recent_msg_nr := n \<rparr>) = well_formed s"
  by (simp add: well_formed_def holds_def)

lemma sender_name:
  assumes "length lid < max_id_length" "CHR 0x00 \<notin> set lid"
  shows "c_str (sender (stamped lid now m s)) = lid"
proof -
  obtain k where "max_id_length - length lid = Suc k" using assms(1) by (metis Suc_diff_Suc)
  then show ?thesis using c_str_to_bytes[OF assms(2)] by (simp add: send_stamp_fields)
qed

definition fits :: "message \<Rightarrow> segment \<Rightarrow> bool" where
  "fits m s \<longleftrightarrow> filled s + padded_length m \<le> total_size s"

lemma segment_send_step:
  assumes "well_formed s" "filled_in m" "length lid < max_id_length"
  shows "if fits m s
         then \<exists>s'. segment_send lid now m blocking s ws = Inr (True, stamped lid now m s, s') \<and> well_formed s'
                \<and> contents s' = contents s @ [stamped lid now m s] \<and> total_size s' = total_size s
         else \<not> blocking \<longrightarrow> segment_send lid now m blocking s ws
                = Inr (False, stamped lid now m s, snd (send_stamp lid now m s))"
proof -
  let ?m = "stamped lid now m s" and ?s = "snd (send_stamp lid now m s)"
  have "holds ?s (contents s)" using assms(1) by (simp add: send_stamp_segment holds_well_formed)
  from send_put_holds[OF this wf_stamped[OF assms(2,3), of now s]]
  show ?thesis using assms(2)
    by (auto simp: segment_send_def send_loop.simps fits_def filled_in_def holds_well_formed
        padded_length_def send_stamp_fields send_stamp_segment case_prod_beta split: if_splits)
qed


section \<open>The interface of a message queue\<close>

text \<open>\<open>trim\<close> cuts a received message to the size its header announces.\<close>

definition trim :: "message \<Rightarrow> message" where
  "trim m = m\<lparr> msg_data := take (unat (msg_size m)) (msg_data m) \<rparr>"

lemma trim_handed_out: "handed_out m m' \<Longrightarrow> wf_message m \<Longrightarrow> trim m' = m"
  using handed_out_payload[of m m'] by (auto simp: handed_out_def trim_def)

text \<open>
  A schedule of the processes that use one segment: senders (each with its identity and
  its clock) and the receiver.  \<open>drive\<close> runs it and collects the messages the queue has
  accepted and the ones it has delivered.
\<close>

datatype 'c op = Put 'c message | Get u32 "u64 option"

fun drive ::
  "('c \<Rightarrow> message \<Rightarrow> 'q \<Rightarrow> (bool \<times> message \<times> 'q) res) \<Rightarrow> (u32 \<Rightarrow> u64 option \<Rightarrow> 'q \<Rightarrow> (message \<times> 'q) option res)
    \<Rightarrow> 'c op list \<Rightarrow> 'q \<Rightarrow> (message list \<times> message list \<times> 'q) res" where
  "drive put get [] q = Inr ([], [], q)"
| "drive put get (Put c m # ops) q =
     res_bind (put c m q) (\<lambda>(ok, m', q').
     res_bind (drive put get ops q') (\<lambda>(acc, del, q''). Inr (if ok then m' # acc else acc, del, q'')))"
| "drive put get (Get t nr # ops) q =
     res_bind (get t nr q) (\<lambda>r. case r of
         None \<Rightarrow> drive put get ops q
       | Some (m, q') \<Rightarrow> res_bind (drive put get ops q') (\<lambda>(acc, del, q''). Inr (acc, trim m # del, q'')))"

definition op_ok :: "('c \<Rightarrow> bool) \<Rightarrow> 'c op \<Rightarrow> bool" where
  "op_ok caller_ok p \<longleftrightarrow> (case p of Put c m \<Rightarrow> caller_ok c \<and> filled_in m | Get t nr \<Rightarrow> True)"

locale message_queue =
  fixes queue :: "'q \<Rightarrow> message list" and invar :: "'q \<Rightarrow> bool" and caller_ok :: "'c \<Rightarrow> bool"
    and put :: "'c \<Rightarrow> message \<Rightarrow> 'q \<Rightarrow> (bool \<times> message \<times> 'q) res"
    and get :: "u32 \<Rightarrow> u64 option \<Rightarrow> 'q \<Rightarrow> (message \<times> 'q) option res"
  assumes put_law: "invar q \<Longrightarrow> caller_ok c \<Longrightarrow> filled_in m \<Longrightarrow>
      \<exists>ok m' q'. put c m q = Inr (ok, m', q') \<and> invar q' \<and> queue q' = queue q @ (if ok then [m'] else [])"
    and get_law: "invar q \<Longrightarrow> case List.extract (wanted t nr) (queue q) of
        None \<Rightarrow> get t nr q = Inr None
      | Some (ys, m, zs) \<Rightarrow> \<exists>m' q'. get t nr q = Inr (Some (m', q')) \<and> trim m' = m \<and> invar q' \<and> queue q' = ys @ zs"
begin

lemma drive_conserves:
  assumes "invar q" "list_all (op_ok caller_ok) ops"
  shows "\<exists>acc del q'. drive put get ops q = Inr (acc, del, q') \<and> invar q'
    \<and> mset (queue q) + mset acc = mset del + mset (queue q') \<and> subseq (queue q') (queue q @ acc)"
  using assms
proof (induction ops arbitrary: q)
  case Nil
  then show ?case by simp
next
  case (Cons p ops)
  show ?case
  proof (cases p)
    case (Put c m)
    then obtain ok m' q1 where 1: "put c m q = Inr (ok, m', q1)" "invar q1"
      "queue q1 = queue q @ (if ok then [m'] else [])"
      using put_law[of q c m] Cons.prems by (auto simp: op_ok_def)
    from Cons.IH[of q1] 1 Cons.prems obtain acc del q' where
      "drive put get ops q1 = Inr (acc, del, q')" "invar q'"
      "mset (queue q1) + mset acc = mset del + mset (queue q')" "subseq (queue q') (queue q1 @ acc)" by auto
    then show ?thesis using 1 Put by (auto split: if_splits)
  next
    case (Get t nr)
    show ?thesis
    proof (cases "List.extract (wanted t nr) (queue q)")
      case None
      then show ?thesis using get_law[OF Cons.prems(1), of t nr] Cons Get by simp
    next
      case (Some r)
      obtain ys m zs where r: "r = (ys, m, zs)" by (cases r)
      then obtain m' q1 where 1: "get t nr q = Inr (Some (m', q1))" "trim m' = m" "invar q1" "queue q1 = ys @ zs"
        using get_law[OF Cons.prems(1), of t nr] Some by auto
      have q: "queue q = ys @ m # zs" using Some r by (simp add: extract_Some_iff)
      from Cons.IH[of q1] 1 Cons.prems obtain acc del q' where
        2: "drive put get ops q1 = Inr (acc, del, q')" "invar q'"
        "mset (queue q1) + mset acc = mset del + mset (queue q')" "subseq (queue q') (queue q1 @ acc)" by auto
      have "subseq (queue q1 @ acc) (queue q @ acc)"
        using 1 q by (simp add: subseq_append' list_emb_Cons)
      then have "subseq (queue q') (queue q @ acc)" using 2(4) by (rule subseq_order.trans[rotated])
      then show ?thesis using 1 2 q Get by auto
    qed
  qed
qed

lemma drive_fifo:
  assumes "invar q" "list_all (op_ok caller_ok) ops" "\<forall>t nr. Get t nr \<in> set ops \<longrightarrow> t = msg_any \<and> nr = None"
  shows "\<exists>acc del q'. drive put get ops q = Inr (acc, del, q') \<and> queue q @ acc = del @ queue q'"
  using assms
proof (induction ops arbitrary: q)
  case Nil
  then show ?case by simp
next
  case (Cons p ops)
  show ?case
  proof (cases p)
    case (Put c m)
    then obtain ok m' q1 where 1: "put c m q = Inr (ok, m', q1)" "invar q1"
      "queue q1 = queue q @ (if ok then [m'] else [])"
      using put_law[of q c m] Cons.prems by (auto simp: op_ok_def)
    from Cons.IH[of q1] 1 Cons.prems obtain acc del q' where
      "drive put get ops q1 = Inr (acc, del, q')" "queue q1 @ acc = del @ queue q'" by auto
    then show ?thesis using 1 Put by (auto split: if_splits)
  next
    case (Get t nr)
    then have "t = msg_any" "nr = None" using Cons.prems by auto
    then have w: "wanted t nr = (\<lambda>_. True)" by (auto simp: wanted_def)
    note IH = Cons.IH and g = get_law[OF Cons.prems(1), of t nr, unfolded w]
    show ?thesis
    proof (cases "queue q")
      case Nil
      then have "get t nr q = Inr None" using g by (simp add: extract_Nil_code)
      then show ?thesis using IH[of q] Cons.prems Get by auto
    next
      case (Cons m zs)
      then obtain m' q1 where 1: "get t nr q = Inr (Some (m', q1))" "trim m' = m" "invar q1" "queue q1 = zs"
        using g by (auto simp: extract_Cons_code)
      with IH[of q1] Cons.prems show ?thesis using Cons Get by fastforce
    qed
  qed
qed

end

text \<open>The interface on the model's own segments; the caller is an identifier with a clock.\<close>

definition segment_put :: "string \<times> u64 \<Rightarrow> message \<Rightarrow> segment \<Rightarrow> (bool \<times> message \<times> segment) res" where
  "segment_put c m s = segment_send (fst c) (snd c) m False s []"

definition valid_caller :: "string \<times> u64 \<Rightarrow> bool" where
  "valid_caller c \<longleftrightarrow> length (fst c) < max_id_length"

interpretation seg: message_queue contents well_formed valid_caller segment_put take_message
proof
  fix s m and c :: "string \<times> u64"
  assume "well_formed s" "valid_caller c" "filled_in m"
  note this [unfolded valid_caller_def]
  from segment_send_step[OF this(1,3,2), of "snd c" False "[]"]
  show "\<exists>ok m' s'. segment_put c m s = Inr (ok, m', s') \<and> well_formed s' \<and> contents s' = contents s @ (if ok then [m'] else [])"
    using \<open>well_formed s\<close> by (cases "fits m s") (auto simp: segment_put_def send_stamp_segment)
next
  fix s t nr
  assume wf: "well_formed s"
  then have h: "holds s (contents s)" by (simp add: well_formed_def)
  show "case List.extract (wanted t nr) (contents s) of
        None \<Rightarrow> take_message t nr s = Inr None
      | Some (ys, m, zs) \<Rightarrow> \<exists>m' s'. take_message t nr s = Inr (Some (m', s')) \<and> trim m' = m \<and> well_formed s' \<and> contents s' = ys @ zs"
  proof (cases "List.extract (wanted t nr) (contents s)")
    case None
    then show ?thesis using take_message_None[OF h] by simp
  next
    case (Some r)
    obtain ys m zs where r: "r = (ys, m, zs)" by (cases r)
    then have "m \<in> set (contents s)" using Some by (simp add: extract_Some_iff)
    then have "wf_message m" using wf well_formed_messages by blast
    with take_message_Some[OF h, of t nr ys m zs] Some r show ?thesis
      by (fastforce simp: holds_well_formed dest: trim_handed_out)
  qed
qed


section \<open>Properties of the shared memory queue\<close>

text \<open>C1: For every interleaving of sends (from any processes) and receives (with any
  filter) on a freshly begun segment, no assertion fails and no access leaves the segment;
  every accepted message is delivered exactly once or still queued, and the queued ones
  are in the order in which they were accepted.\<close>

theorem shm_exactly_once:
  assumes "list_all (op_ok valid_caller) ops"
  shows "\<exists>acc del s. drive segment_put take_message ops (begin_segment old sz) = Inr (acc, del, s)
    \<and> mset acc = mset del + mset (contents s) \<and> subseq (contents s) acc \<and> well_formed s"
proof -
  note seg.drive_conserves[OF begin_segment_empty(1)[of old sz] assms]
  then show ?thesis by (auto simp: begin_segment_empty)
qed

definition hello :: message where
  "hello = (allocate_shm_message 5)\<lparr> msg_type := msg_new, msg_data := to_bytes ''hello'' \<rparr>"

lemma filled_in_hello: "filled_in hello"
  by (simp add: filled_in_def hello_def allocate_shm_message_def)

theorem shm_exactly_once_witness:
  "\<exists>acc del s. drive segment_put take_message
     [Put (''tap'', 7) hello, Put (''arp'', 8) hello, Get msg_reply None, Get msg_new None] (begin_segment None 4096)
     = Inr (acc, del, s) \<and> mset acc = mset del + mset (contents s) \<and> subseq (contents s) acc \<and> well_formed s"
  by (rule shm_exactly_once) (simp add: op_ok_def filled_in_hello valid_caller_def max_id_length_def)

text \<open>C2: A receiver that takes any message gets them in the order of acceptance: at every
  moment the accepted messages are the delivered ones followed by the queued ones.\<close>

theorem shm_fifo:
  assumes "list_all (op_ok valid_caller) ops"
    and "\<forall>t nr. Get t nr \<in> set ops \<longrightarrow> t = msg_any \<and> nr = None"
  shows "\<exists>acc del s. drive segment_put take_message ops (begin_segment old sz) = Inr (acc, del, s)
    \<and> acc = del @ contents s"
  using seg.drive_fifo[OF begin_segment_empty(1)[of old sz] assms] by (auto simp: begin_segment_empty)

theorem shm_fifo_witness:
  "\<exists>acc del s. drive segment_put take_message
     [Put (''tap'', 7) hello, Put (''arp'', 8) hello, Get msg_any None] (begin_segment None 4096)
     = Inr (acc, del, s) \<and> acc = del @ contents s"
  by (rule shm_fifo) (simp_all add: op_ok_def filled_in_hello valid_caller_def max_id_length_def)

lemma wanted_trim: "wanted t nr (trim m) = wanted t nr m"
  by (simp add: trim_def)

lemma take_message_outcome:
  assumes "well_formed s"
  obtains "take_message t nr s = Inr None" "\<forall>m \<in> set (contents s). \<not> wanted t nr m"
  | m s' where "take_message t nr s = Inr (Some (m, s'))" "wanted t nr m" "well_formed s'"
proof (cases "List.extract (wanted t nr) (contents s)")
  case None
  then have "take_message t nr s = Inr None" using seg.get_law[OF assms, of t nr] by simp
  moreover have "\<forall>m \<in> set (contents s). \<not> wanted t nr m" using None by (simp add: extract_None_iff)
  ultimately show ?thesis by (rule that(1))
next
  case (Some r)
  obtain ys m zs where r: "r = (ys, m, zs)" by (cases r)
  then have "wanted t nr m" using Some by (simp add: extract_Some_iff)
  then show ?thesis using that(2) seg.get_law[OF assms, of t nr] Some r wanted_trim[of t nr] by fastforce
qed

text \<open>C3: Waiting for a message, whatever the other processes do to the segment between the
  wakeups, never trips an assertion; it hands out a message the filter wants and then has
  released the lock, or returns nothing with nothing wanted in the queue; the lock can
  only be left held when the wait failed with an error other than a timeout.\<close>

theorem wait_for_message_safe:
  assumes "well_formed s" "\<forall>s'. Woken s' \<in> set ws \<longrightarrow> well_formed s'"
  shows "case wait_for_message t nr s ws of
      Inl h \<Rightarrow> h = Blocked
    | Inr (r, s', held) \<Rightarrow> well_formed s' \<and> (held \<longrightarrow> Wait_error \<in> set ws)
        \<and> (case r of Some m \<Rightarrow> wanted t nr m \<and> \<not> held | None \<Rightarrow> \<forall>m \<in> set (contents s'). \<not> wanted t nr m)"
  using assms
proof (induction ws arbitrary: s)
  case Nil
  from Nil.prems(1) show ?case
    by (rule take_message_outcome[of s t nr]) (simp_all add: wait_for_message.simps)
next
  case (Cons w ws)
  from Cons.prems(1) show ?case
  proof (rule take_message_outcome[of s t nr])
    assume "take_message t nr s = Inr None" "\<forall>m \<in> set (contents s). \<not> wanted t nr m"
    moreover have "w = Woken s' \<Longrightarrow> ?case" for s'
      using calculation Cons.IH[of s'] Cons.prems
      by (auto simp: wait_for_message.simps[of t nr s] split: sum.split option.split)
    ultimately show ?thesis using Cons.prems(1)
      by (cases w) (simp_all add: wait_for_message.simps[of t nr s])
  qed (simp add: wait_for_message.simps[of t nr s])
qed

theorem wait_for_message_safe_witness:
  "case wait_for_message msg_new None (begin_segment None 4096) [Woken (begin_segment None 128), Timed_out] of
      Inl h \<Rightarrow> h = Blocked
    | Inr (r, s', held) \<Rightarrow> well_formed s' \<and> (held \<longrightarrow> Wait_error \<in> set [Woken (begin_segment None 128), Timed_out])
        \<and> (case r of Some m \<Rightarrow> wanted msg_new None m \<and> \<not> held | None \<Rightarrow> \<forall>m \<in> set (contents s'). \<not> wanted msg_new None m)"
  by (rule wait_for_message_safe) (auto simp: begin_segment_empty)

text \<open>After a failed wait on an empty queue (an error other than a timeout) the call
  returns without unlocking the mutex of the segment.\<close>

theorem wait_error_keeps_lock:
  "wait_for_message t nr (begin_segment old sz) [Wait_error] = Inr (None, begin_segment old sz, True)"
proof -
  have "take_message t nr (begin_segment old sz) = Inr None"
    using seg.get_law[OF begin_segment_empty(1)[of old sz], of t nr] by (simp add: begin_segment_empty extract_Nil_code)
  then show ?thesis by (simp add: wait_for_message.simps)
qed

lemma normalise_ts_ok:
  "snd (normalise_ts sec nsec) < 1000000000 \<and>
   fst (normalise_ts sec nsec) * 1000000000 + snd (normalise_ts sec nsec) = sec * 1000000000 + nsec"
  by (induction sec nsec rule: normalise_ts.induct) (subst (1 2 3) normalise_ts.simps, auto simp: algebra_simps)

text \<open>The deadline handed to the timed wait is a normalised time and lies exactly
  \<open>timeout\<close> milliseconds after the time of day.\<close>

theorem wait_deadline_exact:
  "case wait_deadline tv_sec tv_usec timeout of (sec, nsec) \<Rightarrow>
     nsec < 1000000000 \<and>
     sec * 1000000000 + nsec = tv_sec * 1000000000 + tv_usec * 1000 + timeout * 1000000"
proof -
  have "(timeout div 1000) * 1000 * 1000000 + (timeout mod 1000) * 1000000 = timeout * 1000000"
    by (metis add_mult_distrib div_mult_mod_eq)
  then show ?thesis
    using normalise_ts_ok[of "tv_sec + timeout div 1000" "tv_usec * 1000 + (timeout mod 1000) * 1000000"]
    by (simp add: wait_deadline_def case_prod_beta algebra_simps)
qed

end
