(* ===== verification/Shm_Message.thy ===== *)
theory Shm_Message
  imports Shm
begin

text \<open>
  \<^verbatim>\<open>src/utils/shm_message.cpp\<close>: the envelopes in which a payload travels between the layers,
  upwards (with the packet it came in), upwards to a TCP application (with the session) and
  downwards.  Unwrapping yields pointers into the payload of the shared memory message; a
  pointer is modelled as the rest of the buffer from that position, so that a read past the
  announced length but inside the buffer gives the bytes that lie there, and a read outside
  the buffer is an error.
\<close>

section \<open>Envelopes upwards\<close>

definition magic_up :: nat where "magic_up = 0xdeadbeef"
definition magic_down :: nat where "magic_down = 0xbeefdead"

record up_view =
  up_full_len :: nat
  up_full :: bytes
  up_from_len :: nat
  up_from :: bytes
  up_to_len :: nat
  up_to :: bytes
  up_pl_len :: nat
  up_pl :: bytes

definition wrap_up :: "bytes \<Rightarrow> bytes \<Rightarrow> bytes \<Rightarrow> bytes \<Rightarrow> bytes" where
  "wrap_up full_pkt from_a to_a pl =
     le_enc 4 magic_up @ le_enc 8 (length full_pkt) @ le_enc 8 (length from_a) @ le_enc 8 (length to_a)
     @ le_enc 8 (length pl) @ from_a @ to_a @ pl @ full_pkt"

text \<open>A message around an encoded envelope: a reply keeps the number it answers.\<close>

definition envelope :: "bytes \<Rightarrow> u64 option \<Rightarrow> message" where
  "envelope d reply_to =
     (let msg = (allocate_shm_message (length d))\<lparr> msg_size := word_of_nat (length d) \<rparr>;
          msg = (case reply_to of
                   Some nr \<Rightarrow> msg\<lparr> msg_nr := nr, msg_type := msg_reply \<rparr>
                 | None \<Rightarrow> msg\<lparr> msg_type := msg_new \<rparr>)
      in msg\<lparr> msg_data := d \<rparr>)"

definition wrap_message_up :: "bytes \<Rightarrow> bytes \<Rightarrow> bytes \<Rightarrow> bytes \<Rightarrow> u64 option \<Rightarrow> message" where
  "wrap_message_up full_pkt from_a to_a pl reply_to = envelope (wrap_up full_pkt from_a to_a pl) reply_to"

definition unwrap_message_up :: "bytes \<Rightarrow> up_view res" where
  "unwrap_message_up d =
     res_bind (load_n d 0 4) (\<lambda>t.
     res_bind (assert_that (le_dec t = magic_up)) (\<lambda>_.
     res_bind (load_n d 0 36) (\<lambda>p.
     let from_len = le_dec (slice_at 12 8 p); to_len = le_dec (slice_at 20 8 p);
         pl_len = le_dec (slice_at 28 8 p); full_len = le_dec (slice_at 4 8 p);
         dat = drop 36 d
     in Inr \<lparr> up_full_len = full_len, up_full = drop (from_len + to_len + pl_len) dat,
          up_from_len = from_len, up_from = dat,
          up_to_len = to_len, up_to = drop from_len dat,
          up_pl_len = pl_len, up_pl = drop (from_len + to_len) dat \<rparr>)))"

section \<open>Envelopes to a TCP application\<close>

record tcp_view =
  tv_session_id :: u64
  tv_from_len :: nat
  tv_from :: bytes
  tv_from_port :: u16
  tv_to_len :: nat
  tv_to :: bytes
  tv_to_port :: u16
  tv_flags :: u32
  tv_pl_len :: nat
  tv_pl :: bytes

definition wrap_up_tcp :: "u64 \<Rightarrow> bytes \<Rightarrow> u16 \<Rightarrow> bytes \<Rightarrow> u16 \<Rightarrow> u32 \<Rightarrow> bytes \<Rightarrow> bytes" where
  "wrap_up_tcp session_id from_a from_port to_a to_port flags pl =
     le_enc 4 magic_up @ le_enc 8 (unat session_id) @ le_enc 8 (length from_a) @ le_enc 2 (unat from_port)
     @ le_enc 8 (length to_a) @ le_enc 2 (unat to_port) @ le_enc 4 (unat flags) @ le_enc 8 (length pl)
     @ from_a @ to_a @ pl"

text \<open>The caller sets the type of this message itself (or leaves it at \<open>msg_any\<close>).\<close>

definition wrap_message_up_tcp :: "u64 \<Rightarrow> bytes \<Rightarrow> u16 \<Rightarrow> bytes \<Rightarrow> u16 \<Rightarrow> u32 \<Rightarrow> bytes \<Rightarrow> message" where
  "wrap_message_up_tcp session_id from_a from_port to_a to_port flags pl =
     (let d = wrap_up_tcp session_id from_a from_port to_a to_port flags pl
      in (allocate_shm_message (length d))\<lparr> msg_data := d \<rparr>)"

definition unwrap_message_up_tcp :: "bytes \<Rightarrow> tcp_view res" where
  "unwrap_message_up_tcp d =
     res_bind (load_n d 0 4) (\<lambda>t.
     res_bind (assert_that (le_dec t = magic_up)) (\<lambda>_.
     res_bind (load_n d 0 44) (\<lambda>p.
     let from_len = le_dec (slice_at 12 8 p); to_len = le_dec (slice_at 22 8 p);
         dat = drop 44 d
     in Inr \<lparr> tv_session_id = word_of_nat (le_dec (slice_at 4 8 p)),
          tv_from_len = from_len, tv_from = dat,
          tv_from_port = word_of_nat (le_dec (slice_at 20 2 p)),
          tv_to_len = to_len, tv_to = drop from_len dat,
          tv_to_port = word_of_nat (le_dec (slice_at 30 2 p)),
          tv_flags = word_of_nat (le_dec (slice_at 32 4 p)),
          tv_pl_len = le_dec (slice_at 36 8 p), tv_pl = drop (from_len + to_len) dat \<rparr>)))"

section \<open>Envelopes downwards\<close>

record down_view =
  dn_from_len :: nat
  dn_from :: bytes
  dn_to_len :: nat
  dn_to :: bytes
  dn_pl_len :: nat
  dn_pl :: bytes

definition wrap_down :: "bytes \<Rightarrow> bytes \<Rightarrow> bytes \<Rightarrow> bytes" where
  "wrap_down from_a to_a pl =
     le_enc 4 magic_down @ le_enc 8 (length from_a) @ le_enc 8 (length to_a) @ le_enc 8 (length pl)
     @ from_a @ to_a @ pl"

definition wrap_message_down :: "bytes \<Rightarrow> bytes \<Rightarrow> bytes \<Rightarrow> u64 option \<Rightarrow> message" where
  "wrap_message_down from_a to_a pl reply_to = envelope (wrap_down from_a to_a pl) reply_to"

definition unwrap_message_down :: "bytes \<Rightarrow> down_view res" where
  "unwrap_message_down d =
     res_bind (load_n d 0 4) (\<lambda>t.
     res_bind (assert_that (le_dec t = magic_down)) (\<lambda>_.
     res_bind (load_n d 0 28) (\<lambda>p.
     let from_len = le_dec (slice_at 4 8 p); to_len = le_dec (slice_at 12 8 p);
         dat = drop 28 d
     in Inr \<lparr> dn_from_len = from_len, dn_from = dat,
          dn_to_len = to_len, dn_to = drop from_len dat,
          dn_pl_len = le_dec (slice_at 20 8 p), dn_pl = drop (from_len + to_len) dat \<rparr>)))"

section \<open>Lemmas\<close>

lemma slice_at_skip [layout_simps]:
  "length xs \<le> ofs \<Longrightarrow> slice_at ofs n (xs @ ys) = slice_at (ofs - length xs) n ys"
  by (rule slice_at_append_right)

lemma slice_at_hit [layout_simps]: "length xs = n \<Longrightarrow> slice_at 0 n (xs @ ys) = xs"
  by (simp add: slice_at_def)

lemma length_wrap [simp]:
  "length (wrap_up full_pkt from_a to_a pl) = 36 + length from_a + length to_a + length pl + length full_pkt"
  "length (wrap_up_tcp sid from_a fp to_a tp flags pl) = 44 + length from_a + length to_a + length pl"
  "length (wrap_down from_a to_a pl) = 28 + length from_a + length to_a + length pl"
  by (simp_all add: wrap_up_def wrap_up_tcp_def wrap_down_def)

lemma envelope_fields [simp]:
  "msg_data (envelope d r) = d"
  "msg_size (envelope d r) = word_of_nat (length d)"
  "msg_type (envelope d r) = (if r = None then msg_new else msg_reply)"
  "msg_nr (envelope d r) = (case r of None \<Rightarrow> 0 | Some nr \<Rightarrow> nr)"
  "msg_id (envelope d r) = 0"
  by (auto simp: envelope_def allocate_shm_message_def Let_def split: option.split)

lemma unat_of_nat_u32: "n < 2 ^ 32 \<Longrightarrow> unat (word_of_nat n :: u32) = n"
  by (simp add: unat_of_nat)

lemma filled_in_envelope:
  assumes "0 < length d" "length d < 2 ^ 32"
  shows "filled_in (envelope d r)"
proof -
  have "unat (word_of_nat (length d) :: u32) = length d" using assms(2) by (rule unat_of_nat_u32)
  then show ?thesis using assms(1) unfolding filled_in_def by (metis envelope_fields(1,2) neq0_conv unat_0)
qed

lemma filled_in_wrap_up_tcp:
  assumes "44 + length from_a + length to_a + length pl < 2 ^ 32"
  shows "filled_in (wrap_message_up_tcp sid from_a fp to_a tp flags pl)"
proof -
  let ?n = "length (wrap_up_tcp sid from_a fp to_a tp flags pl)"
  have "unat (word_of_nat ?n :: u32) = ?n" using assms by (intro unat_of_nat_u32) simp
  then have "(word_of_nat ?n :: u32) \<noteq> 0" "unat (word_of_nat ?n :: u32) = ?n"
    by (metis add_is_0 length_wrap(2) unat_0 zero_neq_numeral, simp)
  then show ?thesis unfolding filled_in_def wrap_message_up_tcp_def Let_def allocate_shm_message_def
    by simp
qed

text \<open>Unwrapping undoes wrapping, also with padding behind the envelope.\<close>

lemma unwrap_wrap_up:
  assumes "length full_pkt < 2 ^ 64" "length from_a < 2 ^ 64" "length to_a < 2 ^ 64" "length pl < 2 ^ 64"
  shows "unwrap_message_up (wrap_up full_pkt from_a to_a pl @ pad) = Inr
    \<lparr> up_full_len = length full_pkt, up_full = full_pkt @ pad,
      up_from_len = length from_a, up_from = from_a @ to_a @ pl @ full_pkt @ pad,
      up_to_len = length to_a, up_to = to_a @ pl @ full_pkt @ pad,
      up_pl_len = length pl, up_pl = pl @ full_pkt @ pad \<rparr>"
proof -
  have "le_dec (slice_at 0 4 (wrap_up full_pkt from_a to_a pl @ pad)) = magic_up"
    by (simp add: wrap_up_def layout_simps magic_up_def)
  moreover have "drop 36 (wrap_up full_pkt from_a to_a pl @ pad) = from_a @ to_a @ pl @ full_pkt @ pad"
    by (simp add: wrap_up_def)
  moreover have "slice_at k 8 (slice_at 0 36 (wrap_up full_pkt from_a to_a pl @ pad))
      = slice_at k 8 (wrap_up full_pkt from_a to_a pl @ pad)" if "k \<le> 28" for k
    using that by (simp add: slice_at_slice_at)
  ultimately show ?thesis using assms
    by (simp add: unwrap_message_up_def) (simp add: wrap_up_def layout_simps)
qed

lemma unwrap_wrap_up_tcp:
  assumes "length from_a < 2 ^ 64" "length to_a < 2 ^ 64" "length pl < 2 ^ 64"
  shows "unwrap_message_up_tcp (wrap_up_tcp sid from_a fp to_a tp flags pl @ pad) = Inr
    \<lparr> tv_session_id = sid, tv_from_len = length from_a, tv_from = from_a @ to_a @ pl @ pad,
      tv_from_port = fp, tv_to_len = length to_a, tv_to = to_a @ pl @ pad, tv_to_port = tp,
      tv_flags = flags, tv_pl_len = length pl, tv_pl = pl @ pad \<rparr>"
proof -
  let ?d = "wrap_up_tcp sid from_a fp to_a tp flags pl @ pad"
  have "le_dec (slice_at 0 4 ?d) = magic_up"
    by (simp add: wrap_up_tcp_def layout_simps magic_up_def)
  moreover have "drop 44 ?d = from_a @ to_a @ pl @ pad"
    by (simp add: wrap_up_tcp_def)
  moreover have "slice_at k n (slice_at 0 44 ?d) = slice_at k n ?d" if "k + n \<le> 44" for k n
    using that by (simp add: slice_at_slice_at)
  ultimately show ?thesis using assms
    by (simp add: unwrap_message_up_tcp_def) (simp add: wrap_up_tcp_def layout_simps)
qed

lemma unwrap_wrap_down:
  assumes "length from_a < 2 ^ 64" "length to_a < 2 ^ 64" "length pl < 2 ^ 64"
  shows "unwrap_message_down (wrap_down from_a to_a pl @ pad) = Inr
    \<lparr> dn_from_len = length from_a, dn_from = from_a @ to_a @ pl @ pad,
      dn_to_len = length to_a, dn_to = to_a @ pl @ pad,
      dn_pl_len = length pl, dn_pl = pl @ pad \<rparr>"
proof -
  let ?d = "wrap_down from_a to_a pl @ pad"
  have "le_dec (slice_at 0 4 ?d) = magic_down"
    by (simp add: wrap_down_def layout_simps magic_down_def)
  moreover have "drop 28 ?d = from_a @ to_a @ pl @ pad"
    by (simp add: wrap_down_def)
  moreover have "slice_at k n (slice_at 0 28 ?d) = slice_at k n ?d" if "k + n \<le> 28" for k n
    using that by (simp add: slice_at_slice_at)
  ultimately show ?thesis using assms
    by (simp add: unwrap_message_down_def) (simp add: wrap_down_def layout_simps)
qed

text \<open>Every magic but the right one stops the receiver.\<close>

lemma unwrap_up_wrong_magic:
  "4 \<le> length d \<Longrightarrow> le_dec (slice_at 0 4 d) \<noteq> magic_up \<Longrightarrow> unwrap_message_up d = Inl Assert_failed"
  by (simp add: unwrap_message_up_def assert_that_def)

end
