(* ===== verification/Transport.thy ===== *)
theory Transport
  imports Shm_Message
begin

text \<open>
  The queues of all servers together: a world of named segments, \<open>send_message\<close> as a server
  calls it (open the segment of the destination, stamp, place), and the interface
  \<open>transport\<close> that the handlers of the servers rely on.  The handlers take the queue object
  they call as an argument, as the functions of the source do.
\<close>

section \<open>The world of segments\<close>

record net =
  segs :: "string \<Rightarrow> segment option"
  os_up :: "string \<Rightarrow> bool"
  clock :: u64

text \<open>
  \<open>segs\<close>: what \<^verbatim>\<open>shm_open\<close> finds under a name; \<open>os_up\<close>: whether \<^verbatim>\<open>fstat\<close>, \<^verbatim>\<open>mmap\<close> and
  the lock succeed for it.  A blocking send into a full queue is \<open>Blocked\<close> here: the step
  does not end in this state of the world (\<open>send_loop\<close> has the whole loop).
\<close>

type_synonym 'w shm_queue = "string \<Rightarrow> message \<Rightarrow> bool \<Rightarrow> 'w \<Rightarrow> (bool \<times> message \<times> 'w) res"

definition send_message :: "string \<Rightarrow> net shm_queue" where
  "send_message local_identifier remote_identifier m blocking w =
     (let m = m\<lparr> sent_at := clock w \<rparr> in
      if msg_size m = 0 then Inl Assert_failed
      else case segs w remote_identifier of
          None \<Rightarrow> Inr (False, m, w)
        | Some s \<Rightarrow>
            if \<not> os_up w remote_identifier then Inr (False, m, w)
            else res_bind (segment_send local_identifier (clock w) m blocking s []) (\<lambda>(ok, m, s').
                 Inr (ok, m, w\<lparr> segs := (segs w)(remote_identifier := Some s') \<rparr>)))"

text \<open>\<open>create_shm\<close>: refuses names and sizes that cannot work, else begins the segment.\<close>

definition create_shm :: "string \<Rightarrow> nat \<Rightarrow> net \<Rightarrow> bool \<times> net" where
  "create_shm name sz w =
     (if max_id_length \<le> length name then (False, w)
      else if sz < sizeof_message then (False, w)
      else if \<not> os_up w name then (False, w)
      else (True, w\<lparr> segs := (segs w)(name := Some (begin_segment (segs w name) sz)) \<rparr>))"

definition inbox :: "net \<Rightarrow> string \<Rightarrow> message list" where
  "inbox w name = (case segs w name of None \<Rightarrow> [] | Some s \<Rightarrow> contents s)"

text \<open>The room a segment has for messages in all; \<open>None\<close> when it cannot be opened.\<close>

definition capacity :: "net \<Rightarrow> string \<Rightarrow> nat option" where
  "capacity w name = (case segs w name of None \<Rightarrow> None | Some s \<Rightarrow> if os_up w name then Some (total_size s) else None)"

definition net_ok :: "net \<Rightarrow> bool" where
  "net_ok w \<longleftrightarrow> (\<forall>name s. segs w name = Some s \<longrightarrow> well_formed s)"

section \<open>The interface the servers rely on\<close>

text \<open>\<open>carries lid m m'\<close>: \<open>m'\<close> is message \<open>m\<close> as it arrives from sender \<open>lid\<close>.\<close>

definition carries :: "string \<Rightarrow> message \<Rightarrow> message \<Rightarrow> bool" where
  "carries lid m m' \<longleftrightarrow> msg_data m' = msg_data m \<and> msg_size m' = msg_size m \<and> msg_type m' = msg_type m
     \<and> msg_id m' = msg_id m \<and> (msg_type m = msg_reply \<longrightarrow> msg_nr m' = msg_nr m)
     \<and> sender m' = to_bytes lid @ replicate (max_id_length - length lid) 0"

text \<open>\<open>has_room\<close>: the queue is there and message \<open>m\<close> fits behind the messages in it.  \<open>posted\<close>:
  message \<open>m\<close> has been added at the end of the inbox of \<open>dest\<close> if there was room for it, and
  nothing has been added anywhere if not.\<close>

definition has_room :: "(string \<Rightarrow> message list) \<Rightarrow> (string \<Rightarrow> nat option) \<Rightarrow> string \<Rightarrow> message \<Rightarrow> bool" where
  "has_room ib cap dest m =
     (case cap dest of None \<Rightarrow> False | Some n \<Rightarrow> sum_list (map padded_length (ib dest)) + padded_length m \<le> n)"

definition posted ::
  "('w \<Rightarrow> string \<Rightarrow> message list) \<Rightarrow> ('w \<Rightarrow> string \<Rightarrow> nat option) \<Rightarrow> string \<Rightarrow> 'w \<Rightarrow> string \<Rightarrow> message \<Rightarrow> bool \<Rightarrow> 'w \<Rightarrow> bool" where
  "posted ib cap lid w dest m delivered w' \<longleftrightarrow>
     delivered = has_room (ib w) (cap w) dest m \<and> cap w' = cap w \<and>
     (if delivered then \<exists>m'. carries lid m m' \<and> ib w' = (ib w)(dest := ib w dest @ [m'])
      else ib w' = ib w)"

text \<open>\<open>posted_seq\<close>: these messages were sent one after the other, each delivered if there was
  room for it.  \<open>posted_until\<close>: messages for one queue, up to the first without room.\<close>

fun posted_seq ::
  "('w \<Rightarrow> string \<Rightarrow> message list) \<Rightarrow> ('w \<Rightarrow> string \<Rightarrow> nat option) \<Rightarrow> string \<Rightarrow> 'w \<Rightarrow> (string \<times> message) list \<Rightarrow> 'w \<Rightarrow> bool" where
  "posted_seq ib cap lid w [] w' = (ib w' = ib w \<and> cap w' = cap w)"
| "posted_seq ib cap lid w ((dest, m) # ms) w' =
     (\<exists>r w1. posted ib cap lid w dest m r w1 \<and> posted_seq ib cap lid w1 ms w')"

fun posted_until ::
  "('w \<Rightarrow> string \<Rightarrow> message list) \<Rightarrow> ('w \<Rightarrow> string \<Rightarrow> nat option) \<Rightarrow> string \<Rightarrow> 'w \<Rightarrow> string \<Rightarrow> message list \<Rightarrow> 'w \<Rightarrow> bool" where
  "posted_until ib cap lid w dest [] w' = (ib w' = ib w \<and> cap w' = cap w)"
| "posted_until ib cap lid w dest (m # ms) w' =
     (\<exists>r w1. posted ib cap lid w dest m r w1
        \<and> (if r then posted_until ib cap lid w1 dest ms w' else ib w' = ib w1 \<and> cap w' = cap w1))"

locale transport =
  fixes shm :: "'w shm_queue" and ib :: "'w \<Rightarrow> string \<Rightarrow> message list" and cap :: "'w \<Rightarrow> string \<Rightarrow> nat option"
    and ok :: "'w \<Rightarrow> bool" and lid :: string
  assumes send_law: "ok w \<Longrightarrow> filled_in m \<Longrightarrow>
    \<exists>r m' w'. shm dest m False w = Inr (r, m', w') \<and> ok w' \<and> posted ib cap lid w dest m r w'"
begin

lemma send_envelope:
  assumes "ok w" "0 < length d" "length d < 2 ^ 32"
  obtains r m' w' where "shm dest (envelope d rt) False w = Inr (r, m', w')" "ok w'"
    "posted ib cap lid w dest (envelope d rt) r w'"
  using send_law[OF assms(1) filled_in_envelope[OF assms(2,3)]] by blast

end

lemma padded_length_carries: "carries lid m m' \<Longrightarrow> padded_length m' = padded_length m"
  by (simp add: carries_def padded_length_def)

lemma carries_stamped: "carries lid m (stamped lid now m s)"
  by (simp add: carries_def send_stamp_fields)

lemma inbox_update: "inbox (w\<lparr> segs := (segs w)(n := Some s) \<rparr>) = (inbox w)(n := contents s)"
  by (auto simp: inbox_def)

lemma filled_in_sent_at [simp]: "filled_in (m\<lparr> sent_at := t \<rparr>) = filled_in m"
  by (simp add: filled_in_def)

lemma fits_sent_at [simp]: "fits (m\<lparr> sent_at := t \<rparr>) s = fits m s"
  by (simp add: fits_def padded_length_def)

lemma carries_sent_at [simp]: "carries lid (m\<lparr> sent_at := t \<rparr>) = carries lid m"
  by (auto simp: carries_def)

lemma fits_contents:
  "well_formed s \<Longrightarrow> fits m s \<longleftrightarrow> sum_list (map padded_length (contents s)) + padded_length m \<le> total_size s"
  by (auto simp: fits_def well_formed_def holds_def concat_lengths)

lemma capacity_update:
  "segs w n = Some s \<Longrightarrow> total_size s' = total_size s \<Longrightarrow> capacity (w\<lparr> segs := (segs w)(n := Some s') \<rparr>) = capacity w"
  by (rule ext) (simp add: capacity_def split: option.split)

lemma send_message_law:
  assumes "net_ok w" "filled_in m" "length lid < max_id_length"
  shows "\<exists>r m' w'. send_message lid dest m False w = Inr (r, m', w') \<and> net_ok w' \<and> posted inbox capacity lid w dest m r w'"
proof (cases "segs w dest")
  case None
  then show ?thesis using assms by (auto simp: send_message_def filled_in_def posted_def has_room_def capacity_def)
next
  case (Some s)
  let ?m = "m\<lparr> sent_at := clock w \<rparr>"
  have wf: "well_formed s" using assms(1) Some by (auto simp: net_ok_def)
  have nz: "msg_size m \<noteq> 0" using assms(2) by (simp add: filled_in_def)
  have ib: "inbox w dest = contents s" "(inbox w)(dest := contents s) = inbox w" using Some by (auto simp: inbox_def)
  have room: "has_room (inbox w) (capacity w) dest m \<longleftrightarrow> os_up w dest \<and> fits m s"
    using Some ib fits_contents[OF wf, of m] by (simp add: has_room_def capacity_def)
  show ?thesis
  proof (cases "os_up w dest")
    case False
    then show ?thesis using assms(1) Some nz room by (auto simp: send_message_def posted_def)
  next
    case True
    have c: "carries lid m (stamped lid (clock w) ?m s)" using carries_stamped[of lid ?m] by simp
    note st = segment_send_step[OF wf _ assms(3), of ?m "clock w" False "[]"]
    show ?thesis
    proof (cases "fits m s")
      case True
      with st assms(2) obtain s' where "segment_send lid (clock w) ?m False s []
          = Inr (True, stamped lid (clock w) ?m s, s')" "well_formed s'" "total_size s' = total_size s"
        "contents s' = contents s @ [stamped lid (clock w) ?m s]" by auto
      then show ?thesis using assms(1) Some \<open>os_up w dest\<close> nz c ib room True
        by (auto simp: send_message_def net_ok_def posted_def inbox_update capacity_update)
    next
      case False
      with st assms(2) have "segment_send lid (clock w) ?m False s []
          = Inr (False, stamped lid (clock w) ?m s, snd (send_stamp lid (clock w) ?m s))" by simp
      then show ?thesis using assms(1) Some \<open>os_up w dest\<close> nz wf ib room False
        by (auto simp: send_message_def net_ok_def posted_def inbox_update send_stamp_segment capacity_update)
    qed
  qed
qed

text \<open>The interface on the shared memory queues, for every identifier the constructor accepts.\<close>

lemma shm_transport:
  "length lid < max_id_length \<Longrightarrow> transport (send_message lid) inbox capacity net_ok lid"
  by unfold_locales (rule send_message_law)

interpretation ip4_tr: transport "send_message ''ip4-test-lan1''" inbox capacity net_ok "''ip4-test-lan1''"
  by (rule shm_transport) (simp add: max_id_length_def)

lemma create_shm_step:
  assumes "net_ok w" "create_shm name sz w = (r, w')"
  shows "net_ok w'" "r \<Longrightarrow> inbox w' = (inbox w)(name := [])" "\<not> r \<Longrightarrow> w' = w"
  using assms
  by (auto simp: create_shm_def net_ok_def inbox_update begin_segment_empty split: if_splits)

section \<open>Sending that waits for room\<close>

locale blocking_transport = transport +
  assumes block_law: "ok w \<Longrightarrow> filled_in m \<Longrightarrow>
    if has_room (ib w) (cap w) dest m
    then \<exists>m' w'. shm dest m True w = Inr (True, m', w') \<and> ok w' \<and> posted ib cap lid w dest m True w'
    else if cap w dest = None then \<exists>m'. shm dest m True w = Inr (False, m', w)
    else shm dest m True w = Inl Blocked"

lemma segment_send_waits:
  assumes "well_formed s" "filled_in m" "length lid < max_id_length" "\<not> fits m s"
  shows "segment_send lid now m True s [] = Inl Blocked"
proof -
  have "holds (snd (send_stamp lid now m s)) (contents s)" using assms(1) by (simp add: send_stamp_segment holds_well_formed)
  from send_put_holds[OF this wf_stamped[OF assms(2,3), of now s]]
  have "send_put (stamped lid now m s) (snd (send_stamp lid now m s)) = Inr None"
    using assms(4) by (simp add: fits_def padded_length_def send_stamp_fields send_stamp_segment)
  then show ?thesis using assms(2)
    by (auto simp: segment_send_def send_loop.simps filled_in_def split: prod.split)
qed

lemma send_message_waits:
  assumes "net_ok w" "filled_in m" "length lid < max_id_length"
  shows "if has_room (inbox w) (capacity w) dest m
    then \<exists>m' w'. send_message lid dest m True w = Inr (True, m', w') \<and> net_ok w' \<and> posted inbox capacity lid w dest m True w'
    else if capacity w dest = None then \<exists>m'. send_message lid dest m True w = Inr (False, m', w)
    else send_message lid dest m True w = Inl Blocked"
proof (cases "segs w dest")
  case None
  then show ?thesis using assms by (auto simp: send_message_def filled_in_def has_room_def capacity_def)
next
  case (Some s)
  let ?m = "m\<lparr> sent_at := clock w \<rparr>"
  have wf: "well_formed s" and fm: "filled_in ?m" using assms Some by (auto simp: net_ok_def)
  have nz: "msg_size m \<noteq> 0" using assms(2) by (simp add: filled_in_def)
  have ib: "inbox w dest = contents s" using Some by (auto simp: inbox_def)
  have room: "has_room (inbox w) (capacity w) dest m \<longleftrightarrow> os_up w dest \<and> fits m s"
    using Some ib fits_contents[OF wf, of m] by (simp add: has_room_def capacity_def)
  show ?thesis
  proof (cases "os_up w dest \<and> fits m s")
    case True
    with segment_send_step[OF wf fm assms(3), of "clock w" True "[]"] obtain s' where
      "segment_send lid (clock w) ?m True s [] = Inr (True, stamped lid (clock w) ?m s, s')" "well_formed s'"
      "total_size s' = total_size s" "contents s' = contents s @ [stamped lid (clock w) ?m s]" by auto
    moreover have "carries lid m (stamped lid (clock w) ?m s)" using carries_stamped[of lid ?m] by simp
    ultimately show ?thesis using assms(1) Some nz ib room True
      by (auto simp: send_message_def net_ok_def posted_def inbox_update capacity_update)
  next
    case False
    then show ?thesis using segment_send_waits[OF wf fm assms(3)] Some nz room
      by (auto simp: send_message_def capacity_def)
  qed
qed

lemma shm_blocking_transport:
  "length lid < max_id_length \<Longrightarrow> blocking_transport (send_message lid) inbox capacity net_ok lid"
  by (intro blocking_transport.intro shm_transport blocking_transport_axioms.intro send_message_waits)

interpretation http_tr: blocking_transport "send_message ''http''" inbox capacity net_ok "''http''"
  by (rule shm_blocking_transport) (simp add: max_id_length_def)

end
