(* ===== verification/Net.thy ===== *)
theory Net
  imports Prelude
begin

text \<open>
  \<^verbatim>\<open>src/utils/net.cpp\<close> (network byte order) and \<^verbatim>\<open>src/utils/checksum.cpp\<close> (the
  Internet checksum of IPv4, ICMP, TCP and UDP).  The accumulator is the source's
  \<^verbatim>\<open>uint32_t\<close>, so the theorems carry the length bound under which it cannot wrap.
\<close>

section \<open>Network byte order\<close>

definition get_uint16 :: "bytes \<Rightarrow> u16" where
  "get_uint16 from = push_bit 8 (ucast (from ! 0)) OR ucast (from ! 1)"

definition get_uint32 :: "bytes \<Rightarrow> u32" where
  "get_uint32 from = push_bit 24 (ucast (from ! 0)) OR push_bit 16 (ucast (from ! 1))
     OR push_bit 8 (ucast (from ! 2)) OR ucast (from ! 3)"

definition put_uint16 :: "u16 \<Rightarrow> bytes" where
  "put_uint16 from = [ucast (drop_bit 8 from), ucast from]"

definition put_uint32 :: "u32 \<Rightarrow> bytes" where
  "put_uint32 from = [ucast (drop_bit 24 from), ucast (drop_bit 16 from), ucast (drop_bit 8 from), ucast from]"

lemma u16_le: "unat (w :: u16) \<le> 65535"
  using unsigned_less[of w, where 'a = nat] by simp

lemma length_put_uint16 [simp, buffer_simps]: "length (put_uint16 w) = 2"
  by (simp add: put_uint16_def)

lemma length_put_uint32 [simp, buffer_simps]: "length (put_uint32 w) = 4"
  by (simp add: put_uint32_def)

lemma get_put_uint16 [simp]: "get_uint16 (put_uint16 w) = w"
  by (rule bit_eqI) (auto simp: get_uint16_def put_uint16_def bit_simps)

lemma get_put_uint32 [simp]: "get_uint32 (put_uint32 w) = w"
proof (rule bit_eqI)
  fix n :: nat
  consider "n < 8" | "8 \<le> n" "n < 16" | "16 \<le> n" "n < 24" | "24 \<le> n" "n < 32" | "32 \<le> n"
    by linarith
  then show "bit (get_uint32 (put_uint32 w)) n = bit w n"
    by cases (auto simp: get_uint32_def put_uint32_def bit_simps dest: bit_imp_le_length)
qed

lemma put_get_uint16: "length bs = 2 \<Longrightarrow> put_uint16 (get_uint16 bs) = bs"
proof -
  assume "length bs = 2"
  then obtain a b where bs: "bs = [a, b]" by (auto simp: length_Suc_conv numeral_2_eq_2)
  have "ucast (drop_bit 8 (get_uint16 bs)) = a"
    unfolding bs get_uint16_def by (rule bit_eqI) (auto simp: bit_simps dest: bit_imp_le_length)
  moreover have "ucast (get_uint16 bs) = b"
    unfolding bs get_uint16_def by (rule bit_eqI) (auto simp: bit_simps dest: bit_imp_le_length)
  ultimately show ?thesis by (simp add: put_uint16_def bs)
qed

lemma u16_bytes: "n < 65536 \<Longrightarrow> put_uint16 (word_of_nat n) = [word_of_nat (n div 256), word_of_nat n]"
proof -
  assume "n < 65536"
  have "ucast (drop_bit 8 (word_of_nat n :: u16)) = (word_of_nat (n div 256) :: byte)"
    using \<open>n < 65536\<close>
    by (simp only: word_eq_iff_unsigned [where 'a = nat] unsigned_ucast_eq unat_drop_bit_eq)
      (simp add: drop_bit_eq_div unat_of_nat take_bit_eq_mod)
  moreover have "ucast (word_of_nat n :: u16) = (word_of_nat n :: byte)"
    by (simp only: word_eq_iff_unsigned [where 'a = nat] unsigned_ucast_eq)
      (simp add: unat_of_nat take_bit_eq_mod mod_mod_cancel)
  ultimately show ?thesis by (simp add: put_uint16_def)
qed

section \<open>The Internet checksum\<close>

text \<open>
  \<^verbatim>\<open>htons(p[i])\<close> on the little-endian host: \<open>host16\<close> is the load of two bytes as a
  \<^verbatim>\<open>uint16_t\<close>, \<open>htons\<close> the byte swap.
\<close>

definition host16 :: "byte \<Rightarrow> byte \<Rightarrow> u16" where
  "host16 lo hi = ucast lo OR push_bit 8 (ucast hi)"

definition htons :: "u16 \<Rightarrow> u16" where
  "htons w = push_bit 8 w OR drop_bit 8 w"

text \<open>The loop over the 16-bit words and the odd last byte, which both routines contain.\<close>

fun cksum_loop :: "u32 \<Rightarrow> bytes \<Rightarrow> u32" where
  "cksum_loop cksum (a # b # p) = cksum_loop (cksum + ucast (htons (host16 a b))) p"
| "cksum_loop cksum [a] = cksum + push_bit 8 (ucast a)"
| "cksum_loop cksum [] = cksum"

definition cksum_fold :: "u32 \<Rightarrow> u16" where
  "cksum_fold c0 =
     (let c1 = drop_bit 16 c0 + (c0 AND 0xffff);
          c2 = c1 + drop_bit 16 c1
      in ucast (NOT c2))"

definition ip_checksum :: "bytes \<Rightarrow> nat \<Rightarrow> u16" where
  "ip_checksum p n = cksum_fold (cksum_loop 0 (take n p))"

definition tcp_udp_checksum :: "bytes \<Rightarrow> bytes \<Rightarrow> bytes \<Rightarrow> nat \<Rightarrow> byte \<Rightarrow> u16" where
  "tcp_udp_checksum from to p n protocol_number =
     (let c = ucast (htons (host16 (from ! 0) (from ! 1)));
          c = c + ucast (htons (host16 (from ! 2) (from ! 3)));
          c = c + ucast (htons (host16 (to ! 0) (to ! 1)));
          c = c + ucast (htons (host16 (to ! 2) (to ! 3)));
          c = c + ucast protocol_number;
          c = c + word_of_nat n
      in cksum_fold (cksum_loop c (take n p)))"

subsection \<open>The sum as a number\<close>

text \<open>\<open>sum16\<close> is the plain sum of the big-endian 16-bit words of a buffer.\<close>

fun sum16 :: "bytes \<Rightarrow> nat" where
  "sum16 (a # b # p) = 256 * unat a + unat b + sum16 p"
| "sum16 [a] = 256 * unat a"
| "sum16 [] = 0"

lemma htons_host16: "htons (host16 a b) = get_uint16 [a, b]"
  by (rule bit_eqI) (auto simp: htons_def host16_def get_uint16_def bit_simps dest: bit_imp_le_length)

lemma unat_get_uint16: "unat (get_uint16 [a, b]) = 256 * unat a + unat b"
proof -
  have "push_bit 8 (ucast a :: u16) AND ucast b = 0"
    by (rule bit_eqI) (auto simp: bit_simps dest: bit_imp_le_length)
  then have "get_uint16 [a, b] = push_bit 8 (ucast a) + ucast b"
    by (simp add: get_uint16_def disjunctive_add_eq_or)
  moreover have "unat (push_bit 8 (ucast a :: u16)) = 256 * unat a"
    using byte_lt[of a]
    by (simp only: unsigned_push_bit_eq unsigned_ucast_eq) (simp add: push_bit_eq_mult take_bit_eq_mod)
  moreover have "unat (ucast b :: u16) = unat b"
    using byte_lt[of b] by (simp add: unsigned_ucast_eq take_bit_eq_mod)
  ultimately show ?thesis
    using byte_lt[of a] byte_lt[of b] by (simp add: unat_plus_if')
qed

lemma cksum_loop_sum16: "cksum_loop c p = c + word_of_nat (sum16 p)"
proof (induction c p rule: cksum_loop.induct)
  case (1 c a b p)
  have "(ucast (htons (host16 a b)) :: u32) = word_of_nat (256 * unat a + unat b)"
    by (simp only: htons_host16 unat_get_uint16 [symmetric]) simp
  then show ?case using 1 by (simp add: algebra_simps)
next
  case (2 c a)
  have "(push_bit 8 (ucast a) :: u32) = word_of_nat (256 * unat a)"
    by (simp add: push_bit_eq_mult)
  then show ?case by simp
qed simp

lemma sum16_append: "even (length xs) \<Longrightarrow> sum16 (xs @ ys) = sum16 xs + sum16 ys"
  by (induction xs rule: sum16.induct) auto

lemma sum16_bound: "sum16 p \<le> 65535 * ((length p + 1) div 2)"
proof (induction p rule: sum16.induct)
  case (1 a b p)
  then show ?case using byte_lt[of a] byte_lt[of b] by simp
next
  case (2 a)
  then show ?case using byte_lt[of a] by simp
qed simp

text \<open>The fold of the 32-bit accumulator into 16 bits, on numbers.\<close>

definition fold16 :: "nat \<Rightarrow> nat" where
  "fold16 s = (let d = s div 65536 + s mod 65536 in (d + d div 65536) mod 65536)"

lemma fold16_eq:
  assumes "s < 2 ^ 32"
  shows "fold16 s = (if s = 0 then 0 else Suc ((s - 1) mod 65535))"
proof -
  define q r where "q = s div 65536" and "r = s mod 65536"
  have qr: "q < 65536" "r < 65536" using assms by (auto simp: q_def r_def)
  have s: "s = 65535 * q + (q + r)" by (simp add: q_def r_def)
  have f: "fold16 s = (q + r + (q + r) div 65536) mod 65536"
    by (simp add: fold16_def q_def r_def Let_def)
  consider "q + r = 0" | "0 < q + r" "q + r \<le> 65535" | "65536 \<le> q + r" by linarith
  then show ?thesis
  proof cases
    case 1
    then show ?thesis using s f by simp
  next
    case 2
    then have "s - 1 = 65535 * q + (q + r - 1)" using s by simp
    then have "(s - 1) mod 65535 = (q + r - 1) mod 65535" by (metis mod_mult_self4)
    then have "(s - 1) mod 65535 = q + r - 1" using 2 by simp
    then show ?thesis using 2 s f by simp
  next
    case 3
    then have "s - 1 = 65535 * Suc q + (q + r - 65536)" using s by simp
    then have "(s - 1) mod 65535 = (q + r - 65536) mod 65535" by (metis mod_mult_self4)
    then have "(s - 1) mod 65535 = q + r - 65536" using qr by simp
    moreover have "(q + r) div 65536 = 1" using 3 qr by (simp add: div_nat_eqI)
    moreover have "(q + r + 1) mod 65536 = Suc (q + r - 65536)"
      using 3 qr by (subst mod_if) (simp add: Suc_diff_le)
    moreover have "s \<noteq> 0" using 3 s by linarith
    ultimately show ?thesis using f by simp
  qed
qed

lemma cksum_fold_fold16: "cksum_fold c = word_of_nat (65535 - fold16 (unat c))"
proof -
  define c1 where "c1 = drop_bit 16 c + (c AND 0xffff)"
  define c2 where "c2 = c1 + drop_bit 16 c1"
  have s: "unat c < 2 ^ 32" using unsigned_less[of c] by simp
  have "unat (c AND 0xffff) = unat c mod 65536"
    using take_bit_eq_mask[of 16 "unat c"]
    by (simp add: unsigned_and_eq take_bit_eq_mod mask_eq_exp_minus_1)
  moreover have "unat (drop_bit 16 c) = unat c div 65536"
    by (simp only: unat_drop_bit_eq) (simp add: drop_bit_eq_div)
  ultimately have c1: "unat c1 = unat c div 65536 + unat c mod 65536"
    using s by (simp add: c1_def unat_plus_if' div_less_dividend)
  moreover have "unat c div 65536 < 65536" "unat c mod 65536 < 65536" using s by simp_all
  ultimately have "unat c1 < 131072" by linarith
  moreover have "unat (drop_bit 16 c1) = unat c1 div 65536"
    by (simp only: unat_drop_bit_eq) (simp add: drop_bit_eq_div)
  moreover from \<open>unat c1 < 131072\<close> have "unat c1 + unat c1 div 65536 < 2 ^ 32"
    using div_le_dividend[of "unat c1" 65536] by (simp del: div_le_dividend)
  ultimately have "unat c2 = unat c1 + unat c1 div 65536"
    by (simp add: c2_def unat_plus_if')
  then have u: "unat (ucast c2 :: u16) = fold16 (unat c)"
    by (simp only: unsigned_ucast_eq) (simp add: take_bit_eq_mod c1 fold16_def Let_def)
  have "cksum_fold c = NOT (ucast c2)"
    unfolding cksum_fold_def Let_def c1_def [symmetric] c2_def [symmetric]
    by (rule bit_eqI) (simp add: bit_simps)
  also have "\<dots> = - 1 - ucast c2" by (simp add: not_eq_complement)
  also have "\<dots> = word_of_nat (65535 - unat (ucast c2 :: u16))"
    using u16_le[of "ucast c2"] by (simp only: of_nat_diff) simp
  finally show ?thesis using u by simp
qed

text \<open>
  What the checksum of a buffer is: the ones'-complement of the sum, with the two
  representations of zero resolved the way the fold does.
\<close>

definition ones_complement :: "nat \<Rightarrow> u16" where
  "ones_complement s = word_of_nat (if s = 0 then 65535 else 65534 - (s - 1) mod 65535)"

lemma cksum_fold_sum:
  assumes "s < 2 ^ 32"
  shows "cksum_fold (word_of_nat s) = ones_complement s"
proof -
  have "unat (word_of_nat s :: u32) = s" using assms by (simp add: unat_of_nat)
  then show ?thesis using assms
    by (simp add: cksum_fold_fold16 fold16_eq ones_complement_def)
qed

lemma ones_complement_eq_0: "ones_complement s = 0 \<longleftrightarrow> 0 < s \<and> s mod 65535 = 0"
proof (cases "s = 0")
  case True
  then show ?thesis by (simp add: ones_complement_def)
next
  case False
  have lt: "(s - 1) mod 65535 < 65535" by simp
  then have "ones_complement s = 0 \<longleftrightarrow> (65534 - (s - 1) mod 65535) = 0"
    using False by (simp only: ones_complement_def if_False word_of_nat_eq_0_iff)
      (auto dest: dvd_imp_le)
  also have "\<dots> \<longleftrightarrow> (s - 1) mod 65535 = 65534" using lt by linarith
  also have "\<dots> \<longleftrightarrow> s mod 65535 = 0"
    using False by (cases s) (simp_all add: mod_Suc)
  finally show ?thesis using False by simp
qed

lemma unat_ones_complement_add: "0 < s + unat (ones_complement s) \<and> (s + unat (ones_complement s)) mod 65535 = 0"
proof (cases "s = 0")
  case True
  then show ?thesis by (simp add: ones_complement_def)
next
  case False
  define r where "r = (s - 1) mod 65535"
  have r: "r < 65535" by (simp add: r_def)
  have "unat (ones_complement s) = 65534 - r"
    using False r by (simp only: ones_complement_def r_def [symmetric] if_False unat_of_nat) simp
  moreover have "s = 65535 * ((s - 1) div 65535) + r + 1"
    using False unfolding r_def by (metis One_nat_def Suc_pred add.commute add_Suc_right
        mult_div_mod_eq neq0_conv plus_1_eq_Suc)
  ultimately have "s + unat (ones_complement s) = 65535 * Suc ((s - 1) div 65535)"
    using r by simp
  then show ?thesis using False by (metis mod_mult_self1_is_0 add_gr_0 neq0_conv)
qed

lemma sum16_put_field:
  assumes "even k" "k + 2 \<le> length p" "slice_at k 2 p = [0, 0]"
  shows "sum16 (put_at k (put_uint16 w) p) = sum16 p + unat w"
proof -
  have p: "p = take k p @ [0, 0] @ drop (k + 2) p"
    using assms(2,3) by (metis append_take_drop_id drop_drop add.commute slice_at_def)
  have "sum16 (put_at k (put_uint16 w) p) =
      sum16 (take k p) + sum16 (put_uint16 w) + sum16 (drop (k + 2) p)"
    using assms by (simp add: put_at_def sum16_append)
  moreover have "sum16 (put_uint16 w) = unat w"
    using get_put_uint16[of w] unat_get_uint16 by (simp add: put_uint16_def) metis
  moreover have "sum16 p = sum16 (take k p) + sum16 (drop (k + 2) p)"
    using assms by (subst p) (simp add: sum16_append)
  ultimately show ?thesis by simp
qed

lemma sum16_replace_field:
  assumes "even k" "k + 2 \<le> length p"
  shows "sum16 (put_at k (put_uint16 w) p) + unat (get_uint16 (slice_at k 2 p)) = sum16 p + unat w"
proof -
  let ?z = "put_at k (put_uint16 0) p"
  have z: "slice_at k 2 ?z = [0, 0]"
    using assms by (simp add: buffer_simps) (simp add: put_uint16_def)
  have len: "length ?z = length p" using assms by (simp add: buffer_simps)
  have again: "put_at k (put_uint16 v) ?z = put_at k (put_uint16 v) p" for v
    using assms by (simp add: put_at_def)
  have p: "put_at k (put_uint16 (get_uint16 (slice_at k 2 p))) p = p"
    using assms by (simp add: put_get_uint16 length_slice_at put_at_slice_at)
  show ?thesis
    using sum16_put_field[of k ?z w] sum16_put_field[of k ?z "get_uint16 (slice_at k 2 p)"]
      assms z len again p by simp
qed

lemma ip_checksum_sum:
  "length p \<le> 131070 \<Longrightarrow> ip_checksum p (length p) = ones_complement (sum16 p)"
  using sum16_bound[of p] by (simp add: ip_checksum_def cksum_loop_sum16 cksum_fold_sum)

definition pseudo_sum :: "bytes \<Rightarrow> bytes \<Rightarrow> byte \<Rightarrow> nat \<Rightarrow> nat" where
  "pseudo_sum from to proto n = sum16 (take 4 from) + sum16 (take 4 to) + unat proto + n"

lemma take_4: "4 \<le> length xs \<Longrightarrow> take 4 xs = [xs ! 0, xs ! 1, xs ! 2, xs ! 3]"
  by (simp add: list_eq_iff_nth_eq less_Suc_eq eval_nat_numeral)

lemma sum16_bytes4:
  assumes "4 \<le> length a"
  shows "(ucast (htons (host16 (a ! 0) (a ! 1))) + ucast (htons (host16 (a ! 2) (a ! 3))) :: u32)
     = word_of_nat (sum16 (take 4 a))"
  using cksum_loop_sum16[of 0 "take 4 a"] by (simp add: take_4 assms)

lemma tcp_udp_checksum_sum:
  assumes "4 \<le> length from" "4 \<le> length to" "length p \<le> 65535"
  shows "tcp_udp_checksum from to p (length p) proto
     = ones_complement (pseudo_sum from to proto (length p) + sum16 p)"
proof -
  let ?s = "pseudo_sum from to proto (length p) + sum16 p"
  have "sum16 (take 4 from) \<le> 131070" "sum16 (take 4 to) \<le> 131070"
    using sum16_bound[of "take 4 from"] sum16_bound[of "take 4 to"] assms by auto
  then have "?s < 2 ^ 32"
    using sum16_bound[of p] byte_lt[of proto] assms(3) by (simp add: pseudo_sum_def)
  then have "cksum_fold (word_of_nat ?s) = ones_complement ?s" by (rule cksum_fold_sum)
  moreover have "word_of_nat (pseudo_sum from to proto (length p)) =
      (ucast (htons (host16 (from ! 0) (from ! 1))) + ucast (htons (host16 (from ! 2) (from ! 3)))
        + (ucast (htons (host16 (to ! 0) (to ! 1))) + ucast (htons (host16 (to ! 2) (to ! 3))))
        + ucast proto + word_of_nat (length p) :: u32)"
    using assms by (simp only: sum16_bytes4 pseudo_sum_def of_nat_add of_nat_unat)
  ultimately show ?thesis
    by (simp add: tcp_udp_checksum_def cksum_loop_sum16 Let_def add.assoc)
qed

lemma ip_checksum_fill:
  assumes "even k" "k + 2 \<le> length p" "length p \<le> 131070" "slice_at k 2 p = [0, 0]"
  shows "ip_checksum (put_at k (put_uint16 (ip_checksum p (length p))) p) (length p) = 0"
proof -
  let ?q = "put_at k (put_uint16 (ip_checksum p (length p))) p"
  have len: "length ?q = length p" using assms by (simp add: buffer_simps)
  have "sum16 ?q = sum16 p + unat (ones_complement (sum16 p))"
    using assms sum16_put_field ip_checksum_sum by simp
  then have "ones_complement (sum16 ?q) = 0"
    by (simp only: ones_complement_eq_0 unat_ones_complement_add)
  then show ?thesis using ip_checksum_sum[of ?q] len assms(3) by simp
qed

lemma tcp_udp_checksum_fill:
  assumes "4 \<le> length from" "4 \<le> length to"
    and "even k" "k + 2 \<le> length p" "length p \<le> 65535" "slice_at k 2 p = [0, 0]"
  shows "tcp_udp_checksum from to
      (put_at k (put_uint16 (tcp_udp_checksum from to p (length p) proto)) p) (length p) proto = 0"
proof -
  let ?q = "put_at k (put_uint16 (tcp_udp_checksum from to p (length p) proto)) p"
  let ?s = "pseudo_sum from to proto (length p) + sum16 p"
  have len: "length ?q = length p" using assms by (simp add: buffer_simps)
  have "pseudo_sum from to proto (length p) + sum16 ?q = ?s + unat (ones_complement ?s)"
    using assms sum16_put_field tcp_udp_checksum_sum by simp
  then have "ones_complement (pseudo_sum from to proto (length p) + sum16 ?q) = 0"
    by (simp only: ones_complement_eq_0 unat_ones_complement_add)
  then show ?thesis using tcp_udp_checksum_sum[of "from" to ?q] len assms by simp
qed

section \<open>Properties\<close>

text \<open>A sender that zeroes the 16-bit checksum field of a buffer, computes \<open>ip_checksum\<close>
  over the buffer and stores the result in that field produces a buffer on which the
  receiver's \<open>ip_checksum\<close> is 0 (the accept condition of ip4\_server and icmp\_server).\<close>

theorem ip_checksum_fill_verifies:
  assumes "even k" "k + 2 \<le> length p" "length p \<le> 131070" "slice_at k 2 p = [0, 0]"
  shows "ip_checksum (put_at k (put_uint16 (ip_checksum p (length p))) p) (length p) = 0"
  using assms by (rule ip_checksum_fill)

theorem ip_checksum_fill_verifies_witness:
  "(let p = [8, 0, 0, 0, 0x12, 0x34, 0xff]
    in ip_checksum (put_at 2 (put_uint16 (ip_checksum p (length p))) p) (length p) = 0)"
  unfolding Let_def by (rule ip_checksum_fill_verifies) (simp_all add: slice_at_def)

text \<open>C23: Both checksums are the Internet checksum of RFC 1071: the sixteen-bit ones' complement of the
  ones' complement sum of the big-endian words (an odd last byte padded with zero), for TCP and UDP with
  the pseudo header in front; the 32-bit accumulator and its two foldings lose nothing.\<close>

theorem checksums_equal_reference:
  assumes "4 \<le> length from" "4 \<le> length to" "length p \<le> 65535"
  shows "ip_checksum p (length p) = ones_complement (sum16 p)
    \<and> tcp_udp_checksum from to p (length p) proto
      = ones_complement (sum16 (take 4 from) + sum16 (take 4 to) + unat proto + length p + sum16 p)"
  using ip_checksum_sum[of p] tcp_udp_checksum_sum[OF assms] assms(3) by (simp add: pseudo_sum_def)

theorem checksums_equal_reference_witness:
  "ip_checksum [0x45, 0, 0xff] (length [0x45, 0, 0xff :: byte]) = ones_complement (sum16 [0x45, 0, 0xff])
    \<and> tcp_udp_checksum [10, 0, 0, 1] [10, 0, 0, 2] [0x45, 0, 0xff] (length [0x45, 0, 0xff :: byte]) 17
      = ones_complement (sum16 (take 4 [10, 0, 0, 1]) + sum16 (take 4 [10, 0, 0, 2]) + unat (17 :: byte) + length [0x45, 0, 0xff :: byte] + sum16 [0x45, 0, 0xff])"
  by (rule checksums_equal_reference) simp_all

text \<open>The checksum detects every change of a single aligned 16-bit word, except for the
  exchange of the two representations 0x0000 and 0xffff of zero: a buffer that verifies no
  longer does after such a change.\<close>

theorem ip_checksum_detects_word_change:
  assumes "even k" "k + 2 \<le> length p" "length p \<le> 131070" "ip_checksum p (length p) = 0"
    and "w \<noteq> get_uint16 (slice_at k 2 p)"
    and "\<not> (w = 0 \<and> get_uint16 (slice_at k 2 p) = 0xffff)"
    and "\<not> (w = 0xffff \<and> get_uint16 (slice_at k 2 p) = 0)"
  shows "ip_checksum (put_at k (put_uint16 w) p) (length p) \<noteq> 0"
proof
  let ?q = "put_at k (put_uint16 w) p" and ?old = "get_uint16 (slice_at k 2 p)"
  assume "ip_checksum ?q (length p) = 0"
  moreover have len: "length ?q = length p" using assms by (simp add: buffer_simps)
  ultimately have q: "sum16 ?q mod 65535 = 0"
    using ip_checksum_sum[of ?q] assms(3) by (simp add: ones_complement_eq_0)
  have p: "sum16 p mod 65535 = 0"
    using ip_checksum_sum[of p] assms(3,4) by (simp add: ones_complement_eq_0)
  have "sum16 ?q + unat ?old = sum16 p + unat w"
    using assms by (intro sum16_replace_field)
  then have "unat ?old mod 65535 = unat w mod 65535"
    using p q by (metis add_0 mod_add_left_eq)
  moreover have "unat w \<le> 65535" "unat ?old \<le> 65535"
    by (simp_all add: u16_le)
  ultimately have "unat w = unat ?old \<or> unat w = 0 \<and> unat ?old = 65535
      \<or> unat w = 65535 \<and> unat ?old = 0"
    by (cases "unat w = 65535"; cases "unat ?old = 65535") auto
  moreover have "v = 0xffff" if "unat v = 65535" for v :: u16
    using that by (simp add: word_eq_iff_unsigned [where 'a = nat])
  moreover have "v = 0" if "unat v = 0" for v :: u16
    using that by (simp add: unsigned_eq_0_iff)
  moreover have "unat w = unat ?old \<Longrightarrow> w = ?old" by (simp add: word_eq_iff_unsigned [where 'a = nat])
  ultimately show False using assms(5-7) by blast
qed

theorem ip_checksum_detects_word_change_witness:
  "(let p = [0x12, 0x34, 0xed, 0xcb] in ip_checksum (put_at 0 (put_uint16 0x1235) p) (length p) \<noteq> 0)"
  unfolding Let_def
  by (rule ip_checksum_detects_word_change)
    (simp_all add: slice_at_def ip_checksum_def get_uint16_def cksum_fold_def htons_def host16_def)

text \<open>The same for TCP and UDP, whose checksum also covers the pseudo header (both IPv4
  addresses, the protocol number and the length): filling the zeroed field with
  \<open>tcp_udp_checksum\<close> makes the receiver's check come out 0.\<close>

theorem tcp_udp_checksum_fill_verifies:
  assumes "4 \<le> length from" "4 \<le> length to"
    and "even k" "k + 2 \<le> length p" "length p \<le> 65535" "slice_at k 2 p = [0, 0]"
  shows "tcp_udp_checksum from to
      (put_at k (put_uint16 (tcp_udp_checksum from to p (length p) proto)) p) (length p) proto = 0"
  using assms by (rule tcp_udp_checksum_fill)

theorem tcp_udp_checksum_fill_verifies_witness:
  "(let p = [0, 53, 4, 0, 0, 9, 0, 0, 65] in
     tcp_udp_checksum [10, 0, 0, 1] [10, 0, 0, 2]
       (put_at 6 (put_uint16 (tcp_udp_checksum [10, 0, 0, 1] [10, 0, 0, 2] p (length p) 17)) p) (length p) 17 = 0)"
  unfolding Let_def by (rule tcp_udp_checksum_fill_verifies) (simp_all add: slice_at_def)

text \<open>The vector of \<^verbatim>\<open>src/tests/checksum_tcp_udp_test.cpp\<close>: the pseudo-header checksum of
  the 17 bytes of "Dit is een test." (with its NUL) from 192.168.1.9 to 10.208.0.10 under
  protocol 42 is 0x9152.\<close>

theorem tcp_udp_checksum_test_vector:
  "tcp_udp_checksum [192, 168, 1, 9] [10, 208, 0, 10] (to_bytes ''Dit is een test.'' @ [0]) 17 42 = 0x9152"
  by (simp add: tcp_udp_checksum_def to_bytes_def byte_of_char_def htons_def host16_def cksum_fold_def)

end
