(* ===== verification/Text.thy ===== *)
theory Text
  imports Prelude
begin

text \<open>
  The text routines every server shares: \<^verbatim>\<open>src/utils/str.cpp\<close> (\<open>split\<close>),
  \<^verbatim>\<open>src/utils/stoi.cpp\<close> and the parts of the standard library they rest on
  (\<^verbatim>\<open>std::string::find\<close>, \<^verbatim>\<open>std::stoi\<close>, \<^verbatim>\<open>std::stoull\<close>, \<^verbatim>\<open>std::to_string\<close> and
  \<^verbatim>\<open>std::format\<close> of a number).
\<close>

section \<open>std::string::find\<close>

definition starts_with :: "string \<Rightarrow> string \<Rightarrow> bool" where
  "starts_with pat s = (take (length pat) s = pat)"

fun find_sub :: "string \<Rightarrow> string \<Rightarrow> nat option" where
  "find_sub pat [] = (if pat = [] then Some 0 else None)"
| "find_sub pat (c # cs) =
     (if starts_with pat (c # cs) then Some 0 else map_option Suc (find_sub pat cs))"

lemma find_sub_Some:
  "find_sub pat s = Some i \<Longrightarrow> i + length pat \<le> length s \<and> slice_at i (length pat) s = pat"
proof (induction pat s arbitrary: i rule: find_sub.induct)
  case (2 pat c cs)
  show ?case
  proof (cases "starts_with pat (c # cs)")
    case True
    then have "take (length pat) (c # cs) = pat" by (simp add: starts_with_def)
    then have "length pat \<le> length (c # cs)" by (metis length_take min.cobounded1)
    then show ?thesis using True 2 by (simp add: starts_with_def slice_at_def)
  next
    case False
    then show ?thesis using 2 by (auto simp: slice_at_def)
  qed
qed (auto split: if_splits)

lemma starts_with_take: "starts_with pat (take n s) \<Longrightarrow> starts_with pat s"
  unfolding starts_with_def by (metis length_take min.absorb1 min.bounded_iff take_take nle_le)

lemma find_sub_take:
  "find_sub pat s = Some i \<Longrightarrow> pat \<noteq> [] \<Longrightarrow> find_sub pat (take i s) = None"
proof (induction pat s arbitrary: i rule: find_sub.induct)
  case (2 pat c cs)
  show ?case
  proof (cases "starts_with pat (c # cs)")
    case True
    then show ?thesis using 2 by simp
  next
    case False
    then obtain j where j: "find_sub pat cs = Some j" "i = Suc j" using 2 by auto
    moreover have "\<not> starts_with pat (c # take j cs)"
      using False starts_with_take[of pat "Suc j" "c # cs"] by auto
    ultimately show ?thesis using 2 False by simp
  qed
qed (auto split: if_splits)

section \<open>split\<close>

text \<open>
  The loop of \<open>split\<close> as written: a fresh search at every turn, \<open>None\<close> when it never
  ends (an empty splitter and a non-empty string).  \<open>split\<close> is the total function the
  handlers call, always with a literal splitter; they agree on every non-empty splitter.
\<close>

partial_function (option) split_loop :: "string \<Rightarrow> string \<Rightarrow> string list \<Rightarrow> string list option" where
  "split_loop s splitter out =
     (case find_sub splitter s of
        None \<Rightarrow> Some (if 0 < length s then out @ [s] else out)
      | Some pos \<Rightarrow>
          (let out = out @ [take pos s] in
           if length s - (pos + length splitter) = 0 then Some (out @ [''''])
           else split_loop (drop (pos + length splitter) s) splitter out))"

function split :: "string \<Rightarrow> string \<Rightarrow> string list" where
  "split s splitter =
     (case find_sub splitter s of
        None \<Rightarrow> if s = [] then [] else [s]
      | Some pos \<Rightarrow>
          take pos s #
          (if length s \<le> pos + length splitter \<or> splitter = [] then ['''']
           else split (drop (pos + length splitter) s) splitter))"
  by pat_completeness auto
termination
  by (relation "measure (length \<circ> fst)") (auto intro: diff_less)

declare split.simps [simp del]

lemma split_loop_split:
  "splitter \<noteq> [] \<Longrightarrow> split_loop s splitter out = Some (out @ split s splitter)"
proof (induction s splitter arbitrary: out rule: split.induct)
  case (1 s splitter)
  show ?case
    by (subst split_loop.simps, subst split.simps)
      (use 1 in \<open>auto simp: Let_def split: option.splits\<close>)
qed

text \<open>\<open>join\<close> is what \<open>split\<close> takes apart.\<close>

fun join :: "string \<Rightarrow> string list \<Rightarrow> string" where
  "join sep [] = []"
| "join sep [x] = x"
| "join sep (x # y # xs) = x @ sep @ join sep (y # xs)"

lemma split_empty [simp]: "sep \<noteq> [] \<Longrightarrow> split [] sep = []"
  by (simp add: split.simps)

lemma split_eq_Nil: "split s sep = [] \<longleftrightarrow> s = [] \<and> sep \<noteq> []"
  by (subst split.simps) (auto split: option.splits)

lemma join_split: "sep \<noteq> [] \<Longrightarrow> join sep (split s sep) = s"
proof (induction s sep rule: split.induct)
  case (1 s sep)
  show ?case
  proof (cases "find_sub sep s")
    case None
    then show ?thesis by (subst split.simps) simp
  next
    case (Some pos)
    then have f: "pos + length sep \<le> length s" "take (length sep) (drop pos s) = sep"
      by (auto dest: find_sub_Some simp: slice_at_def)
    then have s: "s = take pos s @ sep @ drop (pos + length sep) s"
      by (metis append_take_drop_id drop_drop add.commute)
    show ?thesis
    proof (cases "length s \<le> pos + length sep")
      case True
      then show ?thesis using Some s 1 by (subst split.simps) simp
    next
      case False
      let ?r = "drop (pos + length sep) s"
      have IH: "join sep (split ?r sep) = ?r" using 1 Some False by simp
      have "split ?r sep \<noteq> []" using False by (simp add: split_eq_Nil)
      then obtain y ys where "split ?r sep = y # ys" by (cases "split ?r sep") auto
      then show ?thesis using Some False IH s 1 by (subst split.simps) simp
    qed
  qed
qed

lemma split_no_sep: "sep \<noteq> [] \<Longrightarrow> x \<in> set (split s sep) \<Longrightarrow> find_sub sep x = None"
proof (induction s sep rule: split.induct)
  case (1 s sep)
  then show ?case
    by (subst (asm) (2) split.simps)
      (auto split: option.splits if_splits dest: find_sub_take)
qed

lemma find_sub_single_None: "c \<notin> set s \<Longrightarrow> find_sub [c] s = None"
  by (induction s) (auto simp: starts_with_def)

lemma find_sub_single_append: "c \<notin> set x \<Longrightarrow> find_sub [c] (x @ c # r) = Some (length x)"
  by (induction x) (auto simp: starts_with_def)

lemma split_single_None: "c \<notin> set s \<Longrightarrow> s \<noteq> [] \<Longrightarrow> split s [c] = [s]"
  by (subst split.simps) (simp add: find_sub_single_None)

lemma split_single_append:
  "c \<notin> set x \<Longrightarrow> split (x @ c # r) [c] = x # (if r = [] then [''''] else split r [c])"
  by (subst split.simps) (simp add: find_sub_single_append)

lemma join_eq_Nil: "xs \<noteq> [] \<Longrightarrow> last xs \<noteq> [] \<Longrightarrow> join sep xs \<noteq> []"
  by (induction sep xs rule: join.induct) auto

lemma split_join_single:
  "\<forall>x \<in> set xs. c \<notin> set x \<Longrightarrow> xs \<noteq> [] \<Longrightarrow> last xs \<noteq> [] \<Longrightarrow> split (join [c] xs) [c] = xs"
proof (induction "[c]" xs rule: join.induct)
  case (3 x y xs)
  then show ?case using join_eq_Nil[of "y # xs" "[c]"] by (simp add: split_single_append)
qed (simp_all add: split_single_None)

section \<open>Numbers as text\<close>

definition digit_char :: "nat \<Rightarrow> char" where
  "digit_char d = char_of (if d < 10 then 48 + d else 87 + d)"

definition char_digit :: "nat \<Rightarrow> char \<Rightarrow> nat option" where
  "char_digit base c =
     (let n = of_char c;
          d = (if 48 \<le> n \<and> n \<le> 57 then Some (n - 48)
               else if 97 \<le> n \<and> n \<le> 122 then Some (n - 87)
               else if 65 \<le> n \<and> n \<le> 90 then Some (n - 55) else None)
      in case d of None \<Rightarrow> None | Some d \<Rightarrow> if d < base then Some d else None)"

fun digits_of :: "nat \<Rightarrow> nat \<Rightarrow> nat list" where
  "digits_of base n =
     (if n < base \<or> base < 2 then [n] else digits_of base (n div base) @ [n mod base])"

declare digits_of.simps [simp del]

definition num_str :: "nat \<Rightarrow> nat \<Rightarrow> string" where
  "num_str base n = map digit_char (digits_of base n)"

definition hex2 :: "byte \<Rightarrow> string" where
  "hex2 b = [digit_char (unat b div 16), digit_char (unat b mod 16)]"

definition digits_value :: "nat \<Rightarrow> nat list \<Rightarrow> nat" where
  "digits_value base ds = foldl (\<lambda>a d. a * base + d) 0 ds"

text \<open>
  \<^verbatim>\<open>std::stoi\<close> and \<^verbatim>\<open>std::stoull\<close>: skip white space, an optional sign, in base 16 an
  optional 0x, then the longest run of digits; the two exceptions are values.
\<close>

datatype conv_exn = Invalid_argument | Out_of_range

definition is_space :: "char \<Rightarrow> bool" where
  "is_space c = (let n = (of_char c :: nat) in n = 32 \<or> 9 \<le> n \<and> n \<le> 13)"

fun take_digits :: "nat \<Rightarrow> string \<Rightarrow> nat list" where
  "take_digits base [] = []"
| "take_digits base (c # cs) =
     (case char_digit base c of None \<Rightarrow> [] | Some d \<Rightarrow> d # take_digits base cs)"

fun skip_0x :: "nat \<Rightarrow> string \<Rightarrow> string" where
  "skip_0x base (z # x # c # cs) =
     (if base = 16 \<and> z = CHR ''0'' \<and> (x = CHR ''x'' \<or> x = CHR ''X'') \<and> char_digit base c \<noteq> None
      then c # cs else z # x # c # cs)"
| "skip_0x base s = s"

definition scan_number :: "nat \<Rightarrow> string \<Rightarrow> bool \<times> nat list" where
  "scan_number base s =
     (let s1 = dropWhile is_space s;
          neg = (s1 \<noteq> [] \<and> hd s1 = CHR ''-'');
          s2 = (if s1 \<noteq> [] \<and> (hd s1 = CHR ''-'' \<or> hd s1 = CHR ''+'') then tl s1 else s1)
      in (neg, take_digits base (skip_0x base s2)))"

definition std_stoi :: "nat \<Rightarrow> string \<Rightarrow> conv_exn + int" where
  "std_stoi base s =
     (case scan_number base s of (neg, ds) \<Rightarrow>
        if ds = [] then Inl Invalid_argument
        else (let v = (if neg then - 1 else 1) * int (digits_value base ds) in
              if - (2 ^ 31) \<le> v \<and> v < 2 ^ 31 then Inr v else Inl Out_of_range))"

definition std_stoull :: "nat \<Rightarrow> string \<Rightarrow> conv_exn + u64" where
  "std_stoull base s =
     (case scan_number base s of (neg, ds) \<Rightarrow>
        if ds = [] then Inl Invalid_argument
        else (let v = digits_value base ds in
              if 2 ^ 64 \<le> v then Inl Out_of_range
              else Inr (if neg then - word_of_nat v else word_of_nat v)))"

subsection \<open>stoi.cpp\<close>

text \<open>Only \<^verbatim>\<open>std::invalid_argument\<close> is caught; \<^verbatim>\<open>std::out_of_range\<close> leaves the function.\<close>

definition my_stoi_dec :: "string \<Rightarrow> int option res" where
  "my_stoi_dec str = (case std_stoi 10 str of
      Inr v \<Rightarrow> Inr (Some v)
    | Inl e \<Rightarrow> (case e of Invalid_argument \<Rightarrow> Inr None | Out_of_range \<Rightarrow> Inl Uncaught))"

definition my_stoi_hex :: "string \<Rightarrow> int option res" where
  "my_stoi_hex str = (case std_stoi 16 str of
      Inr v \<Rightarrow> Inr (Some v)
    | Inl e \<Rightarrow> (case e of Invalid_argument \<Rightarrow> Inr None | Out_of_range \<Rightarrow> Inl Uncaught))"

definition my_stoull_hex :: "string \<Rightarrow> u64 option res" where
  "my_stoull_hex str = (case std_stoull 16 str of
      Inr v \<Rightarrow> Inr (Some v)
    | Inl e \<Rightarrow> (case e of Invalid_argument \<Rightarrow> Inr None | Out_of_range \<Rightarrow> Inl Uncaught))"

subsection \<open>Printing and reading back\<close>

lemma of_char_digit_char: "d < 36 \<Longrightarrow> (of_char (digit_char d) :: nat) = (if d < 10 then 48 + d else 87 + d)"
  by (simp add: digit_char_def)

lemma char_digit_digit_char: "d < base \<Longrightarrow> base \<le> 36 \<Longrightarrow> char_digit base (digit_char d) = Some d"
  by (auto simp: char_digit_def of_char_digit_char Let_def)

lemma take_digits_map:
  "\<forall>d \<in> set ds. d < base \<Longrightarrow> base \<le> 36 \<Longrightarrow> take_digits base (map digit_char ds) = ds"
  by (induction ds) (auto simp: char_digit_digit_char)

lemma digits_of_bound: "2 \<le> base \<Longrightarrow> d \<in> set (digits_of base n) \<Longrightarrow> d < base"
proof (induction base n rule: digits_of.induct)
  case (1 base n)
  then show ?case by (subst (asm) (2) digits_of.simps) (auto split: if_splits)
qed

lemma length_digits_of: "2 \<le> base \<Longrightarrow> n < base ^ Suc k \<Longrightarrow> length (digits_of base n) \<le> Suc k"
proof (induction k arbitrary: n)
  case 0
  then show ?case by (subst digits_of.simps) simp
next
  case (Suc k)
  have "length (digits_of base (n div base)) \<le> Suc k"
    using Suc.prems by (intro Suc.IH) (simp_all add: less_mult_imp_div_less mult.commute)
  then show ?case by (subst digits_of.simps) simp
qed

lemma digits_of_not_Nil [simp]: "digits_of base n \<noteq> []"
  by (subst digits_of.simps) simp

lemma digits_value_digits_of: "2 \<le> base \<Longrightarrow> digits_value base (digits_of base n) = n"
proof (induction base n rule: digits_of.induct)
  case (1 base n)
  then show ?case
    by (cases "n < base"; subst digits_of.simps) (auto simp: digits_value_def)
qed

text \<open>A digit is none of the characters the protocols and the number scanner give a meaning.\<close>

lemma digit_char_alnum:
  "d < 16 \<Longrightarrow> 48 \<le> (of_char (digit_char d) :: nat) \<and> (of_char (digit_char d) :: nat) \<le> 102
     \<and> (of_char (digit_char d) :: nat) \<notin> {58..96}"
  by (simp add: of_char_digit_char)

lemma digit_char_neq:
  assumes "d < 16" "(of_char c :: nat) < 48 \<or> (of_char c :: nat) \<in> {58..96} \<or> 102 < (of_char c :: nat)"
  shows "digit_char d \<noteq> c"
  using digit_char_alnum[OF assms(1)] assms(2) by auto

lemma digit_char_not_special [simp]:
  assumes "d < 16"
  shows "digit_char d \<noteq> CHR ''-''" "digit_char d \<noteq> CHR ''+''" "digit_char d \<noteq> CHR ''x''"
    "digit_char d \<noteq> CHR ''X''" "digit_char d \<noteq> CHR ''.''" "digit_char d \<noteq> CHR '':''"
    "digit_char d \<noteq> CHR ''=''" "digit_char d \<noteq> CHR ''/''" "digit_char d \<noteq> CHR 0x0A" "digit_char d \<noteq> CHR 0x00"
  by (rule digit_char_neq [OF assms]; simp)+

lemma digit_char_not_space [simp]: "d < 16 \<Longrightarrow> \<not> is_space (digit_char d)"
  using digit_char_alnum[of d] by (auto simp: is_space_def Let_def)

lemma skip_0x_digits: "\<forall>d \<in> set ds. d < 16 \<Longrightarrow> skip_0x base (map digit_char ds) = map digit_char ds"
  by (cases "(base, map digit_char ds)" rule: skip_0x.cases) auto

lemma scan_number_digits:
  assumes "\<forall>d \<in> set ds. d < base" "base \<le> 16" "ds \<noteq> []"
  shows "scan_number base (map digit_char ds) = (False, ds)"
proof -
  obtain d ds' where ds: "ds = d # ds'" using assms(3) by (cases ds) auto
  have d: "d < 16" using assms ds by auto
  have "\<forall>d \<in> set ds. d < 16" using assms by auto
  then have "skip_0x base (map digit_char ds) = map digit_char ds" by (rule skip_0x_digits)
  moreover have "take_digits base (map digit_char ds) = ds" using assms by (simp add: take_digits_map)
  ultimately show ?thesis using d by (simp add: scan_number_def ds)
qed

lemma std_stoi_digits:
  assumes "\<forall>d \<in> set ds. d < base" "base \<le> 16" "ds \<noteq> []" "digits_value base ds < 2 ^ 31"
  shows "std_stoi base (map digit_char ds) = Inr (int (digits_value base ds))"
  using assms by (simp add: std_stoi_def scan_number_digits)

lemma std_stoi_num_str:
  "2 \<le> base \<Longrightarrow> base \<le> 16 \<Longrightarrow> n < 2 ^ 31 \<Longrightarrow> std_stoi base (num_str base n) = Inr (int n)"
  unfolding num_str_def by (subst std_stoi_digits) (auto simp: digits_of_bound digits_value_digits_of)

lemma std_stoi_num_str_large:
  "2 \<le> base \<Longrightarrow> base \<le> 16 \<Longrightarrow> 2 ^ 31 \<le> n \<Longrightarrow> std_stoi base (num_str base n) = Inl Out_of_range"
  by (simp add: std_stoi_def num_str_def scan_number_digits digits_of_bound digits_value_digits_of Let_def)

lemma std_stoull_num_str:
  "2 \<le> base \<Longrightarrow> base \<le> 16 \<Longrightarrow> std_stoull base (num_str base (unat w)) = Inr w"
  using unsigned_less[of w, where 'a = nat]
  by (simp add: std_stoull_def num_str_def scan_number_digits digits_of_bound digits_value_digits_of)

section \<open>Properties\<close>

text \<open>\<open>split\<close> with a non-empty splitter always returns, and what it returns is a
  decomposition of its input: the parts, joined by the splitter, are the input again, and
  no part contains the splitter.\<close>

theorem split_loop_decomposes:
  assumes "splitter \<noteq> []"
  shows "\<exists>parts. split_loop s splitter [] = Some parts \<and> join splitter parts = s
    \<and> list_all (\<lambda>x. find_sub splitter x = None) parts"
  using assms join_split split_no_sep by (simp add: split_loop_split list_all_iff)

theorem split_loop_decomposes_witness:
  "\<exists>parts. split_loop ''action=open'' ''='' [] = Some parts \<and> join ''='' parts = ''action=open''
    \<and> list_all (\<lambda>x. find_sub ''='' x = None) parts"
  by (rule split_loop_decomposes) simp

text \<open>A number printed in hexadecimal, as \<^verbatim>\<open>std::format("{:x}")\<close> prints a session id, is
  read back by \<open>my_stoull_hex\<close>; \<open>my_stoi_hex\<close>, which reads a 32-bit signed value, reads
  it back exactly when it is below 2 to the 31st and otherwise lets an exception escape.\<close>

theorem hex_number_roundtrip:
  "my_stoull_hex (num_str 16 (unat w)) = Inr (Some w)
   \<and> my_stoi_hex (num_str 16 (unat w)) =
      (if unat w < 2 ^ 31 then Inr (Some (int (unat w))) else Inl Uncaught)"
  by (cases "unat w < 2 ^ 31")
    (simp_all add: my_stoull_hex_def my_stoi_hex_def std_stoull_num_str std_stoi_num_str std_stoi_num_str_large)

end
