(* ===== verification/Addresses.thy ===== *)
theory Addresses
  imports Text Net
begin

text \<open>
  \<^verbatim>\<open>src/utils/addresses.h\<close>: the byte-string addresses (\<^verbatim>\<open>addr_ip4\<close>, \<^verbatim>\<open>addr_mac\<close>) with
  their text forms, comparison and ordering.  The array \<^verbatim>\<open>a\<close> and its length \<^verbatim>\<open>a_len\<close> are
  one list.  The constructor from text leaves the bytes behind a part that is no number
  uninitialised; \<open>junk\<close> stands for what the allocation held there.
\<close>

type_synonym addr = bytes

definition bc_addr :: bytes where
  "bc_addr = [0xff, 0xff, 0xff, 0xff, 0xff, 0xff]"

fun addr_bytes :: "nat \<Rightarrow> (nat \<Rightarrow> byte) \<Rightarrow> nat \<Rightarrow> string list \<Rightarrow> bytes res" where
  "addr_bytes base junk i [] = Inr []"
| "addr_bytes base junk i (part # parts) =
     (case std_stoi base part of
        Inr v \<Rightarrow> res_bind (addr_bytes base junk (Suc i) parts) (\<lambda>r. Inr (word_of_int v # r))
      | Inl e \<Rightarrow> (case e of
            Invalid_argument \<Rightarrow> Inr (map junk [i ..< i + length (part # parts)])
          | Out_of_range \<Rightarrow> Inl Uncaught))"

definition addr_of_string :: "string \<Rightarrow> string \<Rightarrow> bool \<Rightarrow> (nat \<Rightarrow> byte) \<Rightarrow> addr res" where
  "addr_of_string what seperator is_hex junk =
     addr_bytes (if is_hex then 16 else 10) junk 0 (split what seperator)"

text \<open>\<^verbatim>\<open>memcmp\<close> over the length of the left operand.\<close>

definition addr_eq :: "addr \<Rightarrow> addr \<Rightarrow> bool res" where
  "addr_eq a input = res_bind (load_n input 0 (length a)) (\<lambda>b. Inr (a = b))"

definition addr_neq :: "addr \<Rightarrow> addr \<Rightarrow> bool res" where
  "addr_neq a input = res_bind (load_n input 0 (length a)) (\<lambda>b. Inr (a \<noteq> b))"

fun memcmp_less :: "bytes \<Rightarrow> bytes \<Rightarrow> bool" where
  "memcmp_less (x # xs) (y # ys) = (x < y \<or> x = y \<and> memcmp_less xs ys)"
| "memcmp_less xs ys = False"

definition addr_less :: "addr \<Rightarrow> addr \<Rightarrow> bool res" where
  "addr_less a b = res_bind (load_n b 0 (length a)) (\<lambda>b. Inr (memcmp_less a b))"

definition addr_to_str :: "addr \<Rightarrow> char \<Rightarrow> bool \<Rightarrow> string" where
  "addr_to_str a splitter hex =
     join [splitter] (map (\<lambda>b. if hex then hex2 b else num_str 10 (unat b)) a)"

section \<open>Lemmas\<close>

lemma addr_eq_same_length [simp]: "length a = length b \<Longrightarrow> addr_eq a b = Inr (a = b)"
  by (simp add: addr_eq_def)

lemma addr_neq_same_length [simp]: "length a = length b \<Longrightarrow> addr_neq a b = Inr (a \<noteq> b)"
  by (simp add: addr_neq_def)

lemma hex2_eq: "hex2 b = map digit_char [unat b div 16, unat b mod 16]"
  by (simp add: hex2_def)

lemma std_stoi_hex2: "std_stoi 16 (hex2 b) = Inr (int (unat b))"
proof -
  have "unat b div 16 < 16" using byte_lt[of b] by (simp add: less_mult_imp_div_less)
  moreover have "digits_value 16 [unat b div 16, unat b mod 16] = unat b"
    by (simp add: digits_value_def)
  ultimately show ?thesis
    unfolding hex2_eq using byte_lt[of b] by (subst std_stoi_digits) auto
qed

lemma std_stoi_dec_byte: "std_stoi 10 (num_str 10 (unat b)) = Inr (int (unat (b :: byte)))"
  using byte_lt[of b] by (simp add: std_stoi_num_str)

lemma addr_bytes_map:
  assumes "\<And>b. std_stoi base (f b) = Inr (int (unat b))"
  shows "addr_bytes base junk i (map f a) = Inr (a :: bytes)"
  by (induction a arbitrary: i) (simp_all add: assms)

lemma digit_not_in_num_str:
  "\<forall>d < 16. digit_char d \<noteq> c \<Longrightarrow> c \<notin> set (num_str 10 n)"
proof -
  assume c: "\<forall>d < 16. digit_char d \<noteq> c"
  have "digit_char d \<noteq> c" if "d \<in> set (digits_of 10 n)" for d
    using digits_of_bound[OF _ that] c by simp
  then show ?thesis by (auto simp: num_str_def)
qed

lemma digit_not_in_hex2:
  assumes "\<forall>d < 16. digit_char d \<noteq> c"
  shows "c \<notin> set (hex2 b)"
proof -
  have "unat b div 16 < 16" using byte_lt[of b] by (simp add: less_mult_imp_div_less)
  moreover have "unat b mod 16 < 16" by simp
  ultimately have "digit_char (unat b div 16) \<noteq> c" "digit_char (unat b mod 16) \<noteq> c"
    using assms by blast+
  then show ?thesis by (auto simp: hex2_def)
qed

lemma split_addr_to_str:
  assumes "a \<noteq> []" "\<forall>d < 16. digit_char d \<noteq> c"
  shows "split (addr_to_str a c hex) [c] = map (\<lambda>b. if hex then hex2 b else num_str 10 (unat b)) a"
  unfolding addr_to_str_def
proof (rule split_join_single)
  show "\<forall>x \<in> set (map (\<lambda>b. if hex then hex2 b else num_str 10 (unat b)) a). c \<notin> set x"
    using assms(2) by (auto simp: digit_not_in_num_str digit_not_in_hex2)
  show "last (map (\<lambda>b. if hex then hex2 b else num_str 10 (unat b)) a) \<noteq> []"
    using assms(1) by (simp add: last_map hex2_def num_str_def)
qed (use assms in simp)

lemma addr_of_to_str:
  "a \<noteq> [] \<Longrightarrow> addr_of_string (addr_to_str a CHR ''.'' False) ''.'' False junk = Inr a"
  "a \<noteq> [] \<Longrightarrow> addr_of_string (addr_to_str a CHR '':'' True) '':'' True junk = Inr a"
  by (simp_all add: addr_of_string_def split_addr_to_str addr_bytes_map std_stoi_hex2 std_stoi_dec_byte)

section \<open>Properties\<close>

text \<open>An address printed by \<open>to_str\<close> and parsed by the text constructor is the same
  address, in the dotted decimal form of IPv4 and in the colon-separated hexadecimal form
  of MAC addresses, whatever the fresh allocation held.\<close>

theorem addr_text_roundtrip:
  assumes "a \<noteq> []"
  shows "addr_of_string (addr_to_str a CHR ''.'' False) ''.'' False junk = Inr a
    \<and> addr_of_string (addr_to_str a CHR '':'' True) '':'' True junk = Inr a"
  using assms by (simp add: addr_of_to_str)

theorem addr_text_roundtrip_witness:
  "addr_of_string (addr_to_str [192, 168, 1, 9] CHR ''.'' False) ''.'' False (\<lambda>_. 0) = Inr [192, 168, 1, 9]
    \<and> addr_of_string (addr_to_str [192, 168, 1, 9] CHR '':'' True) '':'' True (\<lambda>_. 0) = Inr [192, 168, 1, 9]"
  by (rule addr_text_roundtrip) simp

lemma memcmp_less_trichotomy:
  "length a = length b \<Longrightarrow> memcmp_less a b \<or> a = b \<or> memcmp_less b a"
  by (induction a b rule: list_induct2) auto

lemma memcmp_less_irrefl: "\<not> memcmp_less a a"
  by (induction a) auto

lemma memcmp_less_trans:
  "memcmp_less a b \<Longrightarrow> memcmp_less b c \<Longrightarrow> memcmp_less a c"
proof (induction a b arbitrary: c rule: memcmp_less.induct)
  case (1 x xs y ys)
  then show ?case by (cases c) auto
qed simp_all

text \<open>On addresses of one length the comparator \<open>operator()\<close> used by the ARP cache is a
  strict total order that agrees with \<open>operator==\<close>: exactly one of \<open>a < b\<close>, \<open>a == b\<close>,
  \<open>b < a\<close> holds, and the order is transitive.\<close>

theorem addr_order:
  assumes "length b = length a" "length c = length a" "length x = length y"
    and "addr_less a b = Inr True" "addr_less b c = Inr True"
  shows "addr_less a c = Inr True \<and> addr_less b a = Inr False \<and> addr_eq a b = Inr False
    \<and> ((addr_less x y = Inr True) \<noteq> (addr_eq x y = Inr True \<or> addr_less y x = Inr True))"
proof -
  have "addr_less a b = Inr (memcmp_less a b)" "addr_less b a = Inr (memcmp_less b a)"
    "addr_less b c = Inr (memcmp_less b c)" "addr_less a c = Inr (memcmp_less a c)"
    "addr_eq a b = Inr (a = b)" "addr_less x y = Inr (memcmp_less x y)"
    "addr_less y x = Inr (memcmp_less y x)" "addr_eq x y = Inr (x = y)"
    using assms(1-3) by (simp_all add: addr_less_def)
  moreover have "memcmp_less x y \<or> x = y \<or> memcmp_less y x"
    using assms by (intro memcmp_less_trichotomy) simp
  moreover have "\<not> (memcmp_less u v \<and> memcmp_less v u)" "u = v \<Longrightarrow> \<not> memcmp_less u v" for u v
    using memcmp_less_irrefl memcmp_less_trans by blast+
  moreover have "memcmp_less a b \<Longrightarrow> memcmp_less b c \<Longrightarrow> memcmp_less a c" by (rule memcmp_less_trans)
  ultimately show ?thesis using assms(4,5) by (simp only: sum.inject) blast
qed

theorem addr_order_witness:
  "addr_less [10, 0, 0, 1] [10, 0, 0, 3] = Inr True \<and> addr_less [10, 0, 0, 2] [10, 0, 0, 1] = Inr False
    \<and> addr_eq [10, 0, 0, 1] [10, 0, 0, 2] = Inr False
    \<and> ((addr_less [8, 8] [8, 9] = Inr True) \<noteq> (addr_eq [8, 8] [8, 9] = Inr True \<or> addr_less [8, 9] [8, 8] = Inr True))"
  by (rule addr_order[of "[10, 0, 0, 2]" "[10, 0, 0, 1]" "[10, 0, 0, 3]"])
    (simp_all add: addr_less_def slice_at_def)

end
