(* ===== verification/Servers.thy ===== *)
theory Servers
  imports Transport Net Addresses
begin

text \<open>
  What the protocol servers have in common: reading multi-byte fields and addresses through
  pointers into a message, sending without waiting, and the report of an error to the ICMP
  server.  One iteration of a server's loop is a function of the message it took from its
  queue; it returns how often the iteration frees that message along with the new state.
\<close>

section \<open>Reads through pointers\<close>

definition get16 :: "bytes \<Rightarrow> nat \<Rightarrow> u16 res" where
  "get16 p i = res_bind (load_n p i 2) (\<lambda>b. Inr (get_uint16 b))"

definition get32 :: "bytes \<Rightarrow> nat \<Rightarrow> u32 res" where
  "get32 p i = res_bind (load_n p i 4) (\<lambda>b. Inr (get_uint32 b))"

text \<open>The checksum over a pseudo header reads four bytes of each address.\<close>

definition l4_checksum :: "addr \<Rightarrow> addr \<Rightarrow> bytes \<Rightarrow> nat \<Rightarrow> byte \<Rightarrow> u16 res" where
  "l4_checksum from_a to_a p n protocol_number =
     res_bind (load_n from_a 0 4) (\<lambda>f. res_bind (load_n to_a 0 4) (\<lambda>t. res_bind (load_n p 0 n) (\<lambda>p.
     Inr (tcp_udp_checksum f t p n protocol_number))))"

section \<open>Sending\<close>

definition post :: "'w shm_queue \<Rightarrow> string \<Rightarrow> message \<Rightarrow> 'w \<Rightarrow> (bool \<times> 'w) res" where
  "post shm dest m w = res_bind (shm dest m False w) (\<lambda>(r, m', w'). Inr (r, w'))"

definition send_icmp_error ::
  "'w shm_queue \<Rightarrow> string \<Rightarrow> byte \<Rightarrow> byte \<Rightarrow> bytes \<Rightarrow> addr \<Rightarrow> addr \<Rightarrow> 'w \<Rightarrow> 'w res" where
  "send_icmp_error shm icmp_error_name ty code payload to_a me w =
     res_bind (post shm icmp_error_name (wrap_message_up payload me to_a [ty, code] None) w) (\<lambda>(r, w). Inr w)"

section \<open>Lemmas\<close>

lemma get16_Inr [simp]: "i + 2 \<le> length p \<Longrightarrow> get16 p i = Inr (get_uint16 (slice_at i 2 p))"
  by (simp add: get16_def)

lemma get32_Inr [simp]: "i + 4 \<le> length p \<Longrightarrow> get32 p i = Inr (get_uint32 (slice_at i 4 p))"
  by (simp add: get32_def)

lemma l4_checksum_Inr [simp]:
  assumes "length f = 4" "length t = 4" "n \<le> length p"
  shows "l4_checksum f t p n proto = Inr (tcp_udp_checksum f t (take n p) n proto)"
  using assms by (simp add: l4_checksum_def slice_at_def)

lemma tcp_udp_checksum_take [simp]: "tcp_udp_checksum f t (take n p) n proto = tcp_udp_checksum f t p n proto"
  by (simp add: tcp_udp_checksum_def)

lemma tcp_udp_checksum_append [simp]:
  "n \<le> length p \<Longrightarrow> tcp_udp_checksum f t (p @ q) n proto = tcp_udp_checksum f t p n proto"
  by (simp add: tcp_udp_checksum_def)

lemma take_slice_at [simp]: "slice_at 0 n xs = take n xs"
  by (simp add: slice_at_def)

text \<open>Messages small enough for the 32-bit size field of the header.\<close>

definition small :: "nat \<Rightarrow> bool" where
  "small n \<longleftrightarrow> n < 1000000"

lemma small_pow [simp]: "small n \<Longrightarrow> n < 2 ^ 64" "small n \<Longrightarrow> n < 18446744073709551616"
  by (simp_all add: small_def)

text \<open>Messages that carry a text.\<close>

lemma filled_in_text:
  assumes "s \<noteq> []" "small (length s)"
  shows "filled_in ((allocate_shm_message (length s))\<lparr> msg_type := ty, msg_data := to_bytes s \<rparr>)"
    "filled_in ((allocate_shm_message (length s))\<lparr> msg_type := ty, msg_nr := nr, msg_data := to_bytes s \<rparr>)"
proof -
  have "unat (word_of_nat (length s) :: u32) = length s" using assms(2) by (intro unat_of_nat_u32) (simp add: small_def)
  then have "(word_of_nat (length s) :: u32) \<noteq> 0" "unat (word_of_nat (length s) :: u32) = length s"
    using assms(1) by (metis length_0_conv unat_0, simp)
  then show "filled_in ((allocate_shm_message (length s))\<lparr> msg_type := ty, msg_data := to_bytes s \<rparr>)"
    "filled_in ((allocate_shm_message (length s))\<lparr> msg_type := ty, msg_nr := nr, msg_data := to_bytes s \<rparr>)"
    by (simp_all add: filled_in_def allocate_shm_message_def)
qed

context transport
begin

lemma post_law:
  assumes "ok w" "filled_in m"
  shows "\<exists>r w'. post shm dest m w = Inr (r, w') \<and> ok w' \<and> posted ib cap lid w dest m r w'"
  using send_law[OF assms, of dest] by (auto simp: post_def)

lemma post_up:
  assumes "ok w" "small (length full)" "small (length f)" "small (length t)" "small (length pl)"
  shows "\<exists>r w'. post shm dest (wrap_message_up full f t pl rt) w = Inr (r, w') \<and> ok w'
    \<and> posted ib cap lid w dest (wrap_message_up full f t pl rt) r w'"
  unfolding wrap_message_up_def
  using assms by (intro post_law filled_in_envelope) (auto simp: small_def)

lemma post_down:
  assumes "ok w" "small (length f)" "small (length t)" "small (length pl)"
  shows "\<exists>r w'. post shm dest (wrap_message_down f t pl rt) w = Inr (r, w') \<and> ok w'
    \<and> posted ib cap lid w dest (wrap_message_down f t pl rt) r w'"
  unfolding wrap_message_down_def
  using assms by (intro post_law filled_in_envelope) (auto simp: small_def)

lemma send_icmp_error_posts:
  assumes "ok w" "small (length payload)" "small (length to_a)" "small (length me)"
  shows "\<exists>r w'. send_icmp_error shm icmp ty code payload to_a me w = Inr w' \<and> ok w'
    \<and> posted ib cap lid w icmp (wrap_message_up payload me to_a [ty, code] None) r w'"
proof -
  have "small (length [ty, code])" by (simp add: small_def)
  from post_up[OF assms(1,2,4,3) this, of icmp None] show ?thesis
    by (auto simp: send_icmp_error_def)
qed

end

text \<open>The world after every server has started: empty queues under all names.\<close>

definition idle_net :: net where
  "idle_net = \<lparr> segs = (\<lambda>_. Some (begin_segment None 1048576)), os_up = (\<lambda>_. True), clock = 0 \<rparr>"

lemma idle_net_ok: "net_ok idle_net"
  by (simp add: net_ok_def idle_net_def begin_segment_empty)

lemma total_size_begin_segment: "total_size (begin_segment old sz) = sz"
  by (simp add: begin_segment_def split: option.split)

lemma idle_net_room: "padded_length m \<le> 1048576 \<Longrightarrow> has_room (inbox idle_net) (capacity idle_net) dest m"
  by (simp add: has_room_def inbox_def capacity_def idle_net_def begin_segment_empty total_size_begin_segment)

end
