(* ===== verification/Arp.thy ===== *)
theory Arp
  imports Servers
begin

text \<open>
  \<^verbatim>\<open>src/arp_server.cpp\<close>: answers ARP requests for the own address, learns from replies and
  resolves addresses for the IPv4 server.
\<close>

section \<open>State\<close>

record request =
  rq_mac :: "addr option"
  rq_ip4 :: "addr option"
  searched_by :: string
  rq_msg_nr :: u64

record arp_state =
  requests :: "request list"
  arp_cache :: "(addr \<times> addr) list"

text \<open>
  The cache is a \<^verbatim>\<open>std::map\<close> under \<^verbatim>\<open>memcmp\<close> over the length of the left key; its keys have
  four bytes, and looking up a key of another length compares outside of an array.
\<close>

definition arp_cache_find :: "addr \<Rightarrow> (addr \<times> addr) list \<Rightarrow> addr option res" where
  "arp_cache_find a cache =
     (if length a \<noteq> 4 \<and> cache \<noteq> [] then Inl Out_of_bounds else Inr (map_of cache a))"

text \<open>An entry goes in front of the first greater key; \<^verbatim>\<open>insert\<close> keeps the value of a key it has.\<close>

fun arp_cache_place :: "addr \<Rightarrow> addr \<Rightarrow> (addr \<times> addr) list \<Rightarrow> (addr \<times> addr) list" where
  "arp_cache_place a mac [] = [(a, mac)]"
| "arp_cache_place a mac ((b, x) # cache) =
     (if memcmp_less a b then (a, mac) # (b, x) # cache else (b, x) # arp_cache_place a mac cache)"

definition arp_cache_insert :: "addr \<Rightarrow> addr \<Rightarrow> (addr \<times> addr) list \<Rightarrow> (addr \<times> addr) list" where
  "arp_cache_insert a mac cache = (if map_of cache a = None then arp_cache_place a mac cache else cache)"

definition push_resolver_reply :: "'w shm_queue \<Rightarrow> string \<Rightarrow> string \<Rightarrow> u64 \<Rightarrow> 'w \<Rightarrow> 'w res" where
  "push_resolver_reply shm_resolver dest reply nr w =
     res_bind (post shm_resolver dest ((allocate_shm_message (length reply))\<lparr> msg_type := msg_reply, msg_nr := nr,
       msg_data := to_bytes reply \<rparr>) w) (\<lambda>(r, w). Inr w)"

definition ip4_mac_reply :: "addr \<Rightarrow> addr \<Rightarrow> string" where
  "ip4_mac_reply ip4 mac = ''ip4:'' @ addr_to_str ip4 CHR ''.'' False @ ''=mac:'' @ addr_to_str mac CHR '':'' True"

definition mac_ip4_reply :: "addr \<Rightarrow> addr \<Rightarrow> string" where
  "mac_ip4_reply mac ip4 = ''mac:'' @ addr_to_str mac CHR '':'' True @ ''=ip4:'' @ addr_to_str ip4 CHR ''.'' False"

text \<open>\<open>addr::get\<close> into a buffer.\<close>

definition addr_get :: "addr \<Rightarrow> nat \<Rightarrow> bytes \<Rightarrow> bytes res" where
  "addr_get a ofs buf = res_bind (assert_that (a \<noteq> [])) (\<lambda>_. store ofs a buf)"

section \<open>The resolver\<close>

text \<open>The packet that asks for an address: 44 bytes, of which ARP needs 28.\<close>

definition arp_request_packet :: "addr \<Rightarrow> addr \<Rightarrow> addr \<Rightarrow> addr \<Rightarrow> bytes res" where
  "arp_request_packet sha spa tha tpa =
     res_bind (addr_get sha 8 ([0, 1, 0x08, 0x00, 6, 4, 0x00, 1] @ replicate 36 0)) (\<lambda>req.
     res_bind (addr_get spa 14 req) (\<lambda>req.
     res_bind (addr_get tha 18 req) (\<lambda>req.
     addr_get tpa 24 req)))"

text \<open>The request is remembered, then broadcast.  Its \<open>msg_nr\<close> is never set: it keeps what the
  stack held (\<open>junk_nr\<close>).\<close>

definition arp_ask ::
  "'w shm_queue \<Rightarrow> string \<Rightarrow> u64 \<Rightarrow> message \<Rightarrow> addr option \<Rightarrow> addr option \<Rightarrow> addr \<Rightarrow> addr \<Rightarrow> addr \<Rightarrow> arp_state \<Rightarrow> 'w
    \<Rightarrow> (nat \<times> arp_state \<times> 'w) res" where
  "arp_ask shm_out out_name junk_nr m r_mac r_ip4 sha spa tpa st w =
     (let r = \<lparr> rq_mac = r_mac, rq_ip4 = r_ip4, searched_by = c_str (sender m), rq_msg_nr = junk_nr \<rparr>;
          st = st\<lparr> requests := requests st @ [r] \<rparr>
      in res_bind (arp_request_packet sha spa bc_addr tpa) (\<lambda>req.
         res_bind (post shm_out out_name (wrap_message_down sha bc_addr req None) w) (\<lambda>(r, w).
         Inr (1, st, w))))"

definition arp_run_resolver ::
  "'w shm_queue \<Rightarrow> addr \<Rightarrow> addr \<Rightarrow> string \<Rightarrow> 'w shm_queue \<Rightarrow> (nat \<Rightarrow> byte) \<Rightarrow> u64 \<Rightarrow> message \<Rightarrow> arp_state \<Rightarrow> 'w
    \<Rightarrow> (nat \<times> arp_state \<times> 'w) res" where
  "arp_run_resolver shm_resolver ip4_addr mac out_name shm_out junk junk_nr m st w =
     res_bind (load_n (msg_data m) 0 (unat (msg_size m))) (\<lambda>d.
     case split (of_bytes d) ''='' of
       [cmd, arg] \<Rightarrow>
         if cmd = ''search-mac'' then
           res_bind (addr_of_string arg ''.'' False junk) (\<lambda>ip4.
           res_bind (addr_eq ip4 ip4_addr) (\<lambda>me.
           if me then
             res_bind (push_resolver_reply shm_resolver (c_str (sender m)) (ip4_mac_reply ip4 mac) (msg_nr m) w) (\<lambda>w.
             Inr (1, st, w))
           else res_bind (arp_cache_find ip4 (arp_cache st)) (\<lambda>hit.
           case hit of
             Some a \<Rightarrow>
               res_bind (push_resolver_reply shm_resolver (c_str (sender m)) (ip4_mac_reply ip4 a) (msg_nr m) w) (\<lambda>w.
               Inr (1, st, w))
           | None \<Rightarrow> arp_ask shm_out out_name junk_nr m None (Some ip4) mac ip4_addr ip4 st w)))
         else if cmd = ''search-ip4'' then
           res_bind (addr_of_string arg '':'' True junk) (\<lambda>a.
           arp_ask shm_out out_name junk_nr m (Some a) None a (replicate 4 0) (replicate 4 0) st w)
         else Inr (1, st, w)
     | _ \<Rightarrow> Inr (1, st, w))"

text \<open>What a request is answered when \<open>spa\<close> is found at \<open>sha\<close>.\<close>

definition request_reply :: "addr \<Rightarrow> addr \<Rightarrow> request \<Rightarrow> string res" where
  "request_reply sha spa item =
     res_bind (case rq_mac item of None \<Rightarrow> Inr False | Some a \<Rightarrow> addr_eq a sha) (\<lambda>by_mac.
     if by_mac then Inr (mac_ip4_reply (the (rq_mac item)) spa)
     else res_bind (case rq_ip4 item of None \<Rightarrow> Inr False | Some a \<Rightarrow> addr_eq a spa) (\<lambda>by_ip4.
     Inr (if by_ip4 then ip4_mac_reply (the (rq_ip4 item)) sha else [])))"

fun register_resolve_reply ::
  "'w shm_queue \<Rightarrow> addr \<Rightarrow> addr \<Rightarrow> request list \<Rightarrow> 'w \<Rightarrow> (request list \<times> 'w) res" where
  "register_resolve_reply shm_resolver sha spa [] w = Inr ([], w)"
| "register_resolve_reply shm_resolver sha spa (item # items) w =
     res_bind (request_reply sha spa item) (\<lambda>reply.
     if reply \<noteq> [] then
       res_bind (push_resolver_reply shm_resolver (searched_by item) reply (rq_msg_nr item) w) (\<lambda>w.
       register_resolve_reply shm_resolver sha spa items w)
     else res_bind (register_resolve_reply shm_resolver sha spa items w) (\<lambda>(items, w). Inr (item # items, w)))"

section \<open>Ethernet to ARP\<close>

text \<open>The answer to a request for the own address.\<close>

definition arp_reply_packet :: "addr \<Rightarrow> bytes \<Rightarrow> bytes res" where
  "arp_reply_packet mac_addr pl =
     (let sha = slice_at 8 6 pl; spa = slice_at 14 4 pl; tpa = slice_at 24 4 pl in
      res_bind (addr_get sha 18 (take 28 pl)) (\<lambda>out.
      let out = put_at 6 [0, 2] out in
      res_bind (addr_get mac_addr 8 out) (\<lambda>out.
      res_bind (addr_get spa 24 out) (\<lambda>out.
      res_bind (addr_get tpa 14 out) (\<lambda>out.
      res_bind (addr_neq spa tpa) (\<lambda>differ.
      res_bind (assert_that differ) (\<lambda>_. Inr out)))))))"

definition arp_run_in ::
  "'w shm_queue \<Rightarrow> addr \<Rightarrow> addr \<Rightarrow> 'w shm_queue \<Rightarrow> message \<Rightarrow> arp_state \<Rightarrow> 'w \<Rightarrow> (nat \<times> arp_state \<times> 'w) res" where
  "arp_run_in shm mac_addr ip4_addr shm_resolver m st w =
     res_bind (unwrap_message_up (msg_data m)) (\<lambda>v.
     if up_from_len v \<noteq> 6 \<or> up_to_len v \<noteq> 6 then Inr (1, st, w)
     else if up_pl_len v < 28 then Inr (1, st, w)
     else res_bind (load_n (up_pl v) 0 28) (\<lambda>pl.
     if get_uint16 (slice_at 0 2 pl) \<noteq> 1 then Inr (1, st, w)
     else if get_uint16 (slice_at 2 2 pl) \<noteq> 0x0800 then Inr (1, st, w)
     else if pl ! 4 \<noteq> 6 then Inr (1, st, w)
     else if pl ! 5 \<noteq> 4 then Inr (1, st, w)
     else
       let sha = slice_at 8 6 pl; spa = slice_at 14 4 pl; tpa = slice_at 24 4 pl;
           operation = get_uint16 (slice_at 6 2 pl)
       in
       if operation = 1 then
         res_bind (addr_eq tpa ip4_addr) (\<lambda>known.
         if known then
           res_bind (arp_reply_packet mac_addr pl) (\<lambda>out.
           res_bind (addr_get mac_addr 0 (replicate 6 0)) (\<lambda>from_a.
           res_bind (post shm (c_str (sender m)) (wrap_message_down from_a sha out (Some (msg_nr m))) w) (\<lambda>(r, w).
           Inr (1, st, w))))
         else Inr (1, st, w))
       else if operation = 2 then
         let st = st\<lparr> arp_cache := arp_cache_insert spa sha (arp_cache st) \<rparr> in
         res_bind (register_resolve_reply shm_resolver sha spa (requests st) w) (\<lambda>(rqs, w).
         Inr (1, st\<lparr> requests := rqs \<rparr>, w))
       else Inr (1, st, w)))"

section \<open>Start-up\<close>

definition send_meta_request :: "'w shm_queue \<Rightarrow> string \<Rightarrow> string \<Rightarrow> 'w \<Rightarrow> (u64 option \<times> 'w) res" where
  "send_meta_request shm_meta peer_name req w =
     res_bind (shm_meta peer_name ((allocate_shm_message (length req))\<lparr> msg_type := msg_new, msg_data := to_bytes req \<rparr>) True w)
       (\<lambda>(r, m, w). Inr (if r then Some (msg_nr m) else None, w))"

text \<open>What \<open>cfg_runtime\<close> takes from a reply: the address behind the expected prefix.\<close>

definition meta_reply_addr :: "string \<Rightarrow> string \<Rightarrow> bool \<Rightarrow> (nat \<Rightarrow> byte) \<Rightarrow> message \<Rightarrow> addr option res" where
  "meta_reply_addr pre sep hex junk reply =
     res_bind (load_n (msg_data reply) 0 (unat (msg_size reply))) (\<lambda>d.
     let s = of_bytes d in
     if take 4 s = pre then res_bind (addr_of_string (drop 4 s) sep hex junk) (\<lambda>a. Inr (Some a))
     else Inr None)"

text \<open>One turn of \<open>cfg_runtime\<close>: what is not known yet is asked for; \<open>mac_reply\<close> and
  \<open>ip4_reply\<close> are what the waits for the two replies return.\<close>

definition cfg_ask ::
  "'w shm_queue \<Rightarrow> string \<Rightarrow> string \<Rightarrow> (message \<Rightarrow> addr option res) \<Rightarrow> message option \<Rightarrow> addr option \<Rightarrow> 'w \<Rightarrow> (addr option \<times> 'w) res" where
  "cfg_ask shm_meta peer req parse_reply answer known w =
     (case known of
        Some a \<Rightarrow> Inr (Some a, w)
      | None \<Rightarrow>
          res_bind (send_meta_request shm_meta peer req w) (\<lambda>(nr, w).
          case (nr, answer) of
            (Some _, Some reply) \<Rightarrow> res_bind (parse_reply reply) (\<lambda>a. Inr (a, w))
          | _ \<Rightarrow> Inr (None, w)))"

definition cfg_runtime_turn ::
  "'w shm_queue \<Rightarrow> string \<Rightarrow> string \<Rightarrow> (nat \<Rightarrow> byte) \<Rightarrow> message option \<Rightarrow> message option
    \<Rightarrow> addr option \<times> addr option \<Rightarrow> 'w \<Rightarrow> ((addr option \<times> addr option) \<times> 'w) res" where
  "cfg_runtime_turn shm_meta meta_name_Ethernet_server meta_name_ip4_server junk mac_reply ip4_reply known w =
     res_bind (cfg_ask shm_meta meta_name_Ethernet_server ''get-mac'' (meta_reply_addr ''mac='' '':'' True junk)
                 mac_reply (fst known) w) (\<lambda>(mac_addr, w).
     res_bind (cfg_ask shm_meta meta_name_ip4_server ''get-ip4'' (meta_reply_addr ''ip4='' ''.'' False junk)
                 ip4_reply (snd known) w) (\<lambda>(ip4_addr, w).
     Inr ((mac_addr, ip4_addr), w)))"


section \<open>Lemmas\<close>

text \<open>The cache as a map: the order of its keys, and what inserting does.\<close>

definition cache_sorted :: "(addr \<times> addr) list \<Rightarrow> bool" where
  "cache_sorted cache \<longleftrightarrow> sorted_wrt memcmp_less (map fst cache)"

lemma set_arp_cache_place [simp]: "set (arp_cache_place a mac cache) = insert (a, mac) (set cache)"
  by (induction a mac cache rule: arp_cache_place.induct) auto

lemma set_arp_cache_insert: "set (arp_cache_insert a mac cache) \<subseteq> insert (a, mac) (set cache)"
  by (auto simp: arp_cache_insert_def)

lemma map_of_arp_cache_place: "map_of cache a = None \<Longrightarrow> map_of (arp_cache_place a mac cache) = (map_of cache)(a \<mapsto> mac)"
  by (induction a mac cache rule: arp_cache_place.induct) (auto simp: fun_eq_iff split: if_splits)

lemma map_of_arp_cache_insert:
  "map_of (arp_cache_insert a mac cache) = (if map_of cache a = None then (map_of cache)(a \<mapsto> mac) else map_of cache)"
  by (simp add: arp_cache_insert_def map_of_arp_cache_place)

lemma arp_cache_place_sorted:
  assumes "cache_sorted cache" "a \<notin> fst ` set cache" "\<forall>b \<in> fst ` set cache. length b = length a"
  shows "cache_sorted (arp_cache_place a mac cache)"
  using assms
proof (induction a mac cache rule: arp_cache_place.induct)
  case (2 a mac b x cache)
  have "memcmp_less a b \<or> memcmp_less b a" using 2(3,4) memcmp_less_trichotomy[of a b] by auto
  then show ?case using 2 by (auto simp: cache_sorted_def intro: memcmp_less_trans)
qed (simp add: cache_sorted_def)

lemma arp_cache_insert_sorted:
  assumes "cache_sorted cache" "\<forall>b \<in> fst ` set cache. length b = length a"
  shows "cache_sorted (arp_cache_insert a mac cache)"
  using assms arp_cache_place_sorted[OF assms(1) _ assms(2)] by (auto simp: arp_cache_insert_def map_of_eq_None_iff)

text \<open>An ARP packet for IPv4 over Ethernet.\<close>

definition arp_pkt :: "byte \<Rightarrow> addr \<Rightarrow> addr \<Rightarrow> addr \<Rightarrow> addr \<Rightarrow> bytes" where
  "arp_pkt oper sha spa tha tpa = [0, 1, 0x08, 0x00, 6, 4, 0, oper] @ sha @ spa @ tha @ tpa"

definition arp_addrs :: "addr \<Rightarrow> addr \<Rightarrow> addr \<Rightarrow> addr \<Rightarrow> bool" where
  "arp_addrs sha spa tha tpa \<longleftrightarrow> length sha = 6 \<and> length spa = 4 \<and> length tha = 6 \<and> length tpa = 4"

lemma arp_pkt_fields:
  assumes "arp_addrs sha spa tha tpa"
  shows "length (arp_pkt oper sha spa tha tpa) = 28"
    "slice_at 8 6 (arp_pkt oper sha spa tha tpa) = sha" "slice_at 14 4 (arp_pkt oper sha spa tha tpa) = spa"
    "slice_at 24 4 (arp_pkt oper sha spa tha tpa) = tpa"
    "get_uint16 (take 2 (arp_pkt oper sha spa tha tpa)) = 1"
    "get_uint16 (slice_at 2 2 (arp_pkt oper sha spa tha tpa)) = 0x0800"
    "get_uint16 (slice_at 6 2 (arp_pkt oper sha spa tha tpa)) = ucast oper"
    "arp_pkt oper sha spa tha tpa ! 4 = 6" "arp_pkt oper sha spa tha tpa ! 5 = 4"
  using assms by (simp_all add: arp_pkt_def arp_addrs_def slice_at_def get_uint16_def)

lemma addr_get_Inr: "a \<noteq> [] \<Longrightarrow> ofs + length a \<le> length buf \<Longrightarrow> addr_get a ofs buf = Inr (put_at ofs a buf)"
  by (simp add: addr_get_def)

lemma arp_reply_packet_ok:
  assumes "arp_addrs sha spa tha tpa" "length mac = 6" "spa \<noteq> tpa"
  shows "arp_reply_packet mac (arp_pkt 1 sha spa tha tpa) = Inr (arp_pkt 2 mac tpa sha spa)"
proof -
  have ne: "sha \<noteq> []" "spa \<noteq> []" "tpa \<noteq> []" "mac \<noteq> []" using assms by (auto simp: arp_addrs_def)
  let ?h = "[0, 1, 0x08, 0x00, 6, 4] :: bytes"
  have 1: "arp_pkt 1 sha spa tha tpa = ?h @ [0, 1] @ sha @ spa @ tha @ tpa" by (simp add: arp_pkt_def)
  have "put_at 14 tpa (put_at 24 spa (put_at 8 mac (put_at 6 [0, 2] (put_at 18 sha (?h @ [0, 1] @ sha @ spa @ tha @ tpa)))))
    = ?h @ [0, 2] @ mac @ tpa @ sha @ spa"
    using assms by (simp add: put_at_def arp_addrs_def)
  then have 2: "put_at 14 tpa (put_at 24 spa (put_at 8 mac (put_at 6 [0, 2] (put_at 18 sha (arp_pkt 1 sha spa tha tpa)))))
    = arp_pkt 2 mac tpa sha spa" unfolding 1 by (simp add: arp_pkt_def)
  have l: "length (arp_pkt 1 sha spa tha tpa) = 28" by (rule arp_pkt_fields[OF assms(1)])
  show ?thesis using assms ne 2 l arp_pkt_fields(2-4)[OF assms(1), of 1]
    by (simp add: arp_reply_packet_def Let_def addr_get_Inr length_put_at arp_addrs_def)
qed

lemma arp_reply_packet_crash:
  assumes "arp_addrs sha spa tha spa" "length mac = 6"
  shows "arp_reply_packet mac (arp_pkt 1 sha spa tha spa) = Inl Assert_failed"
proof -
  have ne: "sha \<noteq> []" "spa \<noteq> []" "mac \<noteq> []" using assms by (auto simp: arp_addrs_def)
  have l: "length (arp_pkt 1 sha spa tha spa) = 28" by (rule arp_pkt_fields[OF assms(1)])
  show ?thesis using assms ne l arp_pkt_fields(2-4)[OF assms(1), of 1]
    by (simp add: arp_reply_packet_def Let_def addr_get_Inr length_put_at arp_addrs_def)
qed

lemmas arp_in_simps = arp_run_in_def unwrap_wrap_up Let_def

text \<open>A request for the own address that names the own address as its sender's trips the assertion.\<close>

lemma arp_in_own_address:
  assumes "arp_addrs sha spa tha spa" "length mac = 6" "small (length full)" "small (length trail)"
    and "length smac = 6" "length dmac = 6"
    and "msg_data m = wrap_up full smac dmac (arp_pkt 1 sha spa tha spa @ trail) @ pad"
  shows "arp_run_in shm mac spa shm_resolver m st w = Inl Assert_failed"
proof -
  let ?p = "arp_pkt 1 sha spa tha spa"
  note f = arp_pkt_fields[OF assms(1), of 1]
  have tk: "take 28 (?p @ xs) = ?p" for xs using f(1) by simp
  have "length spa = 4" using assms(1) by (simp add: arp_addrs_def)
  then show ?thesis
    using assms(3-7) f tk[of "trail @ full @ pad"] arp_reply_packet_crash[OF assms(1,2)]
    by (simp add: arp_in_simps small_def)
qed

context transport
begin

lemma arp_in_request:
  assumes "ok w" "arp_addrs sha spa tha tpa" "length mac = 6" "spa \<noteq> tpa" "small (length full)" "small (length trail)"
    and "length smac = 6" "length dmac = 6"
    and "msg_data m = wrap_up full smac dmac (arp_pkt 1 sha spa tha tpa @ trail) @ pad"
  shows "\<exists>r w'. arp_run_in shm mac tpa shm_resolver m st w = Inr (1, st, w') \<and> ok w'
    \<and> posted ib cap lid w (c_str (sender m)) (wrap_message_down mac sha (arp_pkt 2 mac tpa sha spa) (Some (msg_nr m))) r w'"
proof -
  let ?p = "arp_pkt 1 sha spa tha tpa"
  note f = arp_pkt_fields[OF assms(2), of 1]
  have "length (arp_pkt 2 mac tpa sha spa) = 28"
    using assms(2,3) by (intro arp_pkt_fields) (simp add: arp_addrs_def)
  then have "small (length mac)" "small (length sha)" "small (length (arp_pkt 2 mac tpa sha spa))"
    using assms by (simp_all add: small_def arp_addrs_def)
  from post_down[OF assms(1) this, of "c_str (sender m)" "Some (msg_nr m)"]
  obtain r w' where p: "post shm (c_str (sender m)) (wrap_message_down mac sha (arp_pkt 2 mac tpa sha spa) (Some (msg_nr m))) w = Inr (r, w')"
    "ok w'" "posted ib cap lid w (c_str (sender m)) (wrap_message_down mac sha (arp_pkt 2 mac tpa sha spa) (Some (msg_nr m))) r w'" by blast
  have tk: "take 28 (?p @ xs) = ?p" for xs using f(1) by simp
  have me: "addr_get mac 0 (replicate 6 0) = Inr mac"
    using assms(3) by (subst addr_get_Inr) (auto simp: put_at_def)
  have "length tpa = 4" using assms(2) by (simp add: arp_addrs_def)
  then have "arp_run_in shm mac tpa shm_resolver m st w = Inr (1, st, w')"
    using assms(5-9) f p(1) me tk[of "trail @ full @ pad"] arp_reply_packet_ok[OF assms(2-4)]
    by (simp add: arp_in_simps small_def)
  then show ?thesis using p by blast
qed

end


section \<open>Learning\<close>

definition wf_request :: "request \<Rightarrow> bool" where
  "wf_request r \<longleftrightarrow> (\<forall>a. rq_mac r = Some a \<longrightarrow> length a = 6) \<and> (\<forall>a. rq_ip4 r = Some a \<longrightarrow> length a = 4)"

definition answers :: "addr \<Rightarrow> addr \<Rightarrow> request \<Rightarrow> bool" where
  "answers sha spa r \<longleftrightarrow> rq_mac r = Some sha \<or> rq_ip4 r = Some spa"

text \<open>The reply text of a request that is answered.\<close>

definition answer_text :: "addr \<Rightarrow> addr \<Rightarrow> request \<Rightarrow> string" where
  "answer_text sha spa r = (if rq_mac r = Some sha then mac_ip4_reply sha spa else ip4_mac_reply spa sha)"

definition resolver_reply :: "string \<Rightarrow> u64 \<Rightarrow> message" where
  "resolver_reply reply nr = (allocate_shm_message (length reply))\<lparr> msg_type := msg_reply, msg_nr := nr, msg_data := to_bytes reply \<rparr>"

lemma request_reply_eq:
  assumes "wf_request r" "length sha = 6" "length spa = 4"
  shows "request_reply sha spa r = Inr (if answers sha spa r then answer_text sha spa r else [])"
  using assms
  by (auto simp: request_reply_def answers_def answer_text_def wf_request_def split: option.split)

lemma answer_text_not_Nil [simp]: "answer_text sha spa r \<noteq> []"
  by (simp add: answer_text_def mac_ip4_reply_def ip4_mac_reply_def)

lemma length_join: "length (join [c] xs) \<le> sum_list (map length xs) + length xs"
  by (induction "[c]" xs rule: join.induct) auto

lemma length_hex2: "length (hex2 b) = 2"
  by (simp add: hex2_def)

lemma length_addr_text: "length (addr_to_str a c h) \<le> 4 * length a"
proof -
  have "length (if h then hex2 b else num_str 10 (unat b)) \<le> 3" for b :: byte
    using length_digits_of[of 10 "unat b" 2] byte_lt[of b] by (simp add: length_hex2 num_str_def)
  then have "sum_list (map length (map (\<lambda>b. if h then hex2 b else num_str 10 (unat b)) a)) \<le> 3 * length a"
    by (induction a) (auto simp: le_diff_conv intro: add_mono)
  then show ?thesis using length_join[of c "map (\<lambda>b. if h then hex2 b else num_str 10 (unat b)) a"] by (simp add: addr_to_str_def)
qed

lemma small_addr_text: "length a \<le> 6 \<Longrightarrow> length (addr_to_str a c h) \<le> 24"
  using length_addr_text[of a c h] by simp

lemma small_replies:
  assumes "length mac = 6" "length ip4 = 4"
  shows "small (length (ip4_mac_reply ip4 mac))" "small (length (mac_ip4_reply mac ip4))"
  using small_addr_text[of mac "CHR '':''" True] small_addr_text[of ip4 "CHR ''.''" False] assms
  by (simp_all add: ip4_mac_reply_def mac_ip4_reply_def small_def)

context transport
begin

lemma push_resolver_reply_posts:
  assumes "ok w" "reply \<noteq> []" "small (length reply)"
  shows "\<exists>r w'. push_resolver_reply shm dest reply nr w = Inr w' \<and> ok w'
    \<and> posted ib cap lid w dest (resolver_reply reply nr) r w'"
  using post_law[OF assms(1) filled_in_text(2)[OF assms(2,3), where ty = msg_reply and nr = nr], of dest]
  by (auto simp: push_resolver_reply_def resolver_reply_def)

lemma register_resolve_reply_answers:
  assumes "ok w" "list_all wf_request rqs" "length sha = 6" "length spa = 4"
  shows "\<exists>w'. register_resolve_reply shm sha spa rqs w = Inr (filter (\<lambda>r. \<not> answers sha spa r) rqs, w') \<and> ok w'
    \<and> posted_seq ib cap lid w (map (\<lambda>r. (searched_by r, resolver_reply (answer_text sha spa r) (rq_msg_nr r)))
        (filter (answers sha spa) rqs)) w'"
  using assms(1,2)
proof (induction rqs arbitrary: w)
  case (Cons r rqs)
  have e: "request_reply sha spa r = Inr (if answers sha spa r then answer_text sha spa r else [])"
    using Cons.prems assms(3,4) by (intro request_reply_eq) simp_all
  show ?case
  proof (cases "answers sha spa r")
    case True
    have "small (length (answer_text sha spa r))"
      using small_replies[OF assms(3,4)] by (simp add: answer_text_def)
    from push_resolver_reply_posts[OF Cons.prems(1) _ this, of "searched_by r" "rq_msg_nr r"]
    obtain x w1 where 1: "push_resolver_reply shm (searched_by r) (answer_text sha spa r) (rq_msg_nr r) w = Inr w1" "ok w1"
      "posted ib cap lid w (searched_by r) (resolver_reply (answer_text sha spa r) (rq_msg_nr r)) x w1" by auto
    from Cons.IH[OF 1(2)] Cons.prems obtain w' where
      "register_resolve_reply shm sha spa rqs w1 = Inr (filter (\<lambda>r. \<not> answers sha spa r) rqs, w')" "ok w'"
      "posted_seq ib cap lid w1 (map (\<lambda>r. (searched_by r, resolver_reply (answer_text sha spa r) (rq_msg_nr r)))
        (filter (answers sha spa) rqs)) w'" by auto
    then show ?thesis using 1 e True by auto
  next
    case False
    from Cons.IH[OF Cons.prems(1)] Cons.prems show ?thesis using e False by auto
  qed
qed simp

end


section \<open>Properties\<close>

text \<open>C25: A request for the own address is answered to the server it came from, as a reply to
  that very message, by an ARP reply that gives the own MAC address to the asker, and nothing else changes;
  but when the asker's IPv4 address in it is the own address too (an address announced or probed by another
  host), the assertion that the two differ ends the server.\<close>

theorem arp_answers_request:
  assumes "net_ok w" "length lid < max_id_length"
    and "arp_addrs sha spa tha tpa" "length mac = 6" "small (length full)" "small (length trail)"
    and "length smac = 6" "length dmac = 6"
    and "msg_data m = wrap_up full smac dmac (arp_pkt 1 sha spa tha tpa @ trail) @ pad"
  shows "if spa = tpa then arp_run_in (send_message lid) mac tpa shm_resolver m st w = Inl Assert_failed
    else \<exists>r w'. arp_run_in (send_message lid) mac tpa shm_resolver m st w = Inr (1, st, w') \<and> net_ok w'
      \<and> posted inbox capacity lid w (c_str (sender m)) (wrap_message_down mac sha (arp_pkt 2 mac tpa sha spa) (Some (msg_nr m))) r w'"
proof (cases "spa = tpa")
  case True
  then show ?thesis using arp_in_own_address[where trail = trail] assms(3-9) by simp
next
  case False
  then show ?thesis using transport.arp_in_request[OF shm_transport[OF assms(2)] assms(1,3,4) False assms(5-9)] by simp
qed

definition sample_arp :: "addr \<Rightarrow> message" where
  "sample_arp spa = hello\<lparr> msg_data := wrap_up [] (replicate 6 1) bc_addr
     (arp_pkt 1 (replicate 6 1) spa (replicate 6 0) [10, 0, 0, 2] @ []) @ [] \<rparr>"

theorem arp_answers_request_witness:
  "arp_run_in (send_message ''arp'') (replicate 6 2) [10, 0, 0, 2] (send_message ''res'') (sample_arp [10, 0, 0, 2])
      \<lparr> requests = [], arp_cache = [] \<rparr> idle_net = Inl Assert_failed
   \<and> (\<exists>r w'. arp_run_in (send_message ''arp'') (replicate 6 2) [10, 0, 0, 2] (send_message ''res'') (sample_arp [10, 0, 0, 1])
      \<lparr> requests = [], arp_cache = [] \<rparr> idle_net = Inr (1, \<lparr> requests = [], arp_cache = [] \<rparr>, w') \<and> net_ok w'
    \<and> posted inbox capacity ''arp'' idle_net (c_str (sender (sample_arp [10, 0, 0, 1])))
        (wrap_message_down (replicate 6 2) (replicate 6 1) (arp_pkt 2 (replicate 6 2) [10, 0, 0, 2] (replicate 6 1) [10, 0, 0, 1])
          (Some (msg_nr (sample_arp [10, 0, 0, 1])))) r w')"
proof -
  have ok: "arp_addrs (replicate 6 1) spa (replicate 6 0) [10, 0, 0, 2]" "msg_data (sample_arp spa) =
    wrap_up [] (replicate 6 1) bc_addr (arp_pkt 1 (replicate 6 1) spa (replicate 6 0) [10, 0, 0, 2] @ []) @ []"
    if "length spa = 4" for spa using that by (simp_all add: arp_addrs_def sample_arp_def)
  note t = arp_answers_request[OF idle_net_ok _ ok(1) _ _ _ _ _ ok(2), where lid = "''arp''" and mac = "replicate 6 2"]
  show ?thesis using t[of "[10, 0, 0, 2]"] t[of "[10, 0, 0, 1]"] by (simp add: max_id_length_def small_def bc_addr_def)
qed

text \<open>C26: An ARP reply enters the cache unless the address is known already, and answers
  exactly the waiting requests it resolves, in their order, each at its searcher and with
  the number stored in it; all other requests go on waiting.\<close>

theorem arp_learns_and_answers:
  assumes "net_ok w" "length lid < max_id_length"
    and "arp_addrs sha spa tha tpa" "list_all wf_request (requests st)" "small (length full)" "small (length trail)"
    and "length smac = 6" "length dmac = 6"
    and "msg_data m = wrap_up full smac dmac (arp_pkt 2 sha spa tha tpa @ trail) @ pad"
  shows "\<exists>st' w'. arp_run_in shm mac ip4 (send_message lid) m st w = Inr (1, st', w') \<and> net_ok w'
    \<and> map_of (arp_cache st') = (if map_of (arp_cache st) spa = None then (map_of (arp_cache st))(spa \<mapsto> sha) else map_of (arp_cache st))
    \<and> requests st' = filter (\<lambda>r. \<not> answers sha spa r) (requests st)
    \<and> posted_seq inbox capacity lid w (map (\<lambda>r. (searched_by r, resolver_reply (answer_text sha spa r) (rq_msg_nr r)))
        (filter (answers sha spa) (requests st))) w'"
proof -
  let ?p = "arp_pkt 2 sha spa tha tpa"
  note f = arp_pkt_fields[OF assms(3), of 2]
  have tk: "take 28 (?p @ xs) = ?p" for xs using f(1) by simp
  have l: "length sha = 6" "length spa = 4" using assms(3) by (simp_all add: arp_addrs_def)
  obtain w' where 1: "register_resolve_reply (send_message lid) sha spa (requests st) w
      = Inr (filter (\<lambda>r. \<not> answers sha spa r) (requests st), w')" "net_ok w'"
    "posted_seq inbox capacity lid w (map (\<lambda>r. (searched_by r, resolver_reply (answer_text sha spa r) (rq_msg_nr r)))
        (filter (answers sha spa) (requests st))) w'"
    using transport.register_resolve_reply_answers[OF shm_transport[OF assms(2)] assms(1,4) l] by blast
  let ?st = "st\<lparr> arp_cache := arp_cache_insert spa sha (arp_cache st), requests := filter (\<lambda>r. \<not> answers sha spa r) (requests st) \<rparr>"
  have "arp_run_in shm mac ip4 (send_message lid) m st w = Inr (1, ?st, w')"
    using assms(5-9) f tk[of "trail @ full @ pad"] 1(1)
    by (simp add: arp_in_simps small_def)
  moreover have "map_of (arp_cache ?st) = (if map_of (arp_cache st) spa = None then (map_of (arp_cache st))(spa \<mapsto> sha) else map_of (arp_cache st))"
    by (simp add: map_of_arp_cache_insert)
  ultimately show ?thesis using 1 by (intro exI[of _ ?st] exI[of _ w']) simp
qed


theorem arp_learns_and_answers_witness:
  "(let st = \<lparr> requests = [\<lparr> rq_mac = None, rq_ip4 = Some [10, 0, 0, 1], searched_by = ''ip4'', rq_msg_nr = 5 \<rparr>], arp_cache = [] \<rparr>;
        m = hello\<lparr> msg_data := wrap_up [] (replicate 6 1) bc_addr (arp_pkt 2 (replicate 6 1) [10, 0, 0, 1] (replicate 6 2) [10, 0, 0, 2] @ []) @ [] \<rparr>
    in \<exists>st' w'. arp_run_in (send_message ''arp'') (replicate 6 2) [10, 0, 0, 2] (send_message ''res'') m st idle_net = Inr (1, st', w') \<and> net_ok w'
    \<and> map_of (arp_cache st') = (if map_of (arp_cache st) [10, 0, 0, 1] = None
        then (map_of (arp_cache st))([10, 0, 0, 1] \<mapsto> replicate 6 1) else map_of (arp_cache st))
    \<and> requests st' = filter (\<lambda>r. \<not> answers (replicate 6 1) [10, 0, 0, 1] r) (requests st)
    \<and> posted_seq inbox capacity ''res'' idle_net (map (\<lambda>r. (searched_by r, resolver_reply (answer_text (replicate 6 1) [10, 0, 0, 1] r) (rq_msg_nr r)))
        (filter (answers (replicate 6 1) [10, 0, 0, 1]) (requests st))) w')"
  unfolding Let_def
  by (rule arp_learns_and_answers[where full = "[]" and trail = "[]" and pad = "[]" and smac = "replicate 6 1" and dmac = bc_addr
        and tha = "replicate 6 2" and tpa = "[10, 0, 0, 2]"])
    (simp_all add: idle_net_ok max_id_length_def arp_addrs_def small_def bc_addr_def wf_request_def)

section \<open>Resolving\<close>

lemma not_in_join: "c \<noteq> sep \<Longrightarrow> \<forall>x \<in> set xs. c \<notin> set x \<Longrightarrow> c \<notin> set (join [sep] xs)"
  by (induction "[sep]" xs rule: join.induct) auto

lemma eq_not_in_addr: "sep \<noteq> CHR ''='' \<Longrightarrow> CHR ''='' \<notin> set (addr_to_str a sep h)"
proof -
  assume "sep \<noteq> CHR ''=''"
  moreover have "list_all (\<lambda>d. digit_char d \<noteq> CHR ''='') [0 ..< 16]" by code_simp
  then have "\<forall>d < 16. digit_char d \<noteq> CHR ''=''" by (simp add: list_all_iff)
  ultimately show ?thesis unfolding addr_to_str_def
    by (intro not_in_join) (auto simp: digit_not_in_num_str digit_not_in_hex2)
qed


lemma addr_to_str_not_Nil: "a \<noteq> [] \<Longrightarrow> addr_to_str a c h \<noteq> []"
  unfolding addr_to_str_def by (rule join_eq_Nil) (auto simp: last_map hex2_def num_str_def)

lemma split_search:
  assumes "ip \<noteq> []"
  shows "split (''search-mac='' @ addr_to_str ip CHR ''.'' False) ''='' = [''search-mac'', addr_to_str ip CHR ''.'' False]"
proof -
  have "split (''search-mac'' @ CHR ''='' # addr_to_str ip CHR ''.'' False) ''='' = [''search-mac'', addr_to_str ip CHR ''.'' False]"
    using assms eq_not_in_addr[of "CHR ''.''" ip False] addr_to_str_not_Nil[of ip "CHR ''.''" False]
    by (subst split_single_append) (simp_all add: split_single_None)
  then show ?thesis by simp
qed

text \<open>The search as \<open>start_resolve_by_ip4\<close> of the IPv4 server words it.\<close>

definition search_mac :: "addr \<Rightarrow> message \<Rightarrow> bool" where
  "search_mac ip m \<longleftrightarrow> (\<exists>pad. msg_data m = to_bytes (''search-mac='' @ addr_to_str ip CHR ''.'' False) @ pad
     \<and> unat (msg_size m) = length (''search-mac='' @ addr_to_str ip CHR ''.'' False))"

lemma arp_run_resolver_search:
  assumes "search_mac ip m" "length ip = 4" "length own = 4"
  shows "arp_run_resolver shm own mac out shm_out junk junk_nr m st w =
    (case (if ip = own then Some mac else map_of (arp_cache st) ip) of
       Some a \<Rightarrow> res_bind (push_resolver_reply shm (c_str (sender m)) (ip4_mac_reply ip a) (msg_nr m) w) (\<lambda>w. Inr (1, st, w))
     | None \<Rightarrow> arp_ask shm_out out junk_nr m None (Some ip) mac own ip st w)"
proof -
  let ?s = "''search-mac='' @ addr_to_str ip CHR ''.'' False"
  obtain pad where d: "msg_data m = to_bytes ?s @ pad" "unat (msg_size m) = length ?s"
    using assms(1) by (auto simp: search_mac_def)
  have "take (length (to_bytes ?s)) (to_bytes ?s @ pad) = to_bytes ?s" by simp
  then have "take (unat (msg_size m)) (msg_data m) = to_bytes ?s" unfolding d length_to_bytes .
  then have "load_n (msg_data m) 0 (unat (msg_size m)) = Inr (to_bytes ?s)"
    using d by simp
  moreover have "ip \<noteq> []" using assms by auto
  ultimately show ?thesis
    using assms addr_of_to_str(1)[of ip junk] split_search[of ip]
    by (auto simp: arp_run_resolver_def arp_cache_find_def split: option.split)
qed

text \<open>The resolver answers a search for the own address, or for one in its cache, at once,
  under the number of the question.\<close>

theorem arp_resolver_answers_known:
  assumes "net_ok w" "length lid < max_id_length" "search_mac ip m" "length ip = 4" "length own = 4" "length a = 6"
    and "(if ip = own then Some mac else map_of (arp_cache st) ip) = Some a"
  shows "\<exists>r w'. arp_run_resolver (send_message lid) own mac out shm_out junk junk_nr m st w = Inr (1, st, w') \<and> net_ok w'
    \<and> posted inbox capacity lid w (c_str (sender m)) (resolver_reply (ip4_mac_reply ip a) (msg_nr m)) r w'"
proof -
  have "ip4_mac_reply ip a \<noteq> []" by (simp add: ip4_mac_reply_def)
  from transport.push_resolver_reply_posts[OF shm_transport[OF assms(2)] assms(1) this small_replies(1)[OF assms(6,4)], of "c_str (sender m)" "msg_nr m"]
  show ?thesis using arp_run_resolver_search[OF assms(3-5), of "send_message lid" mac out shm_out junk junk_nr st w] assms(7)
    by auto
qed

definition sample_search :: message where
  "sample_search = hello\<lparr> msg_nr := 3, msg_size := 19,
     msg_data := to_bytes (''search-mac='' @ addr_to_str [10, 0, 0, 2] CHR ''.'' False) \<rparr>"

lemma sample_search_ok: "search_mac [10, 0, 0, 2] sample_search"
  by (simp add: search_mac_def sample_search_def addr_to_str_def num_str_def digits_of.simps)

theorem arp_resolver_answers_known_witness:
  "\<exists>r w'. arp_run_resolver (send_message ''res'') [10, 0, 0, 2] (replicate 6 2) ''tap'' (send_message ''arp'') (\<lambda>_. 0) 99 sample_search
      \<lparr> requests = [], arp_cache = [] \<rparr> idle_net = Inr (1, \<lparr> requests = [], arp_cache = [] \<rparr>, w') \<and> net_ok w'
    \<and> posted inbox capacity ''res'' idle_net (c_str (sender sample_search))
        (resolver_reply (ip4_mac_reply [10, 0, 0, 2] (replicate 6 2)) (msg_nr sample_search)) r w'"
  by (rule arp_resolver_answers_known) (simp_all add: idle_net_ok max_id_length_def sample_search_ok)

text \<open>A search for an unknown address is remembered with a number that is not the number
  of the question but an uninitialised value, so that the later reply cannot be matched by
  the asker; the question is broadcast for the address.\<close>

theorem arp_resolver_loses_number:
  assumes "net_ok w" "length lid < max_id_length" "search_mac ip m" "length ip = 4" "length own = 4" "length mac = 6"
    and "ip \<noteq> own" "map_of (arp_cache st) ip = None"
  shows "\<exists>r w'. arp_run_resolver shm own mac out (send_message lid) junk junk_nr m st w
      = Inr (1, st\<lparr> requests := requests st @ [\<lparr> rq_mac = None, rq_ip4 = Some ip, searched_by = c_str (sender m), rq_msg_nr = junk_nr \<rparr>] \<rparr>, w')
    \<and> net_ok w'
    \<and> posted inbox capacity lid w out (wrap_message_down mac bc_addr (arp_pkt 1 mac own bc_addr ip @ replicate 16 0) None) r w'"
proof -
  have ne: "mac \<noteq> []" "own \<noteq> []" "ip \<noteq> []" "bc_addr \<noteq> []" "length bc_addr = 6" using assms by (auto simp: bc_addr_def)
  have "put_at 24 ip (put_at 18 bc_addr (put_at 14 own (put_at 8 mac ([0, 1, 8, 0, 6, 4, 0, 1] @ replicate 36 0))))
      = arp_pkt 1 mac own bc_addr ip @ replicate 16 0"
    using assms ne by (simp add: put_at_def arp_pkt_def)
  then have pkt: "arp_request_packet mac own bc_addr ip = Inr (arp_pkt 1 mac own bc_addr ip @ replicate 16 0)"
    using assms ne by (simp add: arp_request_packet_def addr_get_Inr length_put_at)
  have "small (length mac)" "small (length bc_addr)" "small (length (arp_pkt 1 mac own bc_addr ip @ replicate 16 0))"
    using assms ne by (simp_all add: small_def arp_pkt_def)
  from transport.post_down[OF shm_transport[OF assms(2)] assms(1) this, of out None]
  show ?thesis using arp_run_resolver_search[OF assms(3-5), of shm mac out "send_message lid" junk junk_nr st w] assms(7,8) pkt
    by (auto simp: arp_ask_def)
qed

theorem arp_resolver_loses_number_witness:
  "(let st = \<lparr> requests = [], arp_cache = [] \<rparr> in
    \<exists>r w'. arp_run_resolver (send_message ''res'') [10, 0, 0, 3] (replicate 6 2) ''tap'' (send_message ''arp'') (\<lambda>_. 0) 99 sample_search st idle_net
      = Inr (1, st\<lparr> requests := requests st @ [\<lparr> rq_mac = None, rq_ip4 = Some [10, 0, 0, 2], searched_by = c_str (sender sample_search), rq_msg_nr = 99 \<rparr>] \<rparr>, w')
    \<and> net_ok w'
    \<and> posted inbox capacity ''arp'' idle_net ''tap''
        (wrap_message_down (replicate 6 2) bc_addr (arp_pkt 1 (replicate 6 2) [10, 0, 0, 3] bc_addr [10, 0, 0, 2] @ replicate 16 0) None) r w')"
  unfolding Let_def
  by (rule arp_resolver_loses_number) (simp_all add: idle_net_ok max_id_length_def sample_search_ok)

end
