(* ===== verification/Calm.thy ===== *)
theory Calm
  imports Arp
begin

text \<open>
  What a turn of a server leaves behind when it ends, whatever message it was given: a calculus of
  weakest preconditions for results, with a rule for each of the operations the servers are composed of.
  It is used to show that every turn keeps the queues and the tables of its server sound.
\<close>

section \<open>Results that satisfy a condition if there are any\<close>

definition ends :: "'a res \<Rightarrow> ('a \<Rightarrow> bool) \<Rightarrow> bool" where
  "ends r Q \<longleftrightarrow> (\<forall>x. r = Inr x \<longrightarrow> Q x)"

named_theorems calm \<open>rules for the operations servers are composed of\<close>

lemma ends_simps [simp]:
  "ends (Inr x) Q = Q x" "ends (Inl h) Q" "ends (res_bind r f) Q = ends r (\<lambda>x. ends (f x) Q)"
  by (auto simp: ends_def res_bind_eq_Inr)

lemma endsD: "ends r Q \<Longrightarrow> r = Inr x \<Longrightarrow> Q x"
  by (simp add: ends_def)

lemma ends_weaken: "ends r P \<Longrightarrow> (\<And>x. P x \<Longrightarrow> Q x) \<Longrightarrow> ends r Q"
  by (simp add: ends_def)

lemma ends_any: "(\<And>x. Q x) \<Longrightarrow> ends r Q"
  by (simp add: ends_def)

lemma ends_bind: "ends r (\<lambda>x. ends (f x) Q) \<Longrightarrow> ends (res_bind r f) Q"
  by simp

lemma ends_if: "(b \<Longrightarrow> ends r Q) \<Longrightarrow> (\<not> b \<Longrightarrow> ends s Q) \<Longrightarrow> ends (if b then r else s) Q"
  by simp

lemma ends_option: "ends r Q \<Longrightarrow> (\<And>a. x = Some a \<Longrightarrow> ends (f a) Q) \<Longrightarrow> ends (case x of None \<Rightarrow> r | Some a \<Rightarrow> f a) Q"
  by (cases x) simp_all

lemmas ends_steps = ends_bind ends_if ends_option

lemma ends_load_n [calm]: "(\<And>x. length x = n \<Longrightarrow> ofs + n \<le> length xs \<Longrightarrow> Q x) \<Longrightarrow> ends (load_n xs ofs n) Q"
  by (simp add: ends_def load_n_def slice_at_def)

lemma ends_unwrap_up [calm]:
  "(\<And>v. length (up_full v) \<le> length d \<Longrightarrow> length (up_from v) \<le> length d \<Longrightarrow> length (up_to v) \<le> length d \<Longrightarrow> length (up_pl v) \<le> length d
     \<Longrightarrow> Q v) \<Longrightarrow> ends (unwrap_message_up d) Q"
  by (auto simp: unwrap_message_up_def Let_def load_n_def assert_that_def)

lemma ends_unwrap_down [calm]:
  "(\<And>v. length (dn_from v) \<le> length d \<Longrightarrow> length (dn_to v) \<le> length d \<Longrightarrow> length (dn_pl v) \<le> length d \<Longrightarrow> Q v)
     \<Longrightarrow> ends (unwrap_message_down d) Q"
  by (auto simp: unwrap_message_down_def Let_def load_n_def assert_that_def)

text \<open>Operations whose result does not matter here.\<close>

lemmas ends_reads [calm] = ends_any[of _ "load xs i" for xs i] ends_any[of _ "get16 p i" for p i] ends_any[of _ "get32 p i" for p i]
  ends_any[of _ "l4_checksum f t p n k" for f t p n k] ends_any[of _ "addr_eq a b" for a b] ends_any[of _ "addr_neq a b" for a b]
  ends_any[of _ "assert_that b" for b]

section \<open>Sending\<close>

text \<open>\<open>kept\<close>: all queues are well-formed, and none has come, gone or changed its size.\<close>

definition kept :: "net \<Rightarrow> net \<Rightarrow> bool" where
  "kept w w' \<longleftrightarrow> net_ok w' \<and> capacity w' = capacity w"

lemma kept_refl: "net_ok w \<Longrightarrow> kept w w"
  by (simp add: kept_def)

lemma kept_trans: "kept w w1 \<Longrightarrow> kept w1 w2 \<Longrightarrow> kept w w2"
  by (simp add: kept_def)

lemma keptD: "kept w w' \<Longrightarrow> net_ok w'" "kept w w' \<Longrightarrow> capacity w' = capacity w"
  by (simp_all add: kept_def)

lemma ends_post [calm]:
  assumes "net_ok w" "length lid < max_id_length" "filled_in m" "\<And>r w'. kept w w' \<Longrightarrow> net_ok w' \<Longrightarrow> Q (r, w')"
  shows "ends (post (send_message lid) q m w) Q"
  using transport.post_law[OF shm_transport[OF assms(2)] assms(1,3), of q] assms(4) by (auto simp: posted_def kept_def)

lemma ends_send:
  assumes "net_ok w" "length lid < max_id_length" "filled_in m" "\<And>r m' w'. kept w w' \<Longrightarrow> net_ok w' \<Longrightarrow> Q (r, m', w')"
  shows "ends (send_message lid q m b w) Q"
proof (cases b)
  case True
  then show ?thesis using send_message_waits[OF assms(1,3,2), of q] assms(1,4) by (auto simp: posted_def kept_def split: if_splits)
next
  case False
  then show ?thesis using send_message_law[OF assms(1,3,2), of q] assms(4) by (auto simp: posted_def kept_def)
qed

text \<open>The messages the servers build are complete.\<close>

lemma filled_in_up: "length full + length f + length t + length pl < 2 ^ 31 \<Longrightarrow> filled_in (wrap_message_up full f t pl rt)"
  unfolding wrap_message_up_def by (rule filled_in_envelope) simp_all

lemma filled_in_down: "length f + length t + length pl < 2 ^ 31 \<Longrightarrow> filled_in (wrap_message_down f t pl rt)"
  unfolding wrap_message_down_def by (rule filled_in_envelope) simp_all

lemma filled_in_fields [simp]:
  "filled_in (m\<lparr> msg_id := i \<rparr>) = filled_in m" "filled_in (m\<lparr> msg_nr := n \<rparr>) = filled_in m" "filled_in (m\<lparr> msg_type := ty \<rparr>) = filled_in m"
  by (simp_all add: filled_in_def)

lemma filled_in_bytes: "0 < length d \<Longrightarrow> length d < 2 ^ 32 \<Longrightarrow> filled_in ((allocate_shm_message (length d))\<lparr> msg_data := d \<rparr>)"
  using unat_of_nat_u32[of "length d"] by (metis (no_types, lifting) allocate_shm_message_def filled_in_def less_irrefl message.select_convs(3,7)
      message.update_convs(7) unat_0)


lemma filled_in_reply:
  assumes "s \<noteq> []" "length s < 2 ^ 32"
  shows "filled_in ((allocate_shm_message (length s))\<lparr> msg_type := ty, msg_nr := nr, msg_data := to_bytes s \<rparr>)"
    "filled_in ((allocate_shm_message (length s))\<lparr> msg_type := ty, msg_data := to_bytes s \<rparr>)"
  using filled_in_bytes[of "to_bytes s"] assms by (simp_all add: filled_in_def allocate_shm_message_def)

section \<open>Texts\<close>

lemma length_split: "sep \<noteq> [] \<Longrightarrow> length (split s sep) \<le> length s + 1"
proof (induction s sep rule: split.induct)
  case (1 s sep)
  show ?case
  proof (cases "find_sub sep s")
    case None
    then show ?thesis by (simp add: split.simps[of s])
  next
    case (Some pos)
    obtain c cs where sep: "sep = c # cs" using 1(2) by (cases sep) auto
    have "pos + length sep \<le> length s" using find_sub_Some[OF Some] by simp
    with 1(1)[OF Some] Some 1(2) sep show ?thesis by (subst split.simps) (auto simp: not_le)
  qed
qed

lemma split_part: "p \<in> set (split s sep) \<Longrightarrow> length p \<le> length s"
proof (induction s sep rule: split.induct)
  case (1 s sep)
  then show ?case by (subst (asm) (2) split.simps) (fastforce split: option.splits if_splits)
qed

lemma ends_addr_bytes: "ends (addr_bytes base junk i parts) (\<lambda>a. length a = length parts)"
proof (induction base junk i parts rule: addr_bytes.induct)
  case (2 base junk i part parts)
  then show ?case by (auto split: sum.split conv_exn.split intro: ends_weaken)
qed simp

lemma ends_addr_of_string [calm]: "(\<And>a. length a \<le> length s + 1 \<Longrightarrow> Q a) \<Longrightarrow> ends (addr_of_string s [c] hex junk) Q"
  unfolding addr_of_string_def using length_split[of "[c]" s]
  by (intro ends_weaken[OF ends_addr_bytes]) simp

end
