(* ===== verification/Link.thy ===== *)
theory Link
  imports Servers
begin

text \<open>
  \<^verbatim>\<open>src/tap_server.cpp\<close> and \<^verbatim>\<open>src/promisc_server.cpp\<close>: Ethernet frames from and to a device.
  Opening and configuring the device are calls of the operating system; writing to it is an
  argument, which returns what \<^verbatim>\<open>write\<close> or \<^verbatim>\<open>sendto\<close> return.
\<close>

section \<open>The tap device\<close>

type_synonym 'w device = "bytes \<Rightarrow> 'w \<Rightarrow> int \<times> 'w"

text \<open>A frame as \<^verbatim>\<open>read\<close> returned it.\<close>

definition tap_run_in :: "'w shm_queue \<Rightarrow> addr \<Rightarrow> (u16 \<Rightarrow> string option) \<Rightarrow> bytes \<Rightarrow> 'w \<Rightarrow> 'w res" where
  "tap_run_in shm mac_addr mappings_in buffer w =
     (if length buffer < 42 then Inr w
      else if buffer ! 0 AND 1 = 0 \<and> take 6 buffer \<noteq> take 6 mac_addr \<and> take 6 buffer \<noteq> bc_addr then Inr w
      else
        let ty = get_uint16 (slice_at 12 2 buffer) in
        case mappings_in ty of
          None \<Rightarrow> Inr w
        | Some name \<Rightarrow>
            res_bind (post shm name (wrap_message_up buffer (slice_at 6 6 buffer) (slice_at 0 6 buffer) (drop 14 buffer) None) w)
              (\<lambda>(r, w). Inr w))"

text \<open>Every server that is heard knows its frames' type; the message is freed once more when
  the device does not take the frame.\<close>

definition tap_run_out :: "'w device \<Rightarrow> (string \<Rightarrow> u16 option) \<Rightarrow> message \<Rightarrow> 'w \<Rightarrow> (nat \<times> 'w) res" where
  "tap_run_out write mappings_out m w =
     res_bind (unwrap_message_down (msg_data m)) (\<lambda>v.
     if dn_from_len v \<noteq> 6 \<or> dn_to_len v \<noteq> 6 then Inr (1, w)
     else if dn_pl_len v = 0 then Inr (1, w)
     else (case mappings_out (c_str (sender m)) of
         None \<Rightarrow> Inr (1, w)
       | Some ty \<Rightarrow>
           res_bind (load_n (dn_to v) 0 6) (\<lambda>to_a.
           res_bind (load_n (dn_from v) 0 6) (\<lambda>from_a.
           res_bind (load_n (dn_pl v) 0 (dn_pl_len v)) (\<lambda>pl.
           let packet = to_a @ from_a @ put_uint16 ty @ pl in
           case write packet w of (rc, w) \<Rightarrow>
             Inr (if rc \<noteq> int (length packet) then 2 else 1, w))))))"

definition tap_push_meta_reply :: "'w shm_queue \<Rightarrow> string \<Rightarrow> string \<Rightarrow> u64 \<Rightarrow> 'w \<Rightarrow> 'w res" where
  "tap_push_meta_reply shm_meta dest reply nr w =
     res_bind (post shm_meta dest ((allocate_shm_message (length reply))\<lparr> msg_type := msg_reply, msg_nr := nr,
       msg_data := to_bytes reply \<rparr>) w) (\<lambda>(r, w). Inr w)"

definition tap_run_meta :: "'w shm_queue \<Rightarrow> addr \<Rightarrow> message \<Rightarrow> 'w \<Rightarrow> (nat \<times> 'w) res" where
  "tap_run_meta shm_meta mac m w =
     res_bind (load_n (msg_data m) 0 (unat (msg_size m))) (\<lambda>d.
     case split (of_bytes d) ''='' of
       [] \<Rightarrow> Inl Out_of_bounds
     | cmd # _ \<Rightarrow>
         if cmd = ''get-mac'' then
           res_bind (tap_push_meta_reply shm_meta (c_str (sender m)) (''mac='' @ addr_to_str mac CHR '':'' True) (msg_nr m) w)
             (\<lambda>w. Inr (1, w))
         else Inr (1, w))"

section \<open>The promiscuous device\<close>

record prom_handle =
  ph_fd :: int
  ph_ifr_index :: int
  ph_mtu_size :: int
  ph_mac_addr :: addr

definition promisc_run_in :: "'w shm_queue \<Rightarrow> prom_handle \<Rightarrow> (u16 \<Rightarrow> string option) \<Rightarrow> bytes \<Rightarrow> 'w \<Rightarrow> 'w res" where
  "promisc_run_in shm ph mappings_in buffer w =
     (if length buffer < 42 then Inr w
      else if buffer ! 0 AND 1 = 0 \<and> take 6 buffer \<noteq> take 6 (ph_mac_addr ph) \<and> take 6 buffer \<noteq> bc_addr then Inr w
      else
        let ty = get_uint16 (slice_at 12 2 buffer) in
        case mappings_in ty of
          None \<Rightarrow> Inr w
        | Some name \<Rightarrow>
            res_bind (post shm name (wrap_message_up buffer (slice_at 6 6 buffer) (slice_at 0 6 buffer) (drop 14 buffer) None) w)
              (\<lambda>(r, w). Inr w))"

text \<open>A message that reaches the device is not freed.\<close>

definition promisc_run_out :: "'w device \<Rightarrow> (string \<Rightarrow> u16 option) \<Rightarrow> message \<Rightarrow> 'w \<Rightarrow> (nat \<times> 'w) res" where
  "promisc_run_out sendto mappings_out m w =
     res_bind (unwrap_message_down (msg_data m)) (\<lambda>v.
     if dn_from_len v \<noteq> 6 \<or> dn_to_len v \<noteq> 6 then Inr (1, w)
     else if dn_pl_len v = 0 then Inr (1, w)
     else (case mappings_out (c_str (sender m)) of
         None \<Rightarrow> Inr (1, w)
       | Some ty \<Rightarrow>
           res_bind (load_n (dn_to v) 0 6) (\<lambda>to_a.
           res_bind (load_n (dn_from v) 0 6) (\<lambda>from_a.
           res_bind (load_n (dn_pl v) 0 (dn_pl_len v)) (\<lambda>pl.
           let packet = to_a @ from_a @ put_uint16 ty @ pl in
           case sendto packet w of (rc, w) \<Rightarrow> Inr (0, w))))))"

definition promisc_run_meta :: "'w shm_queue \<Rightarrow> addr \<Rightarrow> message \<Rightarrow> 'w \<Rightarrow> (nat \<times> 'w) res" where
  "promisc_run_meta shm_meta mac m w =
     res_bind (load_n (msg_data m) 0 (unat (msg_size m))) (\<lambda>d.
     case split (of_bytes d) ''='' of
       [] \<Rightarrow> Inl Out_of_bounds
     | cmd # _ \<Rightarrow>
         if cmd = ''get-mac'' then
           res_bind (tap_push_meta_reply shm_meta (c_str (sender m)) (''mac='' @ addr_to_str mac CHR '':'' True) (msg_nr m) w)
             (\<lambda>w. Inr (1, w))
         else Inr (1, w))"

section \<open>Lemmas\<close>

definition eth_frame :: "addr \<Rightarrow> addr \<Rightarrow> u16 \<Rightarrow> bytes \<Rightarrow> bytes" where
  "eth_frame to_a from_a ty pl = to_a @ from_a @ put_uint16 ty @ pl"

lemma eth_frame_fields:
  assumes "length to_a = 6" "length from_a = 6"
  shows "length (eth_frame to_a from_a ty pl) = 14 + length pl" "slice_at 0 6 (eth_frame to_a from_a ty pl) = to_a"
    "take 6 (eth_frame to_a from_a ty pl) = to_a"
    "slice_at 6 6 (eth_frame to_a from_a ty pl) = from_a" "slice_at 12 2 (eth_frame to_a from_a ty pl) = put_uint16 ty"
    "drop 14 (eth_frame to_a from_a ty pl) = pl"
  using assms by (simp_all add: eth_frame_def slice_at_def put_uint16_def)

lemma tap_run_out_frame:
  assumes "msg_data m = wrap_down from_a to_a pl @ pad" "length from_a = 6" "length to_a = 6" "pl \<noteq> []" "length pl < 2 ^ 64"
    and "mappings_out (c_str (sender m)) = Some ty"
  shows "tap_run_out write mappings_out m w = (case write (eth_frame to_a from_a ty pl) w of (rc, w') \<Rightarrow>
    Inr (if rc \<noteq> int (14 + length pl) then 2 else 1, w'))"
  using assms by (simp add: tap_run_out_def unwrap_wrap_down eth_frame_def split: prod.split)

context transport
begin

lemma tap_run_in_frame:
  assumes "ok w" "length to_a = 6" "length from_a = 6" "28 \<le> length pl" "small (14 + length pl)"
    and "to_a = mac \<or> to_a = bc_addr \<or> to_a ! 0 AND 1 \<noteq> 0" "mappings_in ty = Some name"
  shows "\<exists>r w'. tap_run_in shm mac mappings_in (eth_frame to_a from_a ty pl) w = Inr w' \<and> ok w'
    \<and> posted ib cap lid w name (wrap_message_up (eth_frame to_a from_a ty pl) from_a to_a pl None) r w'"
proof -
  define f where "f = eth_frame to_a from_a ty pl"
  note fields = eth_frame_fields[OF assms(2,3), of ty pl, folded f_def]
  have f0: "f ! 0 = to_a ! 0" using assms(2) by (simp add: f_def eth_frame_def nth_append)
  obtain r w' where "post shm name (wrap_message_up f from_a to_a pl None) w = Inr (r, w')" "ok w'"
    "posted ib cap lid w name (wrap_message_up f from_a to_a pl None) r w'"
    using post_up[OF assms(1), of f from_a to_a pl name None] assms(2,3,5) fields(1) by (auto simp: small_def)
  moreover have "\<not> (f ! 0 AND 1 = 0 \<and> take 6 f \<noteq> take 6 mac \<and> take 6 f \<noteq> bc_addr)"
    using assms(2,6) unfolding f0 fields(3) by auto
  moreover have "\<not> length f < 42" using assms(4) fields(1) by simp
  ultimately show ?thesis unfolding f_def[symmetric] tap_run_in_def
    using fields(2,4-6) assms(7) by (simp add: Let_def del: take_slice_at) blast
qed

end

section \<open>Properties\<close>

text \<open>What one host's link server writes to its device for a message of a known server, of at
  least 28 bytes, is handed by another host's link server (whose address it is sent to, or by
  broadcast or multicast) to the server for that type of frame, with addresses and payload
  unchanged.\<close>

theorem link_carries_frames:
  assumes "net_ok w" "length lid < max_id_length" "msg_data m = wrap_down from_a to_a pl @ pad"
    and "length from_a = 6" "length to_a = 6" "28 \<le> length pl" "small (14 + length pl)"
    and "mappings_out (c_str (sender m)) = Some ty" "mappings_in ty = Some name"
    and "to_a = mac \<or> to_a = bc_addr \<or> to_a ! 0 AND 1 \<noteq> 0"
  shows "\<exists>frame r w'. tap_run_out (\<lambda>packet sent. (int (length packet), sent @ [packet])) mappings_out m sent = Inr (1, sent @ [frame])
    \<and> tap_run_in (send_message lid) mac mappings_in frame w = Inr w' \<and> net_ok w'
    \<and> posted inbox capacity lid w name (wrap_message_up frame from_a to_a pl None) r w'"
proof -
  let ?frame = "eth_frame to_a from_a ty pl"
  have "pl \<noteq> []" "length pl < 2 ^ 64" using assms(6,7) by (auto simp: small_def)
  then have "tap_run_out (\<lambda>packet sent. (int (length packet), sent @ [packet])) mappings_out m sent = Inr (1, sent @ [?frame])"
    using tap_run_out_frame[OF assms(3-5), where w = sent and mappings_out = mappings_out and ty = ty] assms(6-8) eth_frame_fields(1)[OF assms(5,4), of ty pl]
    by simp
  then show ?thesis
    using transport.tap_run_in_frame[OF shm_transport[OF assms(2)] assms(1,5,4,6,7,10), of mappings_in ty name] assms(9) by blast
qed

theorem link_carries_frames_witness:
  "(let m = hello\<lparr> msg_data := wrap_down (replicate 6 2) (replicate 6 4) (replicate 46 7), sender := to_bytes ''ip4'' @ replicate 29 0 \<rparr> in
    \<exists>frame r w'. tap_run_out (\<lambda>packet sent. (int (length packet), sent @ [packet])) [''ip4'' \<mapsto> 0x800] m [] = Inr (1, [] @ [frame])
    \<and> tap_run_in (send_message ''tap'') (replicate 6 4) [0x800 \<mapsto> ''ip4''] frame idle_net = Inr w' \<and> net_ok w'
    \<and> posted inbox capacity ''tap'' idle_net ''ip4'' (wrap_message_up frame (replicate 6 2) (replicate 6 4) (replicate 46 7) None) r w')"
proof -
  have "c_str (to_bytes ''ip4'' @ replicate 29 0) = ''ip4''"
    using c_str_to_bytes[of "''ip4''" "replicate 28 0"] by (simp add: numeral_eq_Suc)
  then show ?thesis unfolding Let_def
    by (intro link_carries_frames[where pad = "[]" and ty = "0x800"]) (simp_all add: idle_net_ok max_id_length_def small_def)
qed

text \<open>The two link servers hand on the same frames: receiving on a promiscuous device is
  receiving on a tap device with the device's address.\<close>

theorem promisc_receives_like_tap:
  "promisc_run_in shm ph mappings_in buffer w = tap_run_in shm (ph_mac_addr ph) mappings_in buffer w"
  by (simp add: promisc_run_in_def tap_run_in_def)

text \<open>When the device does not take the whole frame, the tap server frees the message twice; the
  promiscuous server never frees a message that reached the device.\<close>

theorem link_frees:
  assumes "msg_data m = wrap_down from_a to_a pl @ pad" "length from_a = 6" "length to_a = 6" "pl \<noteq> []" "length pl < 2 ^ 64"
    and "mappings_out (c_str (sender m)) = Some ty" "fst (write (eth_frame to_a from_a ty pl) w) = -1"
  shows "\<exists>w1 w2. tap_run_out write mappings_out m w = Inr (2, w1) \<and> promisc_run_out write mappings_out m w = Inr (0, w2)"
  using assms by (cases "write (eth_frame to_a from_a ty pl) w")
    (simp add: tap_run_out_def promisc_run_out_def unwrap_wrap_down eth_frame_def)

end
