(* ===== verification/Siphash.thy ===== *)
theory Siphash
  imports Prelude
begin

text \<open>
  \<^verbatim>\<open>src/3dparty/SipHash/siphash.c\<close>: SipHash-2-4, from which the servers derive session
  identifiers and SYN cookies.
\<close>

type_synonym sip = "u64 \<times> u64 \<times> u64 \<times> u64"

definition ROTL :: "u64 \<Rightarrow> nat \<Rightarrow> u64" where
  "ROTL x b = push_bit b x OR drop_bit (64 - b) x"

definition U8TO64_LE :: "bytes \<Rightarrow> u64" where
  "U8TO64_LE p = word_of_nat (le_dec (take 8 p))"

definition U64TO8_LE :: "u64 \<Rightarrow> bytes" where
  "U64TO8_LE v = le_enc 8 (unat v)"

definition SIPROUND :: "sip \<Rightarrow> sip" where
  "SIPROUND s = (case s of (v0, v1, v2, v3) \<Rightarrow>
     let v0 = v0 + v1; v1 = ROTL v1 13; v1 = v1 XOR v0; v0 = ROTL v0 32;
         v2 = v2 + v3; v3 = ROTL v3 16; v3 = v3 XOR v2;
         v0 = v0 + v3; v3 = ROTL v3 21; v3 = v3 XOR v0;
         v2 = v2 + v1; v1 = ROTL v1 17; v1 = v1 XOR v2; v2 = ROTL v2 32
     in (v0, v1, v2, v3))"

text \<open>One block (the body of the loop, and the last block): \<open>cROUNDS\<close> is 2.\<close>

definition sip_block :: "sip \<Rightarrow> u64 \<Rightarrow> sip" where
  "sip_block s m = (case s of (v0, v1, v2, v3) \<Rightarrow>
     (case SIPROUND (SIPROUND (v0, v1, v2, v3 XOR m)) of (v0, v1, v2, v3) \<Rightarrow> (v0 XOR m, v1, v2, v3)))"

text \<open>The loop over the whole words; what it leaves is the tail of fewer than 8 bytes.\<close>

fun sip_words :: "sip \<Rightarrow> bytes \<Rightarrow> sip \<times> bytes" where
  "sip_words s (a # b # c # d # e # f # g # h # ni) =
     sip_words (sip_block s (U8TO64_LE [a, b, c, d, e, f, g, h])) ni"
| "sip_words s ni = (s, ni)"

definition sip_init :: "bytes \<Rightarrow> nat \<Rightarrow> sip" where
  "sip_init kk outlen =
     (let k0 = U8TO64_LE kk; k1 = U8TO64_LE (drop 8 kk) in
      (0x736f6d6570736575 XOR k0,
       (if outlen = 16 then 0x646f72616e646f6d XOR k1 XOR 0xee else 0x646f72616e646f6d XOR k1),
       0x6c7967656e657261 XOR k0,
       0x7465646279746573 XOR k1))"

text \<open>The last block: the tail, and the length in the top byte.\<close>

definition sip_last :: "nat \<Rightarrow> bytes \<Rightarrow> u64" where
  "sip_last inlen tail = push_bit 56 (word_of_nat inlen) OR word_of_nat (le_dec tail)"

definition siphash :: "bytes \<Rightarrow> bytes \<Rightarrow> nat \<Rightarrow> bytes res" where
  "siphash inp k outlen =
     res_bind (assert_that (outlen = 8 \<or> outlen = 16)) (\<lambda>_.
     res_bind (load_n k 0 16) (\<lambda>kk.
     (case sip_words (sip_init kk outlen) inp of (s, tail) \<Rightarrow>
      (case sip_block s (sip_last (length inp) tail) of (v0, v1, v2, v3) \<Rightarrow>
       (case SIPROUND (SIPROUND (SIPROUND (SIPROUND
               (v0, v1, v2 XOR (if outlen = 16 then 0xee else 0xff), v3)))) of (v0, v1, v2, v3) \<Rightarrow>
        let lo = U64TO8_LE (v0 XOR v1 XOR v2 XOR v3) in
        if outlen = 8 then Inr lo
        else (case SIPROUND (SIPROUND (SIPROUND (SIPROUND (v0, v1 XOR 0xdd, v2, v3)))) of (v0, v1, v2, v3) \<Rightarrow>
              Inr (lo @ U64TO8_LE (v0 XOR v1 XOR v2 XOR v3))))))))"

section \<open>Lemmas\<close>

lemma siphash_length:
  assumes "16 \<le> length k"
  shows "\<exists>h. siphash inp k 8 = Inr h \<and> length h = 8"
  using assms by (auto simp: siphash_def U64TO8_LE_def Let_def split: prod.split)


lemma le_enc_8: "le_enc 8 n = [word_of_nat n, word_of_nat (n div 256), word_of_nat (n div 256 div 256),
  word_of_nat (n div 256 div 256 div 256), word_of_nat (n div 256 div 256 div 256 div 256),
  word_of_nat (n div 256 div 256 div 256 div 256 div 256),
  word_of_nat (n div 256 div 256 div 256 div 256 div 256 div 256),
  word_of_nat (n div 256 div 256 div 256 div 256 div 256 div 256 div 256)]"
proof -
  have "(8 :: nat) = Suc (Suc (Suc (Suc (Suc (Suc (Suc (Suc 0)))))))" by simp
  then show ?thesis by (simp only: le_enc.simps)
qed

definition test_key :: bytes where
  "test_key = [0, 1, 2, 3, 4, 5, 6, 7, 8, 9, 10, 11, 12, 13, 14, 15]"

lemmas sip_setup = siphash_def test_key_def slice_at_def sip_init_def U8TO64_LE_def sip_last_def sip_block_def

lemma sip_vector_0: "siphash [] test_key 8 = Inr [0x31, 0x0e, 0x0e, 0xdd, 0x47, 0xdb, 0x6f, 0x72]"
  by (simp add: sip_setup, simp add: SIPROUND_def ROTL_def, simp add: U64TO8_LE_def le_enc_8)

lemma sip_vector_8:
  "siphash [0, 1, 2, 3, 4, 5, 6, 7] test_key 8 = Inr [0x62, 0x24, 0x93, 0x9a, 0x79, 0xf5, 0xf5, 0x93]"
  by (simp add: sip_setup, simp add: SIPROUND_def ROTL_def, simp add: U64TO8_LE_def le_enc_8)

text \<open>The vectors for the empty input and for eight bytes of the library's own test
  (\<^verbatim>\<open>vectors_sip64\<close>, key 0 to 15) come out.\<close>

theorem siphash_test_vectors:
  "siphash [] test_key 8 = Inr [0x31, 0x0e, 0x0e, 0xdd, 0x47, 0xdb, 0x6f, 0x72]
   \<and> siphash [0, 1, 2, 3, 4, 5, 6, 7] test_key 8 = Inr [0x62, 0x24, 0x93, 0x9a, 0x79, 0xf5, 0xf5, 0x93]"
  by (simp only: sip_vector_0 sip_vector_8)

end
