(* ===== verification/Std_Map.thy ===== *)
theory Std_Map
  imports Prelude
begin

text \<open>
  \<^verbatim>\<open>std::map\<close> of the C++ library over ordered keys, as the sorted list of its elements:
  \<open>find\<close>, \<open>insert\<close> (which keeps an element that is there), \<open>operator[]\<close> assignment and
  \<open>erase\<close>, with the laws the servers rely on.
\<close>

type_synonym ('k, 'v) std_map = "('k \<times> 'v) list"

definition find_key :: "'k \<Rightarrow> ('k, 'v) std_map \<Rightarrow> 'v option" where
  "find_key k m = map_of m k"

fun set_key :: "'k::linorder \<Rightarrow> 'v \<Rightarrow> ('k, 'v) std_map \<Rightarrow> ('k, 'v) std_map" where
  "set_key k v [] = [(k, v)]"
| "set_key k v ((k', v') # m) =
     (if k < k' then (k, v) # (k', v') # m
      else if k = k' then (k, v) # m
      else (k', v') # set_key k v m)"

definition insert_key :: "'k::linorder \<Rightarrow> 'v \<Rightarrow> ('k, 'v) std_map \<Rightarrow> ('k, 'v) std_map" where
  "insert_key k v m = (case find_key k m of None \<Rightarrow> set_key k v m | Some _ \<Rightarrow> m)"

definition erase_key :: "'k \<Rightarrow> ('k, 'v) std_map \<Rightarrow> ('k, 'v) std_map" where
  "erase_key k m = filter (\<lambda>(k', _). k' \<noteq> k) m"

definition map_ok :: "('k::linorder, 'v) std_map \<Rightarrow> bool" where
  "map_ok m = sorted_wrt (<) (map fst m)"

locale dictionary =
  fixes find :: "'k \<Rightarrow> 'm \<Rightarrow> 'v option" and put :: "'k \<Rightarrow> 'v \<Rightarrow> 'm \<Rightarrow> 'm"
    and erase :: "'k \<Rightarrow> 'm \<Rightarrow> 'm" and invar :: "'m \<Rightarrow> bool"
  assumes find_put: "invar m \<Longrightarrow> find k (put k' v m) = (if k = k' then Some v else find k m)"
    and find_erase: "invar m \<Longrightarrow> find k (erase k' m) = (if k = k' then None else find k m)"
    and invar_put: "invar m \<Longrightarrow> invar (put k v m)"
    and invar_erase: "invar m \<Longrightarrow> invar (erase k m)"
begin

lemma put_then_erase:
  assumes "invar m" "find k m = None"
  shows "find k' (erase k (put k v m)) = find k' m"
  using assms by (simp add: find_put find_erase invar_put)

lemma updates_commute:
  assumes "invar m" "k \<noteq> k'"
  shows "find x (put k v (put k' v' m)) = find x (put k' v' (put k v m))"
  using assms by (simp add: find_put invar_put)

end

lemma set_key_keys: "set (map fst (set_key k v m)) = insert k (set (map fst m))"
  by (induction k v m rule: set_key.induct) auto

lemma set_key_ok: "map_ok m \<Longrightarrow> map_ok (set_key k v m)"
proof (induction k v m rule: set_key.induct)
  case (2 k v k' v' m)
  have "\<forall>x \<in> set (map fst (set_key k v m)). k' < x" if "\<not> k < k'" "k \<noteq> k'"
    using 2 that unfolding set_key_keys by (auto simp: map_ok_def)
  then show ?case using 2 by (auto simp: map_ok_def intro: less_trans)
qed (simp add: map_ok_def)

lemma erase_key_ok: "map_ok m \<Longrightarrow> map_ok (erase_key k m)"
  by (simp add: map_ok_def erase_key_def sorted_wrt_map sorted_wrt_filter)

lemma find_set_key: "map_ok m \<Longrightarrow> find_key x (set_key k v m) = (if x = k then Some v else find_key x m)"
  by (induction k v m rule: set_key.induct) (auto simp: map_ok_def find_key_def)

lemma find_erase_key: "find_key x (erase_key k m) = (if x = k then None else find_key x m)"
  by (induction m) (auto simp: erase_key_def find_key_def)

interpretation std_map: dictionary find_key set_key erase_key map_ok
  by unfold_locales (simp_all add: find_set_key find_erase_key set_key_ok erase_key_ok)

lemma find_insert_key:
  "map_ok m \<Longrightarrow> find_key x (insert_key k v m) = (if x = k \<and> find_key k m = None then Some v else find_key x m)"
  by (auto simp: insert_key_def find_set_key split: option.split)

lemma insert_key_ok: "map_ok m \<Longrightarrow> map_ok (insert_key k v m)"
  by (simp add: insert_key_def set_key_ok split: option.split)

lemma map_ok_Nil [simp]: "map_ok []"
  by (simp add: map_ok_def)

lemma find_key_Nil [simp]: "find_key k [] = None"
  by (simp add: find_key_def)

end
