(* ===== verification/Ip4.thy ===== *)
theory Ip4
  imports Servers Siphash Std_Map
begin

text \<open>
  \<^verbatim>\<open>src/ip4_server.cpp\<close>: IPv4 in both directions, with reassembly of fragments, routing to
  the default gateway, resolution of the link addresses and fragmentation to the MTU.
\<close>

section \<open>Errors and identifiers\<close>

definition ip4_send_icmp_error ::
  "'w shm_queue \<Rightarrow> string \<Rightarrow> byte \<Rightarrow> byte \<Rightarrow> bytes \<Rightarrow> addr \<Rightarrow> addr \<Rightarrow> 'w \<Rightarrow> 'w res" where
  "ip4_send_icmp_error shm icmp_error_name ty code full_pkt to_a me w =
     res_bind (post shm icmp_error_name (wrap_message_up full_pkt me to_a [ty, code] None) w) (\<lambda>(r, w). Inr w)"

text \<open>The salt has fifteen initialisers for sixteen bytes; the last byte is 0.\<close>

definition session_id_salt :: bytes where
  "session_id_salt = [0x01, 0x02, 0x03, 0x04, 0x05, 0x06, 0x08, 0x09, 0x0a, 0x0b, 0x0c, 0x0d, 0x0e, 0x0f, 0x10, 0x00]"

definition calc_session_id :: "addr \<Rightarrow> addr \<Rightarrow> u16 \<Rightarrow> u16 \<Rightarrow> u64 res" where
  "calc_session_id from_a to_a protocol ident =
     res_bind (assert_that (from_a \<noteq> [] \<and> to_a \<noteq> [])) (\<lambda>_.
     res_bind (siphash (le_enc 2 (unat protocol) @ le_enc 2 (unat ident) @ from_a @ to_a) session_id_salt 8) (\<lambda>h.
     Inr (push_bit 32 (word_of_nat (le_dec (take 4 h))) OR word_of_nat (le_dec (drop 4 h)))))"

section \<open>Reassembly\<close>

record packet =
  latest_ts :: u64
  pk_data :: bytes
  full_size_known :: bool
  fragments :: "(u16 \<times> u16) list"

definition packet_fragmentation_timeout :: u64 where
  "packet_fragmentation_timeout = 5000000"

fun contiguous :: "u16 \<Rightarrow> (u16 \<times> u16) list \<Rightarrow> bool" where
  "contiguous prev_end [] = True"
| "contiguous prev_end ((first, second) # frs) = (first = prev_end \<and> contiguous (first + second) frs)"

text \<open>\<open>is_complete\<close> sorts the fragments in place; the order \<^verbatim>\<open>std::sort\<close> leaves between
  fragments of one offset is unspecified, here it is the order of arrival.\<close>

definition is_complete :: "packet \<Rightarrow> bool \<times> packet" where
  "is_complete p =
     (if \<not> full_size_known p then (False, p)
      else (let p = p\<lparr> fragments := sort_key fst (fragments p) \<rparr> in (contiguous 0 (fragments p), p)))"

text \<open>Storing one fragment: memory gained by \<^verbatim>\<open>realloc\<close> holds \<open>junk\<close>.\<close>

definition store_fragment :: "(nat \<Rightarrow> byte) \<Rightarrow> u64 \<Rightarrow> nat \<Rightarrow> bytes \<Rightarrow> bool \<Rightarrow> packet \<Rightarrow> packet" where
  "store_fragment junk now ofs dat mf p =
     (let current_fragment_end = ofs + length dat;
          d = (if length (pk_data p) < current_fragment_end
               then pk_data p @ map junk [length (pk_data p) ..< current_fragment_end] else pk_data p);
          p = p\<lparr> pk_data := put_at ofs dat d, fragments := fragments p @ [(word_of_nat ofs, word_of_nat (length dat))] \<rparr>;
          p = (if \<not> mf then p\<lparr> full_size_known := True \<rparr> else p)
      in p\<lparr> latest_ts := now \<rparr>)"

definition new_packet :: packet where
  "new_packet = \<lparr> latest_ts = 0, pk_data = [], full_size_known = False, fragments = [] \<rparr>"

definition ip4_fragment ::
  "(nat \<Rightarrow> byte) \<Rightarrow> u64 \<Rightarrow> u64 \<Rightarrow> nat \<Rightarrow> bytes \<Rightarrow> bool \<Rightarrow> (u64, packet) std_map \<Rightarrow> bytes option \<times> (u64, packet) std_map" where
  "ip4_fragment junk now frag_session ofs dat mf packets =
     (let p = (case find_key frag_session packets of None \<Rightarrow> new_packet | Some p \<Rightarrow> p);
          p = store_fragment junk now ofs dat mf p
      in case is_complete p of (complete, p) \<Rightarrow>
           if complete then (Some (pk_data p), erase_key frag_session packets)
           else (None, set_key frag_session p packets))"

text \<open>The cleaner thread: a record without a fragment for 5 s is forgotten.\<close>

definition ip4_clean_packets :: "u64 \<Rightarrow> (u64, packet) std_map \<Rightarrow> (u64, packet) std_map" where
  "ip4_clean_packets now packets =
     fold erase_key (map fst (filter (\<lambda>(k, p). packet_fragmentation_timeout \<le> now - latest_ts p) packets)) packets"

section \<open>Ethernet to IP4\<close>

definition ip4_run_in ::
  "'w shm_queue \<Rightarrow> addr \<Rightarrow> (byte \<Rightarrow> string option) \<Rightarrow> string \<Rightarrow> (nat \<Rightarrow> byte) \<Rightarrow> u64 \<Rightarrow> message
    \<Rightarrow> (u64, packet) std_map \<Rightarrow> 'w \<Rightarrow> (nat \<times> (u64, packet) std_map \<times> 'w) res" where
  "ip4_run_in shm listen_addr mappings_in icmp_error_name junk now m packets w =
     res_bind (unwrap_message_up (msg_data m)) (\<lambda>v.
     let pl_len = up_pl_len v in
     if pl_len < 20 then Inr (1, packets, w)
     else res_bind (load_n (up_pl v) 0 pl_len) (\<lambda>pl.
     let ip4_src = slice_at 12 4 pl; ip4_dst = slice_at 16 4 pl;
         header_size = unat (pl ! 0 AND 15) * 4;
         ip_size = unat (get_uint16 (slice_at 2 2 pl));
         protocol = pl ! 9;
         flags = drop_bit 5 (pl ! 6);
         err = (\<lambda>ty code. res_bind (ip4_send_icmp_error shm icmp_error_name ty code pl ip4_src ip4_dst w) (\<lambda>w.
                  Inr (1, packets, w)))
     in
     if drop_bit 4 (pl ! 0) \<noteq> 4 then Inr (1, packets, w)
     else res_bind (addr_neq ip4_dst listen_addr) (\<lambda>other.
     if other then Inr (1, packets, w)
     else if ip_size < header_size then err 12 2
     else if pl_len < ip_size then err 12 2
     else if pl ! 8 = 0 then err 11 0
     else (case mappings_in protocol of
         None \<Rightarrow> err 3 2
       | Some name \<Rightarrow>
           if ip_checksum pl header_size \<noteq> 0 then Inr (1, packets, w)
           else
             let pl_without_header_len = ip_size - header_size;
                 dat = slice_at header_size pl_without_header_len pl;
                 ident = get_uint16 (slice_at 4 2 pl);
                 ofs = unat (get_uint16 (slice_at 6 2 pl) AND 0x1fff) * 8
             in
             res_bind (calc_session_id ip4_src ip4_dst (ucast protocol) ident) (\<lambda>sid.
             case (if 0 < ofs \<or> flags AND 1 \<noteq> 0
                   then ip4_fragment junk now sid ofs dat (flags AND 1 \<noteq> 0) packets
                   else (Some dat, packets)) of (whole, packets) \<Rightarrow>
             (case whole of
                None \<Rightarrow> Inr (1, packets, w)
              | Some whole \<Rightarrow>
                  res_bind (post shm name
                    ((wrap_message_up (take ip_size pl) ip4_src ip4_dst whole None)\<lparr> msg_id := sid \<rparr>) w) (\<lambda>(r, w).
                  Inr (1, packets, w))))))))"

section \<open>IP4 to Ethernet: starting to resolve\<close>

definition start_resolve_by_ip4 :: "'w shm_queue \<Rightarrow> string \<Rightarrow> addr \<Rightarrow> 'w \<Rightarrow> (u64 option \<times> 'w) res" where
  "start_resolve_by_ip4 shm_resolver_replies resolver_name a w =
     (let msg = ''search-mac='' @ addr_to_str a CHR ''.'' False;
          res_req_msg = (allocate_shm_message (length msg))\<lparr> msg_type := msg_new, msg_data := to_bytes msg \<rparr>
      in res_bind (shm_resolver_replies resolver_name res_req_msg False w) (\<lambda>(r, res_req_msg, w).
         if r then Inr (Some (msg_nr res_req_msg), w) else Inr (None, w)))"

text \<open>The table of network masks, \<^verbatim>\<open>masks[32]\<close>: entry \<open>i\<close> has the \<open>i\<close> top bits set.\<close>

fun mask_table :: "nat \<Rightarrow> u32 \<Rightarrow> u32 list" where
  "mask_table 0 mask_value = []"
| "mask_table (Suc n) mask_value = mask_value # mask_table n (drop_bit 1 mask_value OR 0x80000000)"

definition masks :: "u32 list" where
  "masks = mask_table 32 0"

text \<open>The address to resolve for a destination: itself in the local network, else the gateway.  The
  length of the prefix is the \<^verbatim>\<open>int\<close> of the configuration, which nothing compares with the size of the
  table.\<close>

definition route_via :: "addr \<Rightarrow> int \<Rightarrow> addr \<Rightarrow> addr \<Rightarrow> addr res" where
  "route_via listen_addr bits default_gw_addr to_a =
     res_bind (if bits < 0 then Inl Out_of_bounds else load masks (nat bits)) (\<lambda>mask.
     res_bind (get32 listen_addr 0) (\<lambda>listen_addr_word.
     res_bind (get32 to_a 0) (\<lambda>to_word.
     Inr (if to_word AND mask \<noteq> listen_addr_word AND mask then default_gw_addr else take 4 to_a))))"

text \<open>
  Pending messages: two keys (the numbers of the two resolver requests) share one heap
  record, so the records live in a store of their own and the map holds their addresses.
\<close>

record pending_msg =
  ts :: u64
  queued_msg :: message
  from_nr :: u64
  pm_from :: "addr option"
  to_nr :: u64
  pm_to :: "addr option"

record out_state =
  pending_messages :: "(u64, nat) std_map"
  pm_heap :: "nat \<Rightarrow> pending_msg option"
  pm_next :: nat

text \<open>The message moves into the pending record on success (no free), else it is freed.\<close>

definition ip4_run_out ::
  "addr \<Rightarrow> int \<Rightarrow> addr \<Rightarrow> 'w shm_queue \<Rightarrow> string \<Rightarrow> u64 \<Rightarrow> message \<Rightarrow> out_state \<Rightarrow> 'w \<Rightarrow> (nat \<times> out_state \<times> 'w) res" where
  "ip4_run_out listen_addr bits default_gw_addr shm_resolver_replies resolver_name now m st w =
     res_bind (unwrap_message_down (msg_data m)) (\<lambda>v.
     if dn_from_len v \<noteq> 4 \<or> dn_to_len v \<noteq> 4 then Inr (1, st, w)
     else res_bind (load_n (dn_from v) 0 4) (\<lambda>from_a.
     res_bind (load_n (dn_to v) 0 4) (\<lambda>to_a.
     res_bind (start_resolve_by_ip4 shm_resolver_replies resolver_name from_a w) (\<lambda>(from_msg_nr, w).
     res_bind (route_via listen_addr bits default_gw_addr to_a) (\<lambda>via.
     res_bind (start_resolve_by_ip4 shm_resolver_replies resolver_name via w) (\<lambda>(to_msg_nr, w).
     case (from_msg_nr, to_msg_nr) of
       (Some f, Some t) \<Rightarrow>
         let pm = \<lparr> ts = now, queued_msg = m, from_nr = f, pm_from = None, to_nr = t, pm_to = None \<rparr>;
             a = pm_next st
         in Inr (0, st\<lparr> pending_messages := insert_key t a (insert_key f a (pending_messages st)),
                       pm_heap := (pm_heap st)(a := Some pm), pm_next := a + 1 \<rparr>, w)
     | _ \<Rightarrow> Inr (1, st, w)))))))"


section \<open>IP4 to Ethernet: fragmentation\<close>

text \<open>One fragment with its header; the offset is a multiple of 8.\<close>

definition ip4_header :: "byte \<Rightarrow> u16 \<Rightarrow> nat \<Rightarrow> bool \<Rightarrow> addr \<Rightarrow> addr \<Rightarrow> nat \<Rightarrow> bytes" where
  "ip4_header protocol packets_id fragment_offset mf from_a to_a complete_msg_size =
     [0x45, 0, word_of_nat (complete_msg_size div 256), word_of_nat complete_msg_size]
     @ put_uint16 packets_id
     @ [word_of_nat (fragment_offset div 2048) OR (if mf then 0x20 else 0), word_of_nat (fragment_offset div 8),
        63, protocol, 0, 0] @ from_a @ to_a"

definition ip4_packet :: "byte \<Rightarrow> u16 \<Rightarrow> nat \<Rightarrow> bool \<Rightarrow> addr \<Rightarrow> addr \<Rightarrow> bytes \<Rightarrow> bytes" where
  "ip4_packet protocol packets_id fragment_offset mf from_a to_a dat =
     (let header = ip4_header protocol packets_id fragment_offset mf from_a to_a (length dat + 20);
          checksum = ip_checksum header 20
      in put_at 10 (put_uint16 checksum) header @ dat)"

definition use_mtu_size :: "int \<Rightarrow> nat" where
  "use_mtu_size mtu_size = nat (((mtu_size - 20) AND NOT 7) mod 2 ^ 64)"

text \<open>The loop ends when everything is sent or a send fails.  It makes no progress for an MTU
  below 28, hence the fuel.\<close>

fun ip4_send_fragments ::
  "nat \<Rightarrow> 'w shm_queue \<Rightarrow> string \<Rightarrow> addr \<Rightarrow> addr \<Rightarrow> (nat \<Rightarrow> bool \<Rightarrow> bytes \<Rightarrow> bytes) \<Rightarrow> nat \<Rightarrow> bytes \<Rightarrow> nat \<Rightarrow> nat \<Rightarrow> 'w \<Rightarrow> 'w res" where
  "ip4_send_fragments fuel shm link_name from_mac to_mac build mtu pl pl_len fragment_offset w =
     (if fragment_offset < pl_len then
        (case fuel of
           0 \<Rightarrow> Inl Fuel_exhausted
         | Suc fuel \<Rightarrow>
             let current_fragment_size = min mtu (pl_len - fragment_offset);
                 mf = fragment_offset + current_fragment_size < pl_len
             in res_bind (load_n pl fragment_offset current_fragment_size) (\<lambda>dat.
                res_bind (post shm link_name
                    (wrap_message_down from_mac to_mac (build fragment_offset mf dat) None) w) (\<lambda>(rc, w).
                if \<not> rc then Inr w
                else ip4_send_fragments fuel shm link_name from_mac to_mac build mtu pl pl_len
                       (fragment_offset + current_fragment_size) w)))
      else Inr w)"

declare ip4_send_fragments.simps [simp del]

text \<open>A resolver reply: fill in the address it brings; when both are known, send.\<close>

definition pending_fill :: "u64 \<Rightarrow> addr \<Rightarrow> pending_msg \<Rightarrow> pending_msg option" where
  "pending_fill nr a pm =
     (if from_nr pm = nr then Some (pm\<lparr> pm_from := Some a \<rparr>)
      else if to_nr pm = nr then Some (pm\<lparr> pm_to := Some a \<rparr>)
      else None)"

definition ip4_transmit ::
  "nat \<Rightarrow> 'w shm_queue \<Rightarrow> string \<Rightarrow> (string \<Rightarrow> byte option) \<Rightarrow> int \<Rightarrow> u16 \<Rightarrow> pending_msg \<Rightarrow> addr \<Rightarrow> addr \<Rightarrow> 'w \<Rightarrow> 'w res" where
  "ip4_transmit fuel shm link_name mappings_out mtu_size packets_id pm from_mac to_mac w =
     (case mappings_out (c_str (sender (queued_msg pm))) of
        None \<Rightarrow> Inr w
      | Some protocol \<Rightarrow>
          res_bind (unwrap_message_down (msg_data (queued_msg pm))) (\<lambda>v.
          res_bind (load_n (dn_from v) 0 4) (\<lambda>from_a.
          res_bind (load_n (dn_to v) 0 4) (\<lambda>to_a.
          ip4_send_fragments fuel shm link_name from_mac to_mac
            (\<lambda>fragment_offset mf. ip4_packet protocol packets_id fragment_offset mf from_a to_a)
            (use_mtu_size mtu_size) (dn_pl v) (dn_pl_len v) 0 w))))"

definition ip4_sender ::
  "nat \<Rightarrow> 'w shm_queue \<Rightarrow> string \<Rightarrow> (string \<Rightarrow> byte option) \<Rightarrow> int \<Rightarrow> (nat \<Rightarrow> byte) \<Rightarrow> u16 \<Rightarrow> message \<Rightarrow> out_state \<Rightarrow> 'w
    \<Rightarrow> (nat \<times> out_state \<times> 'w) res" where
  "ip4_sender fuel shm link_name mappings_out mtu_size junk packets_id resolve_result st w =
     (let nr = msg_nr resolve_result in
      case find_key nr (pending_messages st) of
        None \<Rightarrow> Inr (1, st, w)
      | Some a \<Rightarrow>
          res_bind (load_n (msg_data resolve_result) 0 (unat (msg_size resolve_result))) (\<lambda>d.
          let resolve_result_str = of_bytes d in
          case find_sub ''=mac:'' resolve_result_str of
            None \<Rightarrow> Inr (1, st, w)
          | Some is \<Rightarrow>
              res_bind (addr_of_string (drop (is + 5) resolve_result_str) '':'' True junk) (\<lambda>mac.
              case pm_heap st a of
                None \<Rightarrow> Inl Out_of_bounds
              | Some pm \<Rightarrow>
                  let erased = erase_key nr (pending_messages st) in
                  (case pending_fill nr mac pm of
                     None \<Rightarrow> Inr (1, st\<lparr> pending_messages := erased \<rparr>, w)
                   | Some pm \<Rightarrow>
                       (case (pm_from pm, pm_to pm) of
                          (Some f, Some t) \<Rightarrow>
                            res_bind (ip4_transmit fuel shm link_name mappings_out mtu_size packets_id pm f t w) (\<lambda>w.
                            Inr (1, st\<lparr> pending_messages := erased, pm_heap := (pm_heap st)(a := None) \<rparr>, w))
                        | _ \<Rightarrow> Inr (1, st\<lparr> pending_messages := erased, pm_heap := (pm_heap st)(a := Some pm) \<rparr>, w))))))"

definition arp_timeout :: u64 where
  "arp_timeout = 2500000"

text \<open>The cleaner: which keys it erases (both of every record it finds too old) and how often
  it frees a queued message.\<close>

fun ip4_expired :: "u64 \<Rightarrow> (nat \<Rightarrow> pending_msg option) \<Rightarrow> (u64, nat) std_map \<Rightarrow> u64 list \<Rightarrow> nat list \<Rightarrow> (u64 list \<times> nat list) res" where
  "ip4_expired now heap [] erase_keys freed = Inr (erase_keys, freed)"
| "ip4_expired now heap ((k, a) # pms) erase_keys freed =
     (if k \<in> set erase_keys then ip4_expired now heap pms erase_keys freed
      else (case heap a of
          None \<Rightarrow> Inl Out_of_bounds
        | Some pm \<Rightarrow>
            if arp_timeout \<le> now - ts pm
            then ip4_expired now heap pms (to_nr pm # from_nr pm # erase_keys) (a # freed)
            else ip4_expired now heap pms erase_keys freed))"

definition ip4_clean_pending :: "u64 \<Rightarrow> out_state \<Rightarrow> out_state res" where
  "ip4_clean_pending now st =
     res_bind (ip4_expired now (pm_heap st) (pending_messages st) [] []) (\<lambda>(erase_keys, freed).
     Inr (st\<lparr> pending_messages := fold erase_key erase_keys (pending_messages st) \<rparr>))"

section \<open>Meta requests\<close>

definition push_meta_reply :: "'w shm_queue \<Rightarrow> string \<Rightarrow> string \<Rightarrow> u64 \<Rightarrow> 'w \<Rightarrow> 'w res" where
  "push_meta_reply shm_meta dest reply nr w =
     res_bind (post shm_meta dest ((allocate_shm_message (length reply))\<lparr> msg_type := msg_reply, msg_nr := nr,
       msg_data := to_bytes reply \<rparr>) w) (\<lambda>(r, w). Inr w)"

definition ip4_run_meta :: "'w shm_queue \<Rightarrow> addr \<Rightarrow> message \<Rightarrow> 'w \<Rightarrow> (nat \<times> 'w) res" where
  "ip4_run_meta shm_meta ip4 m w =
     res_bind (load_n (msg_data m) 0 (unat (msg_size m))) (\<lambda>d.
     case split (of_bytes d) ''='' of
       [] \<Rightarrow> Inl Out_of_bounds
     | cmd # _ \<Rightarrow>
         if cmd = ''get-ip4'' then
           res_bind (push_meta_reply shm_meta (c_str (sender m)) (''ip4='' @ addr_to_str ip4 CHR ''.'' False) (msg_nr m) w)
             (\<lambda>w. Inr (1, w))
         else Inr (1, w))"

end
