(* ===== verification/Ip4_Fragments.thy ===== *)
theory Ip4_Fragments
  imports Ip4 "HOL-Library.Multiset"
begin

text \<open>
  Correctness of fragmentation and reassembly: a payload cut into fragments and received in
  any order comes out again, exactly when the last missing fragment has arrived.
\<close>

section \<open>A payload cut into fragments\<close>

text \<open>Offset, bytes and more-fragments flag of the pieces of a payload.\<close>

fun pieces :: "nat \<Rightarrow> bytes list \<Rightarrow> (nat \<times> bytes \<times> bool) list" where
  "pieces ofs [] = []"
| "pieces ofs (c # cs) = (ofs, c, cs \<noteq> []) # pieces (ofs + length c) cs"

definition key_of :: "nat \<times> bytes \<times> bool \<Rightarrow> u16 \<times> u16" where
  "key_of fr = (case fr of (ofs, c, mf) \<Rightarrow> (word_of_nat ofs, word_of_nat (length c)))"

lemma key_of_simp [simp]: "key_of (ofs, c, mf) = (word_of_nat ofs, word_of_nat (length c))"
  by (simp add: key_of_def)

lemma fst_key_of: "fst (key_of x) = word_of_nat (fst x)"
  by (simp add: key_of_def case_prod_beta)

definition before :: "nat \<times> bytes \<times> bool \<Rightarrow> nat \<times> bytes \<times> bool \<Rightarrow> bool" where
  "before x y \<longleftrightarrow> fst x + length (fst (snd x)) \<le> fst y"

lemma pieces_bounds:
  "(o1, c, mf) \<in> set (pieces ofs cs) \<Longrightarrow>
   ofs \<le> o1 \<and> o1 + length c \<le> ofs + length (concat cs) \<and> c \<in> set cs"
  by (induction cs arbitrary: ofs) fastforce+

lemma pieces_sorted: "sorted_wrt before (pieces ofs cs)"
proof (induction cs arbitrary: ofs)
  case (Cons c cs)
  then show ?case using pieces_bounds[of _ _ _ "ofs + length c" cs]
    by (auto simp: before_def)
qed simp

lemma length_pieces [simp]: "length (pieces ofs cs) = length cs"
  by (induction cs arbitrary: ofs) auto

lemma pieces_slice:
  "(o1, c, mf) \<in> set (pieces ofs cs) \<Longrightarrow> slice_at (o1 - ofs) (length c) (concat cs) = c"
proof (induction cs arbitrary: ofs)
  case (Cons d cs)
  show ?case
  proof (cases "(o1, c, mf) = (ofs, d, cs \<noteq> [])")
    case False
    then have "(o1, c, mf) \<in> set (pieces (ofs + length d) cs)" using Cons.prems by auto
    then show ?thesis using Cons.IH pieces_bounds[of o1 c mf "ofs + length d" cs]
      by (auto simp: slice_at_def)
  qed (simp add: slice_at_def)
qed simp

text \<open>Only the last piece has no more-fragments flag.\<close>

lemma pieces_last: "cs \<noteq> [] \<Longrightarrow> \<exists>x \<in> set (pieces ofs cs). \<not> snd (snd x)"
  by (induction cs arbitrary: ofs) auto

lemma pieces_distinct: "\<forall>c \<in> set cs. c \<noteq> [] \<Longrightarrow> distinct (map fst (pieces ofs cs))"
proof (induction cs arbitrary: ofs)
  case (Cons c cs)
  have "ofs \<notin> fst ` set (pieces (ofs + length c) cs)"
    using Cons.prems pieces_bounds[of _ _ _ "ofs + length c" cs] by fastforce
  then show ?case using Cons by simp
qed simp

section \<open>When the fragments are contiguous\<close>

lemma contiguous_pieces: "contiguous (word_of_nat ofs) (map key_of (pieces ofs cs))"
proof (induction cs arbitrary: ofs)
  case (Cons c cs)
  then show ?case using Cons[of "ofs + length c"] by (simp add: key_of_def)
qed simp

lemma unat_u16: "n < 65536 \<Longrightarrow> unat (word_of_nat n :: u16) = n"
  by (simp add: unat_of_nat)

lemma contiguous_Cons: "contiguous e (k # ks) \<longleftrightarrow> fst k = e \<and> contiguous (fst k + snd k) ks"
  by (cases k) simp

lemma contiguous_misses:
  assumes "\<forall>c \<in> set cs. c \<noteq> []" "ofs + length (concat cs) \<le> 65535"
    and "contiguous (word_of_nat ofs) (map key_of (filter Q (pieces ofs cs)))"
    and "x \<in> set (pieces ofs cs)" "Q x" "\<not> snd (snd x)"
  shows "\<forall>y \<in> set (pieces ofs cs). Q y"
  using assms
proof (induction cs arbitrary: ofs)
  case (Cons c cs)
  let ?x = "(ofs, c, cs \<noteq> [])"
  show ?case
  proof (cases "Q ?x")
    case True
    then have c: "contiguous (word_of_nat (ofs + length c)) (map key_of (filter Q (pieces (ofs + length c) cs)))"
      using Cons.prems by simp
    show ?thesis
    proof (cases "cs = []")
      case False
      then have "x \<in> set (pieces (ofs + length c) cs)" using Cons.prems by auto
      then show ?thesis using Cons.IH[OF _ _ c] Cons.prems True by auto
    qed (use True in simp)
  next
    case False
    then have "x \<in> set (pieces (ofs + length c) cs)" using Cons.prems by auto
    then obtain y ys where y: "filter Q (pieces (ofs + length c) cs) = y # ys"
      using Cons.prems by (cases "filter Q (pieces (ofs + length c) cs)") (auto simp: filter_empty_conv)
    then have "y \<in> set (pieces (ofs + length c) cs)" by (metis filter_eq_ConsD in_set_conv_decomp)
    then have b: "ofs + length c \<le> fst y" "fst y \<le> ofs + length (concat (c # cs))"
      using pieces_bounds[of "fst y" "fst (snd y)" "snd (snd y)" "ofs + length c" cs] by auto
    have "(word_of_nat (fst y) :: u16) = word_of_nat ofs"
    proof -
      have "contiguous (word_of_nat ofs) (key_of y # map key_of ys)" using Cons.prems(3) False y by simp
      then show ?thesis unfolding contiguous_Cons fst_key_of by (rule conjunct1)
    qed
    moreover have "fst y < 65536" "ofs < 65536" using b Cons.prems(2) by simp_all
    ultimately have "fst y = ofs" by (metis unat_u16)
    then show ?thesis using b Cons.prems(1) by simp
  qed
qed simp

section \<open>What a record knows\<close>

text \<open>\<open>has_frags cs xs p\<close>: record \<open>p\<close> holds exactly the fragments \<open>xs\<close> of the payload
  \<open>concat cs\<close>.\<close>

definition has_frags :: "bytes list \<Rightarrow> (nat \<times> bytes \<times> bool) list \<Rightarrow> packet \<Rightarrow> bool" where
  "has_frags cs xs p \<longleftrightarrow> mset (fragments p) = mset (map key_of xs)
     \<and> full_size_known p = (\<exists>x \<in> set xs. \<not> snd (snd x))
     \<and> (\<forall>(ofs, c, mf) \<in> set xs. ofs + length c \<le> length (pk_data p) \<and> slice_at ofs (length c) (pk_data p) = c)
     \<and> length (pk_data p) \<le> length (concat cs)"

lemma slice_at_put_at_other:
  assumes "o1 + n \<le> length d" "o2 + length c \<le> length d" "o1 + n \<le> o2 \<or> o2 + length c \<le> o1"
  shows "slice_at o1 n (put_at o2 c d) = slice_at o1 n d"
  using assms by (auto simp: slice_at_put_at_before slice_at_put_at_after)

lemma store_fragment_has_frags:
  assumes "has_frags cs xs p" "(ofs, c, mf) \<in> set (pieces 0 cs)" "set xs \<subseteq> set (pieces 0 cs)" "(ofs, c, mf) \<notin> set xs"
  shows "has_frags cs (xs @ [(ofs, c, mf)]) (store_fragment junk now ofs c mf p)"
proof -
  let ?e = "ofs + length c"
  define d where "d = (if length (pk_data p) < ?e
    then pk_data p @ map junk [length (pk_data p) ..< ?e] else pk_data p)"
  have len: "length d = max (length (pk_data p)) ?e" by (simp add: d_def)
  have pre: "slice_at o1 n d = slice_at o1 n (pk_data p)" if "o1 + n \<le> length (pk_data p)" for o1 n
    using that by (simp add: d_def slice_at_append_left)
  have apart: "o1 + length c1 \<le> ofs \<or> ?e \<le> o1" if "(o1, c1, m1) \<in> set xs" for o1 c1 m1
  proof -
    have "(o1, c1, m1) \<in> set (pieces 0 cs)" "(o1, c1, m1) \<noteq> (ofs, c, mf)"
      using that assms(3,4) by (blast, metis)
    then obtain i j where "pieces 0 cs ! i = (o1, c1, m1)" "pieces 0 cs ! j = (ofs, c, mf)" "i \<noteq> j"
      "i < length cs" "j < length cs"
      using assms(2) by (metis in_set_conv_nth length_pieces)
    then show ?thesis
      using sorted_wrt_nth_less[OF pieces_sorted, of i j 0 cs] sorted_wrt_nth_less[OF pieces_sorted, of j i 0 cs]
      by (cases "i < j") (simp_all add: before_def)
  qed
  have old: "o1 + length c1 \<le> length d \<and> slice_at o1 (length c1) (put_at ofs c d) = c1"
    if "(o1, c1, m1) \<in> set xs" for o1 c1 m1
  proof -
    have 1: "o1 + length c1 \<le> length (pk_data p)" "slice_at o1 (length c1) (pk_data p) = c1"
      using that assms(1) by (auto simp: has_frags_def)
    have "slice_at o1 (length c1) (put_at ofs c d) = slice_at o1 (length c1) d"
      using 1 apart[OF that] by (intro slice_at_put_at_other) (auto simp: len)
    also have "\<dots> = c1" using 1 pre by simp
    finally show ?thesis using 1 by (simp add: len)
  qed
  have new: "slice_at ofs (length c) (put_at ofs c d) = c"
    by (rule slice_at_put_at_same) (simp_all add: len)
  have lp: "length (put_at ofs c d) = max (length (pk_data p)) ?e"
    by (subst length_put_at) (simp_all add: len)
  have "?e \<le> length (concat cs)" using pieces_bounds[OF assms(2)] by simp
  moreover have "pk_data (store_fragment junk now ofs c mf p) = put_at ofs c d"
    "fragments (store_fragment junk now ofs c mf p) = fragments p @ [key_of (ofs, c, mf)]"
    "full_size_known (store_fragment junk now ofs c mf p) = (full_size_known p \<or> \<not> mf)"
    by (simp_all add: store_fragment_def Let_def d_def)
  ultimately show ?thesis using assms(1) old new unfolding has_frags_def
    by (auto simp: lp)
qed

section \<open>Complete exactly with all fragments\<close>

lemma pieces_u16:
  assumes "\<forall>c \<in> set cs. c \<noteq> []" "length (concat cs) \<le> 65535" "x \<in> set (pieces 0 cs)"
  shows "unat (word_of_nat (fst x) :: u16) = fst x"
  using pieces_bounds[of "fst x" "fst (snd x)" "snd (snd x)" 0 cs] assms by (intro unat_u16) simp

lemma pieces_key_sorted:
  assumes "\<forall>c \<in> set cs. c \<noteq> []" "length (concat cs) \<le> 65535"
  shows "sorted_wrt (\<lambda>x y. fst (key_of x) < fst (key_of y)) (pieces 0 cs)"
proof (rule sorted_wrt_mono_rel[OF _ pieces_sorted])
  fix x y assume x: "x \<in> set (pieces 0 cs)" and y: "y \<in> set (pieces 0 cs)" and "before x y"
  moreover have "fst (snd x) \<noteq> []"
    using pieces_bounds[of "fst x" "fst (snd x)" "snd (snd x)" 0 cs] x assms(1) by simp
  ultimately have "fst x < fst y" by (cases "fst (snd x)") (simp_all add: before_def)
  then show "fst (key_of x) < fst (key_of y)"
    using pieces_u16[OF assms x] pieces_u16[OF assms y] by (simp add: fst_key_of word_less_nat_alt)
qed

lemma sorted_fragments:
  assumes "\<forall>c \<in> set cs. c \<noteq> []" "length (concat cs) \<le> 65535"
    and "distinct xs" "set xs \<subseteq> set (pieces 0 cs)" "mset frs = mset (map key_of xs)"
  shows "sort_key fst frs = map key_of (filter (\<lambda>x. x \<in> set xs) (pieces 0 cs))"
proof -
  let ?F = "filter (\<lambda>x. x \<in> set xs) (pieces 0 cs)"
  have sw: "sorted_wrt (\<lambda>x y. fst (key_of x) < fst (key_of y)) ?F"
    using pieces_key_sorted[OF assms(1,2)] by (rule sorted_wrt_filter)
  then have st: "sorted_wrt (<) (map fst (map key_of ?F))"
    by (simp add: sorted_wrt_map)
  have "distinct ?F" using pieces_distinct[OF assms(1), of 0] by (simp add: distinct_map)
  moreover have "set ?F = set xs" using assms(4) by auto
  ultimately have "mset ?F = mset xs" using assms(3) set_eq_iff_mset_eq_distinct by blast
  then have ms: "mset (map key_of ?F) = mset frs" using assms(5) by simp
  then have set: "set frs = set (map key_of ?F)" by (metis set_mset_mset)
  have d: "distinct (map fst (map key_of ?F))" using st strict_sorted_iff by blast
  then have "distinct (map fst frs)" using ms
    by (metis mset_map mset_eq_imp_distinct_iff)
  then show ?thesis using st d set
    by (intro map_sorted_distinct_set_unique[of fst])
      (auto simp: strict_sorted_iff distinct_map)
qed

lemma is_complete_iff:
  assumes "\<forall>c \<in> set cs. c \<noteq> []" "length (concat cs) \<le> 65535" "cs \<noteq> []"
    and "distinct xs" "set xs \<subseteq> set (pieces 0 cs)" "has_frags cs xs p"
  shows "fst (is_complete p) \<longleftrightarrow> set xs = set (pieces 0 cs)"
proof -
  note sf = sorted_fragments[OF assms(1,2,4,5)]
  have "contiguous 0 (sort_key fst (fragments p)) \<longleftrightarrow>
      contiguous (word_of_nat 0) (map key_of (filter (\<lambda>x. x \<in> set xs) (pieces 0 cs)))"
    using sf assms(6) by (simp add: has_frags_def)
  moreover have "set xs = set (pieces 0 cs)"
    if "full_size_known p" "contiguous (word_of_nat 0) (map key_of (filter (\<lambda>x. x \<in> set xs) (pieces 0 cs)))"
  proof -
    have "\<exists>x \<in> set xs. \<not> snd (snd x)" using that(1) assms(6) by (simp add: has_frags_def)
    then obtain x where "x \<in> set xs" "\<not> snd (snd x)" by blast
    then show ?thesis using contiguous_misses[OF assms(1) _ that(2), of x] assms(2,5) by auto
  qed
  moreover have "full_size_known p" if "set xs = set (pieces 0 cs)"
    using that pieces_last[OF assms(3), of 0] assms(6) by (simp add: has_frags_def)
  moreover have "contiguous (word_of_nat 0) (map key_of (filter (\<lambda>x. x \<in> set xs) (pieces 0 cs)))"
    if "set xs = set (pieces 0 cs)"
  proof -
    have "filter (\<lambda>x. x \<in> set xs) (pieces 0 cs) = pieces 0 cs" using that by (simp add: filter_id_conv)
    then show ?thesis using contiguous_pieces[of 0 cs] by (simp only:)
  qed
  moreover have "fst (is_complete p) \<longleftrightarrow> full_size_known p \<and> contiguous 0 (sort_key fst (fragments p))"
    by (simp add: is_complete_def Let_def)
  ultimately show ?thesis by blast
qed

lemma pieces_shift: "pieces k cs = map (\<lambda>(ofs, e, mf). (k + ofs, e, mf)) (pieces 0 cs)"
proof (induction cs arbitrary: k)
  case (Cons c cs)
  have "pieces (k + length c) cs = map (\<lambda>(ofs, e, mf). (k + ofs, e, mf)) (pieces (length c) cs)"
    unfolding Cons[of "k + length c"] Cons[of "length c"] by (simp add: comp_def case_prod_beta add.assoc)
  then show ?case by simp
qed simp

lemma slices_determine:
  assumes "length d \<le> length (concat cs)"
    and "\<forall>(ofs, c, mf) \<in> set (pieces 0 cs). ofs + length c \<le> length d \<and> slice_at ofs (length c) d = c"
  shows "d = concat cs"
  using assms
proof (induction cs arbitrary: d)
  case (Cons c cs)
  have c: "length c \<le> length d" "take (length c) d = c" using Cons.prems by auto
  have "drop (length c) d = concat cs"
  proof (rule Cons.IH)
    show "length (drop (length c) d) \<le> length (concat cs)" using Cons.prems by simp
    have shift: "(length c + ofs, e, mf) \<in> set (pieces (length c) cs)" if "(ofs, e, mf) \<in> set (pieces 0 cs)" for ofs e mf
      unfolding pieces_shift[of "length c"] set_map using that by (rule rev_image_eqI) simp
    show "\<forall>(ofs, e, mf) \<in> set (pieces 0 cs). ofs + length e \<le> length (drop (length c) d)
        \<and> slice_at ofs (length e) (drop (length c) d) = e"
    proof (clarify)
      fix ofs e mf assume "(ofs, e, mf) \<in> set (pieces 0 cs)"
      then have "(length c + ofs, e, mf) \<in> set (pieces 0 (c # cs))" using shift by simp
      then have "length c + ofs + length e \<le> length d \<and> slice_at (length c + ofs) (length e) d = e"
        using Cons.prems(2) by blast
      then show "ofs + length e \<le> length (drop (length c) d) \<and> slice_at ofs (length e) (drop (length c) d) = e"
        by (auto simp: slice_at_def add.commute)
    qed
  qed
  then show ?case using c by (metis append_take_drop_id concat.simps(2))
qed simp

section \<open>Reassembly\<close>

text \<open>What the calls of \<open>ip4_fragment\<close> for a list of arriving fragments return.\<close>

fun feed ::
  "(nat \<Rightarrow> byte) \<Rightarrow> u64 \<Rightarrow> u64 \<Rightarrow> (nat \<times> bytes \<times> bool) list \<Rightarrow> (u64, packet) std_map \<Rightarrow> bytes option list \<times> (u64, packet) std_map" where
  "feed junk now sid [] packets = ([], packets)"
| "feed junk now sid ((ofs, c, mf) # frs) packets =
     (case ip4_fragment junk now sid ofs c mf packets of (r, packets) \<Rightarrow>
      (case feed junk now sid frs packets of (rs, packets) \<Rightarrow> (r # rs, packets)))"

lemma has_frags_sorted: "has_frags cs xs p \<Longrightarrow> has_frags cs xs (snd (is_complete p))"
  by (simp add: has_frags_def is_complete_def Let_def)

lemma has_frags_new: "has_frags cs [] new_packet"
  by (simp add: has_frags_def new_packet_def)

lemma pk_data_is_complete: "pk_data (snd (is_complete p)) = pk_data p"
  by (simp add: is_complete_def Let_def)

lemma feed_rest:
  assumes ne: "\<forall>c \<in> set cs. c \<noteq> []" "length (concat cs) \<le> 65535" "cs \<noteq> []"
    and "distinct (xs @ frs)" "set (xs @ frs) = set (pieces 0 cs)" "frs \<noteq> []"
    and "map_ok packets" "has_frags cs xs (case find_key sid packets of None \<Rightarrow> new_packet | Some p \<Rightarrow> p)"
  shows "\<exists>packets'. feed junk now sid frs packets = (replicate (length frs - 1) None @ [Some (concat cs)], packets')
    \<and> map_ok packets' \<and> (\<forall>k. find_key k packets' = (if k = sid then None else find_key k packets))"
  using assms(4-)
proof (induction frs arbitrary: xs packets)
  case (Cons fr frs)
  obtain ofs c mf where fr: "fr = (ofs, c, mf)" by (cases fr)
  let ?p = "store_fragment junk now ofs c mf (case find_key sid packets of None \<Rightarrow> new_packet | Some p \<Rightarrow> p)"
  have h: "has_frags cs (xs @ [fr]) ?p"
    unfolding fr by (rule store_fragment_has_frags) (use Cons.prems fr in auto)
  have d: "distinct (xs @ [fr])" "set (xs @ [fr]) \<subseteq> set (pieces 0 cs)" using Cons.prems by auto
  note ic = is_complete_iff[OF ne d h]
  show ?case
  proof (cases "frs = []")
    case True
    then have all: "set (xs @ [fr]) = set (pieces 0 cs)" using Cons.prems by simp
    then have "fst (is_complete ?p)" using ic by simp
    moreover have "pk_data ?p = concat cs"
      using h unfolding has_frags_def all by (intro slices_determine) simp_all
    ultimately have "ip4_fragment junk now sid ofs c mf packets = (Some (concat cs), erase_key sid packets)"
      using pk_data_is_complete[of ?p] by (simp add: ip4_fragment_def Let_def case_prod_beta)
    then show ?thesis using True fr Cons.prems(4) by (simp add: find_erase_key erase_key_ok)
  next
    case False
    then obtain y where "y \<in> set frs" by (cases frs) auto
    then have "y \<in> set (pieces 0 cs)" "y \<notin> set (xs @ [fr])" using Cons.prems by auto
    then have nc: "\<not> fst (is_complete ?p)" using ic by blast
    let ?packets = "set_key sid (snd (is_complete ?p)) packets"
    have "ip4_fragment junk now sid ofs c mf packets = (None, ?packets)"
      using nc by (simp add: ip4_fragment_def Let_def case_prod_beta)
    moreover have "map_ok ?packets" using Cons.prems(4) by (rule set_key_ok)
    moreover have "has_frags cs (xs @ [fr]) (case find_key sid ?packets of None \<Rightarrow> new_packet | Some p \<Rightarrow> p)"
      using has_frags_sorted[OF h] Cons.prems(4) by (simp add: find_set_key)
    ultimately show ?thesis
      using Cons.IH[of "xs @ [fr]" ?packets] Cons.prems False fr
      by (auto simp: find_set_key case_prod_beta replicate_append_same Cons_replicate_eq length_greater_0_conv[symmetric]
          simp del: length_greater_0_conv)
  qed
qed simp


text \<open>C18: The pieces of a payload of at most 65535 bytes, received in any order, give the
  payload back exactly when the last missing piece arrives; until then nothing is handed
  up, and afterwards the record is gone and all other records are as before.\<close>

theorem ip4_reassembly_any_order:
  assumes "cs \<noteq> []" "[] \<notin> set cs" "length (concat cs) \<le> 65535"
    and "mset frs = mset (pieces 0 cs)" "map_ok packets" "find_key sid packets = None"
  shows "\<exists>packets'. feed junk now sid frs packets = (replicate (length cs - 1) None @ [Some (concat cs)], packets')
    \<and> (\<lambda>k. find_key k packets') = (\<lambda>k. find_key k packets)"
proof -
  have ne: "\<forall>c \<in> set cs. c \<noteq> []" using assms(2) by auto
  have "set frs = set (pieces 0 cs)" using assms(4) by (metis set_mset_mset)
  moreover have "distinct frs"
    using assms(4) pieces_distinct[OF ne, of 0] by (metis distinct_map mset_eq_imp_distinct_iff)
  moreover have "length frs = length cs" using assms(4) by (metis length_pieces size_mset)
  moreover have "frs \<noteq> []" using assms(1) calculation(3) by auto
  ultimately show ?thesis
    using feed_rest[OF ne assms(3,1), of "[]" frs packets sid junk now] assms(5,6) has_frags_new[of cs]
    by (auto simp: fun_eq_iff)
qed

theorem ip4_reassembly_any_order_witness:
  "(let cs = [replicate 8 1, replicate 8 2, [3]]
    in \<exists>packets'. feed (\<lambda>_. 0) 5 7 [(16, [3], False), (0, replicate 8 1, True), (8, replicate 8 2, True)] []
     = (replicate (length cs - 1) None @ [Some (concat cs)], packets')
    \<and> (\<lambda>k. find_key k packets') = (\<lambda>k. find_key k []))"
  unfolding Let_def by (rule ip4_reassembly_any_order) simp_all

section \<open>Fragmentation\<close>

function chunks :: "nat \<Rightarrow> bytes \<Rightarrow> bytes list" where
  "chunks n pl = (if pl = [] \<or> n = 0 then [] else take n pl # chunks n (drop n pl))"
  by pat_completeness auto
termination
  by (relation "measure (length \<circ> snd)") auto

declare chunks.simps [simp del]

lemma concat_chunks: "0 < n \<Longrightarrow> concat (chunks n pl) = pl"
proof (induction n pl rule: chunks.induct)
  case (1 n pl)
  then show ?case by (subst chunks.simps) auto
qed

lemma chunks_nonempty: "[] \<notin> set (chunks n pl)"
proof (induction n pl rule: chunks.induct)
  case (1 n pl)
  then show ?case by (subst chunks.simps) auto
qed

lemma chunks_eq_Nil: "chunks n pl = [] \<longleftrightarrow> pl = [] \<or> n = 0"
  by (subst chunks.simps) auto

lemma chunks_size: "c \<in> set (chunks n pl) \<Longrightarrow> length c \<le> n"
proof (induction n pl rule: chunks.induct)
  case (1 n pl)
  then show ?case by (subst (asm) chunks.simps) (auto split: if_splits)
qed

text \<open>All fragments but the last begin at a multiple of the fragment size.\<close>

lemma pieces_chunks_aligned: "n dvd k \<Longrightarrow> (ofs, c, mf) \<in> set (pieces k (chunks n pl)) \<Longrightarrow> n dvd ofs"
proof (induction n pl arbitrary: k rule: chunks.induct)
  case (1 n pl)
  show ?case
  proof (cases "pl = [] \<or> n = 0 \<or> length pl \<le> n")
    case True
    then show ?thesis using 1(2,3) by (subst (asm) chunks.simps) (auto simp: chunks.simps split: if_splits)
  next
    case False
    then have "pieces k (chunks n pl) = (k, take n pl, chunks n (drop n pl) \<noteq> []) # pieces (k + n) (chunks n (drop n pl))"
      by (subst chunks.simps) simp
    moreover have "n dvd k + n" using 1(2) by simp
    ultimately show ?thesis using 1(1)[of "k + n"] 1(2,3) False by auto
  qed
qed

lemma load_n_chunk:
  assumes "ofs \<le> length pl"
  shows "load_n (pl @ pad) ofs (min n (length pl - ofs)) = Inr (take n (drop ofs pl))"
  using assms by (simp add: slice_at_def min_def)

context transport
begin

lemma ip4_send_fragments_posts:
  assumes "ok w" "0 < mtu" "ofs \<le> length pl" "length pl - ofs \<le> fuel"
    and "small (length f)" "small (length t)" "\<And>k mf c. length c \<le> mtu \<Longrightarrow> small (length (build k mf c))"
  shows "\<exists>w'. ip4_send_fragments fuel shm link f t build mtu (pl @ pad) (length pl) ofs w = Inr w' \<and> ok w'
    \<and> posted_until ib cap lid w link (map (\<lambda>(k, c, mf). wrap_message_down f t (build k mf c) None)
        (pieces ofs (chunks mtu (drop ofs pl)))) w'"
  using assms(1,3,4)
proof (induction fuel arbitrary: ofs w)
  case 0
  then show ?case by (subst ip4_send_fragments.simps) (simp add: chunks.simps)
next
  case (Suc fuel)
  show ?case
  proof (cases "ofs < length pl")
    case False
    then show ?thesis using Suc.prems by (subst ip4_send_fragments.simps) (simp add: chunks.simps)
  next
    case True
    let ?n = "min mtu (length pl - ofs)" and ?c = "take mtu (drop ofs pl)"
    let ?mf = "ofs + ?n < length pl"
    let ?m = "wrap_message_down f t (build ofs ?mf ?c) None"
    have n: "0 < ?n" "ofs + ?n \<le> length pl" using True assms(2) by auto
    have rest: "drop mtu (drop ofs pl) = drop (ofs + ?n) pl"
      by (simp add: min_def add.commute)
    have cs: "chunks mtu (drop ofs pl) = ?c # chunks mtu (drop (ofs + ?n) pl)"
      using True assms(2) rest by (subst chunks.simps) simp
    have mf: "chunks mtu (drop (ofs + ?n) pl) \<noteq> [] \<longleftrightarrow> ?mf"
      using assms(2) n by (auto simp: chunks_eq_Nil)
    have lc: "length ?c = ?n" by simp
    obtain r w1 where p: "post shm link ?m w = Inr (r, w1)" "ok w1" "posted ib cap lid w link ?m r w1"
      using post_down[OF Suc.prems(1) assms(5,6), of "build ofs ?mf ?c" link None] assms(7)[of ?c] by auto
    have step: "ip4_send_fragments (Suc fuel) shm link f t build mtu (pl @ pad) (length pl) ofs w
        = (if \<not> r then Inr w1 else ip4_send_fragments fuel shm link f t build mtu (pl @ pad) (length pl) (ofs + ?n) w1)"
      using True p(1) load_n_chunk[of ofs pl pad mtu]
      by (subst ip4_send_fragments.simps) (simp add: Let_def)
    have pc: "pieces ofs (chunks mtu (drop ofs pl)) = (ofs, ?c, ?mf) # pieces (ofs + ?n) (chunks mtu (drop (ofs + ?n) pl))"
      unfolding cs pieces.simps mf lc ..
    show ?thesis
    proof (cases r)
      case False
      then show ?thesis using step p(2,3) unfolding pc by (auto simp: posted_def)
    next
      case True
      have "length pl - (ofs + ?n) \<le> fuel" using Suc.prems n by linarith
      from Suc.IH[OF p(2) n(2) this] True p(3) step show ?thesis unfolding pc by auto
    qed
  qed
qed

end


section \<open>The receiver reads what the sender wrote\<close>

lemma byte_or_20: "n < 32 \<Longrightarrow> unat ((word_of_nat n :: byte) OR 0x20) = n + 32"
proof -
  assume "n < 32"
  moreover have "\<forall>n \<in> {..<32::nat}. unat ((word_of_nat n :: byte) OR 0x20) = n + 32" by code_simp
  ultimately show ?thesis by auto
qed

lemma byte_flags:
  "n < 32 \<Longrightarrow> drop_bit 5 ((word_of_nat n :: byte) OR (if mf then 0x20 else 0)) = (if mf then 1 else 0)"
proof -
  assume "n < 32"
  moreover have "\<forall>n \<in> {..<32::nat}. drop_bit 5 ((word_of_nat n :: byte) OR 0x20) = 1
      \<and> drop_bit 5 ((word_of_nat n :: byte) OR 0) = 0" by code_simp
  ultimately show ?thesis by auto
qed

lemma unat_and_1fff: "unat ((w :: u16) AND 0x1fff) = unat w mod 8192"
proof -
  have "w AND 0x1fff = take_bit 13 w" by (simp add: take_bit_eq_mask mask_eq_exp_minus_1)
  then show ?thesis by (simp only: unsigned_take_bit_eq) (simp add: take_bit_eq_mod)
qed

lemma split_offset:
  fixes a k :: nat
  assumes "a mod 32 = k div 256" "k < 8192"
  shows "(256 * a + k mod 256) mod 8192 = k"
proof -
  have "a = 32 * (a div 32) + k div 256" using assms(1) by (metis mult_div_mod_eq)
  then have "256 * a + k mod 256 = 8192 * (a div 32) + (256 * (k div 256) + k mod 256)" by linarith
  also have "\<dots> = 8192 * (a div 32) + k" by simp
  finally show ?thesis using assms(2) by simp
qed

lemma offset_field:
  assumes "8 dvd ofs" "ofs < 65536"
  shows "unat (get_uint16 [word_of_nat (ofs div 2048) OR (if mf then 0x20 else 0), word_of_nat (ofs div 8)] AND 0x1fff) * 8 = ofs"
proof -
  obtain k where k: "ofs = 8 * k" using assms(1) by (rule dvdE)
  then have kb: "k < 8192" using assms(2) by simp
  have hi: "ofs div 2048 = k div 256" "ofs div 8 = k" using k by simp_all
  then have h: "ofs div 2048 < 32" using kb by simp
  have "unat (word_of_nat (k div 256) OR (if mf then 0x20 else 0) :: byte) mod 32 = k div 256"
    using byte_or_20[OF h] h hi by (simp add: unat_of_nat)
  moreover have "unat (word_of_nat k :: byte) = k mod 256" by (simp add: unat_of_nat)
  ultimately have "unat (get_uint16 [word_of_nat (k div 256) OR (if mf then 0x20 else 0), word_of_nat k] AND 0x1fff) = k"
    unfolding unat_and_1fff unat_get_uint16 using split_offset kb by metis
  then show ?thesis using k hi by simp
qed

lemma ip4_packet_layout:
  assumes "length f = 4" "length t = 4"
  shows "\<exists>c. ip4_packet proto ident ofs mf f t dat =
      [0x45, 0, word_of_nat ((length dat + 20) div 256), word_of_nat (length dat + 20)] @ put_uint16 ident
      @ [word_of_nat (ofs div 2048) OR (if mf then 0x20 else 0), word_of_nat (ofs div 8), 63, proto]
      @ put_uint16 c @ f @ t @ dat
    \<and> ip_checksum (ip4_packet proto ident ofs mf f t dat) 20 = 0"
proof -
  let ?h = "ip4_header proto ident ofs mf f t (length dat + 20)"
  have h: "length ?h = 20" "slice_at 10 2 ?h = [0, 0]"
    using assms by (simp_all add: ip4_header_def slice_at_def put_uint16_def)
  have "ip_checksum (put_at 10 (put_uint16 (ip_checksum ?h 20)) ?h) 20 = 0"
    using ip_checksum_fill[of 10 ?h] h by simp
  then have "ip_checksum (ip4_packet proto ident ofs mf f t dat) 20 = 0"
    using h by (simp add: ip4_packet_def Let_def ip_checksum_def buffer_simps)
  then show ?thesis
    by (intro exI[of _ "ip_checksum ?h 20"])
      (simp add: ip4_packet_def Let_def ip4_header_def put_at_def put_uint16_def)
qed

lemma ip4_run_in_packet:
  assumes "length f = 4" "length t = 4" "length dat + 20 \<le> 65535" "8 dvd ofs" "ofs < 65536" "small (length full)"
    and "small (length smac)" "small (length dmac)"
    and "msg_data m = wrap_up full smac dmac (ip4_packet proto ident ofs mf f t dat) @ pad"
    and "mappings proto = Some name" "calc_session_id f t (ucast proto) ident = Inr sid"
  shows "ip4_run_in shm t mappings icmp junk now m packets w =
    (case (if 0 < ofs \<or> mf then ip4_fragment junk now sid ofs dat mf packets else (Some dat, packets)) of
       (None, packets') \<Rightarrow> Inr (1, packets', w)
     | (Some whole, packets') \<Rightarrow>
         res_bind (post shm name ((wrap_message_up (ip4_packet proto ident ofs mf f t dat) f t whole None)\<lparr> msg_id := sid \<rparr>) w)
           (\<lambda>(r, w). Inr (1, packets', w)))"
proof -
  define q where "q = ip4_packet proto ident ofs mf f t dat"
  obtain c where p: "q = [0x45, 0, word_of_nat ((length dat + 20) div 256), word_of_nat (length dat + 20)] @ put_uint16 ident
      @ [word_of_nat (ofs div 2048) OR (if mf then 0x20 else 0), word_of_nat (ofs div 8), 63, proto]
      @ put_uint16 c @ f @ t @ dat" and ck: "ip_checksum q 20 = 0"
    using ip4_packet_layout[OF assms(1,2), of proto ident ofs mf dat] unfolding q_def by blast
  have len: "length q = length dat + 20" using assms by (simp add: p)
  have "slice_at 2 2 q = put_uint16 (word_of_nat (length dat + 20))"
    using u16_bytes[of "length dat + 20"] assms(3) by (simp add: p slice_at_def del: of_nat_add)
  then have sz: "unat (get_uint16 (slice_at 2 2 q)) = length dat + 20"
    using assms(3) by (simp only: get_put_uint16) (rule unat_u16, simp)
  have o: "unat (get_uint16 (slice_at 6 2 q) AND 0x1fff) * 8 = ofs"
    using offset_field[OF assms(4,5), of mf] by (simp add: p slice_at_def put_uint16_def)
  have fl: "drop_bit 5 (q ! 6) AND 1 \<noteq> 0 \<longleftrightarrow> mf"
    using byte_flags[of "ofs div 2048" mf] assms(5) by (simp add: p put_uint16_def)
  have "get_uint16 (slice_at 4 2 q) = ident" by (simp add: p slice_at_def)
  moreover have "slice_at 12 4 q = f" "slice_at 16 4 q = t" "slice_at 20 (length dat) q = dat"
    "q ! 0 = 0x45" "q ! 8 = 63" "q ! 9 = proto"
    using assms by (simp_all add: p slice_at_def put_uint16_def)
  moreover have "unwrap_message_up (msg_data m) = Inr
    \<lparr> up_full_len = length full, up_full = full @ pad,
      up_from_len = length smac, up_from = smac @ dmac @ q @ full @ pad,
      up_to_len = length dmac, up_to = dmac @ q @ full @ pad,
      up_pl_len = length q, up_pl = q @ full @ pad \<rparr>"
    unfolding assms(9) q_def [symmetric] using assms len by (intro unwrap_wrap_up) simp_all
  ultimately show ?thesis
    using len sz o fl ck assms(2,10,11)
    unfolding ip4_run_in_def q_def [symmetric]
    by (simp add: Let_def split: prod.split option.split)
qed


section \<open>Properties of fragmentation\<close>

lemma use_mtu_size_eq:
  assumes "28 \<le> mtu" "mtu \<le> 65535"
  shows "use_mtu_size mtu = nat ((mtu - 20) div 8 * 8)"
proof -
  have "(mtu - 20) AND NOT 7 = (mtu - 20) AND NOT (mask 3)" by (simp add: mask_eq_exp_minus_1)
  also have "\<dots> = push_bit 3 (drop_bit 3 (mtu - 20))"
    by (rule bit_eqI) (auto simp: bit_simps)
  also have "\<dots> = (mtu - 20) div 8 * 8" by (simp add: push_bit_eq_mult drop_bit_eq_div)
  finally have e: "(mtu - 20) AND NOT 7 = (mtu - 20) div 8 * 8" .
  have "0 \<le> (mtu - 20) div 8 * 8" "(mtu - 20) div 8 * 8 \<le> mtu - 20" using assms by presburger+
  then have "((mtu - 20) div 8 * 8) mod 2 ^ 64 = (mtu - 20) div 8 * 8"
    using assms by (intro mod_pos_pos_trivial) auto
  then show ?thesis unfolding use_mtu_size_def e by (simp only:)
qed

lemma use_mtu_size_bounds:
  assumes "28 \<le> mtu" "mtu \<le> 65535"
  shows "8 dvd use_mtu_size mtu" "0 < use_mtu_size mtu" "int (use_mtu_size mtu) + 20 \<le> mtu"
proof -
  have "1 \<le> (mtu - 20) div 8" "(mtu - 20) div 8 * 8 \<le> mtu - 20" using assms by presburger+
  moreover have "nat ((mtu - 20) div 8 * 8) = nat ((mtu - 20) div 8) * 8" by (simp add: nat_mult_distrib)
  ultimately show "8 dvd use_mtu_size mtu" "0 < use_mtu_size mtu" "int (use_mtu_size mtu) + 20 \<le> mtu"
    unfolding use_mtu_size_eq[OF assms] by auto
qed

lemma length_ip4_packet:
  "length f = 4 \<Longrightarrow> length t = 4 \<Longrightarrow> length (ip4_packet proto ident ofs mf f t dat) = 20 + length dat"
  using ip4_packet_layout[of f t proto ident ofs mf dat] by auto

lemma ip4_transmit_posts:
  assumes "net_ok w" "length lid < max_id_length" "28 \<le> mtu" "mtu \<le> 65535"
    and "length f = 4" "length t = 4" "small (length fmac)" "small (length tmac)" "length pl \<le> 65515"
    and "msg_data (queued_msg pm) = wrap_down f t pl @ pad"
    and "mappings_out (c_str (sender (queued_msg pm))) = Some proto" "length pl \<le> fuel"
  shows "\<exists>w'. ip4_transmit fuel (send_message lid) link mappings_out mtu ident pm fmac tmac w = Inr w' \<and> net_ok w'
    \<and> posted_until inbox capacity lid w link
        (map (\<lambda>(ofs, c, mf). wrap_message_down fmac tmac (ip4_packet proto ident ofs mf f t c) None)
          (pieces 0 (chunks (use_mtu_size mtu) pl))) w'"
proof -
  note mtu = use_mtu_size_bounds[OF assms(3,4)]
  have sm: "small (length (ip4_packet proto ident k mf f t c))" if "length c \<le> use_mtu_size mtu" for k mf c
    using that assms(4) mtu(3) by (simp add: length_ip4_packet[OF assms(5,6)] small_def)
  have "ip4_transmit fuel (send_message lid) link mappings_out mtu ident pm fmac tmac w =
      ip4_send_fragments fuel (send_message lid) link fmac tmac
        (\<lambda>ofs mf. ip4_packet proto ident ofs mf f t) (use_mtu_size mtu) (pl @ pad) (length pl) 0 w"
    using assms(5,6,9,10,11) by (simp add: ip4_transmit_def unwrap_wrap_down)
  moreover note transport.ip4_send_fragments_posts[OF shm_transport[OF assms(2)] assms(1) mtu(2), of 0 pl fuel fmac tmac
      "\<lambda>ofs mf. ip4_packet proto ident ofs mf f t" link pad]
  ultimately show ?thesis using assms(7,8,12) sm by force
qed

text \<open>C19: With an MTU of at least 28 the loop that sends a pending message ends, and the
  link server receives, in this order and up to the first one that is dropped, the IPv4
  packets of consecutive pieces of the payload, each of at most the MTU.\<close>

theorem ip4_sends_fragments:
  assumes "net_ok w" "length lid < max_id_length" "28 \<le> mtu" "mtu \<le> 65535"
    and "length f = 4" "length t = 4" "small (length fmac)" "small (length tmac)" "length pl \<le> 65515"
    and "msg_data (queued_msg pm) = wrap_down f t pl @ pad"
    and "mappings_out (c_str (sender (queued_msg pm))) = Some proto" "length pl \<le> fuel"
  shows "\<exists>w' cs. ip4_transmit fuel (send_message lid) link mappings_out mtu ident pm fmac tmac w = Inr w' \<and> net_ok w'
    \<and> concat cs = pl \<and> list_all (\<lambda>c. 0 < length c \<and> 20 + int (length c) \<le> mtu) cs
    \<and> posted_until inbox capacity lid w link
        (map (\<lambda>(ofs, c, mf). wrap_message_down fmac tmac (ip4_packet proto ident ofs mf f t c) None) (pieces 0 cs)) w'"
proof -
  note mtu = use_mtu_size_bounds[OF assms(3,4)]
  let ?cs = "chunks (use_mtu_size mtu) pl"
  have "c \<in> set ?cs \<Longrightarrow> 0 < length c \<and> 20 + int (length c) \<le> mtu" for c
    using chunks_size[of c "use_mtu_size mtu" pl] chunks_nonempty[of "use_mtu_size mtu" pl] mtu(3) by fastforce
  then have "list_all (\<lambda>c. 0 < length c \<and> 20 + int (length c) \<le> mtu) ?cs" by (simp add: list_all_iff)
  then show ?thesis using ip4_transmit_posts[where mappings_out = mappings_out and link = link and ident = ident, OF assms] concat_chunks[OF mtu(2)] by blast
qed

theorem ip4_sends_fragments_witness:
  "(let pl = replicate 30 9; m = hello\<lparr> msg_data := wrap_down [10, 0, 0, 2] [10, 0, 0, 1] pl,
          sender := to_bytes ''icmp'' @ replicate 28 0 \<rparr>;
        pm = \<lparr> ts = 0, queued_msg = m, from_nr = 1, pm_from = None, to_nr = 2, pm_to = None \<rparr>
    in \<exists>w' cs. ip4_transmit 30 (send_message ''ip4'') ''tap'' [''icmp'' \<mapsto> 1] 40 7 pm [2, 0, 0, 0, 0, 1] [2, 0, 0, 0, 0, 2] idle_net = Inr w'
    \<and> net_ok w' \<and> concat cs = pl \<and> list_all (\<lambda>c. 0 < length c \<and> 20 + int (length c) \<le> 40) cs
    \<and> posted_until inbox capacity ''ip4'' idle_net ''tap''
        (map (\<lambda>(ofs, c, mf). wrap_message_down [2, 0, 0, 0, 0, 1] [2, 0, 0, 0, 0, 2]
           (ip4_packet 1 7 ofs mf [10, 0, 0, 2] [10, 0, 0, 1] c) None) (pieces 0 cs)) w')"
proof -
  have "c_str (to_bytes ''icmp'' @ replicate 28 0) = ''icmp''"
    using c_str_to_bytes[of "''icmp''" "replicate 27 0"] by (simp add: numeral_eq_Suc)
  then show ?thesis unfolding Let_def
    by (intro ip4_sends_fragments[where pad = "[]"]) (simp_all add: idle_net_ok max_id_length_def small_def)
qed

text \<open>A packet as \<open>ip4_transmit\<close> builds it (any piece of a payload, at the fragment
  sizes it uses) passes all checks of the receiver it is addressed to, which takes from it
  the piece, its offset and its more-fragments flag: an unfragmented payload goes up at
  once, a fragment goes into reassembly.\<close>

theorem ip4_receives_what_was_sent:
  assumes "28 \<le> mtu" "mtu \<le> 65535" "length f = 4" "length t = 4" "length pl \<le> 65515"
    and "(ofs, c, mf) \<in> set (pieces 0 (chunks (use_mtu_size mtu) pl))"
    and "small (length full)" "small (length smac)" "small (length dmac)"
    and "msg_data m = wrap_up full smac dmac (ip4_packet proto ident ofs mf f t c) @ pad"
    and "mappings proto = Some name" "calc_session_id f t (ucast proto) ident = Inr sid"
  shows "ip4_run_in (send_message lid) t mappings icmp junk now m packets w =
    (case (if 0 < ofs \<or> mf then ip4_fragment junk now sid ofs c mf packets else (Some c, packets)) of
       (None, packets') \<Rightarrow> Inr (1, packets', w)
     | (Some whole, packets') \<Rightarrow>
         res_bind (post (send_message lid) name
             ((wrap_message_up (ip4_packet proto ident ofs mf f t c) f t whole None)\<lparr> msg_id := sid \<rparr>) w)
           (\<lambda>(r, w). Inr (1, packets', w)))"
proof -
  note mtu = use_mtu_size_bounds[OF assms(1,2)]
  have "8 dvd ofs" using pieces_chunks_aligned[OF _ assms(6)] mtu(1) dvd_trans by auto
  moreover have "ofs + length c \<le> length pl"
    using pieces_bounds[OF assms(6)] concat_chunks[OF mtu(2)] by simp
  ultimately show ?thesis using assms by (intro ip4_run_in_packet) auto
qed

lemma calc_session_id_total:
  assumes "length f = 4" "length t = 4"
  shows "\<exists>sid. calc_session_id f t p i = Inr sid"
proof -
  obtain h where "siphash (le_enc 2 (unat p) @ le_enc 2 (unat i) @ f @ t) session_id_salt 8 = Inr h"
    using siphash_length[of session_id_salt] by (auto simp: session_id_salt_def)
  moreover have "f \<noteq> [] \<and> t \<noteq> []" using assms by auto
  ultimately show ?thesis by (simp add: calc_session_id_def)
qed

theorem ip4_receives_what_was_sent_witness:
  "(let pl = replicate 30 9; f = [10, 0, 0, 2]; t = [10, 0, 0, 1];
        m = hello\<lparr> msg_data := wrap_up [] [] [] (ip4_packet 1 7 16 False f t (replicate 14 9)) \<rparr>
    in \<exists>sid. ip4_run_in (send_message ''ip4'') t [1 \<mapsto> ''icmp''] ''icmp'' (\<lambda>_. 0) 0 m [] idle_net =
    (case (if 0 < (16::nat) \<or> False then ip4_fragment (\<lambda>_. 0) 0 sid 16 (replicate 14 9) False [] else (Some (replicate 14 9), [])) of
       (None, packets') \<Rightarrow> Inr (1, packets', idle_net)
     | (Some whole, packets') \<Rightarrow>
         res_bind (post (send_message ''ip4'') ''icmp''
             ((wrap_message_up (ip4_packet 1 7 16 False f t (replicate 14 9)) f t whole None)\<lparr> msg_id := sid \<rparr>) idle_net)
           (\<lambda>(r, w). Inr (1, packets', w))))"
proof -
  let ?f = "[10, 0, 0, 2 :: byte]" and ?t = "[10, 0, 0, 1 :: byte]"
  obtain sid where sid: "calc_session_id ?f ?t 1 7 = Inr sid"
    using calc_session_id_total[of ?f ?t] by auto
  have u: "use_mtu_size 40 = 16" by (subst use_mtu_size_eq) simp_all
  have "(16, replicate 14 9, False) \<in> set (pieces 0 (chunks (use_mtu_size 40) (replicate 30 9)))"
    unfolding u by (simp add: chunks.simps)
  then show ?thesis unfolding Let_def
    by (intro exI[of _ sid] ip4_receives_what_was_sent[where pad = "[]" and full = "[]" and smac = "[]" and dmac = "[]" and mtu = 40])
      (simp_all add: small_def sid)
qed

end
