(* ===== verification/Icmp.thy ===== *)
theory Icmp
  imports Servers
begin

text \<open>
  \<^verbatim>\<open>src/icmp_server.cpp\<close>: echo replies and the error messages other servers ask for.  The
  age of an echo request is only logged and left out.
\<close>

section \<open>Echo\<close>

definition icmp_run_in :: "'w shm_queue \<Rightarrow> string \<Rightarrow> message \<Rightarrow> 'w \<Rightarrow> (nat \<times> 'w) res" where
  "icmp_run_in shm out_name m w =
     res_bind (unwrap_message_up (msg_data m)) (\<lambda>v.
     let pl = up_pl v; pl_len = up_pl_len v in
     if pl_len < 8 then Inr (1, w)
     else res_bind (load_n pl 0 pl_len) (\<lambda>pl.
     let ty = pl ! 0; code = pl ! 1; checksum = ip_checksum pl pl_len in
     if checksum \<noteq> 0x0000 then Inr (1, w)
     else if ty = 8 \<and> code = 0 then
       res_bind (load_n (up_from v) 0 (up_from_len v)) (\<lambda>from_a.
       res_bind (load_n (up_to v) 0 (up_to_len v)) (\<lambda>to_a.
       let reply_len = pl_len;
           reply = put_at 0 [0, 0, 0, 0] pl;
           checksum_reply = ip_checksum reply reply_len;
           reply = put_at 2 (put_uint16 checksum_reply) reply
       in
       res_bind (post shm out_name (wrap_message_down to_a from_a reply None) w) (\<lambda>(r, w).
       Inr (1, w))))
     else Inr (1, w)))"

section \<open>Errors\<close>

definition icmp_run_err :: "'w shm_queue \<Rightarrow> string \<Rightarrow> message \<Rightarrow> 'w \<Rightarrow> (nat \<times> 'w) res" where
  "icmp_run_err shm_out out_name m_in w =
     res_bind (unwrap_message_up (msg_data m_in)) (\<lambda>v.
     if up_full_len v < 20 then Inr (1, w)
     else res_bind (load (up_pl v) 0) (\<lambda>ty.
     res_bind (load (up_pl v) 1) (\<lambda>code.
     res_bind (load (up_pl v) 2) (\<lambda>b2.
     let ip_header_size = unat (b2 AND 15) * 4;
         copy_n = min (up_full_len v) (ip_header_size + 64 div 8);
         icmp_message_size = 8 + copy_n
     in
     res_bind (load_n (up_full v) 0 copy_n) (\<lambda>copied.
     let m_out = [ty, code, 0, 0, 0, 0, 0, 0] @ copied;
         checksum_msg = ip_checksum m_out icmp_message_size;
         m_out = put_at 2 (put_uint16 checksum_msg) m_out
     in
     res_bind (load_n (up_from v) 0 (up_from_len v)) (\<lambda>from_a.
     res_bind (load_n (up_to v) 0 (up_to_len v)) (\<lambda>to_a.
     res_bind (post shm_out out_name (wrap_message_down from_a to_a m_out None) w) (\<lambda>(r, w).
     Inr (1, w)))))))))"

section \<open>Lemmas\<close>

text \<open>The echo reply to a request: type 0 and a new checksum, all else as received.\<close>

definition echo_reply :: "bytes \<Rightarrow> bytes" where
  "echo_reply req =
     put_at 2 (put_uint16 (ip_checksum (put_at 0 [0, 0, 0, 0] req) (length req))) (put_at 0 [0, 0, 0, 0] req)"

lemma length_echo_reply: "4 \<le> length req \<Longrightarrow> length (echo_reply req) = length req"
  by (simp add: echo_reply_def buffer_simps)

lemma echo_reply_ok:
  assumes "8 \<le> length req" "length req \<le> 131070"
  shows "ip_checksum (echo_reply req) (length req) = 0" "take 2 (echo_reply req) = [0, 0]"
    "drop 4 (echo_reply req) = drop 4 req"
proof -
  let ?p = "put_at 0 [0, 0, 0, 0] req"
  have len: "length ?p = length req" using assms by (simp add: buffer_simps)
  have "slice_at 2 2 ?p = [0, 0]" by (simp add: slice_at_def put_at_def)
  then show "ip_checksum (echo_reply req) (length req) = 0"
    using ip_checksum_fill[of 2 ?p] assms len by (simp add: echo_reply_def)
  have "echo_reply req = [0, 0] @ put_uint16 (ip_checksum ?p (length req)) @ drop 4 req"
    by (simp add: echo_reply_def put_at_def numeral_eq_Suc)
  then show "take 2 (echo_reply req) = [0, 0]" "drop 4 (echo_reply req) = drop 4 req" by simp_all
qed

text \<open>The error message about a packet: header, four unused bytes, and the packet's IP header
  with 64 bits behind it.\<close>

definition icmp_error_packet :: "byte \<Rightarrow> byte \<Rightarrow> bytes \<Rightarrow> bytes" where
  "icmp_error_packet ty code full =
     (let quoted = take (unat (hd full AND 15) * 4 + 8) full;
          m_out = [ty, code, 0, 0, 0, 0, 0, 0] @ quoted
      in put_at 2 (put_uint16 (ip_checksum m_out (8 + length quoted))) m_out)"

lemma byte_and_15: "unat ((b :: byte) AND 15) < 16"
proof -
  have "b AND 15 = take_bit 4 b" by (simp add: take_bit_eq_mask mask_eq_exp_minus_1)
  then show ?thesis using take_bit_nat_less_exp[of 4 "unat b"] by (simp add: unsigned_take_bit_eq)
qed

lemma icmp_error_packet_ok:
  "length (icmp_error_packet ty code full) \<le> 76"
  "ip_checksum (icmp_error_packet ty code full) (length (icmp_error_packet ty code full)) = 0"
  "take 2 (icmp_error_packet ty code full) = [ty, code]"
proof -
  let ?q = "take (unat (hd full AND 15) * 4 + 8) full"
  let ?m = "[ty, code, 0, 0, 0, 0, 0, 0] @ ?q"
  have q: "length ?q \<le> 68" using byte_and_15[of "hd full"] by (simp add: min_def)
  have len: "length (icmp_error_packet ty code full) = length ?m"
    by (simp add: icmp_error_packet_def Let_def buffer_simps)
  then show "length (icmp_error_packet ty code full) \<le> 76" using q by simp
  have z: "slice_at 2 2 ?m = [0, 0]" by (simp add: slice_at_def)
  have e: "length ?m = 8 + length ?q" by simp
  have "2 + 2 \<le> length ?m" "length ?m \<le> 131070" using q by simp_all
  with ip_checksum_fill[of 2 ?m, OF _ _ _ z] 
  have "ip_checksum (put_at 2 (put_uint16 (ip_checksum ?m (8 + length ?q))) ?m) (8 + length ?q) = 0"
    unfolding e by simp
  then show "ip_checksum (icmp_error_packet ty code full) (length (icmp_error_packet ty code full)) = 0"
    unfolding len unfolding e icmp_error_packet_def Let_def .
  show "take 2 (icmp_error_packet ty code full) = [ty, code]"
    by (simp add: icmp_error_packet_def Let_def put_at_def)
qed

context transport
begin

lemma icmp_echo:
  assumes "ok w" "small (length full)" "small (length src)" "small (length dst)"
    and "8 \<le> length req" "length req \<le> 131070" "take 2 req = [8, 0]" "ip_checksum req (length req) = 0"
    and "msg_data m = wrap_up full src dst req @ pad"
  shows "\<exists>r w'. icmp_run_in shm out m w = Inr (1, w') \<and> ok w'
    \<and> posted ib cap lid w out (wrap_message_down dst src (echo_reply req) None) r w'"
proof -
  have "small (length (echo_reply req))" using assms by (simp add: length_echo_reply small_def)
  from post_down[OF assms(1,4,3) this, of out None]
  obtain r w' where p: "post shm out (wrap_message_down dst src (echo_reply req) None) w = Inr (r, w')"
    "ok w'" "posted ib cap lid w out (wrap_message_down dst src (echo_reply req) None) r w'" by blast
  have "req ! 0 = 8" "req ! 1 = 0" using assms(7) nth_take[of 0 2 req] nth_take[of 1 2 req] by simp_all
  then have "icmp_run_in shm out m w = Inr (1, w')"
    using assms p(1) by (simp add: icmp_run_in_def unwrap_wrap_up Let_def echo_reply_def small_def)
  then show ?thesis using p by blast
qed

lemma icmp_error:
  assumes "ok w" "small (length full)" "20 \<le> length full" "small (length src)" "small (length dst)"
    and "msg_data m = wrap_up full src dst [ty, code] @ pad"
  shows "\<exists>r w'. icmp_run_err shm out m w = Inr (1, w') \<and> ok w'
    \<and> posted ib cap lid w out (wrap_message_down src dst (icmp_error_packet ty code full) None) r w'"
proof -
  have "small (length (icmp_error_packet ty code full))"
    using icmp_error_packet_ok(1)[of ty code full] by (simp add: small_def)
  from post_down[OF assms(1,4,5) this, of out None]
  obtain r w' where p: "post shm out (wrap_message_down src dst (icmp_error_packet ty code full) None) w = Inr (r, w')"
    "ok w'" "posted ib cap lid w out (wrap_message_down src dst (icmp_error_packet ty code full) None) r w'" by blast
  obtain b rest where full: "full = b # rest" using assms(3) by (cases full) auto
  have "take (min (length full) n) (full @ pad) = take n full" for n by (simp add: min_def)
  moreover have "length (take n full) = min (length full) n" for n by (simp add: min.commute)
  ultimately have "icmp_run_err shm out m w = Inr (1, w')"
    using assms p(1) full
    by (simp add: icmp_run_err_def unwrap_wrap_up Let_def icmp_error_packet_def small_def)
  then show ?thesis using p by blast
qed

end


section \<open>Properties\<close>

text \<open>A valid echo request is answered to its sender by a message of the same length that
  differs only in the type (echo reply) and the checksum, which verifies; the request is
  freed once and nothing else is sent.\<close>

theorem icmp_echo_reply:
  assumes "net_ok w" "length lid < max_id_length"
    and "small (length full)" "small (length src)" "small (length dst)"
    and "8 \<le> length req" "length req \<le> 131070" "take 2 req = [8, 0]" "ip_checksum req (length req) = 0"
    and "msg_data m = wrap_up full src dst req @ pad"
  shows "\<exists>reply r w'. icmp_run_in (send_message lid) out m w = Inr (1, w') \<and> net_ok w'
    \<and> posted inbox capacity lid w out (wrap_message_down dst src reply None) r w'
    \<and> length reply = length req \<and> take 2 reply = [0, 0] \<and> drop 4 reply = drop 4 req
    \<and> ip_checksum reply (length reply) = 0"
  using transport.icmp_echo[OF shm_transport assms(1,3-10), OF assms(2), of out]
    echo_reply_ok[OF assms(6,7)] length_echo_reply[of req] assms(6)
  by (intro exI[of _ "echo_reply req"]) simp

theorem icmp_echo_reply_witness:
  "(let req = [8, 0, 0xf7, 0xfa, 0, 1, 0, 4]; m = hello\<lparr> msg_data := wrap_up [] [10, 0, 0, 1] [10, 0, 0, 2] req \<rparr>
    in \<exists>reply r w'. icmp_run_in (send_message ''icmp'') ''ip4'' m idle_net = Inr (1, w') \<and> net_ok w'
    \<and> posted inbox capacity ''icmp'' idle_net ''ip4'' (wrap_message_down [10, 0, 0, 2] [10, 0, 0, 1] reply None) r w'
    \<and> length reply = length req \<and> take 2 reply = [0, 0] \<and> drop 4 reply = drop 4 req
    \<and> ip_checksum reply (length reply) = 0)"
  unfolding Let_def
  by (rule icmp_echo_reply[where pad = "[]" and full = "[]"])
    (simp_all add: idle_net_ok max_id_length_def small_def ip_checksum_def htons_def host16_def cksum_fold_def)

text \<open>An error request as \<open>send_icmp_error\<close> makes it, about a packet of at least an IP
  header, becomes one ICMP message with that type and code, a checksum that verifies, and a
  quote of the packet's IP header (its length read from the byte behind the two-byte payload,
  where the packet begins) with the 64 bits behind it.\<close>

theorem icmp_error_quotes_packet:
  assumes "net_ok w" "length lid < max_id_length"
    and "small (length full)" "20 \<le> length full" "small (length me)" "small (length to_a)"
    and "msg_data m = msg_data (wrap_message_up full me to_a [ty, code] None) @ pad"
  shows "\<exists>pkt r w'. icmp_run_err (send_message lid) out m w = Inr (1, w') \<and> net_ok w'
    \<and> posted inbox capacity lid w out (wrap_message_down me to_a pkt None) r w'
    \<and> take 2 pkt = [ty, code] \<and> ip_checksum pkt (length pkt) = 0
    \<and> drop 8 pkt = take (unat (hd full AND 15) * 4 + 8) full"
proof -
  have "drop 8 (icmp_error_packet ty code full) = take (unat (hd full AND 15) * 4 + 8) full"
    by (simp add: icmp_error_packet_def Let_def put_at_def)
  moreover have "msg_data m = wrap_up full me to_a [ty, code] @ pad"
    using assms(7) by (simp add: wrap_message_up_def)
  ultimately show ?thesis
    using transport.icmp_error[OF shm_transport assms(1,3-6), OF assms(2)] icmp_error_packet_ok(2,3)[of ty code full]
    by blast
qed

theorem icmp_error_quotes_packet_witness:
  "(let full = 0x45 # replicate 27 7; m = hello\<lparr> msg_data := msg_data (wrap_message_up full [10, 0, 0, 2] [10, 0, 0, 1] [3, 3] None) \<rparr>
    in \<exists>pkt r w'. icmp_run_err (send_message ''icmp'') ''ip4'' m idle_net = Inr (1, w') \<and> net_ok w'
    \<and> posted inbox capacity ''icmp'' idle_net ''ip4'' (wrap_message_down [10, 0, 0, 2] [10, 0, 0, 1] pkt None) r w'
    \<and> take 2 pkt = [3, 3] \<and> ip_checksum pkt (length pkt) = 0
    \<and> drop 8 pkt = take (unat (hd full AND 15) * 4 + 8) full)"
  unfolding Let_def
  by (rule icmp_error_quotes_packet[where pad = "[]"])
    (simp_all add: idle_net_ok max_id_length_def small_def)

end
