(* ===== verification/Tcp.thy ===== *)
theory Tcp
  imports Servers Siphash Std_Map
begin

text \<open>
  \<^verbatim>\<open>src/tcp_server.cpp\<close>, the data structures and the packets: send buffers, sessions,
  session identifiers, SYN cookies, segments out and the parsing of segments that come in.
\<close>

section \<open>Flags and states\<close>

definition FLAG_URG :: byte where "FLAG_URG = 0x20"
definition FLAG_ACK :: byte where "FLAG_ACK = 0x10"
definition FLAG_PSH :: byte where "FLAG_PSH = 0x08"
definition FLAG_RST :: byte where "FLAG_RST = 0x04"
definition FLAG_SYN :: byte where "FLAG_SYN = 0x02"
definition FLAG_FIN :: byte where "FLAG_FIN = 0x01"

definition INITIAL_LOCAL_WINDOW_SIZE :: u16 where "INITIAL_LOCAL_WINDOW_SIZE = 32768"
definition MI_IP4_MIN_TCP_MTU :: u16 where "MI_IP4_MIN_TCP_MTU = 536"
definition MI_TCP_FIN :: u32 where "MI_TCP_FIN = 1"
definition MI_TCP_OPEN :: u32 where "MI_TCP_OPEN = 2"
definition MI_TCP_CLOSE :: u32 where "MI_TCP_CLOSE = 4"

definition has_flag :: "byte \<Rightarrow> byte \<Rightarrow> bool" where
  "has_flag flags f \<longleftrightarrow> flags AND f \<noteq> 0"

datatype tcp_state_t = Listen | Syn_sent | Syn_received | Established | Fin_wait_1 | Fin_wait_2
  | Close_wait | Closing | Last_ack | Time_wait | Closed

definition mss_ranges :: "u16 list" where
  "mss_ranges = [216, 536, 984, 1400, 1436, 1452, 1460, 1500]"

section \<open>Send buffers\<close>

record tcp_data =
  td_seq :: u32
  td_bytes :: bytes

definition td_peek :: "nat \<Rightarrow> tcp_data \<Rightarrow> bytes \<times> bool" where
  "td_peek max_n_bytes d =
     (let get_n = min (length (td_bytes d)) max_n_bytes
      in (take get_n (td_bytes d), length (td_bytes d) = get_n))"

definition td_forget :: "nat \<Rightarrow> tcp_data \<Rightarrow> tcp_data" where
  "td_forget n_bytes_in d =
     (let n_bytes = min n_bytes_in (length (td_bytes d))
      in \<lparr> td_seq = td_seq d + word_of_nat n_bytes, td_bytes = drop n_bytes (td_bytes d) \<rparr>)"

definition td_forget_all :: "tcp_data \<Rightarrow> tcp_data" where
  "td_forget_all d = \<lparr> td_seq = 0, td_bytes = [] \<rparr>"

definition td_add :: "bytes \<Rightarrow> tcp_data \<Rightarrow> tcp_data" where
  "td_add what d = d\<lparr> td_bytes := td_bytes d @ what \<rparr>"

section \<open>Sessions\<close>

record session_t =
  updated_ts :: u64
  is_client :: bool
  shm_peer :: string
  st_state :: tcp_state_t
  start_local_seq :: u32
  start_peer_seq :: u32
  mss :: u16
  local_seq :: u32
  peer_seq :: u32
  local_window_size :: u16
  peer_window_size :: u16
  local_addr :: addr
  local_port :: u16
  peer_addr :: addr
  peer_port :: u16
  half_closed :: bool
  tcp_to_l7 :: tcp_data
  l7_to_tcp :: tcp_data
  l7_send_fin :: bool
  fin_sent :: bool
  in_flight :: nat

text \<open>\<^verbatim>\<open>new session_t()\<close>: all members zero but the default of \<open>mss\<close>.\<close>

definition new_session_t :: session_t where
  "new_session_t = \<lparr> updated_ts = 0, is_client = False, shm_peer = [], st_state = Listen, start_local_seq = 0,
     start_peer_seq = 0, mss = MI_IP4_MIN_TCP_MTU, local_seq = 0, peer_seq = 0, local_window_size = 0,
     peer_window_size = 0, local_addr = [], local_port = 0, peer_addr = [], peer_port = 0, half_closed = False,
     tcp_to_l7 = \<lparr> td_seq = 0, td_bytes = [] \<rparr>, l7_to_tcp = \<lparr> td_seq = 0, td_bytes = [] \<rparr>,
     l7_send_fin = False, fin_sent = False, in_flight = 0 \<rparr>"

type_synonym sessions = "(u64, session_t) std_map"

definition tcp_session_id_salt :: bytes where
  "tcp_session_id_salt = [0x01, 0x02, 0x03, 0x04, 0x05, 0x06, 0x08, 0x09, 0x0a, 0x0b, 0x0c, 0x0d, 0x0e, 0x0f, 0x10, 0x00]"

definition tcp_calc_session_id :: "u16 \<Rightarrow> u16 \<Rightarrow> addr \<Rightarrow> addr \<Rightarrow> u64 res" where
  "tcp_calc_session_id src_port dst_port from_a to_a =
     res_bind (assert_that (from_a \<noteq> [] \<and> to_a \<noteq> [])) (\<lambda>_.
     res_bind (siphash (le_enc 2 (unat src_port) @ le_enc 2 (unat dst_port) @ from_a @ to_a) tcp_session_id_salt 8) (\<lambda>h.
     Inr (push_bit 32 (word_of_nat (le_dec (take 4 h))) OR word_of_nat (le_dec (drop 4 h)))))"

text \<open>\<open>now\<close> is the time in seconds.\<close>

definition my_syn_cookie :: "u64 \<Rightarrow> bytes \<Rightarrow> nat \<Rightarrow> nat \<Rightarrow> u32 res" where
  "my_syn_cookie session_id syn_cookie_salt mss_index now =
     (let t = (now div 64) mod 32 in
      res_bind (siphash (le_enc 8 (unat session_id) @ [word_of_nat t]) syn_cookie_salt 8) (\<lambda>h.
      res_bind (assert_that (mss_index \<le> 7)) (\<lambda>_.
      let s = (word_of_nat (le_dec (take 4 h)) XOR word_of_nat (le_dec (drop 4 h)) :: u32)
      in Inr ((s AND 0xFFFFFF00) OR push_bit 3 (word_of_nat t) OR word_of_nat mss_index))))"

section \<open>Segments out\<close>

definition tcp_header :: "u16 \<Rightarrow> u16 \<Rightarrow> u32 \<Rightarrow> u32 \<Rightarrow> byte \<Rightarrow> u16 \<Rightarrow> u16 \<Rightarrow> bytes" where
  "tcp_header src_port dst_port seq_nr ack_nr flags window_size checksum =
     put_uint16 src_port @ put_uint16 dst_port @ put_uint32 seq_nr @ put_uint32 ack_nr
     @ [0x50, flags] @ put_uint16 window_size @ put_uint16 checksum @ [0, 0]"

text \<open>The loop over the pieces of the payload, at most \<open>mss\<close> bytes each; the result is the
  number of bytes sent, -1 when not even the first packet went out.\<close>

fun send_tcp_loop ::
  "nat \<Rightarrow> 'w shm_queue \<Rightarrow> string \<Rightarrow> addr \<Rightarrow> addr \<Rightarrow> u16 \<Rightarrow> u16 \<Rightarrow> u32 \<Rightarrow> u32 \<Rightarrow> byte \<Rightarrow> u16 \<Rightarrow> bytes \<Rightarrow> u16 \<Rightarrow> nat \<Rightarrow> 'w
    \<Rightarrow> (int \<times> 'w) res" where
  "send_tcp_loop 0 shm down from_a to_a src_port dst_port loc_seq ack_nr flags window_size p m n_sent w = Inl Fuel_exhausted"
| "send_tcp_loop (Suc fuel) shm down from_a to_a src_port dst_port loc_seq ack_nr flags window_size p m n_sent w =
     (let use_n = min (length p) (unat m);
          packet = tcp_header src_port dst_port loc_seq ack_nr flags window_size 0 @ take use_n p
      in
      res_bind (l4_checksum from_a to_a packet (20 + use_n) 6) (\<lambda>checksum.
      let packet = put_at 16 (put_uint16 checksum) packet; n_sent' = n_sent + use_n in
      res_bind (post shm down (wrap_message_down from_a to_a packet None) w) (\<lambda>(rc, w).
      if \<not> rc then Inr (if 0 < n_sent' then int n_sent' else -1, w)
      else if 0 < length p - use_n then
        send_tcp_loop fuel shm down from_a to_a src_port dst_port (loc_seq + word_of_nat use_n) ack_nr flags
          window_size (drop use_n p) m n_sent' w
      else Inr (int n_sent', w))))"

declare send_tcp_loop.simps [simp del]

definition send_tcp_packet ::
  "'w shm_queue \<Rightarrow> string \<Rightarrow> addr \<Rightarrow> addr \<Rightarrow> u16 \<Rightarrow> u16 \<Rightarrow> u32 \<Rightarrow> u32 \<Rightarrow> byte \<Rightarrow> u16 \<Rightarrow> bytes \<Rightarrow> u16 \<Rightarrow> 'w \<Rightarrow> (int \<times> 'w) res" where
  "send_tcp_packet shm down from_a to_a src_port dst_port seq_nr ack_nr flags window_size payload m w =
     send_tcp_loop (Suc (length payload)) shm down from_a to_a src_port dst_port seq_nr ack_nr flags window_size payload m 0 w"

section \<open>Segments in\<close>

definition mss_index_of :: "u16 \<Rightarrow> nat \<Rightarrow> nat" where
  "mss_index_of m idx = foldl (\<lambda>idx i. if mss_ranges ! i \<le> m then i else idx) idx [0 ..< 8]"

text \<open>The walk over the options of a SYN, from \<open>cur\<close> to \<open>fin\<close>: \<open>pl\<close> is the rest of the
  message from the segment on, the header length is not yet compared with the segment's.\<close>

function syn_options :: "bytes \<Rightarrow> nat \<Rightarrow> nat \<Rightarrow> nat \<Rightarrow> nat res" where
  "syn_options pl cur fin mss_index =
     (if cur + 2 \<le> fin then
        res_bind (load pl cur) (\<lambda>kind.
        if kind = 0 \<or> kind = 1 then syn_options pl (cur + 1) fin mss_index
        else res_bind (load pl (cur + 1)) (\<lambda>len.
        res_bind (if kind = 2 \<and> len = 4 \<and> cur + 4 \<le> fin
                  then res_bind (get16 pl (cur + 2)) (\<lambda>m. Inr (mss_index_of m mss_index))
                  else Inr mss_index) (\<lambda>mss_index.
        if len = 0 then Inr mss_index
        else syn_options pl (cur + unat len) fin mss_index)))
      else Inr mss_index)"
  by pat_completeness auto
termination
proof (relation "measure (\<lambda>(pl, cur, fin, i). fin - cur)", goal_cases)
  case (3 pl cur fin mss_index kind len idx)
  then have "0 < unat len" by (simp add: unat_gt_0)
  then show ?case using 3 by simp
qed auto

declare syn_options.simps [simp del]

record tcp_seg =
  sg_from :: addr
  sg_to :: addr
  sg_sport :: u16
  sg_dport :: u16
  sg_sid :: u64
  sg_flags :: byte
  sg_window :: u16
  sg_seq :: u32
  sg_ack :: u32
  sg_data :: bytes
  sg_mss_index :: nat

definition tcp_parse :: "bytes \<Rightarrow> tcp_seg option res" where
  "tcp_parse d =
     res_bind (unwrap_message_up d) (\<lambda>v.
     let pl_len = up_pl_len v in
     if pl_len < 20 then Inr None
     else res_bind (load_n (up_from v) 0 (up_from_len v)) (\<lambda>a_from.
     res_bind (load_n (up_to v) 0 (up_to_len v)) (\<lambda>a_to.
     res_bind (l4_checksum a_from a_to (up_pl v) pl_len 6) (\<lambda>checksum.
     if checksum \<noteq> 0x0000 then Inr None
     else
       let pl = take pl_len (up_pl v);
           source_port = get_uint16 (slice_at 0 2 pl); destination_port = get_uint16 (slice_at 2 2 pl);
           header_size = unat (drop_bit 4 (pl ! 12)) * 4;
           flags = pl ! 13
       in
       res_bind (tcp_calc_session_id source_port destination_port a_from a_to) (\<lambda>session_id.
       if header_size < 20 then Inr None
       else res_bind (if has_flag flags FLAG_SYN \<and> \<not> has_flag flags FLAG_ACK
                      then syn_options (up_pl v) 20 header_size 1 else Inr 1) (\<lambda>mss_index.
       if pl_len < header_size then Inr None
       else Inr (Some \<lparr> sg_from = a_from, sg_to = a_to, sg_sport = source_port, sg_dport = destination_port,
              sg_sid = session_id, sg_flags = flags, sg_window = get_uint16 (slice_at 14 2 pl),
              sg_seq = get_uint32 (slice_at 4 4 pl), sg_ack = get_uint32 (slice_at 8 4 pl),
              sg_data = drop header_size pl, sg_mss_index = mss_index \<rparr>)))))))"

end
