(* ===== verification/Tcp_Session.thy ===== *)
theory Tcp_Session
  imports Tcp
begin

text \<open>
  \<^verbatim>\<open>src/tcp_server.cpp\<close>, the threads: what a segment does to its session (\<open>run_in\<close>), data from
  the applications (\<open>run_out\<close> and its sender), opening and closing from the application side
  (\<open>run_meta\<close>) and the removal of finished sessions (\<open>run_clean\<close>).  A session is the value
  under its identifier in the map; the pointer a thread holds while it owns the lock is that
  value, written back at the end.
\<close>

section \<open>run\_in: the local variables\<close>

record verdict =
  invalid :: bool
  invalid_w_rst :: bool
  invalid_inc_ack :: bool
  clean_session :: bool
  acked_packet :: bool

definition verdict0 :: verdict where
  "verdict0 = \<lparr> invalid = False, invalid_w_rst = True, invalid_inc_ack = False, clean_session = False, acked_packet = False \<rparr>"

text \<open>How a stage ends: the packet is done (\<^verbatim>\<open>continue\<close>), the session is released at once,
  \<^verbatim>\<open>goto clean\<close>, or on to the next stage.\<close>

datatype flow = Done | Release | Clean | Proceed

text \<open>A segment back to the peer: addresses and ports swapped, no payload.\<close>

definition tcp_reply ::
  "'w shm_queue \<Rightarrow> string \<Rightarrow> tcp_seg \<Rightarrow> u32 \<Rightarrow> u32 \<Rightarrow> byte \<Rightarrow> u16 \<Rightarrow> u16 \<Rightarrow> 'w \<Rightarrow> (int \<times> 'w) res" where
  "tcp_reply shm out_name sg seq_nr ack_nr flags window m w =
     send_tcp_packet shm out_name (sg_to sg) (sg_from sg) (sg_dport sg) (sg_sport sg) seq_nr ack_nr flags window [] m w"

definition send_syn_cookie :: "'w shm_queue \<Rightarrow> string \<Rightarrow> bytes \<Rightarrow> nat \<Rightarrow> tcp_seg \<Rightarrow> 'w \<Rightarrow> 'w res" where
  "send_syn_cookie shm out_name syn_cookie_salt now sg w =
     res_bind (my_syn_cookie (sg_sid sg) syn_cookie_salt (sg_mss_index sg) now) (\<lambda>syn_cookie.
     res_bind (tcp_reply shm out_name sg syn_cookie (sg_seq sg + 1) (FLAG_SYN OR FLAG_ACK) INITIAL_LOCAL_WINDOW_SIZE
                 MI_IP4_MIN_TCP_MTU w) (\<lambda>(n, w). Inr w))"

section \<open>run\_in: SYN\<close>

definition tcp_syn ::
  "'w shm_queue \<Rightarrow> string \<Rightarrow> (u16 \<Rightarrow> string option) \<Rightarrow> bytes \<Rightarrow> nat \<Rightarrow> tcp_seg \<Rightarrow> session_t option \<Rightarrow> 'w
    \<Rightarrow> (flow \<times> verdict \<times> session_t option \<times> 'w) res" where
  "tcp_syn shm out_name mappings_in salt now sg session w =
     (let v = verdict0\<lparr> invalid_inc_ack := True \<rparr>; flags = sg_flags sg in
      case session of
        Some s \<Rightarrow>
          if is_client s then
            if \<not> has_flag flags FLAG_ACK then Inr (Proceed, v\<lparr> invalid := True \<rparr>, Some s, w)
            else
              let s = (if st_state s = Established then s
                       else s\<lparr> st_state := Established, start_peer_seq := sg_seq sg, peer_seq := sg_seq sg \<rparr>);
                  s = s\<lparr> peer_seq := peer_seq s + 1 \<rparr>
              in res_bind (tcp_reply shm out_name sg (local_seq s) (peer_seq s) FLAG_ACK (local_window_size s) (mss s) w) (\<lambda>(n, w).
                 if n = -1 then Inr (Clean, v\<lparr> clean_session := True \<rparr>, Some s, w)
                 else Inr (Proceed, v, Some s, w))
          else if st_state s \<noteq> Established then
            res_bind (send_syn_cookie shm out_name salt now sg w) (\<lambda>w. Inr (Done, v, Some s, w))
          else if \<not> fin_sent s \<or> \<not> half_closed s then Inr (Done, v, Some s, w)
          else Inr (Release, v, Some s, w)
      | None \<Rightarrow>
          (case mappings_in (sg_dport sg) of
             None \<Rightarrow> Inr (Proceed, v\<lparr> invalid := True, invalid_w_rst := \<not> has_flag flags FLAG_RST \<rparr>, None, w)
           | Some _ \<Rightarrow>
               if has_flag flags (FLAG_FIN OR FLAG_RST OR FLAG_PSH OR FLAG_URG OR FLAG_ACK)
               then Inr (Proceed, v\<lparr> invalid := True, invalid_w_rst := \<not> has_flag flags FLAG_RST \<rparr>, None, w)
               else res_bind (send_syn_cookie shm out_name salt now sg w) (\<lambda>w. Inr (Proceed, v, None, w))))"

section \<open>run\_in: ACK\<close>

text \<open>An acknowledgement for a session: what is acknowledged is forgotten; anything but an
  acknowledgement of all that is in flight makes the rest be sent again.\<close>

definition tcp_ack_session :: "u32 \<Rightarrow> session_t \<Rightarrow> session_t" where
  "tcp_ack_session ack_seq_nr s =
     (let ack_n = ack_seq_nr - local_seq s in
      if local_seq s \<le> ack_seq_nr then
        if unat ack_n = in_flight s then
          s\<lparr> l7_to_tcp := td_forget (unat ack_n) (l7_to_tcp s), local_seq := local_seq s + ack_n, in_flight := in_flight s - unat ack_n \<rparr>
        else if unat ack_n < in_flight s then
          s\<lparr> l7_to_tcp := td_forget (unat ack_n) (l7_to_tcp s), local_seq := local_seq s + ack_n, in_flight := 0 \<rparr>
        else s
      else s\<lparr> in_flight := 0 \<rparr>)"

text \<open>\<open>shm_peer\<close> is an array of \<open>max_id_length\<close> characters.\<close>

definition peer_name :: "string \<Rightarrow> string res" where
  "peer_name name = (if max_id_length \<le> length name then Inl Out_of_bounds else Inr name)"

text \<open>An ACK without a session is the end of a handshake when its number is a valid cookie:
  the application is told, and the session made.\<close>

definition tcp_ack_new ::
  "'w shm_queue \<Rightarrow> string \<Rightarrow> (u16 \<Rightarrow> string option) \<Rightarrow> bytes \<Rightarrow> nat \<Rightarrow> tcp_seg \<Rightarrow> 'w
    \<Rightarrow> (flow \<times> verdict \<times> session_t option \<times> 'w) res" where
  "tcp_ack_new shm out_name mappings_in salt now sg w =
     (let seq_before_syn = sg_ack sg - 1; cur_mss_index = unat (seq_before_syn AND 7) in
      res_bind (my_syn_cookie (sg_sid sg) salt cur_mss_index now) (\<lambda>syn_cookie.
      if syn_cookie \<noteq> seq_before_syn then
        res_bind (tcp_reply shm out_name sg (syn_cookie + 1) (sg_seq sg) FLAG_RST (sg_window sg) MI_IP4_MIN_TCP_MTU w) (\<lambda>(n, w).
        Inr (Proceed, verdict0, None, w))
      else (case mappings_in (sg_dport sg) of
          None \<Rightarrow> Inr (Proceed, verdict0, None, w)
        | Some name \<Rightarrow>
            res_bind (post shm name (wrap_message_up_tcp (sg_sid sg) (sg_from sg) (sg_sport sg) (sg_to sg) (sg_dport sg)
                        MI_TCP_OPEN []) w) (\<lambda>(ok, w).
            if ok then
              res_bind (peer_name name) (\<lambda>peer.
              Inr (Proceed, verdict0, Some (new_session_t\<lparr> is_client := False, st_state := Established, local_seq := sg_ack sg,
                local_addr := sg_to sg, local_port := sg_dport sg, peer_seq := sg_seq sg, peer_addr := sg_from sg,
                peer_port := sg_sport sg, local_window_size := INITIAL_LOCAL_WINDOW_SIZE,
                mss := mss_ranges ! cur_mss_index, shm_peer := peer \<rparr>), w))
            else Inr (Clean, verdict0\<lparr> invalid := True, clean_session := True \<rparr>, None, w)))))"

definition tcp_ack ::
  "'w shm_queue \<Rightarrow> string \<Rightarrow> (u16 \<Rightarrow> string option) \<Rightarrow> bytes \<Rightarrow> nat \<Rightarrow> tcp_seg \<Rightarrow> session_t option \<Rightarrow> 'w
    \<Rightarrow> (flow \<times> verdict \<times> session_t option \<times> 'w) res" where
  "tcp_ack shm out_name mappings_in salt now sg session w =
     (case session of
        Some s \<Rightarrow> Inr (Proceed, verdict0, Some (tcp_ack_session (sg_ack sg) s), w)
      | None \<Rightarrow>
          if \<not> has_flag (sg_flags sg) FLAG_FIN then tcp_ack_new shm out_name mappings_in salt now sg w
          else Inr (Proceed, verdict0, None, w))"

section \<open>run\_in: data, FIN and the end\<close>

text \<open>Data in order goes to the application and is acknowledged; anything else is answered by
  an acknowledgement of what is expected.\<close>

definition tcp_input ::
  "'w shm_queue \<Rightarrow> string \<Rightarrow> tcp_seg \<Rightarrow> verdict \<Rightarrow> session_t \<Rightarrow> 'w \<Rightarrow> (verdict \<times> session_t \<times> 'w) res" where
  "tcp_input shm out_name sg v s w =
     (let n = length (sg_data sg) in
      if sg_seq sg = peer_seq s then
        res_bind (if 0 < n then
            post shm (shm_peer s) (wrap_message_up_tcp (sg_sid sg) (sg_from sg) (sg_sport sg) (sg_to sg) (sg_dport sg)
              (if half_closed s then MI_TCP_FIN else 0) (sg_data sg)) w
          else Inr (True, w)) (\<lambda>(ok, w).
        if ok \<and> (\<not> has_flag (sg_flags sg) FLAG_ACK \<or> 0 < n) then
          res_bind (tcp_reply shm out_name sg (local_seq s) (peer_seq s + word_of_nat n) FLAG_ACK (local_window_size s) (mss s) w) (\<lambda>(r, w).
          if r = 0 then Inr (v\<lparr> acked_packet := True \<rparr>, s\<lparr> peer_seq := peer_seq s + word_of_nat n \<rparr>, w)
          else Inr (v\<lparr> clean_session := True \<rparr>, s, w))
        else Inr (v, s, w))
      else
        res_bind (tcp_reply shm out_name sg (local_seq s) (peer_seq s) FLAG_ACK (local_window_size s) (mss s) w) (\<lambda>(r, w).
        if r = -1 then Inr (v\<lparr> clean_session := True \<rparr>, s, w) else Inr (v, s, w)))"

definition tcp_fin :: "'w shm_queue \<Rightarrow> string \<Rightarrow> tcp_seg \<Rightarrow> verdict \<Rightarrow> session_t \<Rightarrow> 'w \<Rightarrow> (session_t \<times> 'w) res" where
  "tcp_fin shm out_name sg v s w =
     (if has_flag (sg_flags sg) FLAG_FIN then
        let s = (if \<not> half_closed s then s\<lparr> peer_seq := peer_seq s + 1, half_closed := True \<rparr> else s) in
        if \<not> acked_packet v then
          res_bind (tcp_reply shm out_name sg (local_seq s) (peer_seq s + word_of_nat (length (sg_data sg))) FLAG_ACK
                      (local_window_size s) (mss s) w) (\<lambda>(r, w). Inr (s, w))
        else Inr (s, w)
      else Inr (s, w))"

definition tcp_body ::
  "'w shm_queue \<Rightarrow> string \<Rightarrow> tcp_seg \<Rightarrow> verdict \<Rightarrow> session_t option \<Rightarrow> 'w \<Rightarrow> (verdict \<times> session_t option \<times> 'w) res" where
  "tcp_body shm out_name sg v session w =
     (case session of
        None \<Rightarrow> Inr (v, None, w)
      | Some s \<Rightarrow>
          res_bind (if invalid v then Inr (v, s, w) else tcp_input shm out_name sg v s w) (\<lambda>(v, s, w).
          res_bind (tcp_fin shm out_name sg v s w) (\<lambda>(s, w). Inr (v, Some s, w))))"

definition tcp_clean ::
  "'w shm_queue \<Rightarrow> string \<Rightarrow> tcp_seg \<Rightarrow> verdict \<Rightarrow> session_t option \<Rightarrow> 'w \<Rightarrow> (session_t option \<times> 'w) res" where
  "tcp_clean shm out_name sg v session w =
     (if invalid v \<or> clean_session v then
        res_bind (if invalid v \<and> invalid_w_rst v then
            res_bind (tcp_reply shm out_name sg (case session of None \<Rightarrow> 0 | Some s \<Rightarrow> local_seq s)
                (case session of None \<Rightarrow> 0 | Some s \<Rightarrow> sg_seq sg + (if invalid_inc_ack v then 1 else 0))
                FLAG_RST (sg_window sg) MI_IP4_MIN_TCP_MTU w) (\<lambda>(r, w).
            Inr (map_option (\<lambda>s. s\<lparr> st_state := Closed \<rparr>) session, w))
          else Inr (session, w)) (\<lambda>(session, w).
        case session of
          None \<Rightarrow> Inr (None, w)
        | Some s \<Rightarrow>
            let s = (if invalid v then s\<lparr> tcp_to_l7 := td_forget_all (tcp_to_l7 s), l7_to_tcp := td_forget_all (l7_to_tcp s) \<rparr> else s) in
            res_bind (post shm (shm_peer s) (wrap_message_up_tcp (sg_sid sg) (sg_from sg) (sg_sport sg) (sg_to sg) (sg_dport sg)
              MI_TCP_CLOSE []) w) (\<lambda>(r, w). Inr (Some s, w)))
      else Inr (session, w))"

section \<open>run\_in\<close>

text \<open>The choice by the state and the flags (SYN, ACK, FIN or nothing).\<close>

definition tcp_dispatch ::
  "'w shm_queue \<Rightarrow> string \<Rightarrow> (u16 \<Rightarrow> string option) \<Rightarrow> bytes \<Rightarrow> nat \<Rightarrow> tcp_seg \<Rightarrow> session_t option \<Rightarrow> 'w
    \<Rightarrow> (flow \<times> verdict \<times> session_t option \<times> 'w) res" where
  "tcp_dispatch shm out_name mappings_in salt now sg session w =
     (let flags = sg_flags sg in
      if (case session of None \<Rightarrow> False | Some s \<Rightarrow> st_state s = Closed) then
        Inr (Clean, verdict0\<lparr> invalid := True, invalid_w_rst := True \<rparr>, session, w)
      else if has_flag flags FLAG_RST then
        Inr (Clean, verdict0\<lparr> invalid := True, invalid_w_rst := False \<rparr>, map_option (\<lambda>s. s\<lparr> st_state := Closed \<rparr>) session, w)
      else if has_flag flags FLAG_SYN then tcp_syn shm out_name mappings_in salt now sg session w
      else if has_flag flags FLAG_ACK then tcp_ack shm out_name mappings_in salt now sg session w
      else if \<not> has_flag flags FLAG_FIN then Inr (Done, verdict0, session, w)
      else Inr (Proceed, verdict0, session, w))"

definition write_back :: "u64 \<Rightarrow> session_t option \<Rightarrow> sessions \<Rightarrow> sessions" where
  "write_back sid session sessions = (case session of None \<Rightarrow> sessions | Some s \<Rightarrow> set_key sid s sessions)"

definition tcp_segment ::
  "'w shm_queue \<Rightarrow> string \<Rightarrow> (u16 \<Rightarrow> string option) \<Rightarrow> bytes \<Rightarrow> nat \<Rightarrow> u64 \<Rightarrow> tcp_seg \<Rightarrow> sessions \<Rightarrow> 'w \<Rightarrow> (sessions \<times> 'w) res" where
  "tcp_segment shm out_name mappings_in salt now now_us sg sessions w =
     (let session = map_option (\<lambda>s. s\<lparr> updated_ts := now_us, peer_window_size := sg_window sg \<rparr>) (find_key (sg_sid sg) sessions) in
      res_bind (tcp_dispatch shm out_name mappings_in salt now sg session w) (\<lambda>(fl, v, session, w).
      case fl of
        Done \<Rightarrow> Inr (write_back (sg_sid sg) session sessions, w)
      | Release \<Rightarrow> Inr (erase_key (sg_sid sg) sessions, w)
      | _ \<Rightarrow>
          res_bind (if fl = Proceed then tcp_body shm out_name sg v session w else Inr (v, session, w)) (\<lambda>(v, session, w).
          res_bind (tcp_clean shm out_name sg v session w) (\<lambda>(session, w).
          Inr (write_back (sg_sid sg) session sessions, w)))))"

definition tcp_run_in ::
  "'w shm_queue \<Rightarrow> string \<Rightarrow> (u16 \<Rightarrow> string option) \<Rightarrow> bytes \<Rightarrow> nat \<Rightarrow> u64 \<Rightarrow> message \<Rightarrow> sessions \<Rightarrow> 'w \<Rightarrow> (nat \<times> sessions \<times> 'w) res" where
  "tcp_run_in shm out_name mappings_in salt now now_us m sessions w =
     res_bind (tcp_parse (msg_data m)) (\<lambda>r.
     case r of
       None \<Rightarrow> Inr (1, sessions, w)
     | Some sg \<Rightarrow>
         res_bind (tcp_segment shm out_name mappings_in salt now now_us sg sessions w) (\<lambda>(sessions, w).
         Inr (1, sessions, w)))"

section \<open>run\_out\<close>

definition tcp_run_out :: "message \<Rightarrow> sessions \<Rightarrow> (nat \<times> sessions) res" where
  "tcp_run_out m sessions =
     (let sz = unat (msg_size m) in
      if sz < 12 then Inr (1, sessions)
      else res_bind (load_n (msg_data m) 0 sz) (\<lambda>d.
        let session_id = word_of_nat (le_dec (take 8 d)); flags = (word_of_nat (le_dec (slice_at 8 4 d)) :: u32) in
        case find_key session_id sessions of
          None \<Rightarrow> Inr (1, sessions)
        | Some s \<Rightarrow>
            let s = (if 12 < sz then s\<lparr> l7_to_tcp := td_add (drop 12 d) (l7_to_tcp s) \<rparr> else s);
                s = (if flags AND 1 \<noteq> 0 then s\<lparr> l7_send_fin := True \<rparr> else s)
            in Inr (1, set_key session_id s sessions)))"

text \<open>One session in a pass of the sender: \<open>None\<close> when the pass is broken off.\<close>

definition tcp_sender_session :: "'w shm_queue \<Rightarrow> string \<Rightarrow> session_t \<Rightarrow> 'w \<Rightarrow> (session_t option \<times> 'w) res" where
  "tcp_sender_session shm_out out_name s w =
     (if in_flight s \<noteq> 0 \<or> fin_sent s then Inr (Some s, w)
      else
        let (buffer, fin) = td_peek (min 65536 (unat (mss s))) (l7_to_tcp s);
            send_fin = (if fin then l7_send_fin s else False)
        in
        if 0 < length buffer \<or> send_fin then
          res_bind (send_tcp_packet shm_out out_name (local_addr s) (peer_addr s) (local_port s) (peer_port s)
              (local_seq s) (peer_seq s) ((if send_fin then FLAG_FIN else 0) OR FLAG_ACK OR FLAG_PSH)
              (local_window_size s) buffer (mss s) w) (\<lambda>(sent_n, w).
          if sent_n = -1 then Inr (None, w)
          else
            let set_fin_flag = (if sent_n = int (length buffer) then send_fin else False);
                s = (if set_fin_flag \<and> \<not> fin_sent s then s\<lparr> local_seq := local_seq s + 1, fin_sent := True \<rparr> else s)
            in Inr (Some (s\<lparr> in_flight := nat sent_n \<rparr>), w))
        else Inr (Some s, w))"

fun tcp_sender_pass :: "'w shm_queue \<Rightarrow> string \<Rightarrow> sessions \<Rightarrow> 'w \<Rightarrow> (sessions \<times> 'w) res" where
  "tcp_sender_pass shm_out out_name [] w = Inr ([], w)"
| "tcp_sender_pass shm_out out_name ((sid, s) # ss) w =
     res_bind (tcp_sender_session shm_out out_name s w) (\<lambda>(r, w).
     case r of
       None \<Rightarrow> Inr ((sid, s) # ss, w)
     | Some s \<Rightarrow> res_bind (tcp_sender_pass shm_out out_name ss w) (\<lambda>(ss, w). Inr ((sid, s) # ss, w)))"

section \<open>run\_clean\<close>

definition TCP_WAIT_FIN :: u64 where
  "TCP_WAIT_FIN = 30000"

definition tcp_finished :: "u64 \<Rightarrow> session_t \<Rightarrow> bool" where
  "tcp_finished now s \<longleftrightarrow> TCP_WAIT_FIN * 1000 < now - updated_ts s \<and> (half_closed s \<and> fin_sent s \<or> st_state s = Closed)"

definition tcp_run_clean :: "u64 \<Rightarrow> sessions \<Rightarrow> sessions" where
  "tcp_run_clean now sessions = fold erase_key (map fst (filter (\<lambda>(k, s). tcp_finished now s) sessions)) sessions"


section \<open>run\_meta\<close>

record meta_req =
  mr_open :: bool
  mr_sid :: "u64 option"
  mr_addr :: "addr option"
  mr_port :: "u16 option"
  mr_shm :: "string option"

text \<open>The lines of a request: \<open>None\<close> for one that is not understood.\<close>

fun tcp_meta_lines :: "(nat \<Rightarrow> byte) \<Rightarrow> string list \<Rightarrow> meta_req \<Rightarrow> meta_req option res" where
  "tcp_meta_lines junk [] r = Inr (Some r)"
| "tcp_meta_lines junk (line # ls) r =
     (case split line ''='' of
        [k, v] \<Rightarrow>
          if k = ''action'' then
            if v = ''open'' then tcp_meta_lines junk ls (r\<lparr> mr_open := True \<rparr>)
            else if v = ''close'' then tcp_meta_lines junk ls (r\<lparr> mr_open := False \<rparr>)
            else Inr None
          else if k = ''session-id'' then
            res_bind (my_stoi_hex v) (\<lambda>i. tcp_meta_lines junk ls (r\<lparr> mr_sid := map_option word_of_int i \<rparr>))
          else if k = ''dst-port'' then
            res_bind (my_stoi_dec v) (\<lambda>i. tcp_meta_lines junk ls (r\<lparr> mr_port := map_option word_of_int i \<rparr>))
          else if k = ''dst-addr-ip4'' then
            res_bind (addr_of_string v ''.'' False junk) (\<lambda>a. tcp_meta_lines junk ls (r\<lparr> mr_addr := Some a \<rparr>))
          else if k = ''shm-data-address'' then tcp_meta_lines junk ls (r\<lparr> mr_shm := Some v \<rparr>)
          else Inr None
      | _ \<Rightarrow> Inr None)"

text \<open>\<open>rand_ports\<close>: what \<open>my_random\<close> yields for the port, tried until one is free;
  \<open>rand_seq\<close>: the initial sequence number.\<close>

definition tcp_open ::
  "'w shm_queue \<Rightarrow> string \<Rightarrow> addr \<Rightarrow> 'w shm_queue \<Rightarrow> u16 list \<Rightarrow> u32 \<Rightarrow> message \<Rightarrow> addr \<Rightarrow> u16 \<Rightarrow> string
    \<Rightarrow> sessions \<Rightarrow> (u16, u64) std_map \<Rightarrow> 'w \<Rightarrow> (sessions \<times> (u16, u64) std_map \<times> 'w) res" where
  "tcp_open shm out_name from_addr shm_meta rand_ports rand_seq m dst_addr dst_port shm_data_address sessions ports w =
     (case List.find (\<lambda>p. find_key p ports = None) rand_ports of
        None \<Rightarrow> Inl Fuel_exhausted
      | Some src_port \<Rightarrow>
          res_bind (tcp_calc_session_id dst_port src_port dst_addr from_addr) (\<lambda>session_id.
          res_bind (peer_name shm_data_address) (\<lambda>peer.
          let s = new_session_t\<lparr> is_client := True, shm_peer := peer, st_state := Syn_sent, local_seq := rand_seq,
                start_local_seq := rand_seq, peer_seq := 0, start_peer_seq := 0,
                local_window_size := INITIAL_LOCAL_WINDOW_SIZE, local_addr := from_addr, local_port := src_port,
                peer_addr := dst_addr, peer_port := dst_port \<rparr>
          in
          res_bind (send_tcp_packet shm out_name (local_addr s) (peer_addr s) (local_port s) (peer_port s)
              (local_seq s) (peer_seq s) FLAG_SYN (local_window_size s) [] MI_IP4_MIN_TCP_MTU w) (\<lambda>(n, w).
          if n = -1 then Inr (sessions, ports, w)
          else
            let reply = ''session-id='' @ num_str 16 (unat session_id) in
            res_bind (post shm_meta (c_str (sender m)) ((allocate_shm_message (length reply))\<lparr> msg_type := msg_reply,
              msg_data := to_bytes reply \<rparr>) w) (\<lambda>(r, w).
            if \<not> r then Inr (sessions, ports, w)
            else Inr (insert_key session_id (s\<lparr> local_seq := local_seq s + 1 \<rparr>) sessions,
                      insert_key src_port session_id ports, w))))))"

text \<open>The local port of a session that was opened by the peer is not in the map of ports: the
  iterator that \<open>find\<close> returns is then dereferenced all the same.\<close>

definition tcp_close ::
  "'w shm_queue \<Rightarrow> string \<Rightarrow> u64 \<Rightarrow> sessions \<Rightarrow> (u16, u64) std_map \<Rightarrow> 'w \<Rightarrow> (sessions \<times> (u16, u64) std_map \<times> 'w) res" where
  "tcp_close shm out_name session_id sessions ports w =
     (case find_key session_id sessions of
        None \<Rightarrow> Inr (sessions, ports, w)
      | Some s \<Rightarrow>
          let sessions = erase_key session_id sessions; s = s\<lparr> local_seq := local_seq s + 1 \<rparr> in
          (case find_key (local_port s) ports of
             None \<Rightarrow> Inl Out_of_bounds
           | Some sid \<Rightarrow>
               let ports = (if sid = session_id then erase_key (local_port s) ports else ports) in
               res_bind (send_tcp_packet shm out_name (local_addr s) (peer_addr s) (local_port s) (peer_port s)
                   (local_seq s) (peer_seq s) FLAG_FIN (local_window_size s) [] MI_IP4_MIN_TCP_MTU w) (\<lambda>(n, w).
               Inr (sessions, ports, w))))"

definition tcp_run_meta ::
  "'w shm_queue \<Rightarrow> string \<Rightarrow> addr \<Rightarrow> 'w shm_queue \<Rightarrow> (nat \<Rightarrow> byte) \<Rightarrow> u16 list \<Rightarrow> u32 \<Rightarrow> message
    \<Rightarrow> sessions \<Rightarrow> (u16, u64) std_map \<Rightarrow> 'w \<Rightarrow> (nat \<times> sessions \<times> (u16, u64) std_map \<times> 'w) res" where
  "tcp_run_meta shm out_name from_addr shm_meta junk rand_ports rand_seq m sessions ports w =
     res_bind (load_n (msg_data m) 0 (unat (msg_size m))) (\<lambda>d.
     let ls = split (of_bytes d) [CHR 0x0A] in
     if length ls < 2 then Inr (1, sessions, ports, w)
     else res_bind (tcp_meta_lines junk ls \<lparr> mr_open = False, mr_sid = None, mr_addr = None, mr_port = None, mr_shm = None \<rparr>) (\<lambda>r.
     case r of
       None \<Rightarrow> Inr (1, sessions, ports, w)
     | Some r \<Rightarrow>
         if mr_open r then
           (case (mr_port r, mr_addr r, mr_shm r) of
              (Some p, Some a, Some n) \<Rightarrow>
                res_bind (tcp_open shm out_name from_addr shm_meta rand_ports rand_seq m a p n sessions ports w) (\<lambda>(sessions, ports, w).
                Inr (1, sessions, ports, w))
            | _ \<Rightarrow> Inr (1, sessions, ports, w))
         else
           (case mr_sid r of
              Some sid \<Rightarrow>
                res_bind (tcp_close shm out_name sid sessions ports w) (\<lambda>(sessions, ports, w).
                Inr (1, sessions, ports, w))
            | None \<Rightarrow> Inr (1, sessions, ports, w))))"

end
