(* ===== verification/L7.thy ===== *)
theory L7
  imports Tcp_Session
begin

text \<open>
  What the TCP applications share: \<^verbatim>\<open>src/utils/queue.h\<close> and \<^verbatim>\<open>src/utils/tcp-helpers.cpp\<close>, the
  byte stream of a session in and out.
\<close>

section \<open>The queue of a session\<close>

definition queue_push :: "'a \<Rightarrow> 'a list \<Rightarrow> 'a list" where
  "queue_push t q = q @ [t]"

text \<open>\<^verbatim>\<open>pop(timeout)\<close>: nothing when the queue stays empty for that long.\<close>

definition queue_pop :: "'a list \<Rightarrow> 'a option \<times> 'a list" where
  "queue_pop q = (case q of [] \<Rightarrow> (None, []) | val # q \<Rightarrow> (Some val, q))"

definition queue_unpop :: "'a \<Rightarrow> 'a list \<Rightarrow> 'a list" where
  "queue_unpop t q = t # q"

record tcp_l7_session_t =
  l7_session_id :: u64
  l7_out_name :: string
  l7_from :: addr
  l7_from_port :: u16
  l7_to :: addr
  l7_to_port :: u16
  l7_finished :: bool
  l7_stop_flag :: bool
  l7_incoming :: "bytes list"

section \<open>Sending\<close>

text \<open>Both sends wait for room.\<close>

definition send_func :: "'w shm_queue \<Rightarrow> 'a tcp_l7_session_t_scheme \<Rightarrow> bytes \<Rightarrow> 'w \<Rightarrow> (int \<times> 'w) res" where
  "send_func shm session from_d w =
     (let n = length from_d; flags = 0 :: u32;
          data_msg = (allocate_shm_message (12 + n))\<lparr> msg_data := le_enc 8 (unat (l7_session_id session)) @ le_enc 4 (unat flags) @ from_d \<rparr>
      in res_bind (shm (l7_out_name session) data_msg True w) (\<lambda>(r, m', w).
         Inr (if \<not> r then -1 else int n, w)))"

definition fin_func :: "'w shm_queue \<Rightarrow> 'a tcp_l7_session_t_scheme \<Rightarrow> 'w \<Rightarrow> 'w res" where
  "fin_func shm session w =
     (let end_msg = (allocate_shm_message 12)\<lparr> msg_data := le_enc 8 (unat (l7_session_id session)) @ le_enc 4 (unat MI_TCP_FIN) \<rparr>
      in res_bind (shm (l7_out_name session) end_msg True w) (\<lambda>(r, m', w). Inr w))"

section \<open>Receiving\<close>

text \<open>
  Before each turn of the loop the other thread may have pushed something, and either stop flag
  may be set: \<open>arrives\<close> lists the pushes and the flag for each turn.  When the list runs out
  the loop still waits.
\<close>

fun recv_loop :: "(bytes list \<times> bool) list \<Rightarrow> bytes list \<Rightarrow> nat \<Rightarrow> bytes \<Rightarrow> (bytes \<times> bytes list \<times> (bytes list \<times> bool) list) res" where
  "recv_loop arrives q 0 got = Inr (got, q, arrives)"
| "recv_loop [] q (Suc todo) got = Inl Blocked"
| "recv_loop ((pushed, stop) # arrives) q (Suc todo) got =
     (let q = fold queue_push pushed q in
      if stop then Inr (got, q, arrives)
      else case queue_pop q of
          (None, q) \<Rightarrow> recv_loop arrives q (Suc todo) got
        | (Some v, q) \<Rightarrow>
            if Suc todo < length v
            then recv_loop arrives (queue_unpop (drop (Suc todo) v) q) 0 (got @ take (Suc todo) v)
            else recv_loop arrives q (Suc todo - length v) (got @ v))"

definition recv_func :: "(bytes list \<times> bool) list \<Rightarrow> 'a tcp_l7_session_t_scheme \<Rightarrow> nat \<Rightarrow> (bytes \<times> 'a tcp_l7_session_t_scheme \<times> (bytes list \<times> bool) list) res" where
  "recv_func arrives session n =
     (if n = 0 then Inr ([], session, arrives)
      else res_bind (recv_loop arrives (l7_incoming session) n []) (\<lambda>(got, q, arrives).
        Inr (got, session\<lparr> l7_incoming := q \<rparr>, arrives)))"

section \<open>Lemmas\<close>

lemma fold_queue_push [simp]: "fold queue_push ps q = q @ ps"
  by (induction ps arbitrary: q) (simp_all add: queue_push_def)

text \<open>Everything that will have been pushed.\<close>

definition stream_of :: "(bytes list \<times> bool) list \<Rightarrow> bytes list \<Rightarrow> bytes" where
  "stream_of arrives q = concat q @ concat (concat (map fst arrives))"

lemma recv_loop_stream:
  "recv_loop arrives q todo got = Inr (got', q', arrives') \<Longrightarrow>
    (\<exists>d. got' = got @ d \<and> length d \<le> todo \<and> stream_of arrives q = d @ stream_of arrives' q')"
proof (induction arrives q todo got rule: recv_loop.induct)
  case (3 pushed stop arrives q todo got)
  show ?case
  proof (cases "stop \<or> q @ pushed = []")
    case True
    show ?thesis
    proof (cases stop)
      case True
      then show ?thesis using 3(4) by (auto simp: stream_of_def)
    next
      case False
      then show ?thesis using 3(1)[of "q @ pushed" None "[]"] 3(4) True by (auto simp: stream_of_def queue_pop_def)
    qed
  next
    case False
    then obtain v q1 where v: "q @ pushed = v # q1" by (cases "q @ pushed") auto
    have s: "stream_of ((pushed, stop) # arrives) q = v @ stream_of arrives q1"
      using arg_cong[OF v, of concat] by (simp add: stream_of_def)
    show ?thesis
    proof (cases "Suc todo < length v")
      case True
      then show ?thesis using 3(4) False v s
        by (auto simp: queue_pop_def queue_unpop_def stream_of_def intro!: exI[of _ "take (Suc todo) v"])
    next
      case not_less: False
      then obtain d where "got' = got @ v @ d" "length d \<le> Suc todo - length v" "stream_of arrives q1 = d @ stream_of arrives' q'"
        using 3(3)[of "q @ pushed" "Some v" q1 v] 3(4) False v by (auto simp: queue_pop_def)
      then show ?thesis using s not_less by (intro exI[of _ "v @ d"]) auto
    qed
  qed
qed (auto simp: stream_of_def)

text \<open>The next turn: the pushes of the first entry, or none once only idle turns are left.\<close>

lemma next_turn:
  assumes "Suc n = length arrives + idle" "list_all (\<lambda>(pushed, stop). \<not> stop) arrives"
  obtains pushed rest idle' where "arrives @ replicate idle ([], False) = (pushed, False) # rest @ replicate idle' ([], False)"
    "n = length rest + idle'" "list_all (\<lambda>(pushed, stop). \<not> stop) rest"
    "length (q @ pushed) + length (concat (map fst rest)) = length q + length (concat (map fst arrives))"
    "stream_of rest (q @ pushed) = stream_of arrives q" "idle \<le> Suc idle'" "arrives \<noteq> [] \<Longrightarrow> idle' = idle"
proof (cases arrives)
  case Nil
  then have "0 < idle" using assms(1) by simp
  then have "replicate idle ([] :: bytes list, False) = ([], False) # replicate (idle - 1) ([], False)" by (cases idle) auto
  then show ?thesis using Nil that[of "[]" "[]" "idle - 1"] assms(1) by (simp add: stream_of_def)
next
  case (Cons x xs)
  then show ?thesis using that[of "fst x" xs idle] assms by (auto simp: stream_of_def)
qed

lemma recv_loop_returns:
  assumes "list_all (\<lambda>(pushed, stop). \<not> stop) arrives" "todo \<le> length (stream_of arrives q)"
    and "length q + length (concat (map fst arrives)) \<le> idle"
  shows "\<exists>d q' arrives'. recv_loop (arrives @ replicate idle ([], False)) q todo got = Inr (got @ d, q', arrives') \<and> length d = todo"
  using assms
proof (induction "length arrives + idle" arbitrary: arrives idle q todo got)
  case 0
  then show ?case by (cases todo) (auto simp: stream_of_def)
next
  case (Suc n)
  show ?case
  proof (cases todo)
    case (Suc t)
    obtain pushed rest idle' where a: "arrives @ replicate idle ([], False) = (pushed, False) # rest @ replicate idle' ([], False)"
      and n: "n = length rest + idle'" and r: "list_all (\<lambda>(pushed, stop). \<not> stop) rest"
      and c: "length (q @ pushed) + length (concat (map fst rest)) = length q + length (concat (map fst arrives))"
      and st: "stream_of rest (q @ pushed) = stream_of arrives q" and i: "idle \<le> Suc idle'" "arrives \<noteq> [] \<Longrightarrow> idle' = idle"
      using next_turn[OF Suc.hyps(2) Suc.prems(1)] by blast
    show ?thesis
    proof (cases "q @ pushed")
      case Nil
      have "arrives \<noteq> []" using Nil Suc.prems(2) \<open>todo = Suc t\<close> by (auto simp: stream_of_def)
      then have "\<exists>d q' arrives'. recv_loop (rest @ replicate idle' ([], False)) [] todo got = Inr (got @ d, q', arrives') \<and> length d = todo"
        using Suc.hyps(1)[OF n r, of todo "[]" got] Suc.prems st c i Nil by simp
      then show ?thesis using \<open>todo = Suc t\<close> Nil unfolding a by (auto simp: queue_pop_def)
    next
      case (Cons v q1)
      have b: "stream_of rest (q @ pushed) = v @ stream_of rest q1" unfolding Cons by (simp add: stream_of_def)
      show ?thesis
      proof (cases "todo < length v")
        case True
        then show ?thesis using \<open>todo = Suc t\<close> Cons unfolding a by (simp add: queue_pop_def)
      next
        case False
        have "length q1 + length (concat (map fst rest)) \<le> idle'" using c i Suc.prems(3) Cons by simp
        moreover have "todo - length v \<le> length (stream_of rest q1)" using Suc.prems(2) b st False by simp
        ultimately obtain d q' arrives' where
          "recv_loop (rest @ replicate idle' ([], False)) q1 (todo - length v) (got @ v) = Inr ((got @ v) @ d, q', arrives')"
          "length d = todo - length v"
          using Suc.hyps(1)[OF n r, of "todo - length v" q1 "got @ v"] by blast
        then have "recv_loop (arrives @ replicate idle ([], False)) q todo got = Inr (got @ v @ d, q', arrives')" "length (v @ d) = todo"
          using \<open>todo = Suc t\<close> Cons False unfolding a by (simp_all add: queue_pop_def)
        then show ?thesis by blast
      qed
    qed
  qed simp
qed

section \<open>Properties\<close>

text \<open>C21: Whatever arrives while it waits, \<open>recv_func\<close> hands out the next bytes of the session's
  stream, no more than asked for, and leaves the rest of the stream in the queue: nothing is
  lost, repeated or reordered.\<close>

theorem recv_reads_the_stream:
  assumes "recv_func arrives session n = Inr (got, session', arrives')"
  shows "length got \<le> n \<and> stream_of arrives (l7_incoming session) = got @ stream_of arrives' (l7_incoming session')"
  using assms recv_loop_stream[of arrives "l7_incoming session" n "[]"]
  by (auto simp: recv_func_def res_bind_eq_Inr split: if_splits)

definition sample_l7 :: tcp_l7_session_t where
  "sample_l7 = \<lparr> l7_session_id = 99, l7_out_name = ''tcp-out'', l7_from = [10, 0, 0, 1], l7_from_port = 4711,
     l7_to = [10, 0, 0, 2], l7_to_port = 80, l7_finished = False, l7_stop_flag = False, l7_incoming = [[1, 2], [3]] \<rparr>"

theorem recv_reads_the_stream_witness:
  "\<exists>got session' arrives'. recv_func [([[4, 5]], False), ([], False), ([], False)] sample_l7 4 = Inr (got, session', arrives')
    \<and> length got \<le> 4 \<and> stream_of [([[4, 5]], False), ([], False), ([], False)] (l7_incoming sample_l7) = got @ stream_of arrives' (l7_incoming session')"
proof -
  have "recv_func [([[4, 5]], False), ([], False), ([], False)] sample_l7 4 = Inr ([1, 2, 3, 4], sample_l7\<lparr> l7_incoming := [[5]] \<rparr>, [])"
    by (simp add: recv_func_def sample_l7_def queue_pop_def queue_unpop_def queue_push_def numeral_eq_Suc)
  with recv_reads_the_stream[OF this] show ?thesis by blast
qed

text \<open>C22: As long as no stop flag is set and the peer sends at least \<open>n\<close> bytes in all,
  \<open>recv_func\<close> does return, with exactly \<open>n\<close> bytes, within as many further turns as there
  are chunks.\<close>

theorem recv_returns:
  assumes "list_all (\<lambda>(pushed, stop). \<not> stop) arrives" "n \<le> length (stream_of arrives (l7_incoming session))"
    and "length (l7_incoming session) + length (concat (map fst arrives)) \<le> idle"
  shows "\<exists>got session' arrives'. recv_func (arrives @ replicate idle ([], False)) session n = Inr (got, session', arrives')
    \<and> length got = n"
  using recv_loop_returns[OF assms, of "[]"] by (auto simp: recv_func_def)

theorem recv_returns_witness:
  "\<exists>got session' arrives'. recv_func ([([[4, 5]], False)] @ replicate 3 ([], False)) sample_l7 5 = Inr (got, session', arrives')
    \<and> length got = 5"
  by (rule recv_returns) (simp_all add: sample_l7_def stream_of_def)

text \<open>What an application sends is a message for \<open>run_out\<close> of the TCP server.\<close>

definition app_message :: "'a tcp_l7_session_t_scheme \<Rightarrow> u32 \<Rightarrow> bytes \<Rightarrow> message" where
  "app_message session flags d =
     (allocate_shm_message (12 + length d))\<lparr> msg_data := le_enc 8 (unat (l7_session_id session)) @ le_enc 4 (unat flags) @ d \<rparr>"

lemma filled_in_app_message: "small (length d) \<Longrightarrow> filled_in (app_message session flags d)"
proof -
  assume "small (length d)"
  then have "unat (word_of_nat (12 + length d) :: u32) = 12 + length d" by (intro unat_of_nat_u32) (simp add: small_def)
  moreover from this have "(word_of_nat (12 + length d) :: u32) \<noteq> 0" by (metis add_is_0 unat_0 zero_neq_numeral)
  ultimately show ?thesis by (simp add: filled_in_def app_message_def allocate_shm_message_def del: of_nat_add)
qed

lemma padded_length_app_message: "small (length d) \<Longrightarrow> padded_length (app_message session flags d) \<le> sizeof_message + 20 + length d"
proof -
  assume "small (length d)"
  then have "unat (word_of_nat (12 + length d) :: u32) = 12 + length d" by (intro unat_of_nat_u32) (simp add: small_def)
  then show ?thesis using PAD8_bounds(2)[of "sizeof_message + (12 + length d)"]
    by (simp add: padded_length_def app_message_def allocate_shm_message_def del: of_nat_add)
qed

context blocking_transport
begin

lemma send_func_cases:
  assumes "ok w" "small (length d)"
  shows "if has_room (ib w) (cap w) (l7_out_name session) (app_message session 0 d)
    then \<exists>w'. send_func shm session d w = Inr (int (length d), w') \<and> ok w'
      \<and> posted ib cap lid w (l7_out_name session) (app_message session 0 d) True w'
    else send_func shm session d w = (if cap w (l7_out_name session) = None then Inr (-1, w) else Inl Blocked)"
  using block_law[OF assms(1) filled_in_app_message[OF assms(2)], of "l7_out_name session" session 0]
  by (auto simp: send_func_def app_message_def Let_def split: if_splits)

lemma fin_func_cases:
  assumes "ok w"
  shows "if has_room (ib w) (cap w) (l7_out_name session) (app_message session MI_TCP_FIN [])
    then \<exists>w'. fin_func shm session w = Inr w' \<and> ok w'
      \<and> posted ib cap lid w (l7_out_name session) (app_message session MI_TCP_FIN []) True w'
    else fin_func shm session w = (if cap w (l7_out_name session) = None then Inr w else Inl Blocked)"
  using block_law[OF assms(1) filled_in_app_message[of "[]" session MI_TCP_FIN], of "l7_out_name session"]
  by (auto simp: fin_func_def app_message_def Let_def small_def split: if_splits)

end

text \<open>\<open>room_for\<close>: there is room for all of these messages.  \<open>enqueued\<close>: they have all been added.\<close>

definition room_for :: "(string \<Rightarrow> message list) \<Rightarrow> (string \<Rightarrow> nat option) \<Rightarrow> string \<Rightarrow> message list \<Rightarrow> bool" where
  "room_for ib cap dest ms = (case cap dest of None \<Rightarrow> False
     | Some c \<Rightarrow> sum_list (map padded_length (ib dest)) + sum_list (map padded_length ms) \<le> c)"

definition enqueued :: "string \<Rightarrow> (string \<Rightarrow> message list) \<Rightarrow> string \<Rightarrow> message list \<Rightarrow> (string \<Rightarrow> message list) \<Rightarrow> bool" where
  "enqueued lid ib dest ms ib' \<longleftrightarrow> (\<exists>ms'. list_all2 (carries lid) ms ms' \<and> ib' = ib(dest := ib dest @ ms'))"

lemma room_for_has_room: "room_for ib cap dest (m # ms) \<Longrightarrow> has_room ib cap dest m"
  by (auto simp: room_for_def has_room_def split: option.splits)

lemma room_for_posted:
  assumes "room_for (ib w) (cap w) dest (m # ms)" "posted ib cap lid w dest m True w'"
  shows "room_for (ib w') (cap w') dest ms"
  using assms by (auto simp: room_for_def posted_def padded_length_carries split: option.splits)

lemma enqueued_Nil: "enqueued lid ib dest [] ib"
  by (simp add: enqueued_def)

lemma enqueued_Cons:
  assumes "posted ib cap lid w dest m True w'" "enqueued lid (ib w') dest ms ib''"
  shows "enqueued lid (ib w) dest (m # ms) ib''"
proof -
  obtain m' ms' where "carries lid m m'" "ib w' = (ib w)(dest := ib w dest @ [m'])"
    "list_all2 (carries lid) ms ms'" "ib'' = (ib w')(dest := ib w' dest @ ms')"
    using assms by (auto simp: posted_def enqueued_def)
  then show ?thesis unfolding enqueued_def by (intro exI[of _ "m' # ms'"]) auto
qed

context blocking_transport
begin

lemma send_func_room:
  assumes "ok w" "small (length d)" "room_for (ib w) (cap w) (l7_out_name session) (app_message session 0 d # ms)"
  obtains w' where "send_func shm session d w = Inr (int (length d), w')" "ok w'"
    "posted ib cap lid w (l7_out_name session) (app_message session 0 d) True w'"
    "room_for (ib w') (cap w') (l7_out_name session) ms"
  using send_func_cases[OF assms(1,2), of session] room_for_has_room[OF assms(3)]
    room_for_posted[where ib = ib and cap = cap and w = w, OF assms(3)] by auto

lemma fin_func_room:
  assumes "ok w" "room_for (ib w) (cap w) (l7_out_name session) [app_message session MI_TCP_FIN []]"
  obtains w' where "fin_func shm session w = Inr w'" "ok w'"
    "enqueued lid (ib w) (l7_out_name session) [app_message session MI_TCP_FIN []] (ib w')"
  using fin_func_cases[OF assms(1), of session] room_for_has_room[OF assms(2)]
    enqueued_Cons[where ib = ib and cap = cap and w = w, OF _ enqueued_Nil] by auto

end

lemma tcp_run_out_app_message:
  assumes "carries lid (app_message session flags d) m" "small (length d)" "find_key (l7_session_id session) ss = Some s"
  shows "tcp_run_out m ss = Inr (1, set_key (l7_session_id session)
    (let s = (if d = [] then s else s\<lparr> l7_to_tcp := td_add d (l7_to_tcp s) \<rparr>)
     in if flags AND 1 \<noteq> 0 then s\<lparr> l7_send_fin := True \<rparr> else s) ss)"
proof -
  have sz: "unat (word_of_nat (12 + length d) :: u32) = 12 + length d" using assms(2) by (intro unat_of_nat_u32) (simp add: small_def)
  have m: "msg_data m = le_enc 8 (unat (l7_session_id session)) @ le_enc 4 (unat flags) @ d" "unat (msg_size m) = 12 + length d"
    using assms(1) sz by (simp_all add: carries_def app_message_def allocate_shm_message_def del: of_nat_add)
  have "word_of_nat (le_dec (le_enc 8 (unat (l7_session_id session)))) = l7_session_id session"
    "word_of_nat (le_dec (le_enc 4 (unat flags))) = flags" by (rule le_dec_le_enc_word, simp)+
  then show ?thesis using assms(3) m by (auto simp: tcp_run_out_def slice_at_def Let_def)
qed

text \<open>The TCP server works through messages of an application.\<close>

fun tcp_run_out_all :: "message list \<Rightarrow> sessions \<Rightarrow> sessions res" where
  "tcp_run_out_all [] ss = Inr ss"
| "tcp_run_out_all (m # ms) ss = res_bind (tcp_run_out m ss) (\<lambda>(freed, ss). tcp_run_out_all ms ss)"

lemma tcp_run_out_all_app_messages:
  assumes "list_all2 (carries lid) (map (app_message session 0) ds @ [app_message session MI_TCP_FIN []]) ms"
    and "list_all (\<lambda>d. small (length d)) ds" "map_ok ss" "find_key (l7_session_id session) ss = Some s"
  shows "\<exists>ss' s'. tcp_run_out_all ms ss = Inr ss' \<and> map_ok ss' \<and> find_key (l7_session_id session) ss' = Some s'
    \<and> td_bytes (l7_to_tcp s') = td_bytes (l7_to_tcp s) @ concat ds \<and> l7_send_fin s'"
  using assms
proof (induction ds arbitrary: ms ss s)
  case Nil
  then obtain m where m: "ms = [m]" "carries lid (app_message session MI_TCP_FIN []) m" by (auto simp: list_all2_Cons1)
  have "tcp_run_out m ss = Inr (1, set_key (l7_session_id session) (s\<lparr> l7_send_fin := True \<rparr>) ss)"
    using tcp_run_out_app_message[OF m(2) _ Nil(4)] by (simp add: small_def MI_TCP_FIN_def)
  then show ?case using Nil(3) m(1) by (simp add: find_set_key set_key_ok)
next
  case (Cons d ds)
  then obtain m ms' where m: "ms = m # ms'" "carries lid (app_message session 0 d) m"
    "list_all2 (carries lid) (map (app_message session 0) ds @ [app_message session MI_TCP_FIN []]) ms'" by (auto simp: list_all2_Cons1)
  define s1 where "s1 = (if d = [] then s else s\<lparr> l7_to_tcp := td_add d (l7_to_tcp s) \<rparr>)"
  have "tcp_run_out m ss = Inr (1, set_key (l7_session_id session) s1 ss)"
    using tcp_run_out_app_message[OF m(2) _ Cons.prems(4)] Cons.prems(2) by (simp add: s1_def Let_def)
  moreover have "td_bytes (l7_to_tcp s1) = td_bytes (l7_to_tcp s) @ d" by (simp add: s1_def td_add_def)
  ultimately show ?case
    using Cons.IH[OF m(3), of "set_key (l7_session_id session) s1 ss" s1] Cons.prems(2,3) m(1) by (simp add: find_set_key set_key_ok)
qed

text \<open>Data an application sends arrives, when there is room, as one message at the TCP
  server, whose \<open>run_out\<close> appends exactly these bytes to the stream of that session.\<close>

theorem sent_data_enters_stream:
  assumes "net_ok w" "length lid < max_id_length" "d \<noteq> []" "small (length d)" "find_key (l7_session_id session) ss = Some s"
    and "has_room (inbox w) (capacity w) (l7_out_name session) (app_message session 0 d)"
  shows "\<exists>w' m'. send_func (send_message lid) session d w = Inr (int (length d), w') \<and> net_ok w'
    \<and> inbox w' = (inbox w)(l7_out_name session := inbox w (l7_out_name session) @ [m'])
    \<and> tcp_run_out m' ss = Inr (1, set_key (l7_session_id session) (s\<lparr> l7_to_tcp := td_add d (l7_to_tcp s) \<rparr>) ss)"
proof -
  obtain w' where w': "send_func (send_message lid) session d w = Inr (int (length d), w')" "net_ok w'"
    "posted inbox capacity lid w (l7_out_name session) (app_message session 0 d) True w'"
    using blocking_transport.send_func_cases[OF shm_blocking_transport[OF assms(2)] assms(1,4), of session] assms(6) by auto
  then obtain m' where "carries lid (app_message session 0 d) m'"
    "inbox w' = (inbox w)(l7_out_name session := inbox w (l7_out_name session) @ [m'])" by (auto simp: posted_def)
  then show ?thesis using w'(1,2) tcp_run_out_app_message[OF _ assms(4,5), of lid 0 m'] assms(3) by auto
qed

theorem sent_data_enters_stream_witness:
  "\<exists>w' m'. send_func (send_message ''http'') sample_l7 [104, 105] idle_net = Inr (int (length ([104, 105] :: bytes)), w') \<and> net_ok w'
    \<and> inbox w' = (inbox idle_net)(l7_out_name sample_l7 := inbox idle_net (l7_out_name sample_l7) @ [m'])
    \<and> tcp_run_out m' [(99, new_session_t)] = Inr (1, set_key (l7_session_id sample_l7)
        (new_session_t\<lparr> l7_to_tcp := td_add [104, 105] (l7_to_tcp new_session_t) \<rparr>) [(99, new_session_t)])"
proof (rule sent_data_enters_stream)
  have "padded_length (app_message sample_l7 0 [104, 105]) \<le> 1048576"
    by (simp add: padded_length_def app_message_def allocate_shm_message_def PAD8_mod sizeof_message_def)
  then show "has_room (inbox idle_net) (capacity idle_net) (l7_out_name sample_l7) (app_message sample_l7 0 [104, 105])"
    by (rule idle_net_room)
qed (simp_all add: idle_net_ok max_id_length_def small_def sample_l7_def find_key_def)

end
