(* ===== verification/Udp.thy ===== *)
theory Udp
  imports Servers
begin

text \<open>
  \<^verbatim>\<open>src/udp_server.cpp\<close>: datagrams from IPv4 to the services and back.
\<close>

section \<open>ip to udp\<close>

definition udp_run_in ::
  "'w shm_queue \<Rightarrow> (u16 \<Rightarrow> string option) \<Rightarrow> string \<Rightarrow> message \<Rightarrow> 'w \<Rightarrow> (nat \<times> 'w) res" where
  "udp_run_in shm mappings_in icmp_error_name m w =
     res_bind (unwrap_message_up (msg_data m)) (\<lambda>v.
     let pl = up_pl v; pl_len = up_pl_len v in
     if pl_len < 8 then Inr (1, w)
     else res_bind (get16 pl 4) (\<lambda>len.
     if pl_len < unat len then Inr (1, w)
     else res_bind (load_n (up_from v) 0 (up_from_len v)) (\<lambda>a_from.
     res_bind (load_n (up_to v) 0 (up_to_len v)) (\<lambda>a_to.
     res_bind (l4_checksum a_from a_to pl pl_len 17) (\<lambda>checksum.
     if checksum \<noteq> 0x0000 then Inr (1, w)
     else res_bind (get16 pl 0) (\<lambda>source_port.
     res_bind (get16 pl 2) (\<lambda>destination_port.
     case mappings_in destination_port of
       None \<Rightarrow> 
         res_bind (load_n (up_full v) 0 (up_full_len v)) (\<lambda>full_pkt.
         res_bind (send_icmp_error shm icmp_error_name 3 3 full_pkt a_from a_to w) (\<lambda>w.
         Inr (1, w)))
     | Some name \<Rightarrow>
         res_bind (load_n pl 0 4) (\<lambda>ports.
         res_bind (load_n pl 8 (unat len)) (\<lambda>dat.
         res_bind (load_n (up_full v) 0 (up_full_len v)) (\<lambda>full_pkt.
         res_bind (post shm name (wrap_message_up full_pkt a_from a_to (ports @ dat) None) w) (\<lambda>(r, w).
         Inr (1, w))))))))))))"

section \<open>udp to ip\<close>

text \<open>\<open>junk\<close> is what \<^verbatim>\<open>new uint8_t[]\<close> finds in the memory it returns.\<close>

definition udp_run_out ::
  "(nat \<Rightarrow> byte) \<Rightarrow> 'w shm_queue \<Rightarrow> string \<Rightarrow> message \<Rightarrow> 'w \<Rightarrow> (nat \<times> 'w) res" where
  "udp_run_out junk shm_out out_name m w =
     res_bind (unwrap_message_down (msg_data m)) (\<lambda>v.
     let pl = dn_pl v; pl_len = dn_pl_len v in
     res_bind (load_n (dn_from v) 0 (dn_from_len v)) (\<lambda>a_from.
     res_bind (load_n (dn_to v) 0 (dn_to_len v)) (\<lambda>a_to.
     let udp_packet_len = 8 + pl_len;
         udp_packet = map junk [0 ..< udp_packet_len]
     in
     res_bind (load_n pl 0 4) (\<lambda>ports.
     let udp_packet = put_at 0 ports udp_packet;
         udp_packet = put_at 4 [word_of_nat (udp_packet_len div 256), word_of_nat udp_packet_len, 0, 0] udp_packet
     in
     if pl_len < 4 then Inl Out_of_bounds
     else res_bind (load_n pl 4 (pl_len - 4)) (\<lambda>body.
     let udp_packet = put_at 8 body udp_packet in
     res_bind (assert_that (even udp_packet_len)) (\<lambda>_.
     res_bind (l4_checksum a_from a_to udp_packet udp_packet_len 17) (\<lambda>checksum.
     let udp_packet = put_at 6 (put_uint16 checksum) udp_packet in
     res_bind (post shm_out out_name (wrap_message_down a_from a_to udp_packet None) w) (\<lambda>(r, w).
     Inr (1, w)))))))))"

section \<open>Lemmas\<close>

text \<open>A datagram as \<open>udp_run_in\<close> accepts it.\<close>

definition udp_datagram :: "addr \<Rightarrow> addr \<Rightarrow> bytes \<Rightarrow> bool" where
  "udp_datagram src dst dgram \<longleftrightarrow> length src = 4 \<and> length dst = 4 \<and> 8 \<le> length dgram
     \<and> unat (get_uint16 (slice_at 4 2 dgram)) = length dgram
     \<and> tcp_udp_checksum src dst dgram (length dgram) 17 = 0"

lemma udp_datagram_small: "udp_datagram src dst dgram \<Longrightarrow> length dgram < 65536"
  using unsigned_less[of "get_uint16 (slice_at 4 2 dgram)", where 'a = nat]
  by (simp add: udp_datagram_def)

lemmas udp_in_simps = udp_run_in_def unwrap_wrap_up udp_datagram_def slice_at_append_left Let_def

context transport
begin

lemma udp_run_in_mapped:
  assumes "ok w" "udp_datagram src dst dgram" "small (length full)" "8 \<le> length full"
    and d: "msg_data m = wrap_up full src dst dgram @ pad"
    and "mappings (get_uint16 (slice_at 2 2 dgram)) = Some name"
  shows "\<exists>r w'. udp_run_in shm mappings icmp m w = Inr (1, w') \<and> ok w'
    \<and> posted ib cap lid w name
        (wrap_message_up full src dst (take 4 dgram @ drop 8 dgram @ take 8 full) None) r w'"
proof -
  let ?pl = "take 4 dgram @ drop 8 dgram @ take 8 full"
  note small_dgram = udp_datagram_small[OF assms(2)]
  have "small (length src)" "small (length dst)" "small (length ?pl)"
    using assms(2) small_dgram by (auto simp: udp_datagram_def small_def)
  from post_up[OF assms(1,3) this, of name None]
  show ?thesis using assms small_dgram
    by (auto simp: udp_in_simps slice_at_def)
qed

lemma udp_run_in_unmapped:
  assumes "ok w" "udp_datagram src dst dgram" "small (length full)"
    and d: "msg_data m = wrap_up full src dst dgram @ pad"
    and "mappings (get_uint16 (slice_at 2 2 dgram)) = None"
  shows "\<exists>r w'. udp_run_in shm mappings icmp m w = Inr (1, w') \<and> ok w'
    \<and> posted ib cap lid w icmp (wrap_message_up full dst src [3, 3] None) r w'"
proof -
  note small_dgram = udp_datagram_small[OF assms(2)]
  have "small (length src)" "small (length dst)"
    using assms(2) by (auto simp: udp_datagram_def small_def)
  from send_icmp_error_posts[OF assms(1,3) this, of icmp 3 3]
  show ?thesis using assms small_dgram
    by (auto simp: udp_in_simps slice_at_def)
qed

end

text \<open>A datagram with a wrong length or a wrong checksum is dropped without a trace.\<close>

lemma udp_run_in_drops:
  assumes "msg_data m = wrap_up full src dst dgram @ pad" "small (length full)" "small (length dgram)"
    "length src = 4" "length dst = 4"
    and "length dgram < 8 \<or> length dgram < unat (get_uint16 (slice_at 4 2 dgram))
      \<or> tcp_udp_checksum src dst dgram (length dgram) 17 \<noteq> 0"
  shows "udp_run_in shm mappings icmp m w = Inr (1, w)"
  using assms by (auto simp: udp_in_simps slice_at_def)


text \<open>The packet \<open>udp_run_out\<close> builds, with \<open>c\<close> in the checksum field.\<close>

definition udp_packet_of :: "(nat \<Rightarrow> byte) \<Rightarrow> bytes \<Rightarrow> u16 \<Rightarrow> bytes" where
  "udp_packet_of junk pl c = take 4 pl @ put_uint16 (word_of_nat (8 + length pl)) @ put_uint16 c
     @ drop 4 pl @ map junk [length pl + 4 ..< length pl + 8]"

lemma length_udp_packet_of: "4 \<le> length pl \<Longrightarrow> length (udp_packet_of junk pl c) = 8 + length pl"
  by (simp add: udp_packet_of_def)

lemma put_header_and_body:
  assumes "4 \<le> length pl" "length h = 4" "length b = 8 + length pl"
  shows "put_at 8 (drop 4 pl) (put_at 4 h (put_at 0 (take 4 pl) b))
    = take 4 pl @ h @ drop 4 pl @ drop (length pl + 4) b"
  using assms by (simp add: put_at_def add.commute)

lemma udp_run_out_build:
  assumes "4 \<le> length pl" "8 + length pl < 65536"
  shows "put_at 8 (drop 4 pl) (put_at 4 [word_of_nat ((8 + length pl) div 256), word_of_nat (8 + length pl), 0, 0]
      (put_at 0 (take 4 pl) (map junk [0 ..< 8 + length pl]))) = udp_packet_of junk pl 0"
  using assms unfolding udp_packet_of_def u16_bytes[OF assms(2)]
  by (subst put_header_and_body) (simp_all add: drop_map put_uint16_def add.commute)

lemma udp_packet_of_checksum:
  assumes "4 \<le> length pl"
  shows "put_at 6 (put_uint16 c) (udp_packet_of junk pl 0) = udp_packet_of junk pl c"
  using assms by (simp add: udp_packet_of_def put_at_def)

lemma udp_packet_verifies:
  assumes "4 \<le> length pl" "8 + length pl < 65536" "length src = 4" "length dst = 4"
  shows "tcp_udp_checksum src dst (udp_packet_of junk pl
           (tcp_udp_checksum src dst (udp_packet_of junk pl 0) (8 + length pl) 17)) (8 + length pl) 17 = 0"
proof -
  have "slice_at 6 2 (udp_packet_of junk pl 0) = [0, 0]"
    using assms(1) by (simp add: udp_packet_of_def slice_at_def put_uint16_def)
  then show ?thesis
    using tcp_udp_checksum_fill[of src dst 6 "udp_packet_of junk pl 0" 17] assms
    by (simp add: length_udp_packet_of udp_packet_of_checksum)
qed

context transport
begin

lemma udp_run_out_sends:
  assumes "ok w" "length src = 4" "length dst = 4" "4 \<le> length pl" "even (length pl)" "8 + length pl < 65536"
    and d: "msg_data m = wrap_down src dst pl @ pad"
  shows "\<exists>c r w'. udp_run_out junk shm out m w = Inr (1, w') \<and> ok w'
    \<and> tcp_udp_checksum src dst (udp_packet_of junk pl c) (8 + length pl) 17 = 0
    \<and> posted ib cap lid w out (wrap_message_down src dst (udp_packet_of junk pl c) None) r w'"
proof -
  let ?c = "tcp_udp_checksum src dst (udp_packet_of junk pl 0) (8 + length pl) 17"
  have "small (length src)" "small (length dst)" "small (length (udp_packet_of junk pl ?c))"
    using assms length_udp_packet_of by (auto simp: small_def)
  from post_down[OF assms(1) this, of out None]
  obtain r w' where p: "post shm out (wrap_message_down src dst (udp_packet_of junk pl ?c) None) w = Inr (r, w')"
    "ok w'" "posted ib cap lid w out (wrap_message_down src dst (udp_packet_of junk pl ?c) None) r w'" by blast
  have "small (length pl)" using assms by (simp add: small_def)
  have sl: "slice_at 4 (length pl - 4) (pl @ pad) = drop 4 pl"
    using assms(4) by (simp add: slice_at_def)
  have "udp_run_out junk shm out m w = Inr (1, w')"
    using assms p(1) \<open>small (length pl)\<close> udp_run_out_build[OF assms(4,6), of junk]
    by (simp add: udp_run_out_def unwrap_wrap_down Let_def sl length_udp_packet_of udp_packet_of_checksum)
  then show ?thesis using p udp_packet_verifies[OF assms(4,6,2,3)] by blast
qed

end


section \<open>Properties\<close>

text \<open>A valid datagram (length field and checksum right) for a port with a service is
  handed to that service with its addresses and ports, and freed once.  What is delivered
  behind the ports is the datagram's payload followed by the first eight bytes of the
  enclosing packet: the copy takes the length field, which counts the header, from behind
  the header.\<close>

theorem udp_in_delivers:
  assumes "net_ok w" "length lid < max_id_length" "udp_datagram src dst dgram"
    and "small (length full)" "8 \<le> length full"
    and "msg_data m = wrap_up full src dst dgram @ pad"
    and "mappings (get_uint16 (slice_at 2 2 dgram)) = Some name"
  shows "\<exists>r w'. udp_run_in (send_message lid) mappings icmp m w = Inr (1, w') \<and> net_ok w'
    \<and> posted inbox capacity lid w name
        (wrap_message_up full src dst (take 4 dgram @ drop 8 dgram @ take 8 full) None) r w'"
  using assms by (intro transport.udp_run_in_mapped[OF shm_transport])

definition sample_dgram :: bytes where
  "sample_dgram = [0, 9, 0, 37, 0, 10, 0xcd, 0x97, 0x1e, 0x12]"

lemma sample_dgram_ok: "udp_datagram [10, 0, 0, 1] [10, 0, 0, 2] sample_dgram"
  by (simp add: udp_datagram_def sample_dgram_def slice_at_def get_uint16_def tcp_udp_checksum_def htons_def host16_def cksum_fold_def)

theorem udp_in_delivers_witness:
  "(let full = [0x45, 0, 0, 38, 0, 0, 0, 0];
        m = hello\<lparr> msg_data := wrap_up full [10, 0, 0, 1] [10, 0, 0, 2] sample_dgram \<rparr>
    in \<exists>r w'. udp_run_in (send_message ''udp'') [37 \<mapsto> ''time''] ''icmp'' m idle_net = Inr (1, w') \<and> net_ok w'
    \<and> posted inbox capacity ''udp'' idle_net ''time''
        (wrap_message_up full [10, 0, 0, 1] [10, 0, 0, 2] (take 4 sample_dgram @ drop 8 sample_dgram @ take 8 full) None) r w')"
  unfolding Let_def
  by (rule udp_in_delivers[where pad = "[]"])
    (simp_all add: idle_net_ok max_id_length_def sample_dgram_ok small_def,
      simp add: sample_dgram_def slice_at_def get_uint16_def)


text \<open>A valid datagram for a port without a service is answered by an ICMP port
  unreachable (type 3, code 3) request that carries the whole packet, from the address the
  datagram was for to its sender.\<close>

theorem udp_in_port_unreachable:
  assumes "net_ok w" "length lid < max_id_length" "udp_datagram src dst dgram" "small (length full)"
    and "msg_data m = wrap_up full src dst dgram @ pad"
    and "mappings (get_uint16 (slice_at 2 2 dgram)) = None"
  shows "\<exists>r w'. udp_run_in (send_message lid) mappings icmp m w = Inr (1, w') \<and> net_ok w'
    \<and> posted inbox capacity lid w icmp (wrap_message_up full dst src [3, 3] None) r w'"
  using assms by (intro transport.udp_run_in_unmapped[OF shm_transport])

theorem udp_in_port_unreachable_witness:
  "(let m = hello\<lparr> msg_data := wrap_up [0x45] [10, 0, 0, 1] [10, 0, 0, 2] sample_dgram \<rparr>
    in \<exists>r w'. udp_run_in (send_message ''udp'') Map.empty ''icmp'' m idle_net = Inr (1, w') \<and> net_ok w'
    \<and> posted inbox capacity ''udp'' idle_net ''icmp'' (wrap_message_up [0x45] [10, 0, 0, 2] [10, 0, 0, 1] [3, 3] None) r w')"
  unfolding Let_def
  by (rule udp_in_port_unreachable[where pad = "[]"])
    (simp_all add: idle_net_ok max_id_length_def sample_dgram_ok small_def)

text \<open>The packet sent for a service carries its ports, the right length field and a
  checksum the receiver verifies; its last four bytes are whatever the allocation held,
  as the packet is sized for a payload that still had the ports in front.\<close>

theorem udp_out_verifies:
  assumes "net_ok w" "length lid < max_id_length" "length src = 4" "length dst = 4"
    and "4 \<le> length pl" "even (length pl)" "8 + length pl < 65536"
    and "msg_data m = wrap_down src dst pl @ pad"
  shows "\<exists>c r w'. udp_run_out junk (send_message lid) out m w = Inr (1, w') \<and> net_ok w'
    \<and> (let pkt = take 4 pl @ put_uint16 (word_of_nat (8 + length pl)) @ put_uint16 c
             @ drop 4 pl @ map junk [length pl + 4 ..< length pl + 8]
       in tcp_udp_checksum src dst pkt (8 + length pl) 17 = 0
         \<and> posted inbox capacity lid w out (wrap_message_down src dst pkt None) r w')"
  using transport.udp_run_out_sends[OF shm_transport assms(1,3-8), OF assms(2)]
  by (simp add: udp_packet_of_def Let_def)

theorem udp_out_verifies_witness:
  "(let pl = [0, 37, 0, 9, 1, 2, 3, 4]; src = [10, 0, 0, 2]; dst = [10, 0, 0, 1];
        m = hello\<lparr> msg_data := wrap_down src dst pl \<rparr>
    in \<exists>c r w'. udp_run_out (\<lambda>_. 0) (send_message ''udp'') ''ip4'' m idle_net = Inr (1, w') \<and> net_ok w'
    \<and> (let pkt = take 4 pl @ put_uint16 (word_of_nat (8 + length pl)) @ put_uint16 c
             @ drop 4 pl @ map (\<lambda>_. 0) [length pl + 4 ..< length pl + 8]
       in tcp_udp_checksum src dst pkt (8 + length pl) 17 = 0
         \<and> posted inbox capacity ''udp'' idle_net ''ip4'' (wrap_message_down src dst pkt None) r w'))"
proof -
  show ?thesis unfolding Let_def[of "[0, 37, 0, 9, 1, 2, 3, 4 :: byte]"] Let_def[of "[10, 0, 0, 2 :: byte]"]
      Let_def[of "[10, 0, 0, 1 :: byte]"] Let_def[of "hello\<lparr> msg_data := _ \<rparr>"]
    by (rule udp_out_verifies[where pad = "[]"]) (simp_all add: idle_net_ok max_id_length_def)
qed

end
