(* ===== verification/Services.thy ===== *)
theory Services
  imports L7 Udp
begin

text \<open>
  \<^verbatim>\<open>src/ntp_server.cpp\<close> (over UDP) and \<^verbatim>\<open>src/time_server.cpp\<close> (over TCP).
\<close>

section \<open>NTP\<close>

definition NTP_EPOCH :: nat where
  "NTP_EPOCH = 86400 * (365 * 70 + 17)"

text \<open>A time in network byte order; the products are truncated to 32 bits by \<^verbatim>\<open>htonl\<close>.\<close>

definition ntp_timestamp :: "nat \<Rightarrow> nat \<Rightarrow> bytes" where
  "ntp_timestamp tv_sec tv_nsec =
     put_uint32 (word_of_nat (tv_sec + NTP_EPOCH)) @ put_uint32 (word_of_nat (tv_nsec div 1000 * 4295))"

text \<open>\<^verbatim>\<open>sntp_datagram\<close> of the reply: mode 4 and version 3 in the low bits of the first byte, the
  root delay and dispersion in host byte order.\<close>

definition sntp_reply :: "nat \<Rightarrow> nat \<Rightarrow> bytes \<Rightarrow> bytes" where
  "sntp_reply tv_sec tv_nsec sntp =
     [0x1c, 1, 16, 0xee] @ le_enc 4 369098752 @ le_enc 4 369098752 @ to_bytes ''LOCL''
     @ ntp_timestamp tv_sec tv_nsec @ slice_at 40 8 sntp @ ntp_timestamp tv_sec tv_nsec @ ntp_timestamp tv_sec tv_nsec"

definition ntp_run_in :: "'w shm_queue \<Rightarrow> string \<Rightarrow> nat \<Rightarrow> nat \<Rightarrow> message \<Rightarrow> 'w \<Rightarrow> (nat \<times> 'w) res" where
  "ntp_run_in shm out_name tv_sec tv_nsec m w =
     res_bind (unwrap_message_up (msg_data m)) (\<lambda>v.
     if up_pl_len v < 4 + 48 then Inr (1, w)
     else res_bind (load_n (up_pl v) 0 52) (\<lambda>pl.
     let sntp = drop 4 pl in
     if sntp ! 0 AND 7 = 3 then
       let source_port = get_uint16 (slice_at 0 2 pl); destination_port = get_uint16 (slice_at 2 2 pl);
           m_out = put_uint16 destination_port @ put_uint16 source_port @ sntp_reply tv_sec tv_nsec sntp
       in
       res_bind (load_n (up_to v) 0 (up_to_len v)) (\<lambda>to_a.
       res_bind (load_n (up_from v) 0 (up_from_len v)) (\<lambda>from_a.
       res_bind (post shm out_name (wrap_message_down to_a from_a m_out None) w) (\<lambda>(r, w).
       Inr (1, w))))
     else Inr (1, w)))"

section \<open>TIME\<close>

text \<open>Every message is answered, whatever its flags: the time, and the end of the stream.\<close>

definition time_run_in :: "'w shm_queue \<Rightarrow> string \<Rightarrow> nat \<Rightarrow> message \<Rightarrow> 'w \<Rightarrow> (nat \<times> 'w) res" where
  "time_run_in shm out_name now m w =
     res_bind (unwrap_message_up_tcp (msg_data m)) (\<lambda>v.
     let reply_msg = (allocate_shm_message (12 + 4))\<lparr> msg_data :=
           le_enc 8 (unat (tv_session_id v)) @ le_enc 4 (unat MI_TCP_FIN) @ put_uint32 (word_of_nat (now + 2208988800)) \<rparr>
     in res_bind (shm out_name reply_msg True w) (\<lambda>(r, m', w). Inr (1, w)))"

section \<open>Properties\<close>

lemma length_sntp_reply: "48 \<le> length sntp \<Longrightarrow> length (sntp_reply sec nsec sntp) = 48"
  by (simp add: sntp_reply_def ntp_timestamp_def slice_at_def)

context transport
begin

lemma ntp_answers_lemma:
  assumes "ok w" "msg_data m = wrap_up full src dst pl @ pad" "small (length full)" "small (length src)" "small (length dst)"
    and "small (length pl)" "52 \<le> length pl" "pl ! 4 AND 7 = 3"
  shows "\<exists>r w'. ntp_run_in shm out sec nsec m w = Inr (1, w') \<and> ok w'
    \<and> posted ib cap lid w out (wrap_message_down dst src
        (slice_at 2 2 pl @ slice_at 0 2 pl @ sntp_reply sec nsec (slice_at 4 48 pl)) None) r w'"
proof -
  let ?out = "slice_at 2 2 pl @ slice_at 0 2 pl @ sntp_reply sec nsec (slice_at 4 48 pl)"
  have v: "unwrap_message_up (msg_data m) = Inr
    \<lparr> up_full_len = length full, up_full = full @ pad, up_from_len = length src, up_from = src @ dst @ pl @ full @ pad,
      up_to_len = length dst, up_to = dst @ pl @ full @ pad, up_pl_len = length pl, up_pl = pl @ full @ pad \<rparr>"
    unfolding assms(2) using assms by (intro unwrap_wrap_up) simp_all
  have sl: "slice_at 0 2 (take 52 pl) = slice_at 0 2 pl" "slice_at 2 2 (take 52 pl) = slice_at 2 2 pl"
    "drop 4 (take 52 pl) = slice_at 4 48 pl" "slice_at 4 48 pl ! 0 = pl ! 4"
    using assms(7) by (simp_all add: slice_at_def drop_take)
  have two: "length (slice_at 0 2 pl) = 2" "length (slice_at 2 2 pl) = 2" "48 \<le> length (slice_at 4 48 pl)" using assms(7) by (simp_all add: slice_at_def)
  have "small (length ?out)" using two length_sntp_reply[OF two(3)] by (simp add: small_def)
  then obtain r w' where "post shm out (wrap_message_down dst src ?out None) w = Inr (r, w')" "ok w'"
      "posted ib cap lid w out (wrap_message_down dst src ?out None) r w'"
    using post_down[OF assms(1,5,4), of ?out out None] by blast
  moreover have "load_n (pl @ full @ pad) 0 52 = Inr (take 52 pl)" using assms(7) by simp
  ultimately show ?thesis using assms(7,8) v sl two by (auto simp: ntp_run_in_def Let_def put_get_uint16)
qed

end

lemma sntp_reply_fields:
  assumes "length sntp = 48"
  shows "sntp_reply sec nsec sntp ! 0 AND 7 = 4" "slice_at 24 8 (sntp_reply sec nsec sntp) = slice_at 40 8 sntp"
    "get_uint32 (slice_at 40 4 (sntp_reply sec nsec sntp)) = word_of_nat (sec + NTP_EPOCH)"
  using assms by (simp_all add: sntp_reply_def ntp_timestamp_def slice_at_def)

text \<open>An NTP client request is answered to its sender, with the ports swapped, by a server
  packet that repeats the time the client sent as its origin and carries the time in seconds
  since 1900.\<close>

theorem ntp_answers:
  assumes "net_ok w" "length lid < max_id_length" "msg_data m = wrap_up full src dst pl @ pad" "small (length full)"
    and "small (length src)" "small (length dst)" "small (length pl)" "52 \<le> length pl" "pl ! 4 AND 7 = 3"
  shows "\<exists>reply r w'. ntp_run_in (send_message lid) out sec nsec m w = Inr (1, w') \<and> net_ok w' \<and> length reply = 48
    \<and> reply ! 0 AND 7 = 4 \<and> slice_at 24 8 reply = slice_at 44 8 pl \<and> get_uint32 (slice_at 40 4 reply) = word_of_nat (sec + NTP_EPOCH)
    \<and> posted inbox capacity lid w out (wrap_message_down dst src (slice_at 2 2 pl @ slice_at 0 2 pl @ reply) None) r w'"
proof -
  have l: "length (slice_at 4 48 pl) = 48" "slice_at 40 8 (slice_at 4 48 pl) = slice_at 44 8 pl"
    using assms(8) by (simp_all add: slice_at_def drop_take add.commute)
  from transport.ntp_answers_lemma[OF shm_transport[OF assms(2)] assms(1,3-9), of out sec nsec]
  show ?thesis using length_sntp_reply[of "slice_at 4 48 pl"] sntp_reply_fields[OF l(1)] l by fastforce
qed

theorem ntp_answers_witness:
  "(let pl = [0x10, 0, 0, 123] @ [0x1b] @ replicate 47 0; m = hello\<lparr> msg_data := wrap_up [0x45] [10, 0, 0, 1] [10, 0, 0, 2] pl \<rparr> in
    \<exists>reply r w'. ntp_run_in (send_message ''ntp'') ''udp'' 1700000000 5 m idle_net = Inr (1, w') \<and> net_ok w' \<and> length reply = 48
    \<and> reply ! 0 AND 7 = 4 \<and> slice_at 24 8 reply = slice_at 44 8 pl \<and> get_uint32 (slice_at 40 4 reply) = word_of_nat (1700000000 + NTP_EPOCH)
    \<and> posted inbox capacity ''ntp'' idle_net ''udp'' (wrap_message_down [10, 0, 0, 2] [10, 0, 0, 1] (slice_at 2 2 pl @ slice_at 0 2 pl @ reply) None) r w')"
  unfolding Let_def
  by (rule ntp_answers[where pad = "[]" and full = "[0x45]"]) (simp_all add: idle_net_ok max_id_length_def small_def)

text \<open>The fraction of a second wraps around within the last seven microseconds of a second: it is
  then near zero while the seconds have not moved on.\<close>

lemma ntp_fraction_wraps:
  "ntp_timestamp sec 999993000 = put_uint32 (word_of_nat (sec + NTP_EPOCH)) @ put_uint32 2639"
  "ntp_timestamp sec 999992000 = put_uint32 (word_of_nat (sec + NTP_EPOCH)) @ put_uint32 4294965640"
proof -
  have "(4294969935 :: u32) = 2639" by code_simp
  from arg_cong[OF this, of put_uint32]
  show "ntp_timestamp sec 999993000 = put_uint32 (word_of_nat (sec + NTP_EPOCH)) @ put_uint32 2639"
    unfolding ntp_timestamp_def by simp
  show "ntp_timestamp sec 999992000 = put_uint32 (word_of_nat (sec + NTP_EPOCH)) @ put_uint32 4294965640"
    by (simp add: ntp_timestamp_def)
qed

text \<open>A message of any kind for a session of the TIME server is answered by the time and the end
  of the stream, which \<open>run_out\<close> of the TCP server takes for that session.\<close>

lemma time_answers:
  assumes "net_ok w" "length lid < max_id_length" "msg_data m = wrap_up_tcp sid src sp dst dp flags pl @ pad"
    and "small (length src)" "small (length dst)" "small (length pl)"
    and "has_room (inbox w) (capacity w) out (app_message (sample_l7\<lparr> l7_session_id := sid \<rparr>) MI_TCP_FIN (put_uint32 (word_of_nat (now + 2208988800))))"
  shows "\<exists>w'. time_run_in (send_message lid) out now m w = Inr (1, w') \<and> net_ok w'
    \<and> posted inbox capacity lid w out (app_message (sample_l7\<lparr> l7_session_id := sid \<rparr>) MI_TCP_FIN (put_uint32 (word_of_nat (now + 2208988800)))) True w'"
proof -
  let ?d = "put_uint32 (word_of_nat (now + 2208988800))"
  let ?s = "sample_l7\<lparr> l7_session_id := sid \<rparr>"
  have "\<exists>v. unwrap_message_up_tcp (msg_data m) = Inr v \<and> tv_session_id v = sid"
    unfolding assms(3) using unwrap_wrap_up_tcp[of src dst pl sid sp dp flags pad] assms(4-6) by auto
  moreover have "small (length ?d)" by (simp add: small_def)
  ultimately show ?thesis
    using blocking_transport.block_law[OF shm_blocking_transport[OF assms(2)] assms(1) filled_in_app_message[of ?d ?s MI_TCP_FIN], of out] assms(7)
    by (auto simp: time_run_in_def app_message_def Let_def)
qed

end
