(* ===== verification/Turns.thy ===== *)
theory Turns
  imports Calm Link Ip4_Fragments Icmp Tcp_Session Services
begin

text \<open>
  Every turn of every server of the network and transport layers, whatever message it works on, keeps all
  queues well-formed and its own tables sound.  Messages are below 16 MiB here, which a queue
  of that size ensures.
\<close>

definition modest :: "bytes \<Rightarrow> bool" where
  "modest d \<longleftrightarrow> length d < 2 ^ 24"

lemmas turn_simps = Let_def kept_refl modest_def
lemmas turn_rules = calm filled_in_up filled_in_down filled_in_reply ends_send

text \<open>Replies that are texts.\<close>

lemma ends_replies:
  assumes "net_ok w" "length lid < max_id_length" "reply \<noteq> []" "length reply < 2 ^ 32" "\<And>w'. kept w w' \<Longrightarrow> net_ok w' \<Longrightarrow> Q w'"
  shows "ends (tap_push_meta_reply (send_message lid) dest reply nr w) Q" "ends (push_meta_reply (send_message lid) dest reply nr w) Q"
    "ends (push_resolver_reply (send_message lid) dest reply nr w) Q"
  using assms unfolding tap_push_meta_reply_def push_meta_reply_def push_resolver_reply_def
  by (auto intro!: ends_post filled_in_reply)

section \<open>Link servers\<close>

lemma tap_run_in_kept:
  assumes "net_ok w" "length lid < max_id_length" "length frame < 2 ^ 24"
  shows "ends (tap_run_in (send_message lid) mac maps frame w) (kept w)"
  using assms unfolding tap_run_in_def
  by (auto simp: turn_simps slice_at_def bc_addr_def intro!: turn_rules split: option.split)

lemma promisc_run_in_kept:
  assumes "net_ok w" "length lid < max_id_length" "length frame < 2 ^ 24"
  shows "ends (promisc_run_in (send_message lid) ph maps frame w) (kept w)"
  using assms unfolding promisc_run_in_def
  by (auto simp: turn_simps slice_at_def bc_addr_def intro!: turn_rules split: option.split)

lemma tap_run_meta_kept:
  assumes "net_ok w" "length lid < max_id_length" "length mac < 2 ^ 24"
  shows "ends (tap_run_meta (send_message lid) mac m w) (\<lambda>(n, w'). kept w w')"
  using assms length_addr_text[of mac "CHR '':''" True] unfolding tap_run_meta_def
  by (auto simp: turn_simps intro!: turn_rules ends_replies split: list.split)

section \<open>ICMP, UDP, NTP and TIME\<close>

lemma icmp_run_in_kept:
  assumes "net_ok w" "length lid < max_id_length" "modest (msg_data m)"
  shows "ends (icmp_run_in (send_message lid) out m w) (\<lambda>(n, w'). kept w w')"
  using assms unfolding icmp_run_in_def
  by (auto simp: turn_simps put_at_def intro!: turn_rules)

lemma icmp_run_err_kept:
  assumes "net_ok w" "length lid < max_id_length" "modest (msg_data m)"
  shows "ends (icmp_run_err (send_message lid) out m w) (\<lambda>(n, w'). kept w w')"
  using assms unfolding icmp_run_err_def
  by (auto simp: turn_simps put_at_def intro!: turn_rules)

lemma udp_run_in_kept:
  assumes "net_ok w" "length lid < max_id_length" "modest (msg_data m)"
  shows "ends (udp_run_in (send_message lid) maps icmp m w) (\<lambda>(n, w'). kept w w')"
  using assms unfolding udp_run_in_def send_icmp_error_def
  by (auto simp: turn_simps intro!: turn_rules split: option.split)

lemma udp_run_out_kept:
  assumes "net_ok w" "length lid < max_id_length" "modest (msg_data m)"
  shows "ends (udp_run_out junk (send_message lid) out m w) (\<lambda>(n, w'). kept w w')"
  using assms unfolding udp_run_out_def
  by (auto simp: turn_simps put_at_def intro!: turn_rules)

lemma ntp_run_in_kept:
  assumes "net_ok w" "length lid < max_id_length" "modest (msg_data m)"
  shows "ends (ntp_run_in (send_message lid) out sec nsec m w) (\<lambda>(n, w'). kept w w')"
  using assms unfolding ntp_run_in_def
  by (auto simp: turn_simps length_sntp_reply intro!: turn_rules)

lemma time_run_in_kept:
  assumes "net_ok w" "length lid < max_id_length"
  shows "ends (time_run_in (send_message lid) out now m w) (\<lambda>(n, w'). kept w w')"
  using assms unfolding time_run_in_def Let_def
  by (auto simp: filled_in_def allocate_shm_message_def put_uint32_def
      intro!: ends_send ends_any[of _ "unwrap_message_up_tcp d" for d])

section \<open>ARP\<close>

text \<open>The cache is in order and holds addresses of the right lengths, and what is searched for is an address from a message.\<close>

definition arp_ok :: "arp_state \<Rightarrow> bool" where
  "arp_ok st \<longleftrightarrow> cache_sorted (arp_cache st) \<and> (\<forall>(a, b) \<in> set (arp_cache st). length a = 4 \<and> length b = 6)
     \<and> (\<forall>r \<in> set (requests st). pred_option (\<lambda>a. length a \<le> 2 ^ 24) (rq_mac r) \<and> pred_option (\<lambda>a. length a \<le> 2 ^ 24) (rq_ip4 r))"

lemma ends_addr_get [calm]: "(\<And>x. length x = length buf \<Longrightarrow> ofs + length a \<le> length buf \<Longrightarrow> Q x) \<Longrightarrow> ends (addr_get a ofs buf) Q"
  by (auto simp: addr_get_def assert_that_def store_def length_put_at)

lemma ends_arp_ask:
  assumes "net_ok w" "length lid < max_id_length" "arp_ok st" "pred_option (\<lambda>a. length a \<le> 2 ^ 24) r_mac" "pred_option (\<lambda>a. length a \<le> 2 ^ 24) r_ip4"
  shows "ends (arp_ask (send_message lid) out nr m r_mac r_ip4 sha spa tpa st w) (\<lambda>(n, st', w'). kept w w' \<and> arp_ok st')"
  using assms unfolding arp_ask_def arp_request_packet_def
  by (auto simp: turn_simps arp_ok_def bc_addr_def intro!: calm filled_in_down)

lemma ends_cache_find: "arp_ok st \<Longrightarrow> (\<And>hit. pred_option (\<lambda>b. length b = 6) hit \<Longrightarrow> Q hit) \<Longrightarrow> ends (arp_cache_find a (arp_cache st)) Q"
  by (cases "map_of (arp_cache st) a") (auto simp: arp_cache_find_def arp_ok_def dest!: map_of_SomeD)

lemma ends_two_parts:
  assumes "\<And>a b. length b \<le> length s \<Longrightarrow> ends (f a b) Q" "ends g Q"
  shows "ends (case split s sep of [] \<Rightarrow> g | [a] \<Rightarrow> g | [a, b] \<Rightarrow> f a b | a # b # c # d \<Rightarrow> g) Q"
  using assms split_part[of _ s sep] by (auto split: list.split)

lemma length_replies:
  "length a \<le> 2 ^ 24 \<Longrightarrow> length b \<le> 6 \<Longrightarrow> length (ip4_mac_reply a b) < 2 ^ 32" "length b \<le> 2 ^ 24 \<Longrightarrow> length a \<le> 4 \<Longrightarrow> length (mac_ip4_reply b a) < 2 ^ 32"
  "ip4_mac_reply a b \<noteq> []" "mac_ip4_reply b a \<noteq> []"
  using length_addr_text[of a "CHR ''.''" False] length_addr_text[of b "CHR '':''" True] by (simp_all add: ip4_mac_reply_def mac_ip4_reply_def)

lemma arp_run_resolver_kept:
  assumes "net_ok w" "length lid < max_id_length" "length lid' < max_id_length" "arp_ok st" "modest (msg_data m)" "length mac = 6"
  shows "ends (arp_run_resolver (send_message lid) ip mac out (send_message lid') junk nr m st w) (\<lambda>(n, st', w'). kept w w' \<and> arp_ok st')"
  using assms unfolding arp_run_resolver_def ends_simps modest_def
  by (intro ends_load_n ends_two_parts)
    (auto simp: kept_refl length_replies(3) split: option.split intro!: calm ends_replies length_replies(1) ends_arp_ask ends_cache_find)

lemma ends_request_reply:
  assumes "pred_option (\<lambda>a. length a \<le> 2 ^ 24) (rq_mac item)" "pred_option (\<lambda>a. length a \<le> 2 ^ 24) (rq_ip4 item)" "length sha = 6" "length spa = 4"
  shows "ends (request_reply sha spa item) (\<lambda>reply. length reply < 2 ^ 32)"
  using assms unfolding request_reply_def
  by (auto split: option.split intro!: calm length_replies(1,2)[simplified])

lemma register_resolve_reply_kept:
  assumes "net_ok w" "length lid < max_id_length" "length sha = 6" "length spa = 4"
    and "\<forall>r \<in> set rqs. pred_option (\<lambda>a. length a \<le> 2 ^ 24) (rq_mac r) \<and> pred_option (\<lambda>a. length a \<le> 2 ^ 24) (rq_ip4 r)"
  shows "ends (register_resolve_reply (send_message lid) sha spa rqs w) (\<lambda>(rqs', w'). kept w w' \<and> set rqs' \<subseteq> set rqs)"
  using assms(1,5)
proof (induction rqs arbitrary: w)
  case (Cons item items)
  have reply: "ends (request_reply sha spa item) (\<lambda>reply. length reply < 2 ^ 32)"
    using ends_request_reply[of item sha spa] Cons.prems(2) assms(3,4) by simp
  have rest: "ends (register_resolve_reply (send_message lid) sha spa items w1) (\<lambda>(rqs', w'). kept w w' \<and> set rqs' \<subseteq> set items)"
    if "kept w w1" for w1
    using Cons.prems by (intro ends_weaken[OF Cons.IH[OF keptD(1)[OF that]]]) (auto intro: kept_trans[OF that])
  show ?case unfolding register_resolve_reply.simps ends_simps
    by (rule ends_weaken[OF reply])
      (use Cons.prems assms(2) in \<open>auto simp: kept_refl intro!: ends_replies ends_weaken[OF rest]\<close>)
qed (simp add: kept_refl)

lemma arp_run_in_kept:
  assumes "net_ok w" "length lid < max_id_length" "length lid' < max_id_length" "arp_ok st" "length mac = 6"
  shows "ends (arp_run_in (send_message lid) mac ip (send_message lid') m st w) (\<lambda>(n, st', w'). kept w w' \<and> arp_ok st')"
proof -
  have packet: "ends (arp_reply_packet mac pl) (\<lambda>out. length out = 28)" if "length pl = 28" for pl
    using that unfolding arp_reply_packet_def by (auto simp: Let_def put_at_def intro!: calm)
  have cache: "arp_ok (st\<lparr> arp_cache := arp_cache_insert spa sha (arp_cache st) \<rparr>)" if "length spa = 4" "length sha = 6" for spa sha
  proof -
    have "cache_sorted (arp_cache_insert spa sha (arp_cache st))"
      using assms(4) that by (intro arp_cache_insert_sorted) (auto simp: arp_ok_def)
    moreover have "\<forall>(a, b) \<in> set (arp_cache_insert spa sha (arp_cache st)). length a = 4 \<and> length b = 6"
      using assms(4) that set_arp_cache_insert[of spa sha "arp_cache st"] by (fastforce simp: arp_ok_def)
    ultimately show ?thesis using assms(4) by (simp add: arp_ok_def)
  qed
  have rqs: "ends (register_resolve_reply (send_message lid') sha spa (requests st) w) (\<lambda>(rqs, w').
      kept w w' \<and> arp_ok (st\<lparr> arp_cache := arp_cache_insert spa sha (arp_cache st), requests := rqs \<rparr>))" if "length spa = 4" "length sha = 6" for spa sha
    by (rule ends_weaken[OF register_resolve_reply_kept]) (use assms that cache[OF that] in \<open>auto simp: arp_ok_def\<close>)
  show ?thesis
    using assms unfolding arp_run_in_def Let_def
    by (auto simp: kept_refl slice_at_def intro!: calm filled_in_down ends_weaken[OF packet] ends_weaken[OF rqs])
qed

section \<open>IPv4\<close>

text \<open>A packet that is being reassembled is never larger than the largest offset and the largest fragment.\<close>

definition frags_ok :: "(u64, packet) std_map \<Rightarrow> bool" where
  "frags_ok packets \<longleftrightarrow> map_ok packets \<and> (\<forall>(k, p) \<in> set packets. length (pk_data p) < 2 ^ 17)"

lemma set_key_set: "set (set_key k v m) \<subseteq> insert (k, v) (set m)"
  by (induction k v m rule: set_key.induct) auto

lemma ip4_fragment_kept:
  assumes "frags_ok packets" "ofs \<le> 65528" "length dat \<le> 65535" "ip4_fragment junk now sid ofs dat mf packets = (whole, packets')"
  shows "frags_ok packets'" "whole = Some d \<Longrightarrow> length d < 2 ^ 17"
proof -
  let ?p = "case find_key sid packets of None \<Rightarrow> new_packet | Some p \<Rightarrow> p"
  define q where "q = store_fragment junk now ofs dat mf ?p"
  have "length (pk_data ?p) < 2 ^ 17"
    using assms(1) by (auto simp: frags_ok_def find_key_def new_packet_def split: option.split dest!: map_of_SomeD)
  then have l: "length (pk_data (snd (is_complete q))) < 2 ^ 17"
    using assms(2,3) by (auto simp: q_def pk_data_is_complete store_fragment_def Let_def length_put_at)
  have "ip4_fragment junk now sid ofs dat mf packets = (if fst (is_complete q) then (Some (pk_data (snd (is_complete q))), erase_key sid packets)
      else (None, set_key sid (snd (is_complete q)) packets))"
    by (simp add: ip4_fragment_def Let_def case_prod_beta q_def)
  moreover have "frags_ok (erase_key sid packets)" using assms(1) by (auto simp: frags_ok_def erase_key_ok) (auto simp: erase_key_def)
  moreover have "frags_ok (set_key sid (snd (is_complete q)) packets)"
    using assms(1) l set_key_set[of sid "snd (is_complete q)" packets] unfolding frags_ok_def by (auto simp: set_key_ok)
  ultimately show "frags_ok packets'" "whole = Some d \<Longrightarrow> length d < 2 ^ 17" using assms(4) l by (auto split: if_splits)
qed

lemma ip4_run_in_kept:
  assumes "net_ok w" "length lid < max_id_length" "modest (msg_data m)" "frags_ok packets"
  shows "ends (ip4_run_in (send_message lid) a maps icmp junk now m packets w) (\<lambda>(n, packets', w'). kept w w' \<and> frags_ok packets')"
proof -
  have ofs: "unat ((x :: u16) AND 0x1fff) * 8 \<le> 65528" for x by (simp add: unat_and_1fff)
  have sz: "unat (x :: u16) - k \<le> 65535" for x k using unsigned_less[of x, where 'a = nat] by simp
  have err: "ends (ip4_send_icmp_error (send_message lid) icmp ty code pl f t w) (\<lambda>w'. ends (Inr (1, packets, w')) Q)"
    if "length pl + length f + length t < 2 ^ 30" "\<And>w'. kept w w' \<Longrightarrow> Q (1, packets, w')" for ty code pl f t and Q :: "nat \<times> (u64, packet) std_map \<times> net \<Rightarrow> bool"
    unfolding ip4_send_icmp_error_def using assms(1,2) that by (auto intro!: calm filled_in_up)
  have up: "ends (case (if b then ip4_fragment junk now sid ofs dat mf packets else (Some dat, packets)) of (whole, packets) \<Rightarrow>
       (case whole of None \<Rightarrow> Inr (1, packets, w)
        | Some whole \<Rightarrow> res_bind (post (send_message lid) name ((wrap_message_up full f t whole None)\<lparr> msg_id := sid \<rparr>) w) (\<lambda>(r, w). Inr (1, packets, w))))
      (\<lambda>(n, packets', w'). kept w w' \<and> frags_ok packets')"
    if "ofs \<le> 65528" "length dat \<le> 65535" "length full + length f + length t < 2 ^ 30" for b sid ofs dat mf name full f t
  proof -
    obtain whole packets' where r: "(if b then ip4_fragment junk now sid ofs dat mf packets else (Some dat, packets)) = (whole, packets')" by (metis surj_pair)
    then have "frags_ok packets'" "\<And>d. whole = Some d \<Longrightarrow> length d < 2 ^ 17"
      using ip4_fragment_kept[OF assms(4) that(1,2)] that(2) assms(4) by (auto split: if_splits)
    then show ?thesis unfolding r using assms(1,2) that(3) by (auto simp: kept_refl split: option.split intro!: calm filled_in_up)
  qed
  show ?thesis
    unfolding ip4_run_in_def Let_def
    by (intro ends_steps ends_unwrap_up ends_load_n up err ends_any[of _ "addr_neq x y" for x y] ends_any[of _ "calc_session_id f t p i" for f t p i])
      (use assms ofs in \<open>auto simp: kept_refl slice_at_def modest_def min_le_iff_disj sz\<close>)
qed

text \<open>The pending messages are messages of a queue, with the addresses that resolver replies brought.\<close>

definition pending_ok :: "out_state \<Rightarrow> bool" where
  "pending_ok st \<longleftrightarrow> map_ok (pending_messages st) \<and> (\<forall>a pm. pm_heap st a = Some pm \<longrightarrow> modest (msg_data (queued_msg pm))
     \<and> pred_option (\<lambda>a. length a \<le> 2 ^ 24) (pm_from pm) \<and> pred_option (\<lambda>a. length a \<le> 2 ^ 24) (pm_to pm))"

lemma ends_start_resolve [calm]:
  assumes "net_ok w" "length lid < max_id_length" "length a \<le> 2 ^ 24" "\<And>r w'. kept w w' \<Longrightarrow> net_ok w' \<Longrightarrow> Q (r, w')"
  shows "ends (start_resolve_by_ip4 (send_message lid) name a w) Q"
  using assms length_addr_text[of a "CHR ''.''" False] filled_in_reply(2)[of "''search-mac='' @ addr_to_str a CHR ''.'' False"]
  unfolding start_resolve_by_ip4_def Let_def by (auto intro!: ends_send)

lemma ends_route_via: "length gw \<le> 2 ^ 24 \<Longrightarrow> (\<And>a. length a \<le> 2 ^ 24 \<Longrightarrow> Q a) \<Longrightarrow> ends (route_via listen bits gw to_a) Q"
  unfolding route_via_def by (auto intro!: calm)

lemma ip4_run_out_kept:
  assumes "net_ok w" "length lid < max_id_length" "modest (msg_data m)" "pending_ok st" "length gw \<le> 2 ^ 24"
  shows "ends (ip4_run_out listen bits gw (send_message lid) name now m st w) (\<lambda>(n, st', w'). kept w w' \<and> pending_ok st')"
  using assms unfolding ip4_run_out_def
  by (auto simp: kept_def Let_def pending_ok_def insert_key_ok split: option.split intro!: calm ends_route_via)

lemma ip4_send_fragments_kept:
  assumes "net_ok w" "length lid < max_id_length" "length fmac \<le> 2 ^ 24" "length tmac \<le> 2 ^ 24" "length pl < 2 ^ 24"
    and "\<And>ofs mf dat. length (build ofs mf dat) = 20 + length dat"
  shows "ends (ip4_send_fragments fuel (send_message lid) link fmac tmac build mtu pl n ofs w) (kept w)"
  using assms(1)
proof (induction fuel arbitrary: ofs w)
  case 0
  then show ?case by (subst ip4_send_fragments.simps) (simp add: kept_refl)
next
  case (Suc fuel)
  show ?case using assms(2-6) Suc.prems
    by (subst ip4_send_fragments.simps)
      (auto simp: Let_def kept_def intro!: calm filled_in_down ends_weaken[OF Suc.IH])
qed

lemma ip4_transmit_kept:
  assumes "net_ok w" "length lid < max_id_length" "length fmac \<le> 2 ^ 24" "length tmac \<le> 2 ^ 24" "modest (msg_data (queued_msg pm))"
  shows "ends (ip4_transmit fuel (send_message lid) link maps mtu ident pm fmac tmac w) (kept w)"
  using assms unfolding ip4_transmit_def
  by (auto simp: kept_refl modest_def length_ip4_packet split: option.split intro!: calm ip4_send_fragments_kept)

lemma pending_fill_ok:
  assumes "pending_ok st" "pm_heap st a = Some pm" "pending_fill nr mac pm = Some pm'" "length mac \<le> 2 ^ 24"
  shows "modest (msg_data (queued_msg pm'))" "pred_option (\<lambda>a. length a \<le> 2 ^ 24) (pm_from pm')" "pred_option (\<lambda>a. length a \<le> 2 ^ 24) (pm_to pm')"
proof -
  have "modest (msg_data (queued_msg pm)) \<and> pred_option (\<lambda>a. length a \<le> 2 ^ 24) (pm_from pm) \<and> pred_option (\<lambda>a. length a \<le> 2 ^ 24) (pm_to pm)"
    using assms(1,2) unfolding pending_ok_def by blast
  then show "modest (msg_data (queued_msg pm'))" "pred_option (\<lambda>a. length a \<le> 2 ^ 24) (pm_from pm')" "pred_option (\<lambda>a. length a \<le> 2 ^ 24) (pm_to pm')"
    using assms(3,4) by (auto simp: pending_fill_def split: if_splits)
qed

lemma pending_ok_erase: "pending_ok st \<Longrightarrow> pending_ok (st\<lparr> pending_messages := erase_key k (pending_messages st) \<rparr>)"
  by (simp add: pending_ok_def erase_key_ok)

lemma pending_ok_update:
  assumes "pending_ok st" "pred_option (\<lambda>pm. modest (msg_data (queued_msg pm)) \<and> pred_option (\<lambda>a. length a \<le> 2 ^ 24) (pm_from pm)
     \<and> pred_option (\<lambda>a. length a \<le> 2 ^ 24) (pm_to pm)) r"
  shows "pending_ok (st\<lparr> pending_messages := erase_key k (pending_messages st), pm_heap := (pm_heap st)(a := r) \<rparr>)"
  using assms by (auto simp: pending_ok_def erase_key_ok)

lemma ip4_sender_kept:
  assumes "net_ok w" "length lid < max_id_length" "modest (msg_data m)" "pending_ok st"
  shows "ends (ip4_sender fuel (send_message lid) link maps mtu junk ident m st w) (\<lambda>(n, st', w'). kept w w' \<and> pending_ok st')"
proof -
  have filled: "ends (case pending_fill nr mac pm of
       None \<Rightarrow> Inr (1, st\<lparr> pending_messages := erase_key nr (pending_messages st) \<rparr>, w)
     | Some pm \<Rightarrow> (case (pm_from pm, pm_to pm) of
          (Some f, Some t) \<Rightarrow>
            res_bind (ip4_transmit fuel (send_message lid) link maps mtu ident pm f t w) (\<lambda>w.
            Inr (1, st\<lparr> pending_messages := erase_key nr (pending_messages st), pm_heap := (pm_heap st)(a := None) \<rparr>, w))
        | _ \<Rightarrow> Inr (1, st\<lparr> pending_messages := erase_key nr (pending_messages st), pm_heap := (pm_heap st)(a := Some pm) \<rparr>, w)))
      (\<lambda>(n, st', w'). kept w w' \<and> pending_ok st')"
    if "pm_heap st a = Some pm" "length mac \<le> 2 ^ 24" for nr mac pm a
    using pending_fill_ok[OF assms(4) that(1) _ that(2), of nr] assms(1,2,4) pending_ok_erase[OF assms(4)] pending_ok_update[OF assms(4)]
    by (auto simp: kept_refl split: option.split intro!: ends_weaken[OF ip4_transmit_kept])
  show ?thesis
    unfolding ip4_sender_def Let_def
    by (intro filled ends_steps ends_load_n ends_addr_of_string) (use assms in \<open>auto simp: kept_refl modest_def\<close>)
qed

lemma map_ok_fold_erase: "map_ok m \<Longrightarrow> map_ok (fold erase_key ks m)"
  by (induction ks arbitrary: m) (auto simp: erase_key_ok)

lemma set_fold_erase: "set (fold erase_key ks m) \<subseteq> set m"
proof (induction ks arbitrary: m)
  case (Cons k ks)
  then show ?case using Cons[of "erase_key k m"] by (auto simp: erase_key_def)
qed simp

lemma ip4_clean_packets_ok: "frags_ok packets \<Longrightarrow> frags_ok (ip4_clean_packets now packets)"
  unfolding frags_ok_def ip4_clean_packets_def using set_fold_erase map_ok_fold_erase by blast

lemma ip4_clean_pending_ok: "pending_ok st \<Longrightarrow> ends (ip4_clean_pending now st) pending_ok"
  unfolding ip4_clean_pending_def by (auto simp: pending_ok_def map_ok_fold_erase intro!: ends_any[of _ "ip4_expired t h m ks fs" for t h m ks fs])

lemma ip4_run_meta_kept:
  assumes "net_ok w" "length lid < max_id_length" "length a < 2 ^ 24"
  shows "ends (ip4_run_meta (send_message lid) a m w) (\<lambda>(n, w'). kept w w')"
  using assms length_addr_text[of a "CHR ''.''" False] unfolding ip4_run_meta_def
  by (auto simp: turn_simps intro!: turn_rules ends_replies split: list.split)

section \<open>TCP\<close>

definition peers_ok :: "session_t \<Rightarrow> bool" where
  "peers_ok s \<longleftrightarrow> length (local_addr s) \<le> 2 ^ 24 \<and> length (peer_addr s) \<le> 2 ^ 24"

definition table_ok :: "sessions \<Rightarrow> bool" where
  "table_ok ss \<longleftrightarrow> map_ok ss \<and> (\<forall>(k, s) \<in> set ss. peers_ok s)"

definition segment_ok :: "tcp_seg \<Rightarrow> bool" where
  "segment_ok sg \<longleftrightarrow> length (sg_from sg) \<le> 2 ^ 24 \<and> length (sg_to sg) \<le> 2 ^ 24 \<and> length (sg_data sg) \<le> 2 ^ 24"

lemma ends_send_tcp_loop:
  assumes "net_ok w" "length lid < max_id_length" "length f \<le> 2 ^ 24" "length t \<le> 2 ^ 24"
  shows "ends (send_tcp_loop fuel (send_message lid) out f t sp dp seq ack fl win p ms n w) (\<lambda>(r, w'). kept w w')"
  using assms(1)
proof (induction fuel arbitrary: seq p n w)
  case (Suc fuel)
  have "unat ms < 2 ^ 16" using unsigned_less[of ms, where 'a = nat] by simp
  then have packet: "length (put_at 16 (put_uint16 c) (tcp_header sp dp seq ack fl win 0 @ take (min (length p) (unat ms)) p)) \<le> 65600" for c
    by (simp add: put_at_def tcp_header_def put_uint16_def put_uint32_def)
  have "filled_in (wrap_message_down f t (put_at 16 (put_uint16 c) (tcp_header sp dp seq ack fl win 0 @ take (min (length p) (unat ms)) p)) None)" for c
    using packet[of c] assms(3,4) by (intro filled_in_down) simp
  then show ?case unfolding send_tcp_loop.simps Let_def
    by (intro ends_bind ends_any[of _ "l4_checksum x y z k i" for x y z k i] ends_post)
      (use assms(2) Suc.prems in \<open>auto simp: kept_def intro!: ends_weaken[OF Suc.IH]\<close>)
qed (simp add: send_tcp_loop.simps)

lemma ends_send_tcp [calm]:
  assumes "net_ok w" "length lid < max_id_length" "length f \<le> 2 ^ 24" "length t \<le> 2 ^ 24" "\<And>r w'. kept w w' \<Longrightarrow> net_ok w' \<Longrightarrow> Q (r, w')"
  shows "ends (send_tcp_packet (send_message lid) out f t sp dp seq ack fl win p ms w) Q"
  unfolding send_tcp_packet_def by (rule ends_weaken[OF ends_send_tcp_loop[OF assms(1-4)]]) (use assms(5) in \<open>auto dest: keptD\<close>)

lemma ends_tcp_reply:
  assumes "net_ok w" "length lid < max_id_length" "segment_ok sg" "\<And>r w'. kept w w' \<Longrightarrow> net_ok w' \<Longrightarrow> Q (r, w')"
  shows "ends (tcp_reply (send_message lid) out sg seq ack fl win ms w) Q"
  using assms unfolding tcp_reply_def segment_ok_def by (intro ends_send_tcp) auto

lemma ends_parse [calm]:
  assumes "modest d" "\<And>r. pred_option segment_ok r \<Longrightarrow> Q r"
  shows "ends (tcp_parse d) Q"
  using assms unfolding tcp_parse_def Let_def
  by (intro ends_steps ends_unwrap_up ends_load_n ends_any[of _ "l4_checksum f t p n k" for f t p n k] ends_any[of _ "tcp_calc_session_id p q f t" for p q f t]
      ends_any[of _ "if b then syn_options pl i j k else Inr 1" for b pl i j k]) (auto simp: modest_def segment_ok_def)

lemma peers_ok_updates [simp]:
  "peers_ok (s\<lparr> updated_ts := a \<rparr>) = peers_ok s" "peers_ok (s\<lparr> peer_window_size := b \<rparr>) = peers_ok s" "peers_ok (s\<lparr> st_state := c \<rparr>) = peers_ok s"
  "peers_ok (s\<lparr> start_peer_seq := d \<rparr>) = peers_ok s" "peers_ok (s\<lparr> peer_seq := e \<rparr>) = peers_ok s" "peers_ok (s\<lparr> l7_to_tcp := f \<rparr>) = peers_ok s"
  "peers_ok (s\<lparr> local_seq := g \<rparr>) = peers_ok s" "peers_ok (s\<lparr> in_flight := h \<rparr>) = peers_ok s" "peers_ok (s\<lparr> half_closed := i \<rparr>) = peers_ok s"
  "peers_ok (s\<lparr> tcp_to_l7 := j \<rparr>) = peers_ok s" "peers_ok (s\<lparr> l7_send_fin := k \<rparr>) = peers_ok s" "peers_ok (s\<lparr> fin_sent := l \<rparr>) = peers_ok s"
  by (simp_all add: peers_ok_def)

lemma ends_syn_cookie:
  assumes "net_ok w" "length lid < max_id_length" "segment_ok sg" "\<And>w'. kept w w' \<Longrightarrow> net_ok w' \<Longrightarrow> Q w'"
  shows "ends (send_syn_cookie (send_message lid) out salt now sg w) Q"
  using assms unfolding send_syn_cookie_def
  by (auto intro!: ends_tcp_reply ends_any[of _ "my_syn_cookie a b c d" for a b c d])

lemma tcp_syn_kept:
  assumes "net_ok w" "length lid < max_id_length" "segment_ok sg" "pred_option peers_ok session"
  shows "ends (tcp_syn (send_message lid) out maps salt now sg session w) (\<lambda>(fl, v, session', w'). kept w w' \<and> pred_option peers_ok session')"
  using assms unfolding tcp_syn_def Let_def
  by (auto simp: kept_refl split: option.split intro!: ends_tcp_reply ends_syn_cookie)

lemma tcp_ack_kept:
  assumes "net_ok w" "length lid < max_id_length" "segment_ok sg" "pred_option peers_ok session"
  shows "ends (tcp_ack (send_message lid) out maps salt now sg session w) (\<lambda>(fl, v, session', w'). kept w w' \<and> pred_option peers_ok session')"
  using assms unfolding tcp_ack_def tcp_ack_new_def Let_def
  by (auto simp: kept_refl tcp_ack_session_def Let_def segment_ok_def peers_ok_def split: option.split
      intro!: calm ends_tcp_reply filled_in_wrap_up_tcp ends_any[of _ "my_syn_cookie a b c d" for a b c d] ends_any[of _ "peer_name n" for n])

lemma tcp_input_kept:
  assumes "net_ok w" "length lid < max_id_length" "segment_ok sg" "peers_ok s"
  shows "ends (tcp_input (send_message lid) out sg v s w) (\<lambda>(v', s', w'). kept w w' \<and> peers_ok s')"
  using assms unfolding tcp_input_def Let_def
  by (auto simp: kept_def segment_ok_def intro!: calm ends_tcp_reply filled_in_wrap_up_tcp)

lemma tcp_fin_kept:
  assumes "net_ok w" "length lid < max_id_length" "segment_ok sg" "peers_ok s"
  shows "ends (tcp_fin (send_message lid) out sg v s w) (\<lambda>(s', w'). kept w w' \<and> peers_ok s')"
  using assms unfolding tcp_fin_def Let_def by (auto simp: kept_refl intro!: ends_tcp_reply)

lemma tcp_body_kept:
  assumes "net_ok w" "length lid < max_id_length" "segment_ok sg" "pred_option peers_ok session"
  shows "ends (tcp_body (send_message lid) out sg v session w) (\<lambda>(v', session', w'). kept w w' \<and> pred_option peers_ok session')"
  using assms unfolding tcp_body_def
  by (auto simp: kept_def split: option.split intro!: ends_weaken[OF tcp_input_kept] ends_weaken[OF tcp_fin_kept])

lemma tcp_clean_kept:
  assumes "net_ok w" "length lid < max_id_length" "segment_ok sg" "pred_option peers_ok session"
  shows "ends (tcp_clean (send_message lid) out sg v session w) (\<lambda>(session', w'). kept w w' \<and> pred_option peers_ok session')"
  using assms unfolding tcp_clean_def Let_def
  by (auto simp: kept_def segment_ok_def split: option.split intro!: calm ends_tcp_reply filled_in_wrap_up_tcp)

lemma tcp_dispatch_kept:
  assumes "net_ok w" "length lid < max_id_length" "segment_ok sg" "pred_option peers_ok session"
  shows "ends (tcp_dispatch (send_message lid) out maps salt now sg session w) (\<lambda>(fl, v, session', w'). kept w w' \<and> pred_option peers_ok session')"
  using assms unfolding tcp_dispatch_def Let_def
  by (intro ends_if tcp_syn_kept tcp_ack_kept) (auto simp: kept_refl pred_option_def)

lemma table_ok_find: "table_ok ss \<Longrightarrow> find_key k ss = Some s \<Longrightarrow> peers_ok s"
  by (auto simp: table_ok_def find_key_def dest: map_of_SomeD)

lemma table_ok_set: "table_ok ss \<Longrightarrow> peers_ok s \<Longrightarrow> table_ok (set_key k s ss)"
  using set_key_set[of k s ss] unfolding table_ok_def by (auto simp: set_key_ok)

lemma table_ok_erase: "table_ok ss \<Longrightarrow> table_ok (erase_key k ss)"
  unfolding table_ok_def by (auto simp: erase_key_ok) (auto simp: erase_key_def)

lemma table_ok_write_back: "table_ok ss \<Longrightarrow> pred_option peers_ok session \<Longrightarrow> table_ok (write_back k session ss)"
  by (auto simp: write_back_def table_ok_set split: option.split)

lemma tcp_segment_kept:
  assumes "net_ok w" "length lid < max_id_length" "segment_ok sg" "table_ok ss"
  shows "ends (tcp_segment (send_message lid) out maps salt now us sg ss w) (\<lambda>(ss', w'). kept w w' \<and> table_ok ss')"
proof -
  let ?session = "map_option (\<lambda>s. s\<lparr> updated_ts := us, peer_window_size := sg_window sg \<rparr>) (find_key (sg_sid sg) ss)"
  have "pred_option peers_ok ?session" using table_ok_find[OF assms(4)] by (cases "find_key (sg_sid sg) ss") simp_all
  note dispatch = tcp_dispatch_kept[OF assms(1-3) this]
  show ?thesis unfolding tcp_segment_def Let_def ends_simps
    by (rule ends_weaken[OF dispatch])
      (use assms(2-4) in \<open>auto simp: kept_def table_ok_write_back table_ok_erase split: flow.split
        intro!: ends_weaken[OF tcp_body_kept] ends_weaken[OF tcp_clean_kept]\<close>)
qed

lemma tcp_run_in_kept:
  assumes "net_ok w" "length lid < max_id_length" "modest (msg_data m)" "table_ok ss"
  shows "ends (tcp_run_in (send_message lid) out maps salt now us m ss w) (\<lambda>(n, ss', w'). kept w w' \<and> table_ok ss')"
  using assms unfolding tcp_run_in_def
  by (auto simp: kept_refl split: option.split intro!: calm ends_weaken[OF tcp_segment_kept])

lemma tcp_run_out_kept: "table_ok ss \<Longrightarrow> ends (tcp_run_out m ss) (\<lambda>(n, ss'). table_ok ss')"
  unfolding tcp_run_out_def Let_def
  by (auto split: option.split intro!: calm table_ok_set dest: table_ok_find)

lemma tcp_sender_session_kept:
  assumes "net_ok w" "length lid < max_id_length" "peers_ok s"
  shows "ends (tcp_sender_session (send_message lid) out s w) (\<lambda>(r, w'). kept w w' \<and> pred_option peers_ok r)"
  using assms unfolding tcp_sender_session_def Let_def
  by (auto simp: kept_refl split: prod.split intro!: calm) (auto simp: peers_ok_def)

lemma tcp_sender_pass_kept:
  assumes "net_ok w" "length lid < max_id_length" "\<forall>(k, s) \<in> set ss. peers_ok s"
  shows "ends (tcp_sender_pass (send_message lid) out ss w) (\<lambda>(ss', w'). kept w w' \<and> map fst ss' = map fst ss \<and> (\<forall>(k, s) \<in> set ss'. peers_ok s))"
  using assms(1,3)
proof (induction ss arbitrary: w)
  case (Cons x ss)
  obtain sid s where x: "x = (sid, s)" by (cases x)
  then have "peers_ok s" using Cons.prems by simp
  note session = tcp_sender_session_kept[OF Cons.prems(1) assms(2) this]
  show ?case unfolding x tcp_sender_pass.simps ends_simps
    by (rule ends_weaken[OF session]) (use Cons.prems(2) x in \<open>auto simp: kept_def split: option.split intro!: ends_weaken[OF Cons.IH]\<close>)
qed (simp add: kept_refl)

lemma tcp_run_clean_ok: "table_ok ss \<Longrightarrow> table_ok (tcp_run_clean now ss)"
  unfolding table_ok_def tcp_run_clean_def using set_fold_erase map_ok_fold_erase by blast

lemma ends_meta_lines:
  assumes "\<forall>l \<in> set ls. length l < 2 ^ 24" "pred_option (\<lambda>a. length a \<le> 2 ^ 24) (mr_addr r)"
  shows "ends (tcp_meta_lines junk ls r) (pred_option (\<lambda>r. pred_option (\<lambda>a. length a \<le> 2 ^ 24) (mr_addr r)))"
  using assms
proof (induction ls arbitrary: r)
  case (Cons line ls)
  show ?case
  proof (cases "\<exists>k v. split line ''='' = [k, v]")
    case True
    then obtain k v where kv: "split line ''='' = [k, v]" by blast
    then have v: "length v < 2 ^ 24" using split_part[of v line "''=''"] Cons.prems(1) by simp
    show ?thesis unfolding tcp_meta_lines.simps kv list.case
      by (intro ends_if ends_bind ends_addr_of_string ends_any[of _ "my_stoi_hex x" for x] ends_any[of _ "my_stoi_dec x" for x] Cons.IH)
        (use Cons.prems v in auto)
  qed (auto split: list.split)
qed simp

lemma tcp_open_kept:
  assumes "net_ok w" "length lid < max_id_length" "length lid' < max_id_length" "table_ok ss" "map_ok ports" "length a \<le> 2 ^ 24" "length b \<le> 2 ^ 24"
  shows "ends (tcp_open (send_message lid) out a (send_message lid') rand isn m b p name ss ports w) (\<lambda>(ss', ports', w'). kept w w' \<and> table_ok ss' \<and> map_ok ports')"
proof -
  have reply: "filled_in ((allocate_shm_message (length (''session-id='' @ num_str 16 (unat (sid :: u64)))))\<lparr> msg_type := msg_reply,
      msg_data := to_bytes (''session-id='' @ num_str 16 (unat sid)) \<rparr>)" for sid
    using length_digits_of[of 16 "unat sid" 15] unsigned_less[of sid, where 'a = nat] by (intro filled_in_reply) (simp_all add: num_str_def)
  have ins: "table_ok (insert_key k s ss)" if "peers_ok s" for k s
    using table_ok_set[OF assms(4) that] assms(4) by (auto simp: insert_key_def split: option.split)
  show ?thesis unfolding tcp_open_def Let_def
    by (intro ends_option ends_bind)
      (use assms in \<open>auto simp: kept_def insert_key_ok peers_ok_def new_session_t_def split: option.split
        intro!: calm reply[simplified] ins ends_any[of _ "tcp_calc_session_id p q f t" for p q f t] ends_any[of _ "peer_name n" for n]\<close>)
qed

lemma tcp_close_kept:
  assumes "net_ok w" "length lid < max_id_length" "table_ok ss" "map_ok ports"
  shows "ends (tcp_close (send_message lid) out sid ss ports w) (\<lambda>(ss', ports', w'). kept w w' \<and> table_ok ss' \<and> map_ok ports')"
  using assms table_ok_find[OF assms(3), of sid] unfolding tcp_close_def Let_def
  by (auto simp: kept_refl table_ok_erase erase_key_ok peers_ok_def split: option.split intro!: calm)

lemma tcp_run_meta_kept:
  assumes "net_ok w" "length lid < max_id_length" "length lid' < max_id_length" "modest (msg_data m)" "table_ok ss" "map_ok ports" "length a \<le> 2 ^ 24"
  shows "ends (tcp_run_meta (send_message lid) out a (send_message lid') junk rand isn m ss ports w)
    (\<lambda>(n, ss', ports', w'). kept w w' \<and> table_ok ss' \<and> map_ok ports')"
proof -
  have "\<forall>l \<in> set (split (of_bytes d) [CHR 0x0A]). length l < 2 ^ 24" if "length d \<le> length (msg_data m)" for d
    using split_part[of _ "of_bytes d" "[CHR 0x0A]"] assms(4) that by (force simp: modest_def)
  then have "ends (tcp_meta_lines junk (split (of_bytes d) [CHR 0x0A]) \<lparr> mr_open = False, mr_sid = None, mr_addr = None, mr_port = None, mr_shm = None \<rparr>)
      (pred_option (\<lambda>r. pred_option (\<lambda>a. length a \<le> 2 ^ 24) (mr_addr r)))" if "length d \<le> length (msg_data m)" for d
    using that by (intro ends_meta_lines) auto
  note lns = ends_weaken[OF this]
  show ?thesis using assms unfolding tcp_run_meta_def Let_def
    by (auto simp: kept_refl split: option.split intro!: calm lns ends_weaken[OF tcp_open_kept] ends_weaken[OF tcp_close_kept])
qed

end
