(* ===== verification/Ip4_Out.thy ===== *)
theory Ip4_Out
  imports Ip4
begin

text \<open>
  Routing and the pending messages of the IPv4 server: which address is resolved for a
  destination, and that a message goes out once, with the right link addresses, whichever of
  the two resolver replies comes first.
\<close>

section \<open>Routing\<close>

lemma masks_nth: "i < 32 \<Longrightarrow> masks ! i = NOT (mask (32 - i))"
proof -
  assume "i < 32"
  moreover have "list_all (\<lambda>i. masks ! i = NOT (mask (32 - i))) [0 ..< 32]" by code_simp
  ultimately show ?thesis by (auto simp: list_all_iff)
qed

lemma length_masks: "length masks = 32"
proof -
  have "length (mask_table n v) = n" for n v by (induction n arbitrary: v) auto
  then show ?thesis by (simp add: masks_def)
qed

lemma same_network:
  fixes a b :: u32
  assumes "n \<le> 32"
  shows "a AND NOT (mask n) = b AND NOT (mask n) \<longleftrightarrow> drop_bit n a = drop_bit n b"
proof
  assume "a AND NOT (mask n) = b AND NOT (mask n)"
  then have e: "bit (a AND NOT (mask n)) k = bit (b AND NOT (mask n)) k" for k by simp
  have "bit a (n + k) = bit b (n + k)" for k
  proof (cases "n + k < 32")
    case True
    then show ?thesis using e[of "n + k"] by (simp add: bit_simps)
  next
    case False
    then show ?thesis using bit_imp_le_length[of a "n + k"] bit_imp_le_length[of b "n + k"] by auto
  qed
  then show "drop_bit n a = drop_bit n b" by (intro bit_eqI) (simp add: bit_simps)
next
  assume "drop_bit n a = drop_bit n b"
  then have "bit (drop_bit n a) k = bit (drop_bit n b) k" for k by simp
  then have k: "bit a (n + k) = bit b (n + k)" for k by (simp add: bit_simps)
  show "a AND NOT (mask n) = b AND NOT (mask n)"
  proof (rule bit_eqI)
    fix i show "bit (a AND NOT (mask n)) i = bit (b AND NOT (mask n)) i"
      using k[of "i - n"] by (cases "n \<le> i") (auto simp: bit_simps)
  qed
qed

text \<open>C27: A destination is resolved directly when it agrees with the server's own address in
  the bits of the network prefix (of at most 31 bits), and through the default gateway
  otherwise; a prefix of 32 or more bits, or of a negative number of bits, reads outside the table of masks.\<close>

theorem ip4_routes_by_prefix:
  assumes "length listen = 4" "length dst = 4"
  shows "route_via listen bits gw dst =
    (if 0 \<le> bits \<and> bits < 32
     then Inr (if drop_bit (32 - nat bits) (get_uint32 dst) = drop_bit (32 - nat bits) (get_uint32 listen) then dst else gw)
     else Inl Out_of_bounds)"
proof (cases "0 \<le> bits \<and> bits < 32")
  case True
  then have "\<not> bits < 0" "nat bits < 32" by auto
  then show ?thesis using assms same_network[of "32 - nat bits" "get_uint32 dst" "get_uint32 listen"]
    by (simp add: route_via_def length_masks masks_nth)
next
  case False
  then show ?thesis by (auto simp: route_via_def load_def length_masks)
qed

theorem ip4_routes_by_prefix_witness:
  "route_via [192, 168, 1, 2] 24 [192, 168, 1, 1] [10, 0, 0, 7] =
      Inr (if drop_bit 8 (get_uint32 [10, 0, 0, 7]) = drop_bit 8 (get_uint32 [192, 168, 1, 2])
           then [10, 0, 0, 7] else [192, 168, 1, 1])
    \<and> route_via [192, 168, 1, 2] 32 [192, 168, 1, 1] [10, 0, 0, 7] = Inl Out_of_bounds
    \<and> route_via [192, 168, 1, 2] (- 1) [192, 168, 1, 1] [10, 0, 0, 7] = Inl Out_of_bounds"
  using ip4_routes_by_prefix[of "[192, 168, 1, 2]" "[10, 0, 0, 7]" _ "[192, 168, 1, 1]"] by simp

section \<open>Resolving both addresses\<close>

text \<open>A resolver reply with number \<open>nr\<close> that brings the address \<open>mac\<close>.\<close>

definition resolves :: "(nat \<Rightarrow> byte) \<Rightarrow> message \<Rightarrow> u64 \<Rightarrow> addr \<Rightarrow> bool" where
  "resolves junk r nr mac \<longleftrightarrow> msg_nr r = nr \<and> unat (msg_size r) \<le> length (msg_data r) \<and>
     (\<exists>i. find_sub ''=mac:'' (of_bytes (take (unat (msg_size r)) (msg_data r))) = Some i \<and>
        addr_of_string (drop (i + 5) (of_bytes (take (unat (msg_size r)) (msg_data r)))) '':'' True junk = Inr mac)"

lemma ip4_sender_resolved:
  assumes "resolves junk r nr mac" "find_key nr (pending_messages st) = Some a" "pm_heap st a = Some pm"
  shows "ip4_sender fuel shm link mo mtu junk ident r st w =
    (let erased = erase_key nr (pending_messages st) in
     case pending_fill nr mac pm of
        None \<Rightarrow> Inr (1, st\<lparr> pending_messages := erased \<rparr>, w)
      | Some pm \<Rightarrow>
          (case (pm_from pm, pm_to pm) of
             (Some f, Some t) \<Rightarrow>
               res_bind (ip4_transmit fuel shm link mo mtu ident pm f t w) (\<lambda>w.
               Inr (1, st\<lparr> pending_messages := erased, pm_heap := (pm_heap st)(a := None) \<rparr>, w))
           | _ \<Rightarrow> Inr (1, st\<lparr> pending_messages := erased, pm_heap := (pm_heap st)(a := Some pm) \<rparr>, w)))"
  using assms by (auto simp: ip4_sender_def resolves_def Let_def)

text \<open>A message as \<open>ip4_run_out\<close> has queued it, under the numbers of its two requests.\<close>

definition queued :: "u64 \<Rightarrow> u64 \<Rightarrow> pending_msg \<Rightarrow> out_state \<Rightarrow> bool" where
  "queued f t pm st \<longleftrightarrow> f \<noteq> t \<and> from_nr pm = f \<and> to_nr pm = t \<and> pm_from pm = None \<and> pm_to pm = None
     \<and> (\<exists>a. find_key f (pending_messages st) = Some a \<and> find_key t (pending_messages st) = Some a \<and> pm_heap st a = Some pm)"

lemma ip4_two_replies:
  assumes "queued f t pm st" "resolves junk rf f fmac" "resolves junk rt t tmac"
  obtains st2 st1 st1' pm' where
    "ip4_sender fuel shm link mo mtu junk ident rf st w = Inr (1, st1, w)"
    "ip4_sender fuel shm link mo mtu junk ident rt st1 w
       = res_bind (ip4_transmit fuel shm link mo mtu ident pm' fmac tmac w) (\<lambda>w. Inr (1, st2, w))"
    "ip4_sender fuel shm link mo mtu junk ident rt st w = Inr (1, st1', w)"
    "ip4_sender fuel shm link mo mtu junk ident rf st1' w
       = res_bind (ip4_transmit fuel shm link mo mtu ident pm' fmac tmac w) (\<lambda>w. Inr (1, st2, w))"
    "queued_msg pm' = queued_msg pm"
    "\<And>k. find_key k (pending_messages st2) = (if k = f \<or> k = t then None else find_key k (pending_messages st))"
proof -
  obtain a where a: "find_key f (pending_messages st) = Some a" "find_key t (pending_messages st) = Some a"
    "pm_heap st a = Some pm" and ft: "f \<noteq> t" and pm: "from_nr pm = f" "to_nr pm = t" "pm_from pm = None" "pm_to pm = None"
    using assms(1) by (auto simp: queued_def)
  let ?ef = "erase_key f (pending_messages st)" and ?et = "erase_key t (pending_messages st)"
  let ?pf = "pm\<lparr> pm_from := Some fmac \<rparr>" and ?pt = "pm\<lparr> pm_to := Some tmac \<rparr>"
  let ?pm = "pm\<lparr> pm_from := Some fmac, pm_to := Some tmac \<rparr>"
  let ?st1 = "st\<lparr> pending_messages := ?ef, pm_heap := (pm_heap st)(a := Some ?pf) \<rparr>"
  let ?st1' = "st\<lparr> pending_messages := ?et, pm_heap := (pm_heap st)(a := Some ?pt) \<rparr>"
  let ?st2 = "st\<lparr> pending_messages := erase_key t ?ef, pm_heap := (pm_heap st)(a := None) \<rparr>"
  have upd: "pm\<lparr> pm_to := Some tmac, pm_from := Some fmac \<rparr> = ?pm" by (cases pm) simp
  have comm: "erase_key f ?et = erase_key t ?ef" by (auto simp: erase_key_def intro: filter_cong)
  show ?thesis
  proof (rule that[of ?st1 ?pm ?st2 ?st1'])
    show "ip4_sender fuel shm link mo mtu junk ident rf st w = Inr (1, ?st1, w)"
      "ip4_sender fuel shm link mo mtu junk ident rt st w = Inr (1, ?st1', w)"
      using ip4_sender_resolved[OF assms(2) a(1,3)] ip4_sender_resolved[OF assms(3) a(2,3)] pm ft
      by (simp_all add: pending_fill_def Let_def)
    show "ip4_sender fuel shm link mo mtu junk ident rt ?st1 w
       = res_bind (ip4_transmit fuel shm link mo mtu ident ?pm fmac tmac w) (\<lambda>w. Inr (1, ?st2, w))"
      using ip4_sender_resolved[OF assms(3), of ?st1 a ?pf] a pm ft
      by (simp add: pending_fill_def Let_def find_erase_key)
    show "ip4_sender fuel shm link mo mtu junk ident rf ?st1' w
       = res_bind (ip4_transmit fuel shm link mo mtu ident ?pm fmac tmac w) (\<lambda>w. Inr (1, ?st2, w))"
      using ip4_sender_resolved[OF assms(2), of ?st1' a ?pt] a pm ft comm upd
      by (simp add: pending_fill_def Let_def find_erase_key)
  qed (auto simp: find_erase_key)
qed


text \<open>C28: A queued message is sent exactly once, after both resolver replies, with the sender's
  and the next hop's link address in their places, whichever reply comes first; the first
  reply sends nothing, and afterwards neither request is pending.\<close>

theorem ip4_resolves_in_any_order:
  assumes "queued f t pm st" "resolves junk rf f fmac" "resolves junk rt t tmac"
  shows "\<exists>pm' st1 st1' st2. queued_msg pm' = queued_msg pm
    \<and> ip4_sender fuel (send_message lid) link mo mtu junk ident rf st w = Inr (1, st1, w)
    \<and> ip4_sender fuel (send_message lid) link mo mtu junk ident rt st1 w
        = res_bind (ip4_transmit fuel (send_message lid) link mo mtu ident pm' fmac tmac w) (\<lambda>w. Inr (1, st2, w))
    \<and> ip4_sender fuel (send_message lid) link mo mtu junk ident rt st w = Inr (1, st1', w)
    \<and> ip4_sender fuel (send_message lid) link mo mtu junk ident rf st1' w
        = res_bind (ip4_transmit fuel (send_message lid) link mo mtu ident pm' fmac tmac w) (\<lambda>w. Inr (1, st2, w))
    \<and> find_key f (pending_messages st2) = None \<and> find_key t (pending_messages st2) = None"
  by (rule ip4_two_replies[OF assms, of fuel "send_message lid" link mo mtu ident w])
    (intro exI conjI, assumption+, simp_all)

definition sample_reply :: "u64 \<Rightarrow> byte \<Rightarrow> message" where
  "sample_reply nr b = hello\<lparr> msg_nr := nr, msg_size := 12,
     msg_data := to_bytes (''ip=mac:'' @ addr_to_str [10, b] CHR '':'' True) \<rparr>"

lemma find_sub_mac: "find_sub ''=mac:'' (''ip=mac:'' @ s) = Some 2"
  by (simp add: starts_with_def)

lemma sample_resolves: "resolves (\<lambda>_. 0) (sample_reply nr b) nr [10, b]"
proof -
  let ?s = "''ip=mac:'' @ addr_to_str [10, b] CHR '':'' True"
  have "length (addr_to_str [10, b] CHR '':'' True) = 5" by (simp add: addr_to_str_def hex2_def)
  then have l: "length ?s = 12" by simp
  then have "take 12 (to_bytes ?s) = to_bytes ?s" "12 \<le> length (to_bytes ?s)"
    by (simp_all only: length_to_bytes take_all_iff)
  then have "find_sub ''=mac:'' (of_bytes (take 12 (to_bytes ?s))) = Some 2"
    "addr_of_string (drop (2 + 5) (of_bytes (take 12 (to_bytes ?s)))) '':'' True (\<lambda>_. 0) = Inr [10, b]"
    using addr_of_to_str(2)[of "[10, b]"] find_sub_mac by (simp_all only: of_bytes_to_bytes) simp
  then show ?thesis using \<open>12 \<le> length (to_bytes ?s)\<close> unfolding resolves_def sample_reply_def by auto
qed

definition sample_pending :: pending_msg where
  "sample_pending = \<lparr> ts = 0, queued_msg = hello, from_nr = 1, pm_from = None, to_nr = 2, pm_to = None \<rparr>"

definition sample_out_state :: out_state where
  "sample_out_state = \<lparr> pending_messages = [(1, 0), (2, 0)], pm_heap = [0 \<mapsto> sample_pending], pm_next = 1 \<rparr>"

theorem ip4_resolves_in_any_order_witness:
  "\<exists>pm' st1 st1' st2. queued_msg pm' = queued_msg sample_pending
    \<and> ip4_sender 9 (send_message ''ip4'') ''tap'' [''udp'' \<mapsto> 17] 1500 (\<lambda>_. 0) 7 (sample_reply 1 11) sample_out_state idle_net = Inr (1, st1, idle_net)
    \<and> ip4_sender 9 (send_message ''ip4'') ''tap'' [''udp'' \<mapsto> 17] 1500 (\<lambda>_. 0) 7 (sample_reply 2 12) st1 idle_net
        = res_bind (ip4_transmit 9 (send_message ''ip4'') ''tap'' [''udp'' \<mapsto> 17] 1500 7 pm' [10, 11] [10, 12] idle_net) (\<lambda>w. Inr (1, st2, w))
    \<and> ip4_sender 9 (send_message ''ip4'') ''tap'' [''udp'' \<mapsto> 17] 1500 (\<lambda>_. 0) 7 (sample_reply 2 12) sample_out_state idle_net = Inr (1, st1', idle_net)
    \<and> ip4_sender 9 (send_message ''ip4'') ''tap'' [''udp'' \<mapsto> 17] 1500 (\<lambda>_. 0) 7 (sample_reply 1 11) st1' idle_net
        = res_bind (ip4_transmit 9 (send_message ''ip4'') ''tap'' [''udp'' \<mapsto> 17] 1500 7 pm' [10, 11] [10, 12] idle_net) (\<lambda>w. Inr (1, st2, w))
    \<and> find_key 1 (pending_messages st2) = None \<and> find_key 2 (pending_messages st2) = None"
  by (rule ip4_resolves_in_any_order[OF _ sample_resolves sample_resolves])
    (simp add: queued_def sample_out_state_def sample_pending_def find_key_def)

end
