(* ===== verification/Stack.thy ===== *)
theory Stack
  imports Udp Link Ip4_Fragments Ip4_Out Arp
begin

text \<open>The servers of a host together, and two hosts on one Ethernet.\<close>

section \<open>Queues with room\<close>

text \<open>Room for \<open>k\<close> more bytes of messages with their headers.\<close>

definition spare :: "nat \<Rightarrow> net \<Rightarrow> string \<Rightarrow> bool" where
  "spare k w q = (case capacity w q of None \<Rightarrow> False | Some c \<Rightarrow> sum_list (map padded_length (inbox w q)) + k \<le> c)"

lemma spare_mono: "spare k w q \<Longrightarrow> j \<le> k \<Longrightarrow> spare j w q"
  by (auto simp: spare_def split: option.splits)

text \<open>Message \<open>m\<close> is new in the queue \<open>dest\<close>; the other queues are as they were.\<close>

definition adds :: "string \<Rightarrow> message \<Rightarrow> net \<Rightarrow> net \<Rightarrow> bool" where
  "adds dest m w w' \<longleftrightarrow> inbox w' = (inbox w)(dest := inbox w dest @ [m])"

lemma posted_spare:
  assumes "posted inbox capacity lid w dest m r w'" "spare k w dest" "padded_length m \<le> k"
  shows "\<exists>m'. carries lid m m' \<and> adds dest m' w w'"
proof -
  have "has_room (inbox w) (capacity w) dest m" using assms(2,3) by (auto simp: spare_def has_room_def split: option.splits)
  then show ?thesis using assms(1) by (auto simp: posted_def adds_def)
qed

lemma padded_length_envelope: "length d < 2 ^ 32 \<Longrightarrow> padded_length (envelope d rt) \<le> length d + 72"
  using PAD8_bounds(2)[of "sizeof_message + length d"] unat_of_nat_u32[of "length d"]
  by (simp add: padded_length_def envelope_def sizeof_message_def Let_def split: option.split)

lemma padded_length_wrapped:
  "length f + length t + length pl < 2 ^ 31 \<Longrightarrow> padded_length (wrap_message_down f t pl rt) \<le> length f + length t + length pl + 150"
  "length full + length f + length t + length pl < 2 ^ 31
     \<Longrightarrow> padded_length (wrap_message_up full f t pl rt) \<le> length full + length f + length t + length pl + 150"
  using padded_length_envelope[of "wrap_down f t pl" rt] padded_length_envelope[of "wrap_up full f t pl" rt]
  by (simp_all add: wrap_message_down_def wrap_message_up_def)

lemma carries_fields:
  assumes "carries lid m m'"
  shows "msg_data m' = msg_data m" "length lid < max_id_length \<Longrightarrow> CHR 0x00 \<notin> set lid \<Longrightarrow> c_str (sender m') = lid"
proof -
  show "msg_data m' = msg_data m" using assms by (simp add: carries_def)
  assume l: "length lid < max_id_length" "CHR 0x00 \<notin> set lid"
  then obtain k where "max_id_length - length lid = Suc k" by (metis Suc_diff_Suc)
  then show "c_str (sender m') = lid" using assms c_str_to_bytes[OF l(2)] by (simp add: carries_def)
qed

lemma wrap_message_data [simp]:
  "msg_data (wrap_message_down f t pl rt) = wrap_down f t pl" "msg_data (wrap_message_up full f t pl rt) = wrap_up full f t pl"
  by (simp_all add: wrap_message_down_def wrap_message_up_def envelope_def Let_def split: option.split)

section \<open>The stages of a datagram\<close>

lemma udp_packet_of_datagram:
  assumes "length src = 4" "length dst = 4" "4 \<le> length pl" "8 + length pl < 65536"
    and "tcp_udp_checksum src dst (udp_packet_of junk pl c) (8 + length pl) 17 = 0"
  shows "udp_datagram src dst (udp_packet_of junk pl c)" "slice_at 2 2 (udp_packet_of junk pl c) = slice_at 2 2 pl"
proof -
  have "slice_at 4 2 (udp_packet_of junk pl c) = put_uint16 (word_of_nat (8 + length pl))"
    using assms(3) by (simp add: udp_packet_of_def slice_at_def put_uint16_def)
  then have "unat (get_uint16 (slice_at 4 2 (udp_packet_of junk pl c))) = 8 + length pl"
    using assms(4) by (simp only: get_put_uint16) (rule unat_u16, simp)
  then show "udp_datagram src dst (udp_packet_of junk pl c)" using assms by (simp add: udp_datagram_def length_udp_packet_of)
  show "slice_at 2 2 (udp_packet_of junk pl c) = slice_at 2 2 pl" using assms(3) by (simp add: udp_packet_of_def slice_at_def drop_take)
qed

text \<open>A datagram with an odd number of bytes ends the UDP server.\<close>

lemma udp_run_out_odd:
  assumes "length src = 4" "length dst = 4" "4 \<le> length pl" "length pl < 65536" "odd (length pl)" "msg_data m = wrap_down src dst pl @ pad"
  shows "udp_run_out junk shm out m w = Inl Assert_failed"
proof -
  have "slice_at 4 (length pl - 4) (pl @ pad) = drop 4 pl" using assms(3) by (simp add: slice_at_def)
  then show ?thesis using assms by (simp add: udp_run_out_def unwrap_wrap_down Let_def assert_that_def)
qed

lemma ip4_transmit_spare:
  assumes "net_ok w" "length lid < max_id_length" "28 \<le> mtu" "mtu \<le> 65535" "length f = 4" "length t = 4"
    and "length fmac = 6" "length tmac = 6" "pl \<noteq> []" "length pl \<le> use_mtu_size mtu" "length pl \<le> 65515"
    and "msg_data (queued_msg pm) = wrap_down f t pl @ pad" "mappings_out (c_str (sender (queued_msg pm))) = Some proto"
    and "length pl \<le> fuel" "spare (length pl + 200) w link"
  shows "\<exists>w' m'. ip4_transmit fuel (send_message lid) link mappings_out mtu ident pm fmac tmac w = Inr w' \<and> net_ok w'
    \<and> carries lid (wrap_message_down fmac tmac (ip4_packet proto ident 0 False f t pl) None) m' \<and> adds link m' w w'"
proof -
  have c: "chunks (use_mtu_size mtu) pl = [pl]" using assms(9,10) by (cases "use_mtu_size mtu = 0") (auto simp: chunks.simps)
  obtain w' where w': "ip4_transmit fuel (send_message lid) link mappings_out mtu ident pm fmac tmac w = Inr w'" "net_ok w'"
    "posted_until inbox capacity lid w link
      (map (\<lambda>(ofs, c, mf). wrap_message_down fmac tmac (ip4_packet proto ident ofs mf f t c) None) (pieces 0 (chunks (use_mtu_size mtu) pl))) w'"
    using ip4_transmit_posts[where mappings_out = mappings_out and link = link and ident = ident and fmac = fmac and tmac = tmac, OF assms(1-6) _ _ assms(11-14)] assms(7,8)
    by (auto simp: small_def)
  let ?m = "wrap_message_down fmac tmac (ip4_packet proto ident 0 False f t pl) None"
  from w'(3) obtain r w1 where "posted inbox capacity lid w link ?m r w1" "inbox w' = inbox w1" unfolding c by (auto split: if_splits)
  moreover have "padded_length ?m \<le> length pl + 200"
    using assms(5-8,11) padded_length_wrapped(1)[of fmac tmac "ip4_packet proto ident 0 False f t pl" None] by (simp add: length_ip4_packet)
  ultimately show ?thesis using posted_spare[of lid w link ?m r w1] assms(15) w'(1,2) by (auto simp: adds_def)
qed

lemma ip4_post_up:
  assumes "net_ok w" "length lid < max_id_length" "length f = 4" "length t = 4" "length whole \<le> 65535" "length packet < 70000"
    and "spare (length packet + length whole + 200) w name"
  shows "\<exists>r w' m'. post (send_message lid) name ((wrap_message_up packet f t whole None)\<lparr> msg_id := sid \<rparr>) w = Inr (r, w') \<and> net_ok w'
    \<and> msg_data m' = wrap_up packet f t whole \<and> msg_type m' = msg_new \<and> adds name m' w w'"
proof -
  define m1 where "m1 = wrap_message_up packet f t whole None"
  have "filled_in (m1\<lparr> msg_id := sid \<rparr>)"
    using filled_in_envelope[of "wrap_up packet f t whole" None] assms(3-6)
    by (simp add: m1_def wrap_message_up_def filled_in_def small_def)
  from transport.post_law[OF shm_transport[OF assms(2)] assms(1) this, of name] obtain r w' where
    p: "post (send_message lid) name (m1\<lparr> msg_id := sid \<rparr>) w = Inr (r, w')" "net_ok w'"
      "posted inbox capacity lid w name (m1\<lparr> msg_id := sid \<rparr>) r w'" by blast
  have "padded_length (m1\<lparr> msg_id := sid \<rparr>) = padded_length m1" by (simp add: padded_length_def)
  also have "\<dots> \<le> length packet + length whole + 200"
    using assms(3-6) padded_length_wrapped(2)[of packet f t whole None] by (simp add: m1_def)
  finally obtain m' where m': "carries lid (m1\<lparr> msg_id := sid \<rparr>) m'" "adds name m' w w'" using posted_spare[OF p(3) assms(7)] by blast
  then show ?thesis using p(1,2) carries_fields(1)[OF m'(1)] by (auto simp: m1_def carries_def wrap_message_up_def envelope_def Let_def)
qed

lemma ip4_run_in_spare:
  assumes "net_ok w" "length lid < max_id_length" "length f = 4" "length t = 4" "length dat \<le> 65515" "length full < 70000"
    and "length smac = 6" "length dmac = 6"
    and "msg_data m = wrap_up full smac dmac (ip4_packet proto ident 0 False f t dat) @ pad" "mappings proto = Some name"
    and "spare (2 * length dat + 220) w name"
  shows "\<exists>w' m'. ip4_run_in (send_message lid) t mappings icmp junk now m packets w = Inr (1, packets, w') \<and> net_ok w'
    \<and> msg_data m' = wrap_up (ip4_packet proto ident 0 False f t dat) f t dat \<and> msg_type m' = msg_new \<and> adds name m' w w'"
proof -
  obtain sid where sid: "calc_session_id f t (ucast proto) ident = Inr sid" using calc_session_id_total[OF assms(3,4)] by blast
  have "length (ip4_packet proto ident 0 False f t dat) + length dat + 200 = 2 * length dat + 220" using assms(3,4) by (simp add: length_ip4_packet)
  then have "spare (length (ip4_packet proto ident 0 False f t dat) + length dat + 200) w name" using assms(11) by (simp only:)
  then obtain r w' m' where p: "post (send_message lid) name
      ((wrap_message_up (ip4_packet proto ident 0 False f t dat) f t dat None)\<lparr> msg_id := sid \<rparr>) w = Inr (r, w')"
    "net_ok w'" "msg_data m' = wrap_up (ip4_packet proto ident 0 False f t dat) f t dat" "msg_type m' = msg_new" "adds name m' w w'"
    using ip4_post_up[OF assms(1-4), of dat "ip4_packet proto ident 0 False f t dat" name sid] assms(3-5) by (auto simp: length_ip4_packet)
  moreover have "ip4_run_in (send_message lid) t mappings icmp junk now m packets w = Inr (1, packets, w')"
    using ip4_run_in_packet[where mappings = mappings, OF assms(3,4) _ _ _ _ _ _ assms(9,10) sid, of "send_message lid" icmp junk now packets w] assms(5-8) p(1)
    by (simp add: small_def)
  ultimately show ?thesis by blast
qed

lemma tap_run_in_spare:
  assumes "net_ok w" "length lid < max_id_length" "length to_a = 6" "length from_a = 6" "28 \<le> length pl" "length pl < 70000"
    and "mappings_in ty = Some name" "spare (2 * length pl + 200) w name"
  shows "\<exists>w' m'. tap_run_in (send_message lid) to_a mappings_in (eth_frame to_a from_a ty pl) w = Inr w' \<and> net_ok w'
    \<and> msg_data m' = wrap_up (eth_frame to_a from_a ty pl) from_a to_a pl \<and> adds name m' w w'"
proof -
  let ?m = "wrap_message_up (eth_frame to_a from_a ty pl) from_a to_a pl None"
  obtain r w' where p: "tap_run_in (send_message lid) to_a mappings_in (eth_frame to_a from_a ty pl) w = Inr w'" "net_ok w'"
    "posted inbox capacity lid w name ?m r w'"
    using transport.tap_run_in_frame[OF shm_transport[OF assms(2)] assms(1,3,4,5), of to_a mappings_in ty name] assms(6,7)
    by (simp add: small_def) blast
  have "padded_length ?m \<le> 2 * length pl + 200"
    using assms(3,4,6) padded_length_wrapped(2)[of "eth_frame to_a from_a ty pl" from_a to_a pl None] by (simp add: eth_frame_fields)
  then obtain m' where "carries lid ?m m'" "adds name m' w w'" using posted_spare[OF p(3) assms(8)] by blast
  then show ?thesis using p(1,2) carries_fields(1)[of lid ?m m'] by auto
qed

lemma udp_run_in_spare:
  assumes "net_ok w" "length lid < max_id_length" "udp_datagram src dst dgram" "length full < 70000" "8 \<le> length full"
    and "msg_data m = wrap_up full src dst dgram @ pad" "mappings (get_uint16 (slice_at 2 2 dgram)) = Some name"
    and "spare (length full + length dgram + 200) w name"
  shows "\<exists>w' m'. udp_run_in (send_message lid) mappings icmp m w = Inr (1, w') \<and> net_ok w'
    \<and> msg_data m' = wrap_up full src dst (take 4 dgram @ drop 8 dgram @ take 8 full) \<and> adds name m' w w'"
proof -
  let ?m = "wrap_message_up full src dst (take 4 dgram @ drop 8 dgram @ take 8 full) None"
  obtain r w' where p: "udp_run_in (send_message lid) mappings icmp m w = Inr (1, w')" "net_ok w'"
    "posted inbox capacity lid w name ?m r w'"
    using transport.udp_run_in_mapped[where mappings = mappings, OF shm_transport[OF assms(2)] assms(1,3) _ assms(5,6,7), of icmp] assms(4)
    by (auto simp: small_def)
  have "padded_length ?m \<le> length full + length dgram + 200"
    using assms(3-5) udp_datagram_small[OF assms(3)] padded_length_wrapped(2)[of full src dst "take 4 dgram @ drop 8 dgram @ take 8 full" None]
    by (auto simp: udp_datagram_def)
  then obtain m' where "carries lid ?m m'" "adds name m' w w'" using posted_spare[OF p(3) assms(8)] by blast
  then show ?thesis using p(1,2) carries_fields(1)[of lid ?m m'] by auto
qed

text \<open>A device that takes every frame.\<close>

definition wire :: "bytes list device" where
  "wire packet sent = (int (length packet), sent @ [packet])"

lemma spare_idle_net: "k \<le> 1000000 \<Longrightarrow> spare k idle_net dest"
  by (simp add: spare_def inbox_def capacity_def idle_net_def begin_segment_empty total_size_begin_segment)

text \<open>Queues of the size the servers choose when the configuration names none.\<close>

definition usual_net :: net where
  "usual_net = \<lparr> segs = (\<lambda>_. Some (begin_segment None 16384)), os_up = (\<lambda>_. True), clock = 0 \<rparr>"

lemma usual_net_ok: "net_ok usual_net"
  by (simp add: net_ok_def usual_net_def begin_segment_empty)

lemma spare_usual_net: "spare k usual_net dest \<longleftrightarrow> k \<le> 16384"
  by (simp add: spare_def inbox_def capacity_def usual_net_def begin_segment_empty total_size_begin_segment)

section \<open>The IPv4 server understands the resolver\<close>

lemma find_sub_after:
  assumes "pat = c # p" "c \<notin> set x"
  shows "find_sub pat (x @ pat @ r) = Some (length x)"
  using assms(2)
proof (induction x)
  case Nil
  then show ?case by (simp add: assms(1) starts_with_def)
next
  case (Cons d x)
  then show ?case by (auto simp: assms(1) starts_with_def)
qed

lemma set_join: "set (join sep xs) \<subseteq> set sep \<union> \<Union> (set (map set xs))"
  by (induction sep xs rule: join.induct) auto

lemma not_in_addr_text:
  assumes "\<forall>d < 16. digit_char d \<noteq> c" "c \<noteq> CHR ''.''"
  shows "c \<notin> set (addr_to_str a CHR ''.'' False)"
proof -
  have "c \<notin> set (num_str 10 k)" for k using assms(1) by (rule digit_not_in_num_str)
  moreover have "set (addr_to_str a CHR ''.'' False) \<subseteq> set ''.'' \<union> \<Union> (set (map set (map (\<lambda>b. num_str 10 (unat b)) a)))"
    unfolding addr_to_str_def if_False by (rule set_join)
  ultimately show ?thesis using assms(2) by auto
qed

lemma signs_not_in_addr: "CHR ''='' \<notin> set (addr_to_str a CHR ''.'' False)" "CHR ''/'' \<notin> set (addr_to_str a CHR ''.'' False)"
  by (rule not_in_addr_text; simp)+

lemma resolves_reply:
  assumes "carries lid (resolver_reply (ip4_mac_reply ip a) nr) m" "length ip = 4" "length a = 6"
  shows "resolves junk m nr a"
proof -
  define x y where "x = ''ip4:'' @ addr_to_str ip CHR ''.'' False" and "y = addr_to_str a CHR '':'' True"
  have r: "ip4_mac_reply ip a = x @ ''=mac:'' @ y" by (simp add: ip4_mac_reply_def x_def y_def)
  have "small (length (ip4_mac_reply ip a))" using small_replies(1)[OF assms(3,2)] .
  then have "unat (word_of_nat (length (ip4_mac_reply ip a)) :: u32) = length (ip4_mac_reply ip a)"
    by (intro unat_of_nat_u32) (simp add: small_def)
  then have m: "msg_data m = to_bytes (ip4_mac_reply ip a)" "unat (msg_size m) = length (ip4_mac_reply ip a)" "msg_nr m = nr"
    using assms(1) by (simp_all add: carries_def resolver_reply_def allocate_shm_message_def)
  have "of_bytes (take (unat (msg_size m)) (msg_data m)) = ip4_mac_reply ip a" unfolding m(1,2) by simp
  then have t: "of_bytes (take (unat (msg_size m)) (msg_data m)) = x @ ''=mac:'' @ y" unfolding r .
  have "CHR ''='' \<notin> set x" using signs_not_in_addr(1) by (simp add: x_def)
  then have "find_sub ''=mac:'' (x @ ''=mac:'' @ y) = Some (length x)" by (intro find_sub_after) simp
  moreover have "a \<noteq> []" using assms(3) by auto
  then have "addr_of_string (drop (length x + 5) (x @ ''=mac:'' @ y)) '':'' True junk = Inr a"
    using addr_of_to_str(2)[of a junk] by (simp add: y_def)
  ultimately show ?thesis using m unfolding resolves_def t by simp
qed


end
