(* ===== verification/Host.thy ===== *)
theory Host
  imports Turns Stack
begin

text \<open>
  A host: the link, ARP, IPv4, ICMP, UDP, TCP, NTP and TIME servers with their queues, composed from their turns as
  their \<open>run\<close> functions compose them.  Any other process (an application) may send complete messages to any
  queue and take messages from any queue.  The threads take turns in any order.
\<close>

section \<open>Taking a message\<close>

text \<open>\<open>receive\<close>: one call of \<^verbatim>\<open>wait_for_message\<close> that times out when nothing is wanted.\<close>

definition receive :: "string \<Rightarrow> u32 \<Rightarrow> net \<Rightarrow> (message option \<times> net) res" where
  "receive q ty w =
     (case segs w q of
        None \<Rightarrow> Inr (None, w)
      | Some s \<Rightarrow>
          if \<not> os_up w q then Inr (None, w)
          else res_bind (wait_for_message ty None s [Timed_out]) (\<lambda>(m, s', held).
               Inr (m, w\<lparr> segs := (segs w)(q := Some s') \<rparr>)))"

definition sizes_ok :: "net \<Rightarrow> bool" where
  "sizes_ok w \<longleftrightarrow> (\<forall>q n. capacity w q = Some n \<longrightarrow> n < 2 ^ 24)"

lemma total_size_segs: "segs w q = Some s \<Longrightarrow> os_up w q \<Longrightarrow> sizes_ok w \<Longrightarrow> total_size s < 2 ^ 24"
  unfolding sizes_ok_def capacity_def by (metis (mono_tags, lifting) option.simps(5))

lemma take_message_lengths:
  "ends (take_message ty nr s) (\<lambda>r. \<forall>m s'. r = Some (m, s') \<longrightarrow> total_size s' = total_size s \<and> length (msg_data m) \<le> length (seg_data s))"
  unfolding take_message_def Let_def
  by (auto simp: dec_message_def split: option.split intro!: calm ends_any[of _ "scan d i n t nr" for d i n t nr])

lemma take_message_sizes:
  assumes "well_formed s" "take_message ty nr s = Inr (Some (m, s'))"
  shows "well_formed s'" "total_size s' = total_size s" "length (msg_data m) \<le> total_size s"
proof -
  show "well_formed s'" using take_message_outcome[OF assms(1), of ty nr] assms(2) by (metis Inr_inject option.distinct(1) option.inject prod.inject)
  show "total_size s' = total_size s" "length (msg_data m) \<le> total_size s"
    using endsD[OF take_message_lengths assms(2)] assms(1) by (auto simp: well_formed_def holds_def)
qed

lemma receive_takes:
  assumes "segs w q = Some s" "os_up w q"
  shows "receive q ty w = res_bind (take_message ty None s) (\<lambda>r. Inr (case r of
    None \<Rightarrow> (None, w\<lparr> segs := (segs w)(q := Some s) \<rparr>) | Some (m, s') \<Rightarrow> (Some m, w\<lparr> segs := (segs w)(q := Some s') \<rparr>)))"
  using assms by (simp add: receive_def wait_for_message.simps res_bind_def split: sum.split option.split)

lemma receive_kept:
  assumes "net_ok w" "sizes_ok w"
  shows "ends (receive q ty w) (\<lambda>(m, w'). kept w w' \<and> pred_option (\<lambda>m. modest (msg_data m)) m)"
proof (cases "segs w q")
  case (Some s)
  then have wf: "well_formed s" using assms(1) by (auto simp: net_ok_def)
  show ?thesis
  proof (cases "os_up w q")
    case True
    note sz = total_size_segs[OF Some True assms(2)]
    from take_message_outcome[OF wf, of ty None] show ?thesis
    proof cases
      case 1
      moreover have "w\<lparr> segs := (segs w)(q := Some s) \<rparr> = w" using Some by (simp add: fun_upd_idem)
      ultimately show ?thesis using receive_takes[OF Some True, of ty] assms(1) by (simp add: kept_refl)
    next
      case (2 m s')
      note t = take_message_sizes[OF wf 2(1)]
      have "kept w (w\<lparr> segs := (segs w)(q := Some s') \<rparr>)"
        using assms(1) t Some by (auto simp: kept_def net_ok_def capacity_update)
      then show ?thesis using receive_takes[OF Some True, of ty] 2(1) t(3) sz by (simp add: modest_def)
    qed
  qed (use Some assms(1) in \<open>simp add: receive_def kept_refl\<close>)
qed (use assms(1) in \<open>simp add: receive_def kept_refl\<close>)

section \<open>The servers of a host\<close>

text \<open>What the servers were started with: the names of their queues, their addresses and their mappings.\<close>

record wiring =
  tap_q :: string
  tap_meta_q :: string
  tap_mac :: addr
  tap_frames :: "u16 \<Rightarrow> string option"
  tap_types :: "string \<Rightarrow> u16 option"
  arp_q :: string
  arp_resolver_q :: string
  arp_out :: string
  arp_mac :: addr
  arp_ip :: addr
  ip_q :: string
  ip_upper_q :: string
  ip_replies_q :: string
  ip_meta_q :: string
  ip_addr :: addr
  ip_bits :: int
  ip_gw :: addr
  ip_protos :: "byte \<Rightarrow> string option"
  ip_numbers :: "string \<Rightarrow> byte option"
  ip_link :: string
  ip_resolver :: string
  ip_icmp :: string
  ip_mtu :: int
  icmp_q :: string
  icmp_err_q :: string
  icmp_out :: string
  udp_q :: string
  udp_upper_q :: string
  udp_out :: string
  udp_icmp :: string
  udp_ports :: "u16 \<Rightarrow> string option"
  tcp_q :: string
  tcp_upper_q :: string
  tcp_meta_q :: string
  tcp_out :: string
  tcp_addr :: addr
  tcp_salt :: bytes
  tcp_services :: "u16 \<Rightarrow> string option"
  ntp_q :: string
  ntp_out :: string
  time_q :: string
  time_out :: string

record host =
  h_net :: net
  h_sent :: "bytes list"
  h_arp :: arp_state
  h_frags :: "(u64, packet) std_map"
  h_pending :: out_state
  h_sessions :: sessions
  h_ports :: "(u16, u64) std_map"

text \<open>What happens next: a frame arrives, a thread takes its turn (with the time, the random numbers and the
  uninitialised memory it finds), or another process sends or receives.\<close>

datatype event =
    Frame bytes
  | Tap_out bool
  | Tap_meta
  | Arp_in
  | Arp_resolve "nat \<Rightarrow> byte" u64
  | Ip_in "nat \<Rightarrow> byte" u64
  | Ip_out u64
  | Ip_send "nat \<Rightarrow> byte" u16
  | Ip_meta
  | Ip_clean_frags u64
  | Ip_clean_pending u64
  | Icmp_in
  | Icmp_error
  | Udp_in
  | Udp_out "nat \<Rightarrow> byte"
  | Tcp_in nat u64
  | Tcp_out
  | Tcp_send
  | Tcp_meta "nat \<Rightarrow> byte" "u16 list" u32
  | Tcp_clean u64
  | Ntp nat nat
  | Time nat
  | Sends string string message bool
  | Takes string u32
  | Tick u64

text \<open>A turn of a thread that waits for a message: without one it goes round its loop.\<close>

definition turn :: "string \<Rightarrow> u32 \<Rightarrow> (message \<Rightarrow> net \<Rightarrow> host res) \<Rightarrow> host \<Rightarrow> host res" where
  "turn q ty f h =
     res_bind (receive q ty (h_net h)) (\<lambda>(m, w).
     case m of None \<Rightarrow> Inr (h\<lparr> h_net := w \<rparr>) | Some m \<Rightarrow> f m w)"

text \<open>The device takes a frame or does not.\<close>

definition device :: "bool \<Rightarrow> bytes list device" where
  "device works packet sent = (if works then (int (length packet), sent @ [packet]) else (-1, sent))"

definition in_net :: "host \<Rightarrow> (nat \<times> net) res \<Rightarrow> host res" where
  "in_net h r = res_bind r (\<lambda>(n, w). Inr (h\<lparr> h_net := w \<rparr>))"

fun host_turn :: "wiring \<Rightarrow> event \<Rightarrow> host \<Rightarrow> host res" where
  "host_turn c (Frame f) h =
     res_bind (tap_run_in (send_message (tap_q c)) (tap_mac c) (tap_frames c) f (h_net h)) (\<lambda>w. Inr (h\<lparr> h_net := w \<rparr>))"
| "host_turn c (Tap_out works) h = turn (tap_q c) msg_any (\<lambda>m w.
     res_bind (tap_run_out (device works) (tap_types c) m (h_sent h)) (\<lambda>(n, sent). Inr (h\<lparr> h_net := w, h_sent := sent \<rparr>))) h"
| "host_turn c Tap_meta h = turn (tap_meta_q c) msg_new (\<lambda>m w. in_net h (tap_run_meta (send_message (tap_meta_q c)) (tap_mac c) m w)) h"
| "host_turn c Arp_in h = turn (arp_q c) msg_new (\<lambda>m w.
     res_bind (arp_run_in (send_message (arp_q c)) (arp_mac c) (arp_ip c) (send_message (arp_resolver_q c)) m (h_arp h) w) (\<lambda>(n, st, w).
     Inr (h\<lparr> h_net := w, h_arp := st \<rparr>))) h"
| "host_turn c (Arp_resolve junk nr) h = turn (arp_resolver_q c) msg_new (\<lambda>m w.
     res_bind (arp_run_resolver (send_message (arp_resolver_q c)) (arp_ip c) (arp_mac c) (arp_out c) (send_message (arp_q c)) junk nr m (h_arp h) w)
       (\<lambda>(n, st, w). Inr (h\<lparr> h_net := w, h_arp := st \<rparr>))) h"
| "host_turn c (Ip_in junk now) h = turn (ip_q c) msg_any (\<lambda>m w.
     res_bind (ip4_run_in (send_message (ip_q c)) (ip_addr c) (ip_protos c) (ip_icmp c) junk now m (h_frags h) w) (\<lambda>(n, frags, w).
     Inr (h\<lparr> h_net := w, h_frags := frags \<rparr>))) h"
| "host_turn c (Ip_out now) h = turn (ip_upper_q c) msg_any (\<lambda>m w.
     res_bind (ip4_run_out (ip_addr c) (ip_bits c) (ip_gw c) (send_message (ip_replies_q c)) (ip_resolver c) now m (h_pending h) w) (\<lambda>(n, st, w).
     Inr (h\<lparr> h_net := w, h_pending := st \<rparr>))) h"
| "host_turn c (Ip_send junk ident) h = turn (ip_replies_q c) msg_reply (\<lambda>m w.
     res_bind (ip4_sender (2 ^ 24) (send_message (ip_q c)) (ip_link c) (ip_numbers c) (ip_mtu c) junk ident m (h_pending h) w) (\<lambda>(n, st, w).
     Inr (h\<lparr> h_net := w, h_pending := st \<rparr>))) h"
| "host_turn c Ip_meta h = turn (ip_meta_q c) msg_new (\<lambda>m w. in_net h (ip4_run_meta (send_message (ip_meta_q c)) (ip_addr c) m w)) h"
| "host_turn c (Ip_clean_frags now) h = Inr (h\<lparr> h_frags := ip4_clean_packets now (h_frags h) \<rparr>)"
| "host_turn c (Ip_clean_pending now) h = res_bind (ip4_clean_pending now (h_pending h)) (\<lambda>st. Inr (h\<lparr> h_pending := st \<rparr>))"
| "host_turn c Icmp_in h = turn (icmp_q c) msg_new (\<lambda>m w. in_net h (icmp_run_in (send_message (icmp_q c)) (icmp_out c) m w)) h"
| "host_turn c Icmp_error h = turn (icmp_err_q c) msg_new (\<lambda>m w. in_net h (icmp_run_err (send_message (icmp_q c)) (icmp_out c) m w)) h"
| "host_turn c Udp_in h = turn (udp_q c) msg_new (\<lambda>m w. in_net h (udp_run_in (send_message (udp_q c)) (udp_ports c) (udp_icmp c) m w)) h"
| "host_turn c (Udp_out junk) h = turn (udp_upper_q c) msg_new (\<lambda>m w. in_net h (udp_run_out junk (send_message (udp_q c)) (udp_out c) m w)) h"
| "host_turn c (Tcp_in now us) h = turn (tcp_q c) msg_new (\<lambda>m w.
     res_bind (tcp_run_in (send_message (tcp_q c)) (tcp_out c) (tcp_services c) (tcp_salt c) now us m (h_sessions h) w) (\<lambda>(n, ss, w).
     Inr (h\<lparr> h_net := w, h_sessions := ss \<rparr>))) h"
| "host_turn c Tcp_out h = turn (tcp_upper_q c) msg_any (\<lambda>m w.
     res_bind (tcp_run_out m (h_sessions h)) (\<lambda>(n, ss). Inr (h\<lparr> h_net := w, h_sessions := ss \<rparr>))) h"
| "host_turn c Tcp_send h =
     res_bind (tcp_sender_pass (send_message (tcp_q c)) (tcp_out c) (h_sessions h) (h_net h)) (\<lambda>(ss, w).
     Inr (h\<lparr> h_net := w, h_sessions := ss \<rparr>))"
| "host_turn c (Tcp_meta junk rand isn) h = turn (tcp_meta_q c) msg_new (\<lambda>m w.
     res_bind (tcp_run_meta (send_message (tcp_q c)) (tcp_out c) (tcp_addr c) (send_message (tcp_meta_q c)) junk rand isn m (h_sessions h) (h_ports h) w)
       (\<lambda>(n, ss, ports, w). Inr (h\<lparr> h_net := w, h_sessions := ss, h_ports := ports \<rparr>))) h"
| "host_turn c (Tcp_clean now) h = Inr (h\<lparr> h_sessions := tcp_run_clean now (h_sessions h) \<rparr>)"
| "host_turn c (Ntp sec nsec) h = turn (ntp_q c) msg_new (\<lambda>m w. in_net h (ntp_run_in (send_message (ntp_q c)) (ntp_out c) sec nsec m w)) h"
| "host_turn c (Time now) h = turn (time_q c) msg_any (\<lambda>m w. in_net h (time_run_in (send_message (time_q c)) (time_out c) now m w)) h"
| "host_turn c (Sends lid q m blocking) h = res_bind (send_message lid q m blocking (h_net h)) (\<lambda>(r, m, w). Inr (h\<lparr> h_net := w \<rparr>))"
| "host_turn c (Takes q ty) h = turn q ty (\<lambda>m w. Inr (h\<lparr> h_net := w \<rparr>)) h"
| "host_turn c (Tick t) h = Inr (h\<lparr> h_net := (h_net h)\<lparr> clock := t \<rparr> \<rparr>)"

fun host_run :: "wiring \<Rightarrow> event list \<Rightarrow> host \<Rightarrow> host res" where
  "host_run c [] h = Inr h"
| "host_run c (e # es) h = res_bind (host_turn c e h) (host_run c es)"

section \<open>A host stays sound\<close>

definition wired :: "wiring \<Rightarrow> bool" where
  "wired c \<longleftrightarrow> (\<forall>q \<in> {tap_q c, tap_meta_q c, arp_q c, arp_resolver_q c, ip_q c, ip_replies_q c, ip_meta_q c, icmp_q c, udp_q c, tcp_q c, tcp_meta_q c,
       ntp_q c, time_q c}. length q < max_id_length)
     \<and> length (tap_mac c) = 6 \<and> length (arp_mac c) = 6 \<and> length (ip_addr c) = 4 \<and> length (ip_gw c) \<le> 2 ^ 24 \<and> length (tcp_addr c) \<le> 2 ^ 24"

text \<open>What another process does fits its interface, and a frame is one that \<^verbatim>\<open>read\<close> can return.\<close>

definition proper :: "event \<Rightarrow> bool" where
  "proper e \<longleftrightarrow> (case e of Frame f \<Rightarrow> length f \<le> 65536 | Sends lid q m blocking \<Rightarrow> length lid < max_id_length \<and> filled_in m | _ \<Rightarrow> True)"

definition host_ok :: "host \<Rightarrow> bool" where
  "host_ok h \<longleftrightarrow> net_ok (h_net h) \<and> sizes_ok (h_net h) \<and> arp_ok (h_arp h) \<and> frags_ok (h_frags h) \<and> pending_ok (h_pending h)
     \<and> table_ok (h_sessions h) \<and> map_ok (h_ports h)"

definition steps_to :: "host \<Rightarrow> host \<Rightarrow> bool" where
  "steps_to h h' \<longleftrightarrow> host_ok h' \<and> capacity (h_net h') = capacity (h_net h)"

lemma sizes_kept: "kept w w' \<Longrightarrow> sizes_ok w' = sizes_ok w"
  by (simp add: kept_def sizes_ok_def)

lemma steps_to_net: "host_ok h \<Longrightarrow> kept (h_net h) w \<Longrightarrow> steps_to h (h\<lparr> h_net := w \<rparr>)"
  by (auto simp: host_ok_def steps_to_def kept_def sizes_ok_def)

lemma ends_turn:
  assumes "host_ok h" "\<And>m w. kept (h_net h) w \<Longrightarrow> net_ok w \<Longrightarrow> modest (msg_data m) \<Longrightarrow> ends (f m w) (steps_to h)"
  shows "ends (turn q ty f h) (steps_to h)"
proof -
  have step: "ends (case r of (None, w) \<Rightarrow> Inr (h\<lparr> h_net := w \<rparr>) | (Some m, w) \<Rightarrow> f m w) (steps_to h)"
    if "case r of (m, w) \<Rightarrow> kept (h_net h) w \<and> pred_option (\<lambda>m. modest (msg_data m)) m" for r
    using that assms(2)[OF _ keptD(1)] steps_to_net[OF assms(1)] by (auto split: prod.split option.split)
  have "ends (receive q ty (h_net h)) (\<lambda>(m, w). kept (h_net h) w \<and> pred_option (\<lambda>m. modest (msg_data m)) m)"
    using assms(1) by (intro receive_kept) (auto simp: host_ok_def)
  then show ?thesis unfolding turn_def ends_simps by (rule ends_weaken) (use step in \<open>auto split: prod.split\<close>)
qed

lemma ends_in_net:
  assumes "host_ok h" "kept (h_net h) w" "ends r (\<lambda>(n, w'). kept w w')"
  shows "ends (in_net h r) (steps_to h)"
  unfolding in_net_def ends_simps by (rule ends_weaken[OF assms(3)]) (use assms(1,2) steps_to_net kept_trans in auto)

lemma wiredD:
  assumes "wired c"
  shows "length (tap_q c) < max_id_length" "length (tap_meta_q c) < max_id_length" "length (arp_q c) < max_id_length"
    "length (arp_resolver_q c) < max_id_length" "length (ip_q c) < max_id_length" "length (ip_replies_q c) < max_id_length"
    "length (ip_meta_q c) < max_id_length" "length (icmp_q c) < max_id_length" "length (udp_q c) < max_id_length"
    "length (tcp_q c) < max_id_length" "length (tcp_meta_q c) < max_id_length" "length (ntp_q c) < max_id_length"
    "length (time_q c) < max_id_length" "length (tap_mac c) < 2 ^ 24" "length (arp_mac c) = 6" "length (ip_addr c) < 2 ^ 24"
    "length (ip_gw c) \<le> 2 ^ 24" "length (tcp_addr c) \<le> 2 ^ 24"
  using assms by (simp_all add: wired_def)

text \<open>The turns that change one of the tables.\<close>

lemma steps_to_tables:
  assumes "host_ok h" "kept (h_net h) w" "kept w w'"
  shows "arp_ok st \<Longrightarrow> steps_to h (h\<lparr> h_net := w', h_arp := st \<rparr>)"
    "frags_ok fs \<Longrightarrow> steps_to h (h\<lparr> h_net := w', h_frags := fs \<rparr>)"
    "pending_ok ps \<Longrightarrow> steps_to h (h\<lparr> h_net := w', h_pending := ps \<rparr>)"
    "table_ok ss \<Longrightarrow> steps_to h (h\<lparr> h_net := w', h_sessions := ss \<rparr>)"
    "table_ok ss \<Longrightarrow> map_ok ports \<Longrightarrow> steps_to h (h\<lparr> h_net := w', h_sessions := ss, h_ports := ports \<rparr>)"
  using steps_to_net[OF assms(1) kept_trans[OF assms(2,3)]] by (auto simp: steps_to_def host_ok_def)

lemma ends_tables:
  assumes "host_ok h" "kept (h_net h) w"
  shows "ends r1 (\<lambda>(n, st, w'). kept w w' \<and> arp_ok st) \<Longrightarrow> ends r1 (\<lambda>x. ends (case x of (n, st, w') \<Rightarrow> Inr (h\<lparr> h_net := w', h_arp := st \<rparr>)) (steps_to h))"
    "ends r2 (\<lambda>(n, fs, w'). kept w w' \<and> frags_ok fs) \<Longrightarrow> ends r2 (\<lambda>x. ends (case x of (n, fs, w') \<Rightarrow> Inr (h\<lparr> h_net := w', h_frags := fs \<rparr>)) (steps_to h))"
    "ends r3 (\<lambda>(n, ps, w'). kept w w' \<and> pending_ok ps) \<Longrightarrow> ends r3 (\<lambda>x. ends (case x of (n, ps, w') \<Rightarrow> Inr (h\<lparr> h_net := w', h_pending := ps \<rparr>)) (steps_to h))"
    "ends r4 (\<lambda>(n, ss, w'). kept w w' \<and> table_ok ss) \<Longrightarrow> ends r4 (\<lambda>x. ends (case x of (n, ss, w') \<Rightarrow> Inr (h\<lparr> h_net := w', h_sessions := ss \<rparr>)) (steps_to h))"
    "ends r5 (\<lambda>(n, ss, ports, w'). kept w w' \<and> table_ok ss \<and> map_ok ports)
       \<Longrightarrow> ends r5 (\<lambda>x. ends (case x of (n, ss, ports, w') \<Rightarrow> Inr (h\<lparr> h_net := w', h_sessions := ss, h_ports := ports \<rparr>)) (steps_to h))"
  using steps_to_tables[OF assms] by (auto elim!: ends_weaken)

lemma host_turn_ok:
  assumes "wired c" "proper e" "host_ok h"
  shows "ends (host_turn c e h) (steps_to h)"
proof -
  note c = wiredD[OF assms(1)]
  have ok: "net_ok (h_net h)" "arp_ok (h_arp h)" "frags_ok (h_frags h)" "pending_ok (h_pending h)" "table_ok (h_sessions h)" "map_ok (h_ports h)"
    using assms(3) by (simp_all add: host_ok_def)
  note turn = ends_turn[OF assms(3)] and in_net = ends_in_net[OF assms(3)] and tables = ends_tables[OF assms(3)]
  have self: "kept (h_net h) (h_net h)" using ok(1) by (rule kept_refl)
  note net = steps_to_net[OF assms(3)] and all = steps_to_tables[OF assms(3) self self, simplified]
  have outside: "steps_to h (h'\<lparr> h_sent := sent \<rparr>) = steps_to h h'" for h' sent by (simp add: steps_to_def host_ok_def)
  show ?thesis
  proof (cases e)
    case (Frame f)
    have "ends (tap_run_in (send_message (tap_q c)) (tap_mac c) (tap_frames c) f (h_net h)) (kept (h_net h))"
      using assms(2) Frame by (intro tap_run_in_kept ok c) (simp add: proper_def)
    then show ?thesis using Frame net by (auto elim!: ends_weaken)
  next
    case (Tap_out works)
    then show ?thesis by (auto intro!: turn ends_any[of _ "tap_run_out d t m x" for d t m x] net simp: outside)
  next
    case (Ip_clean_frags now)
    then show ?thesis using ok(3) by (simp add: all ip4_clean_packets_ok)
  next
    case (Ip_clean_pending now)
    then show ?thesis using ends_weaken[OF ip4_clean_pending_ok[OF ok(4)]] all(3) by simp
  next
    case Tcp_out
    have "ends (tcp_run_out m (h_sessions h)) (\<lambda>x. ends (case x of (n, ss) \<Rightarrow> Inr (h\<lparr> h_net := w, h_sessions := ss \<rparr>)) (steps_to h))"
      if "kept (h_net h) w" for m w
      using steps_to_tables(4)[OF assms(3) that kept_refl[OF keptD(1)[OF that]]] by (auto intro!: ends_weaken[OF tcp_run_out_kept[OF ok(5)]])
    then show ?thesis using Tcp_out by (auto intro: turn)
  next
    case Tcp_send
    have "table_ok ss" if "map fst ss = map fst (h_sessions h)" "\<forall>(k, s) \<in> set ss. peers_ok s" for ss
      using ok(5) that by (simp add: table_ok_def map_ok_def)
    then show ?thesis using Tcp_send ok(1,5) steps_to_tables(4)[OF assms(3) self]
      by (auto intro!: ends_weaken[OF tcp_sender_pass_kept] c simp: table_ok_def)
  next
    case (Tcp_clean now)
    then show ?thesis using ok(5) by (simp add: all tcp_run_clean_ok)
  next
    case (Sends lid q m b)
    then show ?thesis using assms(2) ok(1) net by (auto simp: proper_def intro!: ends_send)
  next
    case (Tick t)
    have "kept (h_net h) ((h_net h)\<lparr> clock := t \<rparr>)" using ok(1) by (simp add: kept_def net_ok_def capacity_def fun_eq_iff split: option.split)
    then show ?thesis using Tick net by simp
  qed (auto intro!: turn in_net tables c ok tap_run_meta_kept icmp_run_in_kept icmp_run_err_kept udp_run_in_kept udp_run_out_kept ntp_run_in_kept time_run_in_kept
    arp_run_in_kept arp_run_resolver_kept ip4_run_in_kept ip4_run_out_kept ip4_sender_kept ip4_run_meta_kept tcp_run_in_kept tcp_run_meta_kept net)
qed

lemma host_run_ok:
  assumes "wired c" "\<forall>e \<in> set es. proper e" "host_ok h"
  shows "ends (host_run c es h) (steps_to h)"
  using assms(2,3)
proof (induction es arbitrary: h)
  case (Cons e es)
  have "ends (host_run c es h') (steps_to h)" if "steps_to h h'" for h'
    using Cons(1)[of h'] Cons(2) that by (auto simp: steps_to_def elim: ends_weaken)
  then show ?case using host_turn_ok[OF assms(1), of e h] Cons(2,3) by (auto elim: ends_weaken)
qed (simp add: steps_to_def)

end
