(* ===== verification/Config.thy ===== *)
theory Config
  imports Text
begin

text \<open>
  The mappings of \<^verbatim>\<open>src/common.cpp\<close>: which queue serves which port, protocol or frame type.  The
  configuration file is read by a library; its keys (with the name of their section in front)
  and their values are arguments.  \<open>None\<close>: the server gives up with \<^verbatim>\<open>exit(1)\<close>.
\<close>

text \<open>\<^verbatim>\<open>std::map::insert\<close> keeps what is there.\<close>

definition map_insert :: "'k \<Rightarrow> 'v \<Rightarrow> ('k \<Rightarrow> 'v option) \<Rightarrow> 'k \<Rightarrow> 'v option" where
  "map_insert k v m = (case m k of None \<Rightarrow> m(k \<mapsto> v) | Some _ \<Rightarrow> m)"

text \<open>The text behind the first colon of a key.\<close>

definition behind_colon :: "string \<Rightarrow> string res" where
  "behind_colon key = (case find_sub '':'' key of None \<Rightarrow> Inl Out_of_bounds | Some col \<Rightarrow> Inr (drop (col + 1) key))"

fun load_mappings_single ::
  "(string \<Rightarrow> string) \<Rightarrow> string list \<Rightarrow> (u16 \<Rightarrow> string option) \<Rightarrow> (u16 \<Rightarrow> string option) option res" where
  "load_mappings_single getstring [] mappings_in = Inr (Some mappings_in)"
| "load_mappings_single getstring (key # keys) mappings_in =
     (let v = getstring key in
      if v = [] then Inr None
      else res_bind (behind_colon key) (\<lambda>t.
        res_bind (my_stoi_dec t) (\<lambda>k. case k of
            None \<Rightarrow> Inr None
          | Some k \<Rightarrow> load_mappings_single getstring keys (map_insert (word_of_int k) v mappings_in))))"

fun load_mappings_duo ::
  "(string \<Rightarrow> string) \<Rightarrow> string list \<Rightarrow> (u16 \<Rightarrow> string option) \<Rightarrow> (string \<Rightarrow> u16 option)
    \<Rightarrow> ((u16 \<Rightarrow> string option) \<times> (string \<Rightarrow> u16 option)) option res" where
  "load_mappings_duo getstring [] mappings_in mappings_out = Inr (Some (mappings_in, mappings_out))"
| "load_mappings_duo getstring (key # keys) mappings_in mappings_out =
     (let v = getstring key in
      if v = [] then Inr None
      else res_bind (behind_colon key) (\<lambda>t.
        res_bind (my_stoi_hex t) (\<lambda>k. case k of
            None \<Rightarrow> Inr None
          | Some k \<Rightarrow> load_mappings_duo getstring keys (map_insert (word_of_int k) v mappings_in)
              (map_insert v (word_of_int k) mappings_out))))"

section \<open>Lemmas\<close>

text \<open>The number a key stands for, cut to 16 bits.\<close>

definition key_number :: "string \<Rightarrow> u16 option" where
  "key_number key = (case res_bind (behind_colon key) my_stoi_hex of Inr (Some k) \<Rightarrow> Some (word_of_int k) | _ \<Rightarrow> None)"

lemma map_insert_new: "m k = None \<Longrightarrow> map_insert k v m = m(k \<mapsto> v)"
  by (simp add: map_insert_def)

lemma load_mappings_duo_step:
  assumes "load_mappings_duo getstring (key # keys) mi mo = Inr (Some r)"
  shows "\<exists>k. key_number key = Some k \<and> getstring key \<noteq> []
    \<and> load_mappings_duo getstring keys (map_insert k (getstring key) mi) (map_insert (getstring key) k mo) = Inr (Some r)"
  using assms
  by (auto simp: res_bind_eq_Inr key_number_def Let_def split: if_splits option.splits)

lemma load_mappings_duo_inverse:
  assumes "load_mappings_duo getstring keys mi mo = Inr (Some (mi', mo'))"
    and "distinct (map key_number keys)" "distinct (map getstring keys)"
    and "\<And>k v. mi k = Some v \<longleftrightarrow> mo v = Some k"
    and "\<And>key k. key \<in> set keys \<Longrightarrow> key_number key = Some k \<Longrightarrow> mi k = None"
    and "\<And>key. key \<in> set keys \<Longrightarrow> mo (getstring key) = None"
  shows "(mi' k = Some v \<longleftrightarrow> mo' v = Some k)
    \<and> (mi' k = Some v \<longleftrightarrow> mi k = Some v \<or> (\<exists>key \<in> set keys. key_number key = Some k \<and> getstring key = v))"
  using assms
proof (induction keys arbitrary: mi mo)
  case (Cons key keys)
  obtain j where j: "key_number key = Some j"
    "load_mappings_duo getstring keys (map_insert j (getstring key) mi) (map_insert (getstring key) j mo) = Inr (Some (mi', mo'))"
    using load_mappings_duo_step[OF Cons.prems(1)] by blast
  have new: "mi j = None" "mo (getstring key) = None" using Cons.prems(5)[of key j] Cons.prems(6)[of key] j(1) by simp_all
  have ins: "map_insert j (getstring key) mi = mi(j \<mapsto> getstring key)" "map_insert (getstring key) j mo = mo(getstring key \<mapsto> j)"
    using new by (simp_all add: map_insert_new)
  have "(mi' k = Some v \<longleftrightarrow> mo' v = Some k)
    \<and> (mi' k = Some v \<longleftrightarrow> (mi(j \<mapsto> getstring key)) k = Some v \<or> (\<exists>key \<in> set keys. key_number key = Some k \<and> getstring key = v))"
  proof (rule Cons.IH[OF j(2)[unfolded ins]])
    show "((mi(j \<mapsto> getstring key)) k' = Some v') = ((mo(getstring key \<mapsto> j)) v' = Some k')" for k' v'
      using Cons.prems(4)[of k' v'] new Cons.prems(4)[of j v'] Cons.prems(4)[of k' "getstring key"] by auto
    show "(mi(j \<mapsto> getstring key)) k' = None" if "key' \<in> set keys" "key_number key' = Some k'" for key' k'
      using Cons.prems(2) Cons.prems(5)[of key' k'] that j(1) by (force simp: image_iff)
    show "(mo(getstring key \<mapsto> j)) (getstring key') = None" if "key' \<in> set keys" for key'
      using Cons.prems(3) Cons.prems(6)[of key'] that by (force simp: image_iff)
  qed (use Cons.prems(2,3) in simp_all)
  then show ?case using new j(1) by (auto split: if_splits)
qed simp

section \<open>Properties\<close>

text \<open>When a configuration gives every number and every queue once, the two tables of a server are inverse
  to each other and hold exactly what the file says.\<close>

theorem mappings_inverse:
  assumes "load_mappings_duo getstring keys (\<lambda>_. None) (\<lambda>_. None) = Inr (Some (mappings_in, mappings_out))"
    and "distinct (map key_number keys)" "distinct (map getstring keys)"
  shows "(mappings_in k = Some v \<longleftrightarrow> mappings_out v = Some k)
    \<and> (mappings_in k = Some v \<longleftrightarrow> (\<exists>key \<in> set keys. key_number key = Some k \<and> getstring key = v))"
  using load_mappings_duo_inverse[OF assms, of k v] by simp blast

end
