(* ===== verification/Log.thy ===== *)
theory Log
  imports Text
begin

text \<open>
  \<^verbatim>\<open>src/utils/log.cpp\<close> and \<^verbatim>\<open>src/utils/log.h\<close>: the level of the logger, the filter of the
  \<^verbatim>\<open>DOLOG\<close> macro and the line that goes to the file and to the standard output.  The text of the
  time and what \<^verbatim>\<open>vasprintf\<close> makes of a format are arguments.
\<close>

datatype loglevel_t = ll_trace | ll_debug | ll_info | ll_warning | ll_error | ll_fatal

primrec ll_index :: "loglevel_t \<Rightarrow> nat" where
  "ll_index ll_trace = 0"
| "ll_index ll_debug = 1"
| "ll_index ll_info = 2"
| "ll_index ll_warning = 3"
| "ll_index ll_error = 4"
| "ll_index ll_fatal = 5"

lemma ll_index_inject: "ll_index a = ll_index b \<longleftrightarrow> a = b"
  by (cases a; cases b) simp_all

instantiation loglevel_t :: linorder
begin

definition less_eq_loglevel_t :: "loglevel_t \<Rightarrow> loglevel_t \<Rightarrow> bool" where
  "less_eq_loglevel_t a b \<longleftrightarrow> ll_index a \<le> ll_index b"

definition less_loglevel_t :: "loglevel_t \<Rightarrow> loglevel_t \<Rightarrow> bool" where
  "less_loglevel_t a b \<longleftrightarrow> ll_index a < ll_index b"

instance
  by standard (auto simp: less_eq_loglevel_t_def less_loglevel_t_def ll_index_inject)

end

record logger =
  lg_ll :: loglevel_t
  lg_file :: string

definition new_logger :: logger where
  "new_logger = \<lparr> lg_ll = ll_trace, lg_file = ''logfile.txt'' \<rparr>"

text \<open>A name that is not known leaves the level as it is.\<close>

definition set_loglevel :: "string \<Rightarrow> logger \<Rightarrow> logger" where
  "set_loglevel ll l =
     (if ll = ''debug'' then l\<lparr> lg_ll := ll_debug \<rparr>
      else if ll = ''trace'' then l\<lparr> lg_ll := ll_trace \<rparr>
      else if ll = ''info'' then l\<lparr> lg_ll := ll_info \<rparr>
      else if ll = ''warning'' then l\<lparr> lg_ll := ll_warning \<rparr>
      else if ll = ''error'' then l\<lparr> lg_ll := ll_error \<rparr>
      else if ll = ''fatal'' then l\<lparr> lg_ll := ll_fatal \<rparr>
      else l)"

definition set_logfile :: "string \<Rightarrow> logger \<Rightarrow> logger" where
  "set_logfile name l = l\<lparr> lg_file := name \<rparr>"

section \<open>A line of the log\<close>

primrec ll_str :: "loglevel_t \<Rightarrow> string" where
  "ll_str ll_trace = ''TRC''"
| "ll_str ll_debug = ''DBG''"
| "ll_str ll_info = ''INF''"
| "ll_str ll_warning = ''WRN''"
| "ll_str ll_error = ''ERR''"
| "ll_str ll_fatal = ''FTL''"

text \<open>What is behind the last slash (\<^verbatim>\<open>strrchr\<close>).\<close>

fun base_name :: "string \<Rightarrow> string" where
  "base_name [] = []"
| "base_name (c # cs) = (if c = CHR ''/'' \<and> c \<notin> set cs then cs else if CHR ''/'' \<in> set cs then base_name cs else c # cs)"

definition log_line :: "string \<Rightarrow> loglevel_t \<Rightarrow> string \<Rightarrow> string option \<Rightarrow> string \<Rightarrow> string \<Rightarrow> string" where
  "log_line now ll src p function_name log_buffer =
     now @ '' '' @ ll_str ll @ '' '' @ base_name src
     @ (case p of None \<Rightarrow> '' ['' | Some a \<Rightarrow> '' ['' @ a @ ''] ['') @ function_name @ ''] '' @ log_buffer @ [CHR 0x0A]"

text \<open>Where lines go: files by name, and the standard output.\<close>

record log_io =
  lo_files :: "string \<Rightarrow> string"
  lo_stdout :: string

text \<open>\<open>None\<close>: \<^verbatim>\<open>vasprintf\<close> failed, the process exits.\<close>

definition dolog ::
  "logger \<Rightarrow> string \<Rightarrow> loglevel_t \<Rightarrow> string \<Rightarrow> string option \<Rightarrow> string \<Rightarrow> string option \<Rightarrow> log_io \<Rightarrow> log_io option" where
  "dolog l now ll src p function_name vasprintf io =
     (case vasprintf of
        None \<Rightarrow> None
      | Some log_buffer \<Rightarrow>
          let buffer = log_line now ll src p function_name log_buffer
          in Some \<lparr> lo_files = (lo_files io)(lg_file l := lo_files io (lg_file l) @ buffer), lo_stdout = lo_stdout io @ buffer \<rparr>)"

definition DOLOG ::
  "logger \<Rightarrow> string \<Rightarrow> loglevel_t \<Rightarrow> string \<Rightarrow> string \<Rightarrow> string option \<Rightarrow> log_io \<Rightarrow> log_io option" where
  "DOLOG l now ll src function_name vasprintf io =
     (if lg_ll l \<le> ll then dolog l now ll src None function_name vasprintf io else Some io)"

text \<open>The kernel takes 15 characters at most.\<close>

definition set_thread_name :: "string \<Rightarrow> string" where
  "set_thread_name name = (if 15 < length name then take 15 name else name)"

section \<open>Properties\<close>

lemma base_name_no_slash: "CHR ''/'' \<notin> set (base_name f)"
  by (induction f rule: base_name.induct) auto

lemma base_name_plain: "CHR ''/'' \<notin> set f \<Longrightarrow> base_name f = f"
  by (cases f) auto

lemma base_name_append: "CHR ''/'' \<notin> set f \<Longrightarrow> base_name (d @ CHR ''/'' # f) = f"
  by (induction d) (auto)

text \<open>A level of the command line holds back exactly the messages below it; every message that
  is not held back is one line at the end of the file and of the output, which ends in the
  message.\<close>

lemma log_filter:
  assumes "set_loglevel name new_logger = l" "name \<in> {''trace'', ''debug'', ''info'', ''warning'', ''error'', ''fatal''}"
  shows "DOLOG l now ll src fn (Some text') io =
    (if ll < lg_ll l then Some io else
     Some \<lparr> lo_files = (lo_files io)(''logfile.txt'' := lo_files io ''logfile.txt'' @ log_line now ll src None fn text'),
       lo_stdout = lo_stdout io @ log_line now ll src None fn text' \<rparr>)"
proof -
  have "lg_file l = ''logfile.txt''" using assms by (auto simp: set_loglevel_def new_logger_def)
  then show ?thesis by (auto simp: DOLOG_def dolog_def Let_def)
qed

end
