(* ===== verification/Device.thy ===== *)
theory Device
  imports Link
begin

text \<open>
  What the link servers do with the operating system when they start (\<^verbatim>\<open>src/tap_server.cpp\<close> on
  Linux and on FreeBSD, and \<^verbatim>\<open>src/promisc_server.cpp\<close>), and the wrappers \<^verbatim>\<open>src/utils/time.cpp\<close> and
  \<^verbatim>\<open>src/utils/random.cpp\<close>.  What a system call returns is an argument; a function returns the file
  descriptors it leaves open along with its result.
\<close>

section \<open>System calls\<close>

datatype ioctl_request = TUNSETIFF | TUNSETNOCSUM | SIOCSIFMTU | SIOCGIFHWADDR | SIOCGIFMTU | SIOCGIFINDEX
  | TAPGIFNAME | TAPGIFINFO | TAPSIFINFO

datatype platform = Linux | FreeBSD

record sys =
  sc_platform :: platform
  sc_open :: "string \<Rightarrow> int"
  sc_socket :: int
  sc_cloexec :: "int \<Rightarrow> int"
  sc_ioctl :: "int \<Rightarrow> ioctl_request \<Rightarrow> bytes \<Rightarrow> int \<times> bytes"
  sc_bind :: "int \<Rightarrow> int \<Rightarrow> int"
  sc_bindtodevice :: "int \<Rightarrow> string \<Rightarrow> int"
  sc_getifaddrs :: "(string \<times> int \<times> addr) list option"
  sc_setgid :: "int \<Rightarrow> int"
  sc_setuid :: "int \<Rightarrow> int"

text \<open>\<^verbatim>\<open>struct ifreq\<close>: 16 bytes of name and a union of 24 bytes, in which the flags, the MTU and
  the index stand at its beginning and a hardware address behind two bytes of family.\<close>

definition IFNAMSIZ :: nat where "IFNAMSIZ = 16"

definition new_ifreq :: bytes where "new_ifreq = replicate 40 0"

definition ifr_union :: "bytes \<Rightarrow> bytes \<Rightarrow> bytes" where
  "ifr_union v ifr = put_at 16 v ifr"

definition ifr_int :: "bytes \<Rightarrow> int" where
  "ifr_int ifr = sint (word_of_nat (le_dec (slice_at 16 4 ifr)) :: u32)"

definition ifr_hwaddr :: "bytes \<Rightarrow> addr" where
  "ifr_hwaddr ifr = slice_at 18 6 ifr"

text \<open>The byte behind the name is written also when the name fills the array: it is then the
  first byte of the union.\<close>

definition set_ifr_name :: "string \<Rightarrow> bytes \<Rightarrow> bytes" where
  "set_ifr_name device_name ifr =
     (let copy_name_n = min IFNAMSIZ (length device_name)
      in put_at copy_name_n [0] (put_at 0 (take copy_name_n (to_bytes device_name)) ifr))"

section \<open>The tap device\<close>

definition IFF_TAP_NO_PI :: bytes where "IFF_TAP_NO_PI = [0x02, 0x10]"

definition open_tap :: "sys \<Rightarrow> string \<Rightarrow> int \<times> int list" where
  "open_tap os device_name =
     (let fd = sc_open os ''/dev/net/tun'' in
      if fd = -1 then (-1, [])
      else if sc_cloexec os fd = -1 then (-1, [])
      else
        let ifr_tap = set_ifr_name device_name (ifr_union IFF_TAP_NO_PI new_ifreq) in
        if fst (sc_ioctl os fd TUNSETIFF ifr_tap) = -1 then (-1, [])
        else if fst (sc_ioctl os fd TUNSETNOCSUM [1]) = -1 then (-1, [])
        else (fd, [fd]))"

text \<open>The socket stays open when the request fails.\<close>

definition set_mtu_size :: "sys \<Rightarrow> string \<Rightarrow> int \<Rightarrow> bool \<times> int list" where
  "set_mtu_size os device_name mtu_size =
     (let fd_sock = sc_socket os in
      if fd_sock = -1 then (False, [])
      else
        let ifr_tap = ifr_union (le_enc 4 (nat (mtu_size mod 2 ^ 32))) (ifr_union [2, 0] (set_ifr_name device_name new_ifreq)) in
        if fst (sc_ioctl os fd_sock SIOCSIFMTU ifr_tap) = -1 then (False, [fd_sock])
        else (True, []))"

definition get_local_mac :: "sys \<Rightarrow> string \<Rightarrow> addr option \<times> int list" where
  "get_local_mac os device_name =
     (let fd_sock = sc_socket os in
      if fd_sock = -1 then (None, [])
      else
        let ifr_tap = ifr_union [2, 0] (set_ifr_name device_name new_ifreq);
            (rc, ifr_tap) = sc_ioctl os fd_sock SIOCGIFHWADDR ifr_tap
        in if rc = -1 then (None, []) else (Some (ifr_hwaddr ifr_tap), []))"

text \<open>On FreeBSD the kernel chooses the name of the device, the MTU is part of the 8 bytes of
  \<^verbatim>\<open>struct tapinfo\<close>, and the address is that of the entry of the link layer with the name.  An entry of
  the list of addresses: its name, its family and the address.\<close>

definition open_tap_freebsd :: "sys \<Rightarrow> int \<times> string \<times> int list" where
  "open_tap_freebsd os =
     (let fd = sc_open os ''/dev/tap'' in
      if fd = -1 then (-1, [], [])
      else if sc_cloexec os fd = -1 then (-1, [], [])
      else
        let (rc, ifr_tap) = sc_ioctl os fd TAPGIFNAME new_ifreq in
        if rc = -1 then (-1, [], [])
        else (fd, c_str (take IFNAMSIZ ifr_tap), [fd]))"

definition set_mtu_size_freebsd :: "sys \<Rightarrow> int \<Rightarrow> int \<Rightarrow> bool" where
  "set_mtu_size_freebsd os fd mtu_size =
     (let (rc, info) = sc_ioctl os fd TAPGIFINFO (replicate 8 0) in
      if rc = -1 then False
      else
        let info = put_at 4 (le_enc 2 (nat (mtu_size mod 2 ^ 16))) info in
        fst (sc_ioctl os fd TAPSIFINFO info) \<noteq> -1)"

definition AF_LINK :: int where "AF_LINK = 18"

definition get_local_mac_freebsd :: "sys \<Rightarrow> string \<Rightarrow> addr option" where
  "get_local_mac_freebsd os device_name =
     (case sc_getifaddrs os of
        None \<Rightarrow> None
      | Some ifap \<Rightarrow>
          map_option (\<lambda>(ifa_name, family, a). take 6 a)
            (List.find (\<lambda>(ifa_name, family, a). family = AF_LINK \<and> ifa_name = device_name) ifap))"

section \<open>The promiscuous device\<close>

definition open_promiscuous_dev :: "sys \<Rightarrow> string \<Rightarrow> prom_handle option \<times> int list" where
  "open_promiscuous_dev os device_name =
     (if IFNAMSIZ \<le> length device_name then (None, [])
      else
        let fd = sc_socket os in
        if fd = -1 then (None, [])
        else
          let ifr = put_at 0 (to_bytes device_name) new_ifreq; (rc, ifr) = sc_ioctl os fd SIOCGIFMTU ifr in
          if rc = -1 then (None, [])
          else
            let mtu_size = ifr_int ifr; (rc, ifr) = sc_ioctl os fd SIOCGIFHWADDR ifr in
            if rc = -1 then (None, [])
            else
              let mac_addr = ifr_hwaddr ifr; (rc, ifr) = sc_ioctl os fd SIOCGIFINDEX ifr in
              if rc = -1 then (None, [])
              else if sc_bind os fd (ifr_int ifr) = -1 then (None, [])
              else if sc_bindtodevice os fd device_name = -1 then (None, [])
              else (Some \<lparr> ph_fd = fd, ph_ifr_index = ifr_int ifr, ph_mtu_size = mtu_size, ph_mac_addr = mac_addr \<rparr>, [fd]))"

section \<open>Time and random numbers\<close>

text \<open>\<open>ts\<close>: seconds and nanoseconds of \<^verbatim>\<open>clock_gettime\<close>, \<open>None\<close> when it fails.\<close>

definition get_us :: "(int \<times> int) option \<Rightarrow> u64" where
  "get_us ts = (case ts of None \<Rightarrow> 0 | Some (tv_sec, tv_nsec) \<Rightarrow> word_of_int (tv_sec * 1000000 + tv_nsec div 1000))"

text \<open>\<open>got\<close>: the bytes \<^verbatim>\<open>getrandom\<close> wrote, \<open>None\<close> when it failed (the process then exits).  Fewer bytes
  than asked for are not noticed.\<close>

definition my_random :: "bytes option \<Rightarrow> bytes \<Rightarrow> bytes option" where
  "my_random got target = (case got of None \<Rightarrow> None | Some bs \<Rightarrow> Some (take (length target) bs @ drop (length bs) target))"

section \<open>Properties\<close>

text \<open>Opening a device leaves no descriptor open unless it succeeds; setting the MTU does.\<close>

lemma open_tap_keeps_no_descriptor:
  "open_tap os name = (fd, opened) \<Longrightarrow> opened = (if fd = -1 then [] else [fd])"
  by (auto simp: open_tap_def Let_def split: if_splits)

lemma open_tap_freebsd_keeps_no_descriptor:
  "open_tap_freebsd os = (fd, name, opened) \<Longrightarrow> opened = (if fd = -1 then [] else [fd])"
  by (auto simp: open_tap_freebsd_def Let_def split: if_splits prod.splits)

lemma open_promiscuous_dev_keeps_no_descriptor:
  "open_promiscuous_dev os name = (h, opened) \<Longrightarrow> opened = (case h of None \<Rightarrow> [] | Some ph \<Rightarrow> [ph_fd ph])"
  by (auto simp: open_promiscuous_dev_def Let_def split: if_splits prod.splits)

lemma set_mtu_size_leaks:
  assumes "sc_socket os \<noteq> -1"
  shows "set_mtu_size os name mtu = (False, opened) \<longleftrightarrow> opened = [sc_socket os]
    \<and> fst (sc_ioctl os (sc_socket os) SIOCSIFMTU
        (ifr_union (le_enc 4 (nat (mtu mod 2 ^ 32))) (ifr_union [2, 0] (set_ifr_name name new_ifreq)))) = -1"
  using assms by (auto simp: set_mtu_size_def Let_def)

text \<open>A name of less than 16 characters is terminated and leaves the flags alone; a longer one loses its
  terminator and clears the low byte of the flags, the one with \<^verbatim>\<open>IFF_TAP\<close> in it.\<close>

lemma set_ifr_name_short:
  assumes "length name < 16"
  shows "slice_at 16 2 (set_ifr_name name (ifr_union IFF_TAP_NO_PI new_ifreq)) = IFF_TAP_NO_PI"
    "take (Suc (length name)) (set_ifr_name name (ifr_union IFF_TAP_NO_PI new_ifreq)) = to_bytes name @ [0]"
  using assms
  by (simp_all add: set_ifr_name_def IFNAMSIZ_def ifr_union_def new_ifreq_def IFF_TAP_NO_PI_def put_at_def slice_at_def Let_def drop_Cons')

lemma set_ifr_name_overflow:
  assumes "16 \<le> length name"
  shows "slice_at 16 2 (set_ifr_name name (ifr_union IFF_TAP_NO_PI new_ifreq)) = [0x00, 0x10]"
    "take 16 (set_ifr_name name (ifr_union IFF_TAP_NO_PI new_ifreq)) = take 16 (to_bytes name)"
  using assms
  by (simp_all add: set_ifr_name_def IFNAMSIZ_def ifr_union_def new_ifreq_def IFF_TAP_NO_PI_def put_at_def slice_at_def Let_def)

text \<open>The microseconds do not wrap before the year 586512.\<close>

lemma get_us_exact:
  assumes "0 \<le> s" "s < 18446744073709" "0 \<le> n" "n < 1000000000"
  shows "uint (get_us (Some (s, n))) = s * 1000000 + n div 1000"
proof -
  have "0 \<le> n div 1000" "n div 1000 < 1000000" using assms by simp_all
  then have "0 \<le> s * 1000000 + n div 1000" "s * 1000000 + n div 1000 < 2 ^ 64" using assms by simp_all
  then show ?thesis unfolding get_us_def option.case prod.case uint_word_of_int by (intro mod_pos_pos_trivial) simp_all
qed

lemma my_random_length: "my_random (Some bs) target = Some r \<Longrightarrow> length bs \<le> length target \<Longrightarrow> length r = length target"
  by (auto simp: my_random_def)

end
