(* ===== verification/Apps.thy ===== *)
theory Apps
  imports L7
begin

text \<open>
  What the TCP applications (\<^verbatim>\<open>src/http_server.cpp\<close>, \<^verbatim>\<open>src/gopher_server.cpp\<close>, \<^verbatim>\<open>src/vnc_server.cpp\<close>)
  do in the same words: the map of sessions, the queue of each, and the meta requests.  A session
  is a \<open>tcp_l7_session_t\<close> or an extension of it.  Deleting a session waits for its thread:
  the model continues where that wait ends.
\<close>

type_synonym 's app_sessions = "(u64, 's tcp_l7_session_t_scheme) std_map"

definition new_l7_session :: "string \<Rightarrow> u64 \<Rightarrow> addr \<Rightarrow> u16 \<Rightarrow> addr \<Rightarrow> u16 \<Rightarrow> tcp_l7_session_t" where
  "new_l7_session out_name session_id from_a from_port to_a to_port =
     \<lparr> l7_session_id = session_id, l7_out_name = out_name, l7_from = from_a, l7_from_port = from_port,
       l7_to = to_a, l7_to_port = to_port, l7_finished = False, l7_stop_flag = False, l7_incoming = [] \<rparr>"

text \<open>Sessions whose handler has finished are removed at the start of a turn.\<close>

definition finish_sessions :: "'s app_sessions \<Rightarrow> 's app_sessions" where
  "finish_sessions sessions =
     (let delete_these = map fst (filter (\<lambda>(k, s). l7_finished s) sessions)
      in fold erase_key delete_these sessions)"

definition push_incoming :: "bytes \<Rightarrow> 's tcp_l7_session_t_scheme \<Rightarrow> 's tcp_l7_session_t_scheme" where
  "push_incoming pl hs = hs\<lparr> l7_incoming := queue_push pl (l7_incoming hs) \<rparr>"

text \<open>A message of the TCP server.  \<open>fresh\<close> makes the new session, \<open>known\<close> is what is done with
  one that is there before the payload is pushed.\<close>

definition app_run_in ::
  "(u64 \<Rightarrow> addr \<Rightarrow> u16 \<Rightarrow> addr \<Rightarrow> u16 \<Rightarrow> 's tcp_l7_session_t_scheme)
    \<Rightarrow> (u32 \<Rightarrow> 's tcp_l7_session_t_scheme \<Rightarrow> 's tcp_l7_session_t_scheme)
    \<Rightarrow> message \<Rightarrow> 's app_sessions \<Rightarrow> (nat \<times> 's app_sessions) res" where
  "app_run_in fresh known m sessions =
     res_bind (unwrap_message_up_tcp (msg_data m)) (\<lambda>v.
     let session_id = tv_session_id v; flags = tv_flags v in
     case find_key session_id sessions of
       None \<Rightarrow>
         if flags AND MI_TCP_OPEN \<noteq> 0 then
           res_bind (load_n (tv_from v) 0 (tv_from_len v)) (\<lambda>from_a.
           res_bind (load_n (tv_to v) 0 (tv_to_len v)) (\<lambda>to_a.
           res_bind (load_n (tv_pl v) 0 (tv_pl_len v)) (\<lambda>pl.
           let hs = fresh session_id from_a (tv_from_port v) to_a (tv_to_port v)
           in Inr (1, insert_key session_id (push_incoming pl hs) sessions))))
         else Inr (1, sessions)
     | Some hs \<Rightarrow>
         res_bind (load_n (tv_pl v) 0 (tv_pl_len v)) (\<lambda>pl.
         Inr (1, set_key session_id (push_incoming pl (known flags hs)) sessions)))"

text \<open>\<open>hs->stop_flag\<close> is set when the TCP server closes the session.\<close>

definition note_close :: "u32 \<Rightarrow> 's tcp_l7_session_t_scheme \<Rightarrow> 's tcp_l7_session_t_scheme" where
  "note_close flags hs = (if flags AND MI_TCP_CLOSE \<noteq> 0 then hs\<lparr> l7_stop_flag := True \<rparr> else hs)"

text \<open>The lines of a meta request: whether it is invalid, the session, and how often the message
  has been freed (an unknown key frees it and goes on with the next line).\<close>

fun meta_close_lines :: "string list \<Rightarrow> u64 option \<Rightarrow> nat \<Rightarrow> (bool \<times> u64 option \<times> nat) res" where
  "meta_close_lines [] session_id freed = Inr (False, session_id, freed)"
| "meta_close_lines (line # lns) session_id freed =
     (case split line ''='' of
        [] \<Rightarrow> Inl Out_of_bounds
      | k # vs \<Rightarrow>
          if k = ''action'' then
            (case vs of
               [] \<Rightarrow> Inl Out_of_bounds
             | v # _ \<Rightarrow> if v = ''close'' then meta_close_lines lns session_id freed else Inr (True, session_id, freed))
          else if k = ''session-id'' then
            (case vs of
               [] \<Rightarrow> Inl Out_of_bounds
             | v # _ \<Rightarrow> res_bind (my_stoull_hex v) (\<lambda>i. meta_close_lines lns i freed))
          else meta_close_lines lns session_id (freed + 1))"

definition app_run_meta :: "message \<Rightarrow> 's app_sessions \<Rightarrow> (nat \<times> 's app_sessions) res" where
  "app_run_meta m sessions =
     res_bind (load_n (msg_data m) 0 (unat (msg_size m))) (\<lambda>d.
     let lns = split (of_bytes d) [CHR 0x0A] in
     if length lns < 2 then Inr (1, sessions)
     else res_bind (meta_close_lines lns None 0) (\<lambda>(inv, session_id, freed).
       if inv then Inr (freed + 1, sessions)
       else (case session_id of
           None \<Rightarrow> Inl Uncaught
         | Some sid \<Rightarrow> Inr (freed + 1, erase_key sid sessions))))"

section \<open>Lemmas\<close>

lemma find_fold_erase: "find_key k (fold erase_key ks m) = (if k \<in> set ks then None else find_key k m)"
  by (induction ks arbitrary: m) (auto simp: find_erase_key)

lemma fold_erase_ok: "map_ok m \<Longrightarrow> map_ok (fold erase_key ks m)"
  by (induction ks arbitrary: m) (auto simp: erase_key_ok)

lemma find_key_mem: "map_ok m \<Longrightarrow> (k, v) \<in> set m \<longleftrightarrow> find_key k m = Some v"
proof (induction m)
  case (Cons p m)
  then show ?case by (cases p) (auto simp: map_ok_def find_key_def dest: map_of_SomeD)
qed simp

text \<open>Exactly the sessions whose handler has finished are forgotten.\<close>

lemma find_finish_sessions:
  assumes "map_ok sessions"
  shows "find_key k (finish_sessions sessions)
    = (case find_key k sessions of None \<Rightarrow> None | Some s \<Rightarrow> if l7_finished s then None else Some s)"
proof -
  have "k \<in> set (map fst (filter (\<lambda>(k, s). l7_finished s) sessions)) \<longleftrightarrow> (\<exists>s. find_key k sessions = Some s \<and> l7_finished s)"
    using find_key_mem[OF assms, of k] by (force simp: image_iff)
  then show ?thesis
    by (cases "find_key k sessions") (auto simp: finish_sessions_def find_fold_erase)
qed

text \<open>The sessions stay a map, and each is filed under its own number.\<close>

definition sessions_ok :: "'s app_sessions \<Rightarrow> bool" where
  "sessions_ok sessions = (map_ok sessions \<and> list_all (\<lambda>(k, s). l7_session_id s = k) sessions)"

lemma sessions_ok_iff:
  "sessions_ok sessions \<longleftrightarrow> map_ok sessions \<and> (\<forall>k s. find_key k sessions = Some s \<longrightarrow> l7_session_id s = k)"
proof -
  have "list_all (\<lambda>(k, s). l7_session_id s = k) sessions \<longleftrightarrow> (\<forall>k s. (k, s) \<in> set sessions \<longrightarrow> l7_session_id s = k)"
    by (auto simp: list_all_iff)
  then show ?thesis by (cases "map_ok sessions") (simp_all add: sessions_ok_def find_key_mem)
qed

lemma finish_sessions_ok: "sessions_ok ss \<Longrightarrow> sessions_ok (finish_sessions ss)"
  unfolding sessions_ok_iff
  by (auto simp: find_finish_sessions split: option.splits if_splits)
     (auto simp: finish_sessions_def fold_erase_ok)

lemma erase_sessions_ok: "sessions_ok ss \<Longrightarrow> sessions_ok (erase_key k ss)"
  unfolding sessions_ok_iff by (auto simp: find_erase_key erase_key_ok split: if_splits)

lemma set_sessions_ok: "sessions_ok ss \<Longrightarrow> l7_session_id s = k \<Longrightarrow> sessions_ok (set_key k s ss)"
  unfolding sessions_ok_iff by (auto simp: find_set_key set_key_ok split: if_splits)

lemma push_incoming_fields [simp]:
  "l7_session_id (push_incoming pl hs) = l7_session_id hs" "l7_stop_flag (push_incoming pl hs) = l7_stop_flag hs"
  "l7_incoming (push_incoming pl hs) = l7_incoming hs @ [pl]"
  by (simp_all add: push_incoming_def queue_push_def)

lemma note_close_fields [simp]:
  "l7_session_id (note_close flags hs) = l7_session_id hs" "l7_incoming (note_close flags hs) = l7_incoming hs"
  "l7_stop_flag (note_close flags hs) = (l7_stop_flag hs \<or> flags AND MI_TCP_CLOSE \<noteq> 0)"
  by (simp_all add: note_close_def)

lemma app_run_in_message:
  assumes "carries lid (wrap_message_up_tcp sid f sp t dp flags pl) m" "small (length f)" "small (length t)" "small (length pl)"
  shows "app_run_in fresh known m sessions = Inr (1,
    case find_key sid sessions of
      None \<Rightarrow> if flags AND MI_TCP_OPEN \<noteq> 0 then insert_key sid (push_incoming pl (fresh sid f sp t dp)) sessions else sessions
    | Some hs \<Rightarrow> set_key sid (push_incoming pl (known flags hs)) sessions)"
proof -
  have "msg_data m = wrap_up_tcp sid f sp t dp flags pl @ []"
    using assms(1) by (simp add: carries_def wrap_message_up_tcp_def Let_def allocate_shm_message_def)
  then have "unwrap_message_up_tcp (msg_data m) = Inr
    \<lparr> tv_session_id = sid, tv_from_len = length f, tv_from = f @ t @ pl, tv_from_port = sp, tv_to_len = length t,
      tv_to = t @ pl, tv_to_port = dp, tv_flags = flags, tv_pl_len = length pl, tv_pl = pl \<rparr>"
    using unwrap_wrap_up_tcp[of f t pl sid sp dp flags "[]"] assms(2-4) by (simp add: small_def)
  then show ?thesis
    by (simp add: app_run_in_def slice_at_def Let_def split: option.split)
qed

section \<open>An application server\<close>

fun app_run_all ::
  "(u64 \<Rightarrow> addr \<Rightarrow> u16 \<Rightarrow> addr \<Rightarrow> u16 \<Rightarrow> 's tcp_l7_session_t_scheme)
    \<Rightarrow> (u32 \<Rightarrow> 's tcp_l7_session_t_scheme \<Rightarrow> 's tcp_l7_session_t_scheme)
    \<Rightarrow> message list \<Rightarrow> 's app_sessions \<Rightarrow> 's app_sessions res" where
  "app_run_all fresh known [] sessions = Inr sessions"
| "app_run_all fresh known (m # ms) sessions =
     res_bind (app_run_in fresh known m sessions) (\<lambda>(freed, sessions). app_run_all fresh known ms sessions)"

text \<open>What the TCP server sends about a session: its number, the flags and the data.\<close>

type_synonym app_event = "u64 \<times> u32 \<times> bytes"

definition tells :: "string \<Rightarrow> app_event \<Rightarrow> message \<Rightarrow> bool" where
  "tells lid e m \<longleftrightarrow> (case e of (sid, flags, pl) \<Rightarrow> small (length pl)
     \<and> (\<exists>f sp t dp. small (length f) \<and> small (length t) \<and> carries lid (wrap_message_up_tcp sid f sp t dp flags pl) m))"

text \<open>The chunks a session gets: nothing before the message that opens it.\<close>

fun heard :: "u64 \<Rightarrow> app_event list \<Rightarrow> bytes list option \<Rightarrow> bytes list option" where
  "heard sid [] q = q"
| "heard sid ((i, flags, pl) # es) q =
     heard sid es (if i \<noteq> sid then q
       else case q of None \<Rightarrow> if flags AND MI_TCP_OPEN \<noteq> 0 then Some [pl] else None | Some q \<Rightarrow> Some (q @ [pl]))"

locale app_server =
  fixes fresh :: "u64 \<Rightarrow> addr \<Rightarrow> u16 \<Rightarrow> addr \<Rightarrow> u16 \<Rightarrow> 's tcp_l7_session_t_scheme"
    and known :: "u32 \<Rightarrow> 's tcp_l7_session_t_scheme \<Rightarrow> 's tcp_l7_session_t_scheme"
  assumes fresh_id: "l7_session_id (fresh sid f sp t dp) = sid"
    and fresh_empty: "l7_incoming (fresh sid f sp t dp) = []"
    and known_id: "l7_session_id (known flags hs) = l7_session_id hs"
    and known_keeps: "l7_incoming (known flags hs) = l7_incoming hs"
begin

lemma run_in_ok:
  assumes "sessions_ok sessions" "app_run_in fresh known m sessions = Inr (freed, sessions')"
  shows "sessions_ok sessions'" "freed = 1"
proof -
  have "sessions_ok (set_key k (push_incoming pl (known flags hs)) sessions)" if "find_key k sessions = Some hs" for k pl flags hs
    using assms(1) that by (intro set_sessions_ok) (auto simp: known_id sessions_ok_iff)
  moreover have "sessions_ok (insert_key k (push_incoming pl (fresh k f sp t dp)) sessions)" for k pl f sp t dp
    using assms(1) by (auto simp: insert_key_def fresh_id intro!: set_sessions_ok split: option.split)
  ultimately show "sessions_ok sessions'" "freed = 1" using assms
    by (auto simp: app_run_in_def res_bind_eq_Inr Let_def split: option.splits if_splits)
qed

lemma run_in_heard:
  assumes "sessions_ok sessions" "tells lid (i, flags, pl) m"
  shows "\<exists>sessions'. app_run_in fresh known m sessions = Inr (1, sessions') \<and> sessions_ok sessions'
    \<and> map_option l7_incoming (find_key sid sessions')
        = heard sid [(i, flags, pl)] (map_option l7_incoming (find_key sid sessions))"
proof -
  obtain f sp t dp where c: "carries lid (wrap_message_up_tcp i f sp t dp flags pl) m" "small (length f)" "small (length t)" "small (length pl)"
    using assms(2) by (auto simp: tells_def)
  have "map_ok sessions" using assms(1) by (simp add: sessions_ok_def)
  then show ?thesis using run_in_ok(1)[OF assms(1) app_run_in_message[OF c]]
    unfolding app_run_in_message[OF c]
    by (auto simp: find_set_key find_insert_key fresh_empty known_keeps split: option.splits if_splits)
qed

lemma run_all_heard:
  assumes "sessions_ok sessions" "list_all2 (tells lid) es ms"
  shows "\<exists>sessions'. app_run_all fresh known ms sessions = Inr sessions' \<and> sessions_ok sessions'
    \<and> map_option l7_incoming (find_key sid sessions') = heard sid es (map_option l7_incoming (find_key sid sessions))"
  using assms(2,1)
proof (induction es ms arbitrary: sessions rule: list_all2_induct)
  case (Cons e es m ms)
  obtain i flags pl where e: "e = (i, flags, pl)" by (cases e)
  obtain s1 where s1: "app_run_in fresh known m sessions = Inr (1, s1)" "sessions_ok s1"
    "map_option l7_incoming (find_key sid s1) = heard sid [(i, flags, pl)] (map_option l7_incoming (find_key sid sessions))"
    using run_in_heard[OF Cons.prems, of lid i flags pl m sid] Cons.hyps(1) unfolding e by blast
  show ?case using Cons.IH[OF s1(2)] s1(1,3) by (simp add: e)
qed simp

end

end
