(* ===== verification/Http.thy ===== *)
theory Http
  imports Apps
begin

text \<open>
  \<^verbatim>\<open>src/http_server.cpp\<close>: sessions, requests and the files sent for them.  TLS is a library: what
  it reads for a handler and does with what the handler writes are arguments.  The file system
  is an argument as well.
\<close>

section \<open>Sessions\<close>

text \<open>At the start of a turn finished sessions are forgotten; after \<^verbatim>\<open>SIGTERM\<close> the server stops
  once there is none left.\<close>

definition http_turn :: "bool \<Rightarrow> 's app_sessions \<Rightarrow> bool \<times> 's app_sessions" where
  "http_turn please_terminate sessions =
     (let sessions = finish_sessions sessions in (sessions = [] \<and> please_terminate, sessions))"

definition http_run_in :: "string \<Rightarrow> message \<Rightarrow> unit app_sessions \<Rightarrow> (nat \<times> unit app_sessions) res" where
  "http_run_in out_name = app_run_in (new_l7_session out_name) note_close"

definition http_run_meta :: "message \<Rightarrow> unit app_sessions \<Rightarrow> (nat \<times> unit app_sessions) res" where
  "http_run_meta = app_run_meta"

interpretation http_app: app_server "new_l7_session out_name" note_close for out_name
  by unfold_locales (simp_all add: new_l7_session_def)

section \<open>Reading a request\<close>

text \<open>What the handler gets: a chunk from the session's queue (or a character from TLS), or an
  error of TLS.  \<open>None\<close>: the request is given up.\<close>

datatype http_input = Chunk bytes | Read_error

definition CRLF :: string where "CRLF = [CHR 0x0D, CHR 0x0A]"

fun http_read_request :: "http_input list \<Rightarrow> string \<Rightarrow> (string option \<times> http_input list) res" where
  "http_read_request ins recv_buffer =
     (if 32768 < length recv_buffer then Inr (None, ins)
      else case ins of
          [] \<Rightarrow> Inl Blocked
        | Read_error # ins \<Rightarrow> Inr (None, ins)
        | Chunk c # ins \<Rightarrow>
            let recv_buffer = recv_buffer @ of_bytes c in
            if find_sub (CRLF @ CRLF) recv_buffer = None then http_read_request ins recv_buffer
            else Inr (Some recv_buffer, ins))"

declare http_read_request.simps [simp del]

datatype http_verdict = Reply nat string | Hang_up | Serve string

text \<open>The first line decides; \<^verbatim>\<open>substr(4)\<close> of a shorter line throws.\<close>

definition http_first_line :: "string \<Rightarrow> http_verdict res" where
  "http_first_line line =
     (case split line '' '' of
        [verb, _, _] \<Rightarrow>
          if verb = ''GET'' then
            if length line < 4 then Inl Uncaught
            else (case find_sub '' '' (drop 4 line) of
                None \<Rightarrow> Inr Hang_up
              | Some space \<Rightarrow> Inr (Serve (take space (drop 4 line))))
          else Inr (Reply 501 ''Only GET please'')
      | _ \<Rightarrow> Inr (Reply 405 ''Can't make cheese from your supposedly HTTP request''))"

definition http_base_path :: string where "http_base_path = ''./www''"

definition http_url :: "string \<Rightarrow> http_verdict" where
  "http_url url =
     (if url = [] then Reply 405 ''URL missing''
      else if find_sub ''..'' url \<noteq> None \<or> find_sub ''~'' url \<noteq> None then Reply 500 ''Invalid URL''
      else if url = ''/'' then Serve ''/index.html''
      else if url ! 0 \<noteq> CHR ''/'' then Serve (''/'' @ url)
      else Serve url)"

definition http_request :: "string \<Rightarrow> http_verdict res" where
  "http_request recv_buffer =
     res_bind (case split recv_buffer CRLF of [] \<Rightarrow> Inr (Serve '''') | line # _ \<Rightarrow> http_first_line line) (\<lambda>v.
     Inr (case v of Serve url \<Rightarrow> http_url url | _ \<Rightarrow> v))"

section \<open>Answering\<close>

text \<open>A session with TLS has the operations of the library on it.\<close>

record 'w tls =
  tls_write :: "bytes \<Rightarrow> 'w \<Rightarrow> (int \<times> 'w) res"
  tls_free :: "'w \<Rightarrow> 'w res"

definition http_write :: "'w tls option \<Rightarrow> 'w shm_queue \<Rightarrow> tcp_l7_session_t \<Rightarrow> bytes \<Rightarrow> 'w \<Rightarrow> (int \<times> 'w) res" where
  "http_write ssl shm session d w =
     (case ssl of Some s \<Rightarrow> tls_write s d w | None \<Rightarrow> send_func shm session d w)"

text \<open>What TLS calls to read and write.  \<open>recv_func\<close> never returns -1: after a stop flag it returns
  what it has, and TLS is told that all of \<open>sz\<close> bytes are there.\<close>

definition my_wolfssl_receive ::
  "(bytes list \<times> bool) list \<Rightarrow> tcp_l7_session_t \<Rightarrow> nat \<Rightarrow> (int \<times> bytes \<times> tcp_l7_session_t \<times> (bytes list \<times> bool) list) res" where
  "my_wolfssl_receive arrives session sz =
     res_bind (recv_func arrives session sz) (\<lambda>(got, session, arrives).
     let rc = int (length got) in
     Inr (if rc = -1 then 0 else int sz, got, session, arrives))"

definition my_wolfssl_send :: "'w shm_queue \<Rightarrow> tcp_l7_session_t \<Rightarrow> bytes \<Rightarrow> 'w \<Rightarrow> (int \<times> 'w) res" where
  "my_wolfssl_send shm session buf w =
     res_bind (send_func shm session buf w) (\<lambda>(rc, w). Inr (if rc = -1 then 0 else int (length buf), w))"

lemma my_wolfssl_receive_stopped:
  "my_wolfssl_receive [([], True)] session (Suc n) = Inr (int (Suc n), [], session, [])"
  by (simp add: my_wolfssl_receive_def recv_func_def)

definition end_session :: "'w tls option \<Rightarrow> 'w shm_queue \<Rightarrow> tcp_l7_session_t \<Rightarrow> 'w \<Rightarrow> (tcp_l7_session_t \<times> 'w) res" where
  "end_session ssl shm session w =
     res_bind (case ssl of Some s \<Rightarrow> tls_free s w | None \<Rightarrow> Inr w) (\<lambda>w.
     res_bind (fin_func shm session w) (\<lambda>w. Inr (session\<lparr> l7_finished := True \<rparr>, w)))"

definition http_header :: "nat \<Rightarrow> nat \<Rightarrow> string \<Rightarrow> string \<Rightarrow> string" where
  "http_header which payload_size reason mime_type =
     ''HTTP/1.0 '' @ num_str 10 which @ '' '' @ reason @ CRLF @ ''Server: MyIP-NG HTTPd'' @ CRLF
     @ ''Content-Type: '' @ mime_type @ CRLF @ ''Content-Length: '' @ num_str 10 payload_size @ CRLF @ CRLF"

definition send_http_header ::
  "'w tls option \<Rightarrow> 'w shm_queue \<Rightarrow> tcp_l7_session_t \<Rightarrow> nat \<Rightarrow> nat \<Rightarrow> string \<Rightarrow> string \<Rightarrow> 'w \<Rightarrow> (bool \<times> 'w) res" where
  "send_http_header ssl shm session which payload_size reason mime_type w =
     (let http_headers = http_header which payload_size reason mime_type in
      res_bind (http_write ssl shm session (to_bytes http_headers) w) (\<lambda>(n, w).
      Inr (n = int (length http_headers), w)))"

text \<open>The part behind the last dot.\<close>

definition extension :: "string \<Rightarrow> string option" where
  "extension url = (if CHR ''.'' \<in> set url then Some (rev (takeWhile (\<lambda>c. c \<noteq> CHR ''.'') (rev url))) else None)"

definition http_mime_type :: "string \<Rightarrow> string" where
  "http_mime_type url =
     (case extension url of
        None \<Rightarrow> ''text/plain''
      | Some ext \<Rightarrow>
          if ext = ''css'' then ''text/css''
          else if ext = ''html'' \<or> ext = ''htm'' then ''text/html''
          else if ext = ''ico'' then ''image/vnd.microsoft.icon''
          else if ext = ''png'' then ''image/png''
          else if ext = ''jpg'' then ''image/jpeg''
          else if ext = ''svg'' then ''image/svg+xml''
          else ''text/plain'')"

text \<open>The file in chunks of at most 4096 bytes: \<open>len\<close> is what \<^verbatim>\<open>fstat\<close> told, \<open>file\<close> what there is
  to read, \<open>stop\<close> whether a stop flag is set with that much left.\<close>

function http_send_file :: "(bytes \<Rightarrow> 'w \<Rightarrow> (int \<times> 'w) res) \<Rightarrow> (nat \<Rightarrow> bool) \<Rightarrow> nat \<Rightarrow> bytes \<Rightarrow> 'w \<Rightarrow> 'w res" where
  "http_send_file write stop len file w =
     (if 0 < len \<and> \<not> stop len then
        let chunk_size = min len 4096 in
        if length (take chunk_size file) \<noteq> chunk_size then Inr w
        else res_bind (write (take chunk_size file) w) (\<lambda>(n, w).
          if n \<noteq> int chunk_size then Inr w
          else http_send_file write stop (len - chunk_size) (drop chunk_size file) w)
      else Inr w)"
  by pat_completeness auto
termination
  by (relation "measure (\<lambda>(write, stop, len, file, w). len)") auto

declare http_send_file.simps [simp del]

text \<open>\<^verbatim>\<open>local_file.c_str()\<close> ends at the first NUL.  \<open>fs\<close>: the file \<^verbatim>\<open>open\<close> finds under a path, with the size from \<^verbatim>\<open>fstat\<close> if that succeeds.\<close>

definition open_path :: "string \<Rightarrow> string" where
  "open_path p = takeWhile (\<lambda>c. c \<noteq> CHR 0x00) p"

definition http_reply :: "'w tls option \<Rightarrow> 'w shm_queue \<Rightarrow> tcp_l7_session_t \<Rightarrow> nat \<Rightarrow> string \<Rightarrow> 'w \<Rightarrow> (tcp_l7_session_t \<times> 'w) res" where
  "http_reply ssl shm session code reason w =
     res_bind (send_http_header ssl shm session code 0 reason ''text/html'' w) (\<lambda>(ok, w). end_session ssl shm session w)"

definition process_http_request ::
  "'w tls option \<Rightarrow> 'w shm_queue \<Rightarrow> (string \<Rightarrow> (nat option \<times> bytes) option) \<Rightarrow> (nat \<Rightarrow> bool) \<Rightarrow> http_input list
    \<Rightarrow> tcp_l7_session_t \<Rightarrow> 'w \<Rightarrow> (tcp_l7_session_t \<times> 'w) res" where
  "process_http_request ssl shm fs stop ins session w =
     res_bind (http_read_request ins []) (\<lambda>(req, ins).
     case req of
       None \<Rightarrow> end_session ssl shm session w
     | Some recv_buffer \<Rightarrow>
         res_bind (http_request recv_buffer) (\<lambda>v.
         case v of
           Hang_up \<Rightarrow> end_session ssl shm session w
         | Reply code reason \<Rightarrow> http_reply ssl shm session code reason w
         | Serve url \<Rightarrow>
             (case fs (open_path (http_base_path @ url)) of
                None \<Rightarrow> http_reply ssl shm session 404 ''Not found'' w
              | Some (None, file) \<Rightarrow> http_reply ssl shm session 500 ''Unknown error'' w
              | Some (Some st_size, file) \<Rightarrow>
                  res_bind (send_http_header ssl shm session 200 st_size ''OK!'' (http_mime_type url) w) (\<lambda>(ok, w).
                  res_bind (if ok then http_send_file (http_write ssl shm session) stop st_size file w else Inr w) (\<lambda>w.
                  end_session ssl shm session w)))))"

section \<open>Paths\<close>

lemma find_sub_Cons_other: "pat \<noteq> [] \<Longrightarrow> c \<noteq> hd pat \<Longrightarrow> find_sub pat (c # s) = None \<longleftrightarrow> find_sub pat s = None"
  by (cases pat) (auto simp: starts_with_def)

lemma starts_with_append: "starts_with pat s \<Longrightarrow> starts_with pat (s @ t)"
  unfolding starts_with_def by (metis diff_is_0_eq length_take min.cobounded1 append_Nil2 take_0 take_append)

lemma find_sub_prefix: "find_sub pat (s @ t) = None \<Longrightarrow> find_sub pat s = None"
proof (induction s)
  case Nil
  then show ?case by (cases t) (auto simp: starts_with_def split: if_splits)
next
  case (Cons c s)
  then show ?case using starts_with_append[of pat "c # s" t] by (auto split: if_splits)
qed

lemma http_url_below_base:
  assumes "http_url u = Serve url"
  shows "\<exists>rest. url = CHR ''/'' # rest \<and> find_sub ''..'' rest = None \<and> find_sub ''~'' rest = None"
  using assms
  by (cases u) (auto simp: http_url_def find_sub_Cons_other starts_with_def split: if_splits)

lemma http_request_below_base:
  assumes "http_request recv_buffer = Inr (Serve url)"
  shows "\<exists>rest. open_path (http_base_path @ url) = ''./www/'' @ rest \<and> find_sub ''..'' rest = None \<and> find_sub ''~'' rest = None"
proof -
  obtain v where v: "(case v of Serve url \<Rightarrow> http_url url | _ \<Rightarrow> v) = Serve url"
    using assms by (auto simp: http_request_def res_bind_eq_Inr)
  then obtain u where "http_url u = Serve url" by (cases v) auto
  then obtain rest where r: "url = CHR ''/'' # rest" "find_sub ''..'' rest = None" "find_sub ''~'' rest = None"
    using http_url_below_base by blast
  define cut where "cut = takeWhile (\<lambda>c. c \<noteq> CHR 0x00) rest"
  have "rest = cut @ dropWhile (\<lambda>c. c \<noteq> CHR 0x00) rest" unfolding cut_def by simp
  then have "find_sub ''..'' cut = None" "find_sub ''~'' cut = None" using r(2,3) by (metis find_sub_prefix)+
  moreover have "open_path (http_base_path @ url) = ''./www/'' @ cut" by (simp add: open_path_def http_base_path_def r(1) cut_def)
  ultimately show ?thesis by blast
qed

text \<open>C20: Whatever a client sends, the answer depends only on files below the base path: two file
  systems that agree on every path of the form \<^verbatim>\<open>./www/rest\<close>, with no two dots in a row
  and no tilde in the rest, get the same answer.\<close>

theorem http_stays_below_base:
  assumes "\<And>rest. find_sub ''..'' rest = None \<Longrightarrow> find_sub ''~'' rest = None \<Longrightarrow> fs (''./www/'' @ rest) = fs' (''./www/'' @ rest)"
  shows "process_http_request ssl shm fs stop ins session w = process_http_request ssl shm fs' stop ins session w"
proof -
  have "fs (open_path (http_base_path @ url)) = fs' (open_path (http_base_path @ url))"
    if "http_request recv_buffer = Inr (Serve url)" for recv_buffer url
    using http_request_below_base[OF that] assms by auto
  then show ?thesis
    by (auto simp: process_http_request_def res_bind_def split: sum.split option.split http_verdict.split)
qed

definition sample_get :: string where
  "sample_get = ''GET /a.txt HTTP/1.0'' @ CRLF @ CRLF"

theorem http_stays_below_base_witness:
  "process_http_request None (send_message ''http'') (\<lambda>p. if p = ''/etc/passwd'' then Some (Some 1, [0]) else None) (\<lambda>_. False)
      [Chunk (to_bytes sample_get)] sample_l7 idle_net
    = process_http_request None (send_message ''http'') (\<lambda>p. None) (\<lambda>_. False) [Chunk (to_bytes sample_get)] sample_l7 idle_net"
  by (rule http_stays_below_base) simp

section \<open>Serving a file\<close>

function file_chunks :: "bytes \<Rightarrow> bytes list" where
  "file_chunks dat = (if dat = [] then [] else take 4096 dat # file_chunks (drop 4096 dat))"
  by pat_completeness auto
termination
  by (relation "measure length") auto

declare file_chunks.simps [simp del]

lemma file_chunks_concat: "concat (file_chunks dat) = dat"
proof (induction dat rule: file_chunks.induct)
  case (1 dat)
  then show ?case by (cases "dat = []") (subst file_chunks.simps; simp)+
qed

lemma http_header_small:
  assumes "payload_size < 10 ^ 18" "which < 1000" "length reason < 100" "length mime_type < 100"
  shows "small (length (http_header which payload_size reason mime_type))"
  using length_digits_of[of 10 payload_size 17] length_digits_of[of 10 which 2] assms
  by (simp add: http_header_def small_def CRLF_def num_str_def)

lemma length_http_mime_type: "length (http_mime_type url) < 100"
  by (simp add: http_mime_type_def split: option.split)

text \<open>What is sent for a file: the header, the file in chunks, and the end of the stream.\<close>

definition http_messages :: "tcp_l7_session_t \<Rightarrow> string \<Rightarrow> bytes \<Rightarrow> message list" where
  "http_messages session url dat =
     map (app_message session 0) (to_bytes (http_header 200 (length dat) ''OK!'' (http_mime_type url)) # file_chunks dat)
     @ [app_message session MI_TCP_FIN []]"

context blocking_transport
begin

lemma http_send_file_room:
  assumes "ok w" "room_for (ib w) (cap w) (l7_out_name session) (map (app_message session 0) (file_chunks dat) @ ms)"
  shows "\<exists>w'. http_send_file (http_write None shm session) (\<lambda>_. False) (length dat) dat w = Inr w' \<and> ok w'
    \<and> room_for (ib w') (cap w') (l7_out_name session) ms
    \<and> (\<forall>ib''. enqueued lid (ib w') (l7_out_name session) ms ib''
         \<longrightarrow> enqueued lid (ib w) (l7_out_name session) (map (app_message session 0) (file_chunks dat) @ ms) ib'')"
  using assms
proof (induction dat arbitrary: w rule: file_chunks.induct)
  case (1 dat)
  show ?case
  proof (cases "dat = []")
    case True
    then show ?thesis using 1 by (simp add: http_send_file.simps file_chunks.simps)
  next
    case False
    let ?c = "take 4096 dat" and ?r = "drop 4096 dat"
    have c: "file_chunks dat = ?c # file_chunks ?r" using False by (subst file_chunks.simps) simp
    have "small (length ?c)" by (simp add: small_def)
    from send_func_room[OF "1.prems"(1) this "1.prems"(2)[unfolded c list.map append_Cons]]
    obtain w1 where w1: "send_func shm session ?c w = Inr (int (length ?c), w1)" "ok w1"
      "posted ib cap lid w (l7_out_name session) (app_message session 0 ?c) True w1"
      "room_for (ib w1) (cap w1) (l7_out_name session) (map (app_message session 0) (file_chunks ?r) @ ms)" .
    from "1.IH"[OF False w1(2,4)] obtain w2 where w2:
      "http_send_file (http_write None shm session) (\<lambda>_. False) (length ?r) ?r w1 = Inr w2" "ok w2"
      "room_for (ib w2) (cap w2) (l7_out_name session) ms"
      "\<And>ib''. enqueued lid (ib w2) (l7_out_name session) ms ib''
         \<Longrightarrow> enqueued lid (ib w1) (l7_out_name session) (map (app_message session 0) (file_chunks ?r) @ ms) ib''" by blast
    have "take (min (length dat) 4096) dat = ?c" "drop (min (length dat) 4096) dat = ?r"
      "length dat - min (length dat) 4096 = length ?r" by (simp_all add: min_def)
    then have "http_send_file (http_write None shm session) (\<lambda>_. False) (length dat) dat w = Inr w2"
      using w1(1) w2(1) False by (subst http_send_file.simps) (simp add: http_write_def Let_def)
    then show ?thesis using w2 enqueued_Cons[where ib = ib and cap = cap, OF w1(3)] unfolding c by auto
  qed
qed

lemma process_http_request_serves:
  assumes "ok w" "http_read_request ins [] = Inr (Some recv_buffer, ins')" "http_request recv_buffer = Inr (Serve url)"
    and "fs (open_path (http_base_path @ url)) = Some (Some (length dat), dat)" "length dat < 10 ^ 18"
    and "room_for (ib w) (cap w) (l7_out_name session) (http_messages session url dat)"
  shows "\<exists>w'. process_http_request None shm fs (\<lambda>_. False) ins session w = Inr (session\<lparr> l7_finished := True \<rparr>, w') \<and> ok w'
    \<and> enqueued lid (ib w) (l7_out_name session) (http_messages session url dat) (ib w')"
proof -
  let ?h = "http_header 200 (length dat) ''OK!'' (http_mime_type url)" and ?fin = "[app_message session MI_TCP_FIN []]"
  have "small (length (to_bytes ?h))" using http_header_small[OF assms(5)] length_http_mime_type by simp
  from send_func_room[OF assms(1) this assms(6)[unfolded http_messages_def list.map append_Cons]]
  obtain w1 where w1: "send_func shm session (to_bytes ?h) w = Inr (int (length (to_bytes ?h)), w1)" "ok w1"
    "posted ib cap lid w (l7_out_name session) (app_message session 0 (to_bytes ?h)) True w1"
    "room_for (ib w1) (cap w1) (l7_out_name session) (map (app_message session 0) (file_chunks dat) @ ?fin)" .
  from http_send_file_room[OF w1(2,4)] obtain w2 where w2:
    "http_send_file (http_write None shm session) (\<lambda>_. False) (length dat) dat w1 = Inr w2" "ok w2"
    "room_for (ib w2) (cap w2) (l7_out_name session) ?fin"
    "\<And>ib''. enqueued lid (ib w2) (l7_out_name session) ?fin ib''
       \<Longrightarrow> enqueued lid (ib w1) (l7_out_name session) (map (app_message session 0) (file_chunks dat) @ ?fin) ib''" by blast
  from fin_func_room[OF w2(2,3)] obtain w3 where w3: "fin_func shm session w2 = Inr w3" "ok w3"
    "enqueued lid (ib w2) (l7_out_name session) ?fin (ib w3)" .
  have "process_http_request None shm fs (\<lambda>_. False) ins session w = Inr (session\<lparr> l7_finished := True \<rparr>, w3)"
    using assms(2-4) w1(1) w2(1) w3(1)
    by (simp add: process_http_request_def send_http_header_def http_write_def end_session_def Let_def)
  then show ?thesis using w3(2) enqueued_Cons[where ib = ib and cap = cap, OF w1(3) w2(4)[OF w3(3)]]
    by (auto simp: http_messages_def)
qed

end

section \<open>Properties\<close>

lemma file_chunks_small: "c \<in> set (file_chunks dat) \<Longrightarrow> small (length c)"
proof (induction dat rule: file_chunks.induct)
  case (1 dat)
  have "c = take 4096 dat \<or> c \<in> set (file_chunks (drop 4096 dat))" "dat \<noteq> []"
    using 1(2) file_chunks.simps[of dat] by (auto split: if_splits)
  then show ?case using 1(1) by (auto simp: small_def)
qed

text \<open>A request for a file that can be read is answered with the header that announces its
  length and type, the whole file in order, and the end of the stream: these messages, and no
  others, arrive at the TCP server when there is room for them, and the session is finished.\<close>

lemma http_serves_file:
  assumes "net_ok w" "length lid < max_id_length" "http_read_request ins [] = Inr (Some recv_buffer, ins')"
    and "http_request recv_buffer = Inr (Serve url)"
    and "fs (open_path (http_base_path @ url)) = Some (Some (length dat), dat)" "length dat < 10 ^ 18"
    and "room_for (inbox w) (capacity w) (l7_out_name session) (http_messages session url dat)"
  shows "\<exists>w'. process_http_request None (send_message lid) fs (\<lambda>_. False) ins session w = Inr (session\<lparr> l7_finished := True \<rparr>, w') \<and> net_ok w'
      \<and> enqueued lid (inbox w) (l7_out_name session) (http_messages session url dat) (inbox w')"
  using blocking_transport.process_http_request_serves[where fs = fs, OF shm_blocking_transport[OF assms(2)] assms(1,3-7)] .

text \<open>A request for a file that can be read is answered with the header that announces its
  length and type, followed by the whole file: when there is room for the messages they arrive at
  the TCP server, which, working through them, has appended exactly these bytes to what it is to
  send on the session and noted the end of the stream; the session of the HTTP server is finished.\<close>

theorem http_file_reaches_tcp:
  assumes "net_ok w" "length lid < max_id_length" "http_read_request ins [] = Inr (Some recv_buffer, ins')"
    and "http_request recv_buffer = Inr (Serve url)"
    and "fs (open_path (http_base_path @ url)) = Some (Some (length dat), dat)" "length dat < 10 ^ 18"
    and "room_for (inbox w) (capacity w) (l7_out_name session) (http_messages session url dat)"
    and "map_ok ss" "find_key (l7_session_id session) ss = Some s"
  shows "\<exists>w' ms ss' s'. process_http_request None (send_message lid) fs (\<lambda>_. False) ins session w = Inr (session\<lparr> l7_finished := True \<rparr>, w')
    \<and> inbox w' = (inbox w)(l7_out_name session := inbox w (l7_out_name session) @ ms)
    \<and> tcp_run_out_all ms ss = Inr ss' \<and> find_key (l7_session_id session) ss' = Some s' \<and> l7_send_fin s'
    \<and> td_bytes (l7_to_tcp s') = td_bytes (l7_to_tcp s) @ to_bytes (http_header 200 (length dat) ''OK!'' (http_mime_type url)) @ dat"
proof -
  let ?ds = "to_bytes (http_header 200 (length dat) ''OK!'' (http_mime_type url)) # file_chunks dat"
  obtain w' where w': "process_http_request None (send_message lid) fs (\<lambda>_. False) ins session w = Inr (session\<lparr> l7_finished := True \<rparr>, w')"
    "enqueued lid (inbox w) (l7_out_name session) (http_messages session url dat) (inbox w')"
    using http_serves_file[where fs = fs, OF assms(1-7)] by blast
  then obtain ms where ms: "list_all2 (carries lid) (map (app_message session 0) ?ds @ [app_message session MI_TCP_FIN []]) ms"
    "inbox w' = (inbox w)(l7_out_name session := inbox w (l7_out_name session) @ ms)"
    unfolding enqueued_def http_messages_def by blast
  have "list_all (\<lambda>d. small (length d)) ?ds"
    using http_header_small[OF assms(6)] length_http_mime_type file_chunks_small by (simp add: list_all_iff)
  from tcp_run_out_all_app_messages[OF ms(1) this assms(8,9)] obtain ss' s' where
    "tcp_run_out_all ms ss = Inr ss'" "find_key (l7_session_id session) ss' = Some s'" "l7_send_fin s'"
    "td_bytes (l7_to_tcp s') = td_bytes (l7_to_tcp s) @ concat ?ds" by blast
  then show ?thesis using w'(1) ms(2) by (intro exI conjI) (auto simp: file_chunks_concat)
qed

theorem http_file_reaches_tcp_witness:
  "\<exists>w' ms ss' s'. process_http_request None (send_message ''http'') (\<lambda>p. if p = ''./www/a.txt'' then Some (Some 2, [104, 105]) else None) (\<lambda>_. False)
        [Chunk (to_bytes sample_get)] sample_l7 idle_net = Inr (sample_l7\<lparr> l7_finished := True \<rparr>, w')
    \<and> inbox w' = (inbox idle_net)(l7_out_name sample_l7 := inbox idle_net (l7_out_name sample_l7) @ ms)
    \<and> tcp_run_out_all ms [(99, new_session_t)] = Inr ss' \<and> find_key (l7_session_id sample_l7) ss' = Some s' \<and> l7_send_fin s'
    \<and> td_bytes (l7_to_tcp s') = td_bytes (l7_to_tcp new_session_t)
        @ to_bytes (http_header 200 (length [104, 105 :: byte]) ''OK!'' (http_mime_type ''/a.txt'')) @ [104, 105]"
proof (rule http_file_reaches_tcp)
  show "http_read_request [Chunk (to_bytes sample_get)] [] = Inr (Some sample_get, [])"
    by (subst http_read_request.simps) (simp add: sample_get_def CRLF_def starts_with_def)
  show "http_request sample_get = Inr (Serve ''/a.txt'')" by code_simp
  have c: "file_chunks [104, 105] = [[104, 105]]" by (simp add: file_chunks.simps)
  have "small (length (http_header 200 2 ''OK!'' (http_mime_type ''/a.txt'')))"
    using length_http_mime_type by (intro http_header_small) simp_all
  then show "room_for (inbox idle_net) (capacity idle_net) (l7_out_name sample_l7) (http_messages sample_l7 ''/a.txt'' [104, 105])"
    using padded_length_app_message[of "to_bytes (http_header 200 2 ''OK!'' (http_mime_type ''/a.txt''))" sample_l7 0]
      padded_length_app_message[of "[104, 105]" sample_l7 0] padded_length_app_message[of "[]" sample_l7 MI_TCP_FIN]
    by (simp add: room_for_def inbox_def capacity_def idle_net_def begin_segment_empty total_size_begin_segment http_messages_def c
        small_def sizeof_message_def numeral_2_eq_2)
qed (simp_all add: idle_net_ok max_id_length_def open_path_def http_base_path_def sample_l7_def find_key_def map_ok_def)

text \<open>Whatever the TCP server tells the HTTP server, about however many sessions, each session's
  queue holds exactly the data for that session, in order, from the message that opened it on.\<close>

theorem http_sessions_get_their_data:
  assumes "list_all2 (tells lid) es ms"
  shows "\<exists>sessions. app_run_all (new_l7_session out_name) note_close ms [] = Inr sessions \<and> sessions_ok sessions
    \<and> map_option l7_incoming (find_key sid sessions) = heard sid es None"
  using http_app.run_all_heard[OF _ assms, of "[]"] by (simp add: sessions_ok_def)

theorem http_sessions_get_their_data_witness:
  "\<exists>ms sessions. length ms = 2 \<and> app_run_all (new_l7_session ''tcp-out'') note_close ms [] = Inr sessions \<and> sessions_ok sessions
    \<and> map_option l7_incoming (find_key 99 sessions) = Some [[], [71, 69]]"
proof -
  have t: "\<exists>m. tells ''tcp'' (99, flags, pl) m" if "small (length pl)" for flags pl
    unfolding tells_def prod.case
    by (rule exI[of _ "stamped ''tcp'' 0 (wrap_message_up_tcp 99 [10, 0, 0, 1] 80 [10, 0, 0, 1] 80 flags pl) (begin_segment None 64)"],
        intro conjI that, intro exI[of _ "[10, 0, 0, 1]"] exI[of _ 80]) (simp add: small_def carries_stamped)
  obtain m1 m2 where "tells ''tcp'' (99, MI_TCP_OPEN, []) m1" "tells ''tcp'' (99, 0, [71, 69]) m2"
    using t[of "[]" MI_TCP_OPEN] t[of "[71, 69]" 0] by (auto simp: small_def)
  then have "list_all2 (tells ''tcp'') [(99, MI_TCP_OPEN, []), (99, 0, [71, 69])] [m1, m2]" by simp
  from http_sessions_get_their_data[OF this, of "''tcp-out''" 99] show ?thesis
    by (intro exI[of _ "[m1, m2]"]) (simp add: MI_TCP_OPEN_def)
qed

text \<open>C40: The sessions of the HTTP server stay well-formed, sorted and each under its own number, through
  every operation on them: the start of a turn, a message of the TCP server and a meta request;
  the start of a turn keeps exactly the unfinished ones.\<close>

theorem http_sessions_wellformed:
  assumes "sessions_ok ss"
  shows "sessions_ok (snd (http_turn please_terminate ss))
    \<and> (\<forall>k. find_key k (snd (http_turn please_terminate ss))
        = (case find_key k ss of None \<Rightarrow> None | Some s \<Rightarrow> if l7_finished s then None else Some s))
    \<and> (case http_run_in out_name m ss of Inl e \<Rightarrow> True | Inr (n, ss1) \<Rightarrow> sessions_ok ss1 \<and> n = 1)
    \<and> (case http_run_meta m' ss of Inl e \<Rightarrow> True | Inr (n, ss2) \<Rightarrow> sessions_ok ss2)"
proof -
  have "sessions_ok ss2" if "http_run_meta m' ss = Inr (n, ss2)" for n ss2
    using that assms erase_sessions_ok[OF assms]
    by (auto simp: http_run_meta_def app_run_meta_def res_bind_eq_Inr Let_def split: if_splits option.splits)
  moreover have "map_ok ss" using assms by (simp add: sessions_ok_def)
  ultimately show ?thesis using finish_sessions_ok[OF assms] find_finish_sessions http_app.run_in_ok[OF assms]
    by (auto simp: http_turn_def http_run_in_def Let_def split: sum.splits)
qed

definition sample_opening :: message where
  "sample_opening = stamped ''tcp'' 0 (wrap_message_up_tcp 7 [10, 0, 0, 1] 80 [10, 0, 0, 2] 81 MI_TCP_OPEN [71]) (begin_segment None 64)"

definition sample_closing :: message where
  "sample_closing = envelope (to_bytes (''action=close'' @ [CHR 0x0A] @ ''session-id=63'')) None"

theorem http_sessions_wellformed_witness:
  "(case http_run_in ''tcp-out'' sample_opening [(99, sample_l7)] of Inl e \<Rightarrow> False | Inr (n, ss1) \<Rightarrow>
       map fst ss1 = [7, 99] \<and> sessions_ok ss1 \<and> n = 1)
    \<and> (case http_run_meta sample_closing [(99, sample_l7)] of Inl e \<Rightarrow> False | Inr (n, ss2) \<Rightarrow> ss2 = [] \<and> sessions_ok ss2)
    \<and> sessions_ok (snd (http_turn False [(99, sample_l7)]))"
proof -
  have "sessions_ok [(99, sample_l7)]" by (simp add: sessions_ok_def map_ok_def sample_l7_def)
  note ok = http_sessions_wellformed[OF this, where out_name = "''tcp-out''" and m = sample_opening and m' = sample_closing
      and please_terminate = False]
  have opened: "http_run_in ''tcp-out'' sample_opening [(99, sample_l7)]
      = Inr (1, [(7, push_incoming [71] (new_l7_session ''tcp-out'' 7 [10, 0, 0, 1] 80 [10, 0, 0, 2] 81)), (99, sample_l7)])"
    unfolding http_run_in_def sample_opening_def
    by (subst app_run_in_message[OF carries_stamped]) (simp_all add: small_def find_key_def insert_key_def MI_TCP_OPEN_def)
  have "num_str 16 (unat (99 :: u64)) = ''63''" by (simp add: num_str_def digits_of.simps digit_char_def char_of_eq_iff)
  then have n: "my_stoull_hex ''63'' = Inr (Some 99)"
    using std_stoull_num_str[of 16 "99 :: u64"] by (simp add: my_stoull_hex_def)
  have "split (''action=close'' @ [CHR 0x0A] @ ''session-id=63'') [CHR 0x0A] = [''action=close'', ''session-id=63'']"
    using split_join_single[of "[''action=close'', ''session-id=63'']" "CHR 0x0A"] by simp
  moreover have "split ''action=close'' ''='' = [''action'', ''close'']"
    using split_join_single[of "[''action'', ''close'']" "CHR ''=''"] by simp
  moreover have "split ''session-id=63'' ''='' = [''session-id'', ''63'']"
    using split_join_single[of "[''session-id'', ''63'']" "CHR ''=''"] by simp
  ultimately have "http_run_meta sample_closing [(99, sample_l7)] = Inr (1, [])"
    using n by (simp add: http_run_meta_def app_run_meta_def sample_closing_def envelope_fields erase_key_def)
  with opened ok show ?thesis by simp
qed

end
