(* ===== verification/Gopher.thy ===== *)
theory Gopher
  imports Http
begin

text \<open>
  \<^verbatim>\<open>src/gopher_server.cpp\<close>: menus, files and the path check.  The file system (\<^verbatim>\<open>realpath\<close>, \<^verbatim>\<open>stat\<close>,
  \<^verbatim>\<open>open\<close>, \<^verbatim>\<open>readdir\<close>) is an argument.
\<close>

datatype d_type = DT_DIR | DT_REG | DT_LNK | DT_OTHER

record files =
  realpath :: "string \<Rightarrow> string option"
  stat_of :: "string \<Rightarrow> (u32 \<times> nat) option"
  open_file :: "string \<Rightarrow> bytes option"
  opendir :: "string \<Rightarrow> (string \<times> d_type) list option"

definition S_IFDIR :: u32 where "S_IFDIR = 0x4000"
definition S_IFREG :: u32 where "S_IFREG = 0x8000"

section \<open>Menus\<close>

definition gopher_ext :: "string \<Rightarrow> string" where
  "gopher_ext name = (if 4 \<le> length name then (case extension name of None \<Rightarrow> '''' | Some e \<Rightarrow> CHR ''.'' # e) else '''')"

definition TAB :: string where "TAB = [CHR 0x09]"

definition menu_line :: "string \<Rightarrow> string \<Rightarrow> bool \<Rightarrow> string \<times> d_type \<Rightarrow> string" where
  "menu_line rel_path hostname allow_parent_dir entry =
     (let name = fst entry; ext = gopher_ext name in
      if (name = ''.'' \<or> name = ''..'') \<and> \<not> allow_parent_dir then ''''
      else case snd entry of
          DT_DIR \<Rightarrow> ''1'' @ rel_path @ ''/'' @ name
        | DT_OTHER \<Rightarrow> ''''
        | _ \<Rightarrow>
            (let kind = (if ext = ''.txt'' \<or> ext = ''.html'' \<or> ext = ''.htm'' then CHR ''0''
                         else if ext = ''.png'' \<or> ext = ''.jpg'' \<or> ext = ''.jpeg'' then CHR ''I''
                         else if ext = ''.gif'' then CHR ''g''
                         else CHR ''9'')
             in (kind # name) @ TAB @ rel_path @ ''/'' @ name @ TAB @ hostname @ TAB @ ''70'' @ CRLF))"

definition menu_doc :: "files \<Rightarrow> string \<Rightarrow> string \<Rightarrow> bool \<Rightarrow> string \<Rightarrow> string" where
  "menu_doc fs base_path rel_path allow_parent_dir hostname =
     (let doc = (case opendir fs (open_path (base_path @ rel_path)) of
          None \<Rightarrow> '''' | Some entries \<Rightarrow> concat (map (menu_line rel_path hostname allow_parent_dir) entries))
      in if doc = '''' then ''3666'' @ CRLF else doc)"

definition send_menu ::
  "'w shm_queue \<Rightarrow> files \<Rightarrow> tcp_l7_session_t \<Rightarrow> string \<Rightarrow> string \<Rightarrow> bool \<Rightarrow> string \<Rightarrow> 'w \<Rightarrow> 'w res" where
  "send_menu shm fs session base_path rel_path allow_parent_dir hostname w =
     res_bind (send_func shm session (to_bytes (menu_doc fs base_path rel_path allow_parent_dir hostname)) w) (\<lambda>(n, w). Inr w)"

section \<open>Requests\<close>

text \<open>\<open>ins\<close>: what \<^verbatim>\<open>session->incoming.pop()\<close> returns, call after call.\<close>

fun gopher_read_request :: "bytes list \<Rightarrow> string \<Rightarrow> string res" where
  "gopher_read_request [] recv_buffer = Inl Blocked"
| "gopher_read_request (incoming # ins) recv_buffer =
     (let recv_buffer = recv_buffer @ of_bytes incoming in
      if find_sub CRLF recv_buffer = None then gopher_read_request ins recv_buffer
      else Inr (take (length recv_buffer - 2) recv_buffer))"

function gopher_send_file :: "'w shm_queue \<Rightarrow> tcp_l7_session_t \<Rightarrow> nat \<Rightarrow> bytes \<Rightarrow> 'w \<Rightarrow> 'w res" where
  "gopher_send_file shm session len dat w =
     (if 0 < len then
        let chunk_size = min len 4096 in
        if length (take chunk_size dat) \<noteq> chunk_size then Inr w
        else res_bind (send_func shm session (take chunk_size dat) w) (\<lambda>(n, w).
          if n \<noteq> int chunk_size then Inr w
          else gopher_send_file shm session (len - chunk_size) (drop chunk_size dat) w)
      else Inr w)"
  by pat_completeness auto
termination
  by (relation "measure (\<lambda>(shm, session, len, dat, w). len)") auto

declare gopher_send_file.simps [simp del]

definition gopher_path :: "files \<Rightarrow> string \<Rightarrow> string \<Rightarrow> string" where
  "gopher_path fs base_path selector =
     (case realpath fs (open_path (base_path @ ''/'' @ selector)) of None \<Rightarrow> '''' | Some p \<Rightarrow> p)"

definition gopher_answer ::
  "'w shm_queue \<Rightarrow> files \<Rightarrow> string \<Rightarrow> string \<Rightarrow> string \<Rightarrow> tcp_l7_session_t \<Rightarrow> 'w \<Rightarrow> 'w res" where
  "gopher_answer shm fs base_path hostname selector session w =
     (if selector = '''' then send_menu shm fs session base_path '''' False hostname w
      else
        let path = gopher_path fs base_path selector in
        if take (length base_path) path \<noteq> base_path then Inr w
        else (case stat_of fs path of
            None \<Rightarrow> Inr w
          | Some (st_mode, st_size) \<Rightarrow>
              let sub_path = drop (length base_path) path in
              if st_mode AND S_IFDIR \<noteq> 0 then send_menu shm fs session base_path sub_path True hostname w
              else if st_mode AND S_IFREG \<noteq> 0 then
                (case open_file fs path of
                   None \<Rightarrow> Inr w
                 | Some dat \<Rightarrow> gopher_send_file shm session st_size dat w)
              else Inr w))"

definition process_gopher_request ::
  "'w shm_queue \<Rightarrow> files \<Rightarrow> string \<Rightarrow> string \<Rightarrow> bytes list \<Rightarrow> tcp_l7_session_t \<Rightarrow> 'w \<Rightarrow> (tcp_l7_session_t \<times> 'w) res" where
  "process_gopher_request shm fs base_path hostname ins session w =
     res_bind (gopher_read_request ins '''') (\<lambda>selector.
     res_bind (gopher_answer shm fs base_path hostname selector session w) (\<lambda>w.
     res_bind (fin_func shm session w) (\<lambda>w.
     Inr (session\<lparr> l7_finished := True \<rparr>, w))))"

section \<open>Sessions\<close>

text \<open>A close by the TCP server is not looked at.\<close>

definition gopher_run_in :: "string \<Rightarrow> message \<Rightarrow> unit app_sessions \<Rightarrow> (nat \<times> unit app_sessions) res" where
  "gopher_run_in out_name = app_run_in (new_l7_session out_name) (\<lambda>flags hs. hs)"

definition gopher_run_meta :: "message \<Rightarrow> unit app_sessions \<Rightarrow> (nat \<times> unit app_sessions) res" where
  "gopher_run_meta = app_run_meta"

interpretation gopher_app: app_server "new_l7_session out_name" "\<lambda>flags hs. hs" for out_name
  by unfold_locales (simp_all add: new_l7_session_def)

section \<open>Lemmas\<close>

lemma gopher_send_file_http: "gopher_send_file shm session len dat w = http_send_file (http_write None shm session) (\<lambda>_. False) len dat w"
proof (induction shm session len dat w rule: gopher_send_file.induct)
  case (1 shm session len dat w)
  have "(\<lambda>(n, w). if n \<noteq> int (min len 4096) then Inr w else gopher_send_file shm session (len - min len 4096) (drop (min len 4096) dat) w)
    = (\<lambda>(n, w). if n \<noteq> int (min len 4096) then Inr w
        else http_send_file (http_write None shm session) (\<lambda>_. False) (len - min len 4096) (drop (min len 4096) dat) w)"
    if "0 < len" "length (take (min len 4096) dat) = min len 4096"
    using 1[of "min len 4096"] that by (auto intro!: ext)
  then show ?case
    unfolding gopher_send_file.simps[of shm session len] http_send_file.simps[of _ _ len]
    by (simp add: http_write_def Let_def)
qed

context blocking_transport
begin

lemma process_gopher_request_serves:
  assumes "ok w" "gopher_read_request ins '''' = Inr selector" "selector \<noteq> ''''"
    and "realpath fs (open_path (base_path @ ''/'' @ selector)) = Some (base_path @ sub_path)"
    and "stat_of fs (base_path @ sub_path) = Some (S_IFREG OR perm, length dat)" "perm AND S_IFDIR = 0"
    and "open_file fs (base_path @ sub_path) = Some dat"
    and "room_for (ib w) (cap w) (l7_out_name session)
      (map (app_message session 0) (file_chunks dat) @ [app_message session MI_TCP_FIN []])"
  shows "\<exists>w'. process_gopher_request shm fs base_path hostname ins session w = Inr (session\<lparr> l7_finished := True \<rparr>, w') \<and> ok w'
    \<and> enqueued lid (ib w) (l7_out_name session)
        (map (app_message session 0) (file_chunks dat) @ [app_message session MI_TCP_FIN []]) (ib w')"
proof -
  let ?fin = "[app_message session MI_TCP_FIN []]"
  from http_send_file_room[OF assms(1,8)] obtain w2 where w2:
    "gopher_send_file shm session (length dat) dat w = Inr w2" "ok w2"
    "room_for (ib w2) (cap w2) (l7_out_name session) ?fin"
    "\<And>ib''. enqueued lid (ib w2) (l7_out_name session) ?fin ib''
       \<Longrightarrow> enqueued lid (ib w) (l7_out_name session) (map (app_message session 0) (file_chunks dat) @ ?fin) ib''"
    unfolding gopher_send_file_http by blast
  from fin_func_room[OF w2(2,3)] obtain w3 where w3: "fin_func shm session w2 = Inr w3" "ok w3"
    "enqueued lid (ib w2) (l7_out_name session) ?fin (ib w3)" .
  have "(S_IFREG OR perm) AND S_IFDIR = 0"
    using assms(6) by (simp add: S_IFREG_def S_IFDIR_def bit.conj_disj_distrib2)
  moreover have "(S_IFREG OR perm) AND S_IFREG \<noteq> 0"
    by (simp add: bit.conj_disj_distrib2 or_eq_0_iff) (simp add: S_IFREG_def)
  ultimately have "gopher_answer shm fs base_path hostname selector session w = Inr w2"
    using assms(3-5,7) w2(1) by (simp add: gopher_answer_def gopher_path_def)
  then show ?thesis using assms(2) w2 w3 by (simp add: process_gopher_request_def)
qed

end

section \<open>Properties\<close>

text \<open>A selector that names a regular file below the base path is answered with the bytes of
  that file, in order and nothing else, followed by the end of the stream, when there is room
  for the messages.\<close>

theorem gopher_serves_file:
  assumes "net_ok w" "length lid < max_id_length" "gopher_read_request ins '''' = Inr selector" "selector \<noteq> ''''"
    and "realpath fs (open_path (base_path @ ''/'' @ selector)) = Some (base_path @ sub_path)"
    and "stat_of fs (base_path @ sub_path) = Some (S_IFREG OR perm, length dat)" "perm AND S_IFDIR = 0"
    and "open_file fs (base_path @ sub_path) = Some dat"
    and "room_for (inbox w) (capacity w) (l7_out_name session)
      (map (app_message session 0) (file_chunks dat) @ [app_message session MI_TCP_FIN []])"
  shows "concat (file_chunks dat) = dat
    \<and> (\<exists>w'. process_gopher_request (send_message lid) fs base_path hostname ins session w = Inr (session\<lparr> l7_finished := True \<rparr>, w') \<and> net_ok w'
      \<and> enqueued lid (inbox w) (l7_out_name session)
          (map (app_message session 0) (file_chunks dat) @ [app_message session MI_TCP_FIN []]) (inbox w'))"
  using blocking_transport.process_gopher_request_serves[where fs = fs, OF shm_blocking_transport[OF assms(2)] assms(1,3-9)]
  by (simp add: file_chunks_concat)

definition sample_files :: files where
  "sample_files =
     \<lparr> realpath = (\<lambda>p. if p = ''/srv/gopher/a.txt'' then Some p
         else if p = ''/srv/gopher/../gopher-old/b.txt'' then Some ''/srv/gopher-old/b.txt'' else None),
       stat_of = (\<lambda>p. Some (0x81A4, 2)), open_file = (\<lambda>p. Some [104, 105]), opendir = (\<lambda>p. None) \<rparr>"

theorem gopher_serves_file_witness:
  "concat (file_chunks [104, 105]) = [104, 105 :: byte]
    \<and> (\<exists>w'. process_gopher_request (send_message ''gopher'') sample_files ''/srv/gopher'' ''host'' [to_bytes (''a.txt'' @ CRLF)] sample_l7 idle_net
          = Inr (sample_l7\<lparr> l7_finished := True \<rparr>, w') \<and> net_ok w'
      \<and> enqueued ''gopher'' (inbox idle_net) (l7_out_name sample_l7)
          (map (app_message sample_l7 0) (file_chunks [104, 105]) @ [app_message sample_l7 MI_TCP_FIN []]) (inbox w'))"
proof (rule gopher_serves_file[where perm = "0x1A4" and selector = "''a.txt''" and sub_path = "''/a.txt''"])
  have c: "file_chunks [104, 105] = [[104, 105]]" by (simp add: file_chunks.simps)
  show "gopher_read_request [to_bytes (''a.txt'' @ CRLF)] '''' = Inr ''a.txt''"
    by (simp add: CRLF_def starts_with_def)
  show "room_for (inbox idle_net) (capacity idle_net) (l7_out_name sample_l7)
      (map (app_message sample_l7 0) (file_chunks [104, 105]) @ [app_message sample_l7 MI_TCP_FIN []])"
    using padded_length_app_message[of "[104, 105]" sample_l7 0] padded_length_app_message[of "[]" sample_l7 MI_TCP_FIN]
    by (simp add: room_for_def inbox_def capacity_def idle_net_def begin_segment_empty total_size_begin_segment c
        small_def sizeof_message_def)
qed (simp_all add: idle_net_ok max_id_length_def open_path_def sample_files_def S_IFREG_def S_IFDIR_def)

text \<open>The check compares a prefix of the path: a directory beside the base path whose name only
  begins like it is served as well.\<close>

lemma gopher_serves_sibling:
  "gopher_answer shm sample_files ''/srv/gopher'' ''host'' ''../gopher-old/b.txt'' session w = gopher_send_file shm session 2 [104, 105] w"
  by (simp add: gopher_answer_def gopher_path_def sample_files_def open_path_def S_IFREG_def S_IFDIR_def)

text \<open>The line for a directory is the selector alone: neither a name, a host nor an end of line.\<close>

lemma menu_line_directory: "menu_line rel_path hostname True (name, DT_DIR) = ''1'' @ rel_path @ ''/'' @ name"
  by (simp add: menu_line_def Let_def)

end
