(* ===== verification/Vnc_Frame.thy ===== *)
theory Vnc_Frame
  imports Servers
begin

text \<open>
  The picture of \<^verbatim>\<open>src/vnc_server.cpp\<close>: the frame buffer, the clock that bounces in it, the
  encodings of pixels and the framebuffer update message.  Buffers are lists with a capacity, so
  that a write or read outside is \<open>Out_of_bounds\<close>.  The reading of the font table is an argument
  (\<open>font c cy cx\<close>, with a result, since it may be outside of the table), and so are the results of zlib and libjpeg.
\<close>

record frame_buffer =
  fb_w :: nat
  fb_h :: nat
  fb_buffer :: bytes

section \<open>Drawing\<close>

definition set_pixel :: "bytes \<Rightarrow> int \<Rightarrow> byte \<Rightarrow> byte \<Rightarrow> byte \<Rightarrow> bytes res" where
  "set_pixel buf ofs r g b =
     (if 0 \<le> ofs \<and> nat ofs + 2 < length buf then Inr (buf[nat ofs := r, nat ofs + 1 := g, nat ofs + 2 := b])
      else Inl Out_of_bounds)"

text \<open>One row of a glyph: the columns from \<open>cx\<close> on, up to the first outside the buffer.\<close>

fun draw_row :: "(nat \<Rightarrow> byte res) \<Rightarrow> int \<Rightarrow> int \<Rightarrow> int \<Rightarrow> byte \<times> byte \<times> byte \<Rightarrow> nat list \<Rightarrow> bytes \<Rightarrow> bytes res" where
  "draw_row glyph maxo base x col [] buf = Inr buf"
| "draw_row glyph maxo base x col (cx # cxs) buf =
     (let ofs = base + (x + int cx) * 3 in
      if maxo \<le> ofs then Inr buf
      else res_bind (glyph cx) (\<lambda>v.
        let (r, g, b) = (if v \<noteq> 0 then col else (0, 0, 0)) in
        res_bind (set_pixel buf ofs r g b) (\<lambda>buf. draw_row glyph maxo base x col cxs buf)))"

fun draw_rows :: "(nat \<Rightarrow> nat \<Rightarrow> byte res) \<Rightarrow> int \<Rightarrow> nat \<Rightarrow> int \<Rightarrow> int \<Rightarrow> byte \<times> byte \<times> byte \<Rightarrow> nat list \<Rightarrow> bytes \<Rightarrow> bytes res" where
  "draw_rows glyph maxo w x y col [] buf = Inr buf"
| "draw_rows glyph maxo w x y col (cy # cys) buf =
     res_bind (draw_row (glyph cy) maxo ((int cy + y) * int w * 3) x col [0..<8] buf) (\<lambda>buf.
     draw_rows glyph maxo w x y col cys buf)"

text \<open>\<open>i\<close> is the position in the text.\<close>

fun draw_chars :: "(nat \<Rightarrow> nat \<Rightarrow> nat \<Rightarrow> byte res) \<Rightarrow> int \<Rightarrow> nat \<Rightarrow> int \<Rightarrow> int \<Rightarrow> byte \<times> byte \<times> byte \<Rightarrow> nat \<Rightarrow> string \<Rightarrow> bytes \<Rightarrow> bytes res" where
  "draw_chars font maxo w x y col i [] buf = Inr buf"
| "draw_chars font maxo w x y col i (ch # str) buf =
     res_bind (draw_rows (font (unat (byte_of_char ch AND 127))) maxo w (x + int i * 8) y col [0..<8] buf) (\<lambda>buf.
     draw_chars font maxo w x y col (i + 1) str buf)"

definition draw_text ::
  "(nat \<Rightarrow> nat \<Rightarrow> nat \<Rightarrow> byte res) \<Rightarrow> frame_buffer \<Rightarrow> int \<Rightarrow> int \<Rightarrow> string \<Rightarrow> byte \<times> byte \<times> byte \<Rightarrow> frame_buffer res" where
  "draw_text font fb x y str col =
     (let maxo = int (fb_w fb * fb_h fb * 3) in
      res_bind (draw_chars font maxo (fb_w fb) x y col 0 str (fb_buffer fb)) (\<lambda>buf.
      Inr (fb\<lparr> fb_buffer := buf \<rparr>)))"

section \<open>The bouncing clock\<close>

record bounce =
  bn_x :: int
  bn_y :: int
  bn_dx :: int
  bn_dy :: int
  bn_latest :: u64

text \<open>\<open>rnd i\<close>: the result of the \<open>i\<close>-th \<^verbatim>\<open>rand()\<close> of this turn, which is not negative.\<close>

definition bounce_step :: "frame_buffer \<Rightarrow> (nat \<Rightarrow> nat) \<Rightarrow> bounce \<Rightarrow> bounce" where
  "bounce_step fb rnd bn =
     (let w = int (fb_w fb); h = int (fb_h fb);
          x = bn_x bn + bn_dx bn; y = bn_y bn + bn_dy bn; dx = bn_dx bn; dy = bn_dy bn;
          (x, dx) = (if w \<le> x then (w - 1, - (int (rnd 0 mod 3) + 1)) else (x, dx));
          (y, dy) = (if h \<le> y then (h - 1, - (int (rnd 1 mod 3) + 1)) else (y, dy));
          (x, dx) = (if x < 0 then (0, int (rnd 2 mod 3) + 1) else (x, dx));
          (y, dy) = (if y < 0 then (0, int (rnd 3 mod 3) + 1) else (y, dy))
      in bn\<lparr> bn_x := x, bn_y := y, bn_dx := dx, bn_dy := dy \<rparr>)"

text \<open>The red of every pixel fades.\<close>

fun fade_pixels :: "byte \<Rightarrow> nat list \<Rightarrow> bytes \<Rightarrow> bytes res" where
  "fade_pixels subn [] buf = Inr buf"
| "fade_pixels subn (ox # oxs) buf =
     res_bind (load buf ox) (\<lambda>v. fade_pixels subn oxs (if subn \<le> v then buf[ox := v - subn] else buf))"

definition pixel_offsets :: "nat \<Rightarrow> nat \<Rightarrow> nat list" where
  "pixel_offsets w h = concat (map (\<lambda>y. map (\<lambda>x. y * w * 3 + x * 3) [0..<w]) [0..<h])"

text \<open>One turn of \<open>run_fb\<close>, at time \<open>now\<close> with the text \<open>str\<close> for the clock.\<close>

definition run_fb_turn ::
  "(nat \<Rightarrow> nat \<Rightarrow> nat \<Rightarrow> byte res) \<Rightarrow> (nat \<Rightarrow> nat) \<Rightarrow> u64 \<Rightarrow> string \<Rightarrow> bounce \<times> frame_buffer \<Rightarrow> (bounce \<times> frame_buffer) res" where
  "run_fb_turn font rnd now str st =
     (let (bn, fb) = st; bn = bounce_step fb rnd bn in
      if 999999 \<le> now - bn_latest bn then
        let subn = word_of_nat (rnd 4 mod 5 + 1) in
        res_bind (fade_pixels subn (pixel_offsets (fb_w fb) (fb_h fb)) (fb_buffer fb)) (\<lambda>buf.
        res_bind (draw_text font (fb\<lparr> fb_buffer := buf \<rparr>) (bn_x bn) (bn_y bn) str (255, 255, 255)) (\<lambda>fb.
        Inr (bn\<lparr> bn_latest := now \<rparr>, fb)))
      else Inr (bn, fb))"

section \<open>The clock stays inside\<close>

text \<open>The buffer has three bytes per pixel.\<close>

definition fb_ok :: "frame_buffer \<Rightarrow> bool" where
  "fb_ok fb \<longleftrightarrow> length (fb_buffer fb) = fb_w fb * fb_h fb * 3 \<and> 0 < fb_w fb \<and> 0 < fb_h fb"

definition inside :: "frame_buffer \<Rightarrow> bounce \<Rightarrow> bool" where
  "inside fb bn \<longleftrightarrow> 0 \<le> bn_x bn \<and> bn_x bn < int (fb_w fb) \<and> 0 \<le> bn_y bn \<and> bn_y bn < int (fb_h fb)"

lemma bounce_step_inside: "0 < fb_w fb \<Longrightarrow> 0 < fb_h fb \<Longrightarrow> inside fb (bounce_step fb rnd bn)"
  by (auto simp: bounce_step_def inside_def Let_def)

text \<open>A font that has a value for every pixel of every character below 128.\<close>

definition font_total :: "(nat \<Rightarrow> nat \<Rightarrow> nat \<Rightarrow> byte res) \<Rightarrow> bool" where
  "font_total font \<longleftrightarrow> (\<forall>c < 128. \<forall>cy < 8. \<forall>cx < 8. \<exists>v. font c cy cx = Inr v)"

lemma char_code_bound: "unat (byte_of_char ch AND 127) < 128"
proof -
  have "byte_of_char ch AND 127 = take_bit 7 (byte_of_char ch)" by (simp add: take_bit_eq_mask mask_eq_exp_minus_1)
  then show ?thesis using take_bit_nat_less_exp[of 7 "unat (byte_of_char ch)"] by (simp add: unsigned_take_bit_eq)
qed

lemma draw_row_ok:
  assumes "maxo = int (3 * n)" "length buf = 3 * n" "0 \<le> x" "base = 3 * int k" "\<forall>cx \<in> set cxs. \<exists>v. glyph cx = Inr v"
  shows "\<exists>buf'. draw_row glyph maxo base x col cxs buf = Inr buf' \<and> length buf' = length buf"
  using assms(2,5)
proof (induction cxs arbitrary: buf)
  case (Cons cx cxs)
  define p where "p = int k + x + int cx"
  have p: "0 \<le> p" "base + (x + int cx) * 3 = 3 * p" using assms(3,4) by (simp_all add: p_def)
  obtain v where v: "glyph cx = Inr v" using Cons.prems(2) by auto
  obtain r g b where c: "(if v \<noteq> 0 then col else (0, 0, 0)) = (r, g, b)" by (metis prod_cases3)
  show ?case
  proof (cases "maxo \<le> 3 * p")
    case False
    then have "nat (3 * p) + 2 < length buf" using p(1) assms(1) Cons.prems by (simp add: nat_mult_distrib)
    then have "set_pixel buf (3 * p) r g b = Inr (buf[nat (3 * p) := r, nat (3 * p) + 1 := g, nat (3 * p) + 2 := b])"
      using p(1) by (simp add: set_pixel_def)
    moreover obtain buf' where "draw_row glyph maxo base x col cxs (buf[nat (3 * p) := r, nat (3 * p) + 1 := g, nat (3 * p) + 2 := b]) = Inr buf'"
      "length buf' = length buf" using Cons.IH[of "buf[nat (3 * p) := r, nat (3 * p) + 1 := g, nat (3 * p) + 2 := b]"] Cons.prems by auto
    ultimately show ?thesis using False p c v by (simp add: Let_def)
  next
    case True
    then show ?thesis by (simp only: draw_row.simps Let_def p(2) if_True) simp
  qed
qed simp

lemma draw_rows_ok:
  assumes "maxo = int (3 * n)" "length buf = 3 * n" "0 \<le> x" "0 \<le> y" "\<forall>cy \<in> set cys. \<forall>cx < 8. \<exists>v. glyph cy cx = Inr v"
  shows "\<exists>buf'. draw_rows glyph maxo w x y col cys buf = Inr buf' \<and> length buf' = length buf"
  using assms(2,5)
proof (induction cys arbitrary: buf)
  case (Cons cy cys)
  have b: "(int cy + y) * int w * 3 = 3 * int (nat ((int cy + y) * int w))" using assms(4) by simp
  have g: "\<forall>cx \<in> set [0..<8]. \<exists>v. glyph cy cx = Inr v" using Cons.prems(2) by simp
  from draw_row_ok[OF assms(1) Cons.prems(1) assms(3) b g, of col] obtain b1 where
    "draw_row (glyph cy) maxo ((int cy + y) * int w * 3) x col [0..<8] buf = Inr b1" "length b1 = length buf" by blast
  then show ?case using Cons.IH[of b1] Cons.prems by auto
qed simp

lemma draw_chars_ok:
  assumes "maxo = int (3 * n)" "length buf = 3 * n" "0 \<le> x" "0 \<le> y" "font_total font"
  shows "\<exists>buf'. draw_chars font maxo w x y col i str buf = Inr buf' \<and> length buf' = length buf"
  using assms(2)
proof (induction str arbitrary: i buf)
  case (Cons ch str)
  have x: "0 \<le> x + int i * 8" using assms(3) by simp
  have g: "\<forall>cy \<in> set [0..<8]. \<forall>cx < 8. \<exists>v. font (unat (byte_of_char ch AND 127)) cy cx = Inr v"
    using assms(5) char_code_bound by (simp add: font_total_def)
  from draw_rows_ok[OF assms(1) Cons.prems x assms(4) g, of w col] obtain b1 where
    "draw_rows (font (unat (byte_of_char ch AND 127))) maxo w (x + int i * 8) y col [0..<8] buf = Inr b1" "length b1 = length buf" by blast
  then show ?case using Cons.IH[of b1 "i + 1"] Cons.prems by auto
qed simp

lemma draw_text_ok:
  assumes "fb_ok fb" "0 \<le> x" "0 \<le> y" "font_total font"
  shows "\<exists>fb'. draw_text font fb x y str col = Inr fb' \<and> fb_ok fb' \<and> fb_w fb' = fb_w fb \<and> fb_h fb' = fb_h fb"
proof -
  have "int (fb_w fb * fb_h fb * 3) = int (3 * (fb_w fb * fb_h fb))" "length (fb_buffer fb) = 3 * (fb_w fb * fb_h fb)"
    using assms(1) by (simp_all add: fb_ok_def)
  from draw_chars_ok[OF this assms(2-4), of "fb_w fb" col 0 str] show ?thesis using assms(1)
    by (auto simp: draw_text_def fb_ok_def)
qed

lemma fade_pixels_ok:
  assumes "list_all (\<lambda>ofs. ofs < length buf) ofss"
  shows "\<exists>buf'. fade_pixels subn ofss buf = Inr buf' \<and> length buf' = length buf"
  using assms
proof (induction ofss arbitrary: buf)
  case (Cons ofs ofss)
  have "list_all (\<lambda>i. i < length (buf[ofs := v])) ofss" "list_all (\<lambda>i. i < length buf) ofss" for v
    using Cons.prems by simp_all
  then show ?case using Cons.IH[of buf] Cons.IH[of "buf[ofs := buf ! ofs - subn]"] Cons.prems
    by (simp add: load_def)
qed simp

lemma pixel_offset_bound: "y < h \<Longrightarrow> x < w \<Longrightarrow> y * w * 3 + x * 3 + 2 < w * h * (3::nat)"
proof -
  assume "y < h" "x < w"
  moreover have "Suc y * w \<le> h * w" using \<open>y < h\<close> by (intro mult_le_mono) simp_all
  ultimately have "y * w + x < h * w" by simp
  then have "y * w + x < w * h" by (simp add: mult.commute)
  then show ?thesis by linarith
qed

lemma run_fb_turn_inside:
  assumes "fb_ok fb" "font_total font"
  shows "\<exists>bn' fb'. run_fb_turn font rnd now str (bn, fb) = Inr (bn', fb') \<and> fb_ok fb' \<and> inside fb' bn'
    \<and> fb_w fb' = fb_w fb \<and> fb_h fb' = fb_h fb"
proof -
  let ?bn = "bounce_step fb rnd bn" and ?subn = "word_of_nat (rnd 4 mod 5 + 1) :: byte"
  have i: "inside fb ?bn" using assms by (intro bounce_step_inside) (simp_all add: fb_ok_def)
  have "list_all (\<lambda>ofs. ofs < length (fb_buffer fb)) (pixel_offsets (fb_w fb) (fb_h fb))"
    using assms by (auto simp: list_all_iff pixel_offsets_def fb_ok_def intro: add_lessD1[OF pixel_offset_bound])
  then obtain buf where b: "fade_pixels ?subn (pixel_offsets (fb_w fb) (fb_h fb)) (fb_buffer fb) = Inr buf"
    "length buf = length (fb_buffer fb)" using fade_pixels_ok by blast
  have "fb_ok (fb\<lparr> fb_buffer := buf \<rparr>)" using assms b(2) by (simp add: fb_ok_def)
  from draw_text_ok[OF this _ _ assms(2), of "bn_x ?bn" "bn_y ?bn" str "(255, 255, 255)"] i obtain fb' where
    "draw_text font (fb\<lparr> fb_buffer := buf \<rparr>) (bn_x ?bn) (bn_y ?bn) str (255, 255, 255) = Inr fb'" "fb_ok fb'"
    "fb_w fb' = fb_w fb" "fb_h fb' = fb_h fb" by (auto simp: inside_def)
  then show ?thesis using i b(1) assms by (auto simp: run_fb_turn_def Let_def inside_def)
qed

definition black :: "nat \<Rightarrow> nat \<Rightarrow> frame_buffer" where
  "black w h = \<lparr> fb_w = w, fb_h = h, fb_buffer = replicate (w * h * 3) 0 \<rparr>"

end
