(* ===== verification/Startup.thy ===== *)
theory Startup
  imports Config Log Device Stack Tcp Gopher Vnc_Frame
begin

text \<open>
  The \<open>main\<close> functions: options, the checks of the configuration, the mappings, the queues and what is
  learned from other servers at run time.  The result of a \<open>main\<close> is its exit code, or the arguments it
  calls \<open>run\<close> with.  The library \<^verbatim>\<open>iniparser\<close> is an argument: what its functions return for a dictionary
  (the null dictionary of a file that cannot be read returns the defaults, as documented).
\<close>

section \<open>Programs that may exit\<close>

type_synonym 'a prog = "net \<Rightarrow> ((int + 'a) \<times> net) res"

definition ret :: "'a \<Rightarrow> 'a prog" where
  "ret a w = Inr (Inr a, w)"

definition leave :: "int \<Rightarrow> 'a prog" where
  "leave code w = Inr (Inl code, w)"

definition prog_bind :: "'a prog \<Rightarrow> ('a \<Rightarrow> 'b prog) \<Rightarrow> 'b prog" where
  "prog_bind p f w = res_bind (p w) (\<lambda>(r, w). case r of Inl code \<Rightarrow> Inr (Inl code, w) | Inr a \<Rightarrow> f a w)"

text \<open>A computation that does not touch the queues, and one that cannot exit.\<close>

definition pure_res :: "'a res \<Rightarrow> 'a prog" where
  "pure_res r w = res_bind r (\<lambda>a. Inr (Inr a, w))"

definition on_net :: "(net \<Rightarrow> ('a \<times> net) res) \<Rightarrow> 'a prog" where
  "on_net f w = res_bind (f w) (\<lambda>(a, w). Inr (Inr a, w))"

text \<open>\<^verbatim>\<open>if (!x) return 1;\<close>\<close>

definition or_exit :: "'a option \<Rightarrow> 'a prog" where
  "or_exit x = (case x of None \<Rightarrow> leave 1 | Some a \<Rightarrow> ret a)"

definition check :: "bool \<Rightarrow> unit prog" where
  "check b = (if b then ret () else leave 1)"

section \<open>Options and configuration\<close>

text \<open>\<open>opts\<close>: what \<^verbatim>\<open>getopt(argc, argv, "c:l:")\<close> returns, call after call, with \<^verbatim>\<open>optarg\<close>.\<close>

definition read_options :: "(char \<times> string) list \<Rightarrow> string \<times> logger" where
  "read_options opts = foldl (\<lambda>(cfg_file, log) (c, optarg).
     if c = CHR ''c'' then (optarg, log) else if c = CHR ''l'' then (cfg_file, set_loglevel optarg log) else (cfg_file, log))
     ('''', new_logger) opts"

record ini =
  ini_sections :: "string list"
  ini_string :: "string \<Rightarrow> string \<Rightarrow> string"
  ini_int :: "string \<Rightarrow> int \<Rightarrow> int"
  ini_bool :: "string \<Rightarrow> bool \<Rightarrow> int"
  ini_keys :: "string \<Rightarrow> string list"

definition load_config :: "(string \<Rightarrow> ini) \<Rightarrow> string list \<Rightarrow> (char \<times> string) list \<Rightarrow> ini prog" where
  "load_config dict_of sections opts =
     (let cfg_file = fst (read_options opts) in
      if cfg_file = '''' then leave 1
      else
        let d = dict_of cfg_file in
        if list_all (\<lambda>section_name. section_name \<in> set sections) (ini_sections d) then ret d else leave 1)"

definition need :: "ini \<Rightarrow> string \<Rightarrow> string prog" where
  "need d key = (let v = ini_string d key '''' in if v = '''' then leave 1 else ret v)"

definition msg_queue_size :: "ini \<Rightarrow> int" where
  "msg_queue_size d = (let n = ini_int d ''specific:msg-queue-size'' 0 in if n = 0 then 16384 else n)"

definition META_SHM_SIZE :: int where "META_SHM_SIZE = 512"

text \<open>The size is an \<^verbatim>\<open>int\<close> that becomes a \<^verbatim>\<open>size_t\<close>.\<close>

definition open_queue :: "string \<Rightarrow> int \<Rightarrow> string prog" where
  "open_queue name sz w =
     (case create_shm name (nat (sz mod 2 ^ 64)) w of (created, w) \<Rightarrow> Inr (if created then Inr name else Inl 1, w))"

definition gs :: "string list" where "gs = [''global'', ''specific'']"
definition gsm :: "string list" where "gsm = [''global'', ''specific'', ''mappings'']"

definition mappings_single :: "ini \<Rightarrow> (u16 \<Rightarrow> string option) prog" where
  "mappings_single d =
     prog_bind (pure_res (load_mappings_single (\<lambda>k. ini_string d k '''') (ini_keys d ''mappings'') (\<lambda>_. None))) or_exit"

definition mappings_duo :: "ini \<Rightarrow> ((u16 \<Rightarrow> string option) \<times> (string \<Rightarrow> u16 option)) prog" where
  "mappings_duo d =
     prog_bind (pure_res (load_mappings_duo (\<lambda>k. ini_string d k '''') (ini_keys d ''mappings'') (\<lambda>_. None) (\<lambda>_. None))) or_exit"

section \<open>Services\<close>

definition ntp_main :: "(string \<Rightarrow> ini) \<Rightarrow> (char \<times> string) list \<Rightarrow> (string \<times> string) prog" where
  "ntp_main dict_of opts =
     prog_bind (load_config dict_of gs opts) (\<lambda>d.
     prog_bind (need d ''global:lower-in-name'') (\<lambda>name.
     prog_bind (need d ''global:out-name'') (\<lambda>out_name.
     prog_bind (open_queue name (msg_queue_size d)) (\<lambda>shm.
     ret (shm, out_name)))))"

definition time_main :: "(string \<Rightarrow> ini) \<Rightarrow> (char \<times> string) list \<Rightarrow> (string \<times> string) prog" where
  "time_main dict_of opts =
     prog_bind (load_config dict_of gs opts) (\<lambda>d.
     prog_bind (need d ''global:lower-in-name'') (\<lambda>name.
     prog_bind (need d ''global:out-name'') (\<lambda>out_name.
     prog_bind (open_queue name (msg_queue_size d)) (\<lambda>shm.
     ret (shm, out_name)))))"

text \<open>\<open>tls\<close>: whether wolfSSL takes the certificate and the key of these files.\<close>

definition http_main ::
  "(string \<Rightarrow> ini) \<Rightarrow> (string \<Rightarrow> bool) \<times> (string \<Rightarrow> bool) \<Rightarrow> (char \<times> string) list \<Rightarrow> (string \<times> string \<times> string \<times> bool) prog" where
  "http_main dict_of tls opts =
     prog_bind (load_config dict_of gs opts) (\<lambda>d.
     prog_bind (need d ''global:lower-in-name'') (\<lambda>name.
     prog_bind (need d ''global:out-name'') (\<lambda>out_name.
     prog_bind (need d ''global:name-meta'') (\<lambda>name_meta.
     let msg_queue_size_meta = ini_int d ''specific:meta-queue-size'' 512; is_tls = ini_bool d ''specific:enable-tls'' False \<noteq> 0 in
     prog_bind (open_queue name (msg_queue_size d)) (\<lambda>shm.
     prog_bind (open_queue name_meta msg_queue_size_meta) (\<lambda>shm_meta.
     prog_bind (check (is_tls \<longrightarrow> fst tls (ini_string d ''specific:certificate-file'' ''''))) (\<lambda>_.
     prog_bind (check (is_tls \<longrightarrow> snd tls (ini_string d ''specific:private-key-file'' ''''))) (\<lambda>_.
     ret (shm, out_name, shm_meta, is_tls)))))))))"

definition gopher_main ::
  "(string \<Rightarrow> ini) \<Rightarrow> files \<Rightarrow> (char \<times> string) list \<Rightarrow> (string \<times> string \<times> string \<times> string \<times> string) prog" where
  "gopher_main dict_of fs opts =
     prog_bind (load_config dict_of gs opts) (\<lambda>d.
     prog_bind (need d ''global:lower-in-name'') (\<lambda>name.
     prog_bind (need d ''global:out-name'') (\<lambda>out_name.
     prog_bind (need d ''global:name-meta'') (\<lambda>name_meta.
     let msg_queue_size_meta = ini_int d ''specific:meta-queue-size'' 512 in
     prog_bind (need d ''specific:base-path'') (\<lambda>base_path.
     prog_bind (need d ''specific:hostname'') (\<lambda>hostname.
     prog_bind (or_exit (realpath fs base_path)) (\<lambda>base_path.
     prog_bind (open_queue name (msg_queue_size d)) (\<lambda>shm.
     prog_bind (open_queue name_meta msg_queue_size_meta) (\<lambda>shm_meta.
     ret (shm, out_name, shm_meta, base_path, hostname))))))))))"

definition vnc_main :: "(string \<Rightarrow> ini) \<Rightarrow> (char \<times> string) list \<Rightarrow> (string \<times> string \<times> string \<times> frame_buffer) prog" where
  "vnc_main dict_of opts =
     prog_bind (load_config dict_of gs opts) (\<lambda>d.
     prog_bind (need d ''global:lower-in-name'') (\<lambda>name.
     prog_bind (need d ''global:out-name'') (\<lambda>out_name.
     prog_bind (need d ''global:name-meta'') (\<lambda>name_meta.
     let msg_queue_size_meta = ini_int d ''specific:meta-queue-size'' 512 in
     prog_bind (open_queue name (msg_queue_size d)) (\<lambda>shm.
     prog_bind (open_queue name_meta msg_queue_size_meta) (\<lambda>shm_meta.
     ret (shm, out_name, shm_meta, \<lparr> fb_w = 640, fb_h = 480, fb_buffer = replicate (640 * 480 * 3) 0 \<rparr>)))))))"

section \<open>Transport servers\<close>

definition icmp_main :: "(string \<Rightarrow> ini) \<Rightarrow> (char \<times> string) list \<Rightarrow> (string \<times> string \<times> string) prog" where
  "icmp_main dict_of opts =
     prog_bind (load_config dict_of gs opts) (\<lambda>d.
     prog_bind (need d ''global:lower-in-name'') (\<lambda>name.
     prog_bind (need d ''global:out-name'') (\<lambda>out_name.
     prog_bind (need d ''global:error-in-name'') (\<lambda>error_in_name.
     prog_bind (open_queue name (msg_queue_size d)) (\<lambda>shm.
     prog_bind (open_queue error_in_name (msg_queue_size d)) (\<lambda>shm_error.
     ret (shm, out_name, shm_error)))))))"

definition udp_main ::
  "(string \<Rightarrow> ini) \<Rightarrow> (char \<times> string) list \<Rightarrow> (string \<times> string \<times> (u16 \<Rightarrow> string option) \<times> string \<times> string) prog" where
  "udp_main dict_of opts =
     prog_bind (load_config dict_of gsm opts) (\<lambda>d.
     prog_bind (need d ''global:lower-in-name'') (\<lambda>name.
     prog_bind (need d ''global:name-upper'') (\<lambda>name_upper.
     prog_bind (need d ''global:out-name'') (\<lambda>out_name.
     prog_bind (need d ''specific:icmp-error-name'') (\<lambda>icmp_error_name.
     prog_bind (mappings_single d) (\<lambda>mappings_in.
     prog_bind (open_queue name (msg_queue_size d)) (\<lambda>shm.
     prog_bind (open_queue name_upper (msg_queue_size d)) (\<lambda>shm_upper.
     ret (shm, out_name, mappings_in, shm_upper, icmp_error_name)))))))))"

text \<open>The TCP server asks the IPv4 server for its address, again after two seconds.  A turn of the
  loop: the time, and what the wait for the reply to a request returns; the list ends when
  the stop flag is set.\<close>

definition tcp_send_meta_request :: "'w shm_queue \<Rightarrow> string \<Rightarrow> string \<Rightarrow> 'w \<Rightarrow> (u64 option \<times> 'w) res" where
  "tcp_send_meta_request shm_meta peer req w =
     res_bind (shm_meta peer ((allocate_shm_message (length req))\<lparr> msg_type := msg_new, msg_data := to_bytes req \<rparr>) False w)
       (\<lambda>(r, m, w). Inr (if r then Some (msg_nr m) else None, w))"

fun tcp_cfg_runtime ::
  "'w shm_queue \<Rightarrow> string \<Rightarrow> (nat \<Rightarrow> byte) \<Rightarrow> (u64 \<times> (u64 \<Rightarrow> message option)) list \<Rightarrow> u64 \<Rightarrow> u64 \<Rightarrow> 'w \<Rightarrow> (addr \<times> 'w) res" where
  "tcp_cfg_runtime shm_meta peer junk [] last_tx nr w = Inr ([], w)"
| "tcp_cfg_runtime shm_meta peer junk ((now, answer) # turns) last_tx nr w =
     res_bind (if 2000000 < now - last_tx then
         res_bind (tcp_send_meta_request shm_meta peer ''get-ip4'' w) (\<lambda>(temp, w). Inr (map_option (\<lambda>n. (now, n)) temp, w))
       else Inr (Some (last_tx, nr), w)) (\<lambda>(sent, w).
     case sent of
       None \<Rightarrow> tcp_cfg_runtime shm_meta peer junk turns last_tx nr w
     | Some (last_tx, nr) \<Rightarrow>
         (case answer nr of
            None \<Rightarrow> tcp_cfg_runtime shm_meta peer junk turns last_tx nr w
          | Some reply \<Rightarrow>
              res_bind (meta_reply_addr ''ip4='' ''.'' False junk reply) (\<lambda>a.
              case a of Some a \<Rightarrow> Inr (a, w) | None \<Rightarrow> tcp_cfg_runtime shm_meta peer junk turns last_tx nr w)))"

text \<open>\<open>salt\<close>: what \<^verbatim>\<open>getrandom\<close> yields; \<open>stopped\<close>: the stop flag when the address is there.\<close>

definition tcp_main ::
  "(string \<Rightarrow> ini) \<Rightarrow> bytes option \<Rightarrow> (nat \<Rightarrow> byte) \<Rightarrow> (u64 \<times> (u64 \<Rightarrow> message option)) list \<Rightarrow> bool \<Rightarrow> (char \<times> string) list
    \<Rightarrow> (string \<times> string \<times> (u16 \<Rightarrow> string option) \<times> string \<times> string \<times> bytes \<times> string \<times> addr) prog" where
  "tcp_main dict_of salt junk turns stopped opts =
     prog_bind (load_config dict_of gsm opts) (\<lambda>d.
     prog_bind (need d ''global:lower-in-name'') (\<lambda>name.
     prog_bind (need d ''global:name-upper'') (\<lambda>name_upper.
     prog_bind (need d ''global:name-meta'') (\<lambda>name_meta.
     prog_bind (need d ''global:out-name'') (\<lambda>out_name.
     prog_bind (need d ''specific:icmp-error-name'') (\<lambda>icmp_error_name.
     prog_bind (need d ''global:ip4-meta-name'') (\<lambda>ip4_meta_name.
     let msg_queue_size_meta = ini_int d ''specific:meta-queue-size'' 512 in
     prog_bind (mappings_single d) (\<lambda>mappings_in.
     prog_bind (open_queue name (msg_queue_size d)) (\<lambda>shm.
     prog_bind (open_queue name_upper (msg_queue_size d)) (\<lambda>shm_upper.
     prog_bind (open_queue name_meta msg_queue_size_meta) (\<lambda>shm_meta.
     prog_bind (or_exit (my_random salt (replicate 16 0))) (\<lambda>syn_cookie_salt.
     prog_bind (on_net (tcp_cfg_runtime (send_message shm_meta) ip4_meta_name junk turns 0 0)) (\<lambda>send_addr.
     prog_bind (check (\<not> stopped)) (\<lambda>_.
     ret (shm, out_name, mappings_in, shm_upper, icmp_error_name, syn_cookie_salt, shm_meta, send_addr)))))))))))))))"

section \<open>The IPv4 and the ARP server\<close>

fun ip4_load_mappings ::
  "(string \<Rightarrow> string) \<Rightarrow> string list \<Rightarrow> (byte \<Rightarrow> string option) \<Rightarrow> (string \<Rightarrow> byte option)
    \<Rightarrow> ((byte \<Rightarrow> string option) \<times> (string \<Rightarrow> byte option)) option res" where
  "ip4_load_mappings getstring [] mappings_in mappings_out = Inr (Some (mappings_in, mappings_out))"
| "ip4_load_mappings getstring (key # keys) mappings_in mappings_out =
     (let v = getstring key in
      if v = [] then Inr None
      else res_bind (behind_colon key) (\<lambda>t.
        res_bind (my_stoi_dec t) (\<lambda>k. case k of
            None \<Rightarrow> Inr None
          | Some k \<Rightarrow> ip4_load_mappings getstring keys (map_insert (word_of_int k) v mappings_in)
              (map_insert v (word_of_int k) mappings_out))))"

record ip4_config =
  ic_shm :: string
  ic_listen_addr :: "addr \<times> int"
  ic_default_gw :: addr
  ic_mappings_in :: "byte \<Rightarrow> string option"
  ic_mappings_out :: "string \<Rightarrow> byte option"
  ic_icmp_error_name :: string
  ic_link_name :: string
  ic_resolver_replies :: string
  ic_resolver_name :: string
  ic_upper_in :: string
  ic_mtu_size :: int
  ic_meta :: string

text \<open>\<^verbatim>\<open>address/prefix\<close>.\<close>

definition read_cidr :: "(nat \<Rightarrow> byte) \<Rightarrow> string \<Rightarrow> (addr \<times> int) prog" where
  "read_cidr junk listen_addr_str =
     prog_bind (or_exit (find_sub ''/'' listen_addr_str)) (\<lambda>slash.
     prog_bind (pure_res (my_stoi_dec (drop (slash + 1) listen_addr_str))) (\<lambda>cidr.
     prog_bind (or_exit cidr) (\<lambda>cidr.
     prog_bind (pure_res (addr_of_string (take slash listen_addr_str) ''.'' False junk)) (\<lambda>listen_addr.
     ret (listen_addr, cidr)))))"

definition ip4_main :: "(string \<Rightarrow> ini) \<Rightarrow> (nat \<Rightarrow> byte) \<Rightarrow> (char \<times> string) list \<Rightarrow> ip4_config prog" where
  "ip4_main dict_of junk opts =
     prog_bind (load_config dict_of gsm opts) (\<lambda>d.
     prog_bind (need d ''global:lower-in-name'') (\<lambda>lower_in_name.
     prog_bind (need d ''global:upper-in-name'') (\<lambda>upper_in_name.
     prog_bind (need d ''global:out-name'') (\<lambda>out_name.
     prog_bind (need d ''specific:icmp-error-name'') (\<lambda>icmp_error_name.
     prog_bind (need d ''specific:resolver-name'') (\<lambda>resolver_name.
     prog_bind (need d ''specific:resolver-replies'') (\<lambda>resolver_replies.
     let mtu_size = ini_int d ''specific:ip4-mtu-size'' 1500;
         msg_queue_size_resolver = ini_int d ''specific:msg-queue-size-resolver'' 2048 in
     prog_bind (need d ''specific:listen-addr'') (\<lambda>listen_addr_str.
     prog_bind (need d ''specific:default-gw'') (\<lambda>default_gw_addr_str.
     prog_bind (need d ''global:meta-name'') (\<lambda>meta_name.
     prog_bind (pure_res (addr_of_string default_gw_addr_str ''.'' False junk)) (\<lambda>default_gw_addr.
     prog_bind (read_cidr junk listen_addr_str) (\<lambda>listen_addr.
     prog_bind (prog_bind (pure_res (ip4_load_mappings (\<lambda>k. ini_string d k '''') (ini_keys d ''mappings'')
        (\<lambda>_. None) (\<lambda>_. None))) or_exit) (\<lambda>(mappings_in, mappings_out).
     prog_bind (open_queue lower_in_name (msg_queue_size d)) (\<lambda>shm.
     prog_bind (open_queue resolver_replies msg_queue_size_resolver) (\<lambda>shm_resolver_replies.
     prog_bind (open_queue upper_in_name (msg_queue_size d)) (\<lambda>shm_upper_in.
     prog_bind (open_queue meta_name META_SHM_SIZE) (\<lambda>shm_meta.
     ret \<lparr> ic_shm = shm, ic_listen_addr = listen_addr, ic_default_gw = default_gw_addr,
       ic_mappings_in = mappings_in, ic_mappings_out = mappings_out, ic_icmp_error_name = icmp_error_name,
       ic_link_name = out_name, ic_resolver_replies = shm_resolver_replies, ic_resolver_name = resolver_name,
       ic_upper_in = shm_upper_in, ic_mtu_size = mtu_size, ic_meta = shm_meta \<rparr>)))))))))))))))))"

text \<open>The loop of the ARP server's \<open>cfg_runtime\<close>: a turn is what the waits for the two replies return; the list ends
  when the stop flag is set.\<close>

fun arp_cfg_runtime ::
  "'w shm_queue \<Rightarrow> string \<Rightarrow> string \<Rightarrow> (nat \<Rightarrow> byte) \<Rightarrow> (message option \<times> message option) list
    \<Rightarrow> addr option \<times> addr option \<Rightarrow> 'w \<Rightarrow> ((addr \<times> addr) \<times> 'w) res" where
  "arp_cfg_runtime shm_meta ether ip4 junk [] known w = Inr (([], []), w)"
| "arp_cfg_runtime shm_meta ether ip4 junk ((mac_reply, ip4_reply) # turns) known w =
     res_bind (cfg_runtime_turn shm_meta ether ip4 junk mac_reply ip4_reply known w) (\<lambda>(known, w).
     case known of
       (Some mac_addr, Some ip4_addr) \<Rightarrow> Inr ((mac_addr, ip4_addr), w)
     | _ \<Rightarrow> arp_cfg_runtime shm_meta ether ip4 junk turns known w)"

definition arp_main ::
  "(string \<Rightarrow> ini) \<Rightarrow> (nat \<Rightarrow> byte) \<Rightarrow> (message option \<times> message option) list \<Rightarrow> (char \<times> string) list
    \<Rightarrow> (string \<times> addr \<times> addr \<times> string \<times> string) prog" where
  "arp_main dict_of junk turns opts =
     prog_bind (load_config dict_of gsm opts) (\<lambda>d.
     prog_bind (need d ''global:name'') (\<lambda>name.
     prog_bind (need d ''global:out-name'') (\<lambda>out_name.
     prog_bind (need d ''global:resolver-name'') (\<lambda>resolver_name.
     prog_bind (need d ''global:meta-name'') (\<lambda>meta_name.
     prog_bind (need d ''global:ether-meta-name'') (\<lambda>ether_meta_name.
     prog_bind (need d ''global:ip4-meta-name'') (\<lambda>ip4_meta_name.
     let msg_queue_size_resolver = ini_int d ''specific:msg-queue-size-resolver'' 2048 in
     prog_bind (open_queue name (msg_queue_size d)) (\<lambda>shm.
     prog_bind (open_queue resolver_name msg_queue_size_resolver) (\<lambda>shm_resolver.
     prog_bind (open_queue meta_name META_SHM_SIZE) (\<lambda>shm_meta.
     prog_bind (on_net (arp_cfg_runtime (send_message shm_meta) ether_meta_name ip4_meta_name junk turns (None, None))) (\<lambda>(mac_addr, ip4_addr).
     ret (shm, mac_addr, ip4_addr, shm_resolver, out_name))))))))))))"

section \<open>The link servers\<close>

text \<open>What \<open>get_local_mac\<close> and \<open>set_mtu_size\<close> return is not looked at: without an answer the address is zero.
  The last component of the result is the descriptors that are open when \<open>run\<close> starts.\<close>

definition tap_device_name :: "sys \<Rightarrow> ini \<Rightarrow> string prog" where
  "tap_device_name os d = (case sc_platform os of Linux \<Rightarrow> need d ''specific:dev'' | FreeBSD \<Rightarrow> ret [])"

definition tap_mtu_size :: "ini \<Rightarrow> int" where
  "tap_mtu_size d = (let mtu_size = ini_int d ''specific:mtu-size'' 0 in if mtu_size = 0 then 1512 else mtu_size)"

definition tap_device :: "sys \<Rightarrow> string \<Rightarrow> int \<times> string \<times> int list" where
  "tap_device os device_name =
     (case sc_platform os of
        Linux \<Rightarrow> (let (fd, fds) = open_tap os device_name in (fd, device_name, fds))
      | FreeBSD \<Rightarrow> open_tap_freebsd os)"

definition tap_setup :: "sys \<Rightarrow> string \<Rightarrow> int \<Rightarrow> int \<Rightarrow> addr \<times> int list" where
  "tap_setup os device_name tap_fd mtu_size =
     (case sc_platform os of
        Linux \<Rightarrow>
          (let (mac, fds) = get_local_mac os device_name; (ok, fds') = set_mtu_size os device_name mtu_size
           in (case mac of None \<Rightarrow> replicate 6 0 | Some a \<Rightarrow> a, fds @ fds'))
      | FreeBSD \<Rightarrow>
          (let mac = get_local_mac_freebsd os device_name; ok = set_mtu_size_freebsd os tap_fd mtu_size
           in (case mac of None \<Rightarrow> replicate 6 0 | Some a \<Rightarrow> a, [])))"

definition tap_main ::
  "(string \<Rightarrow> ini) \<Rightarrow> sys \<Rightarrow> (char \<times> string) list
    \<Rightarrow> (string \<times> int \<times> addr \<times> (u16 \<Rightarrow> string option) \<times> (string \<Rightarrow> u16 option) \<times> string \<times> int list) prog" where
  "tap_main dict_of os opts =
     prog_bind (load_config dict_of gsm opts) (\<lambda>d.
     prog_bind (need d ''global:name'') (\<lambda>name.
     prog_bind (tap_device_name os d) (\<lambda>device_name.
     prog_bind (need d ''global:meta-name'') (\<lambda>meta_name.
     let run_as = ini_int d ''global:run-as'' (-1); run_group_as = ini_int d ''global:run-group-as'' (-1) in
     prog_bind (check (run_as \<noteq> -1)) (\<lambda>_.
     prog_bind (check (run_group_as \<noteq> -1)) (\<lambda>_.
     prog_bind (mappings_duo d) (\<lambda>(mappings_in, mappings_out).
     let (tap_fd, device_name, fds) = tap_device os device_name in
     prog_bind (check (tap_fd \<noteq> -1)) (\<lambda>_.
     let (mac_addr, fds') = tap_setup os device_name tap_fd (tap_mtu_size d) in
     prog_bind (check (sc_setgid os run_group_as \<noteq> -1)) (\<lambda>_.
     prog_bind (check (sc_setuid os run_as \<noteq> -1)) (\<lambda>_.
     prog_bind (open_queue name (msg_queue_size d)) (\<lambda>shm.
     prog_bind (open_queue meta_name META_SHM_SIZE) (\<lambda>shm_meta.
     ret (shm, tap_fd, mac_addr, mappings_in, mappings_out, shm_meta, fds @ fds')))))))))))))"

definition promisc_main ::
  "(string \<Rightarrow> ini) \<Rightarrow> sys \<Rightarrow> (char \<times> string) list
    \<Rightarrow> (string \<times> prom_handle \<times> (u16 \<Rightarrow> string option) \<times> (string \<Rightarrow> u16 option) \<times> string \<times> string) prog" where
  "promisc_main dict_of os opts =
     prog_bind (load_config dict_of gsm opts) (\<lambda>d.
     prog_bind (need d ''global:name'') (\<lambda>name.
     prog_bind (need d ''specific:dev'') (\<lambda>device_name.
     prog_bind (need d ''global:meta-name'') (\<lambda>meta_name.
     prog_bind (need d ''specific:announce-mac-name'') (\<lambda>announce_mac_name.
     let run_as = ini_int d ''global:run-as'' (-1); run_group_as = ini_int d ''global:run-group-as'' (-1) in
     prog_bind (check (run_as \<noteq> -1)) (\<lambda>_.
     prog_bind (check (run_group_as \<noteq> -1)) (\<lambda>_.
     prog_bind (mappings_duo d) (\<lambda>(mappings_in, mappings_out).
     prog_bind (or_exit (fst (open_promiscuous_dev os device_name))) (\<lambda>handle.
     prog_bind (check (sc_setgid os run_group_as \<noteq> -1)) (\<lambda>_.
     prog_bind (check (sc_setuid os run_as \<noteq> -1)) (\<lambda>_.
     prog_bind (open_queue name (msg_queue_size d)) (\<lambda>shm.
     prog_bind (open_queue meta_name META_SHM_SIZE) (\<lambda>shm_meta.
     ret (shm, handle, mappings_in, mappings_out, announce_mac_name, shm_meta))))))))))))))"

section \<open>Every server\<close>

text \<open>What the servers ask of their surroundings, and which queues each serves once it runs.\<close>

record surroundings =
  ev_dict_of :: "string \<Rightarrow> ini"
  ev_sys :: sys
  ev_files :: files
  ev_tls :: "(string \<Rightarrow> bool) \<times> (string \<Rightarrow> bool)"
  ev_salt :: "bytes option"
  ev_junk :: "nat \<Rightarrow> byte"
  ev_tcp_turns :: "(u64 \<times> (u64 \<Rightarrow> message option)) list"
  ev_arp_turns :: "(message option \<times> message option) list"
  ev_stopped :: bool

datatype server = Ntp_server | Time_server | Http_server | Gopher_server | Vnc_server | Icmp_server | Udp_server
  | Tcp_server | Ip4_server | Arp_server | Tap_server | Promisc_server

primrec boot :: "surroundings \<Rightarrow> (char \<times> string) list \<Rightarrow> server \<Rightarrow> string list prog" where
  "boot ev opts Ntp_server = prog_bind (ntp_main (ev_dict_of ev) opts) (\<lambda>(shm, out_name). ret [shm])"
| "boot ev opts Time_server = prog_bind (time_main (ev_dict_of ev) opts) (\<lambda>(shm, out_name). ret [shm])"
| "boot ev opts Http_server = prog_bind (http_main (ev_dict_of ev) (ev_tls ev) opts) (\<lambda>(shm, out_name, shm_meta, tls). ret [shm, shm_meta])"
| "boot ev opts Gopher_server = prog_bind (gopher_main (ev_dict_of ev) (ev_files ev) opts)
     (\<lambda>(shm, out_name, shm_meta, base_path, hostname). ret [shm, shm_meta])"
| "boot ev opts Vnc_server = prog_bind (vnc_main (ev_dict_of ev) opts) (\<lambda>(shm, out_name, shm_meta, fb). ret [shm, shm_meta])"
| "boot ev opts Icmp_server = prog_bind (icmp_main (ev_dict_of ev) opts) (\<lambda>(shm, out_name, shm_error). ret [shm, shm_error])"
| "boot ev opts Udp_server = prog_bind (udp_main (ev_dict_of ev) opts)
     (\<lambda>(shm, out_name, mappings_in, shm_upper, icmp_error_name). ret [shm, shm_upper])"
| "boot ev opts Tcp_server = prog_bind (tcp_main (ev_dict_of ev) (ev_salt ev) (ev_junk ev) (ev_tcp_turns ev) (ev_stopped ev) opts)
     (\<lambda>(shm, out_name, mappings_in, shm_upper, icmp_error_name, salt, shm_meta, send_addr). ret [shm, shm_upper, shm_meta])"
| "boot ev opts Ip4_server = prog_bind (ip4_main (ev_dict_of ev) (ev_junk ev) opts)
     (\<lambda>c. ret [ic_shm c, ic_resolver_replies c, ic_upper_in c, ic_meta c])"
| "boot ev opts Arp_server = prog_bind (arp_main (ev_dict_of ev) (ev_junk ev) (ev_arp_turns ev) opts)
     (\<lambda>(shm, mac_addr, ip4_addr, shm_resolver, out_name). ret [shm, shm_resolver])"
| "boot ev opts Tap_server = prog_bind (tap_main (ev_dict_of ev) (ev_sys ev) opts)
     (\<lambda>(shm, tap_fd, mac_addr, mappings_in, mappings_out, shm_meta, fds). ret [shm, shm_meta])"
| "boot ev opts Promisc_server = prog_bind (promisc_main (ev_dict_of ev) (ev_sys ev) opts)
     (\<lambda>(shm, handle, mappings_in, mappings_out, announce_mac_name, shm_meta). ret [shm, shm_meta])"

section \<open>Lemmas\<close>

text \<open>A queue that can be sent to.\<close>

definition serving :: "net \<Rightarrow> string \<Rightarrow> bool" where
  "serving w q \<longleftrightarrow> length q < max_id_length \<and> capacity w q \<noteq> None"

text \<open>What goes wrong in reading a number is an exception that nobody catches (\<^verbatim>\<open>std::out_of_range\<close>);
  the only other way not to come to an end is to wait without end for room in a queue, where \<open>waits\<close> allows it.\<close>

definition throws :: "'a res \<Rightarrow> bool" where
  "throws r \<longleftrightarrow> (\<forall>h. r = Inl h \<longrightarrow> h = Uncaught)"

definition stuck :: "bool \<Rightarrow> halt \<Rightarrow> bool" where
  "stuck waits h \<longleftrightarrow> h = Uncaught \<or> waits \<and> h = Blocked"

text \<open>\<open>boots waits A p B\<close>: in a well-formed world in which the queues \<open>A\<close> serve, program \<open>p\<close> leaves the world
  well-formed and these queues serving, and so are those its result adds; its only exit code is 1.\<close>

definition boots :: "bool \<Rightarrow> string set \<Rightarrow> 'a prog \<Rightarrow> ('a \<Rightarrow> string set) \<Rightarrow> bool" where
  "boots waits A p B \<longleftrightarrow> (\<forall>w. net_ok w \<longrightarrow> (\<forall>q \<in> A. serving w q) \<longrightarrow> (case p w of Inl h \<Rightarrow> stuck waits h | Inr (r, w') \<Rightarrow>
     net_ok w' \<and> (\<forall>q \<in> A. serving w' q) \<and> (case r of Inl code \<Rightarrow> code = 1 | Inr a \<Rightarrow> \<forall>q \<in> B a. serving w' q)))"

lemma bootsI:
  assumes "\<And>w h. net_ok w \<Longrightarrow> \<forall>q \<in> A. serving w q \<Longrightarrow> p w = Inl h \<Longrightarrow> stuck waits h"
    and "\<And>w r w'. net_ok w \<Longrightarrow> \<forall>q \<in> A. serving w q \<Longrightarrow> p w = Inr (r, w') \<Longrightarrow>
      net_ok w' \<and> (\<forall>q \<in> A. serving w' q) \<and> (case r of Inl code \<Rightarrow> code = 1 | Inr a \<Rightarrow> \<forall>q \<in> B a. serving w' q)"
  shows "boots waits A p B"
  unfolding boots_def
proof (intro allI impI)
  fix w assume "net_ok w" "\<forall>q \<in> A. serving w q"
  then show "case p w of Inl h \<Rightarrow> stuck waits h | Inr (r, w') \<Rightarrow>
     net_ok w' \<and> (\<forall>q \<in> A. serving w' q) \<and> (case r of Inl code \<Rightarrow> code = 1 | Inr a \<Rightarrow> \<forall>q \<in> B a. serving w' q)"
    using assms(1)[of w] assms(2)[of w] by (simp split: sum.split prod.split)
qed

lemma bootsD:
  assumes "boots waits A p B" "net_ok w" "\<forall>q \<in> A. serving w q"
  shows "p w = Inl h \<Longrightarrow> stuck waits h"
    and "p w = Inr (r, w') \<Longrightarrow>
      net_ok w' \<and> (\<forall>q \<in> A. serving w' q) \<and> (case r of Inl code \<Rightarrow> code = 1 | Inr a \<Rightarrow> \<forall>q \<in> B a. serving w' q)"
proof -
  have "case p w of Inl h \<Rightarrow> stuck waits h | Inr (r, w') \<Rightarrow>
     net_ok w' \<and> (\<forall>q \<in> A. serving w' q) \<and> (case r of Inl code \<Rightarrow> code = 1 | Inr a \<Rightarrow> \<forall>q \<in> B a. serving w' q)"
    using assms unfolding boots_def by blast
  then show "p w = Inl h \<Longrightarrow> stuck waits h" and "p w = Inr (r, w') \<Longrightarrow>
      net_ok w' \<and> (\<forall>q \<in> A. serving w' q) \<and> (case r of Inl code \<Rightarrow> code = 1 | Inr a \<Rightarrow> \<forall>q \<in> B a. serving w' q)" by simp_all
qed

named_theorems boots_intros \<open>rules of start-up programs\<close>

lemma boots_bind [boots_intros]:
  assumes "boots waits A p B" "\<And>a. boots waits (A \<union> B a) (f a) C"
  shows "boots waits A (prog_bind p f) C"
proof (rule bootsI)
  fix w h assume w: "net_ok w" "\<forall>q \<in> A. serving w q" "prog_bind p f w = Inl h"
  from w(3) consider "p w = Inl h" | a w1 where "p w = Inr (Inr a, w1)" "f a w1 = Inl h"
    by (cases "p w") (auto simp: prog_bind_def split: sum.splits)
  then show "stuck waits h"
  proof cases
    case (2 a w1)
    have "net_ok w1" "\<forall>q \<in> A \<union> B a. serving w1 q" using bootsD(2)[OF assms(1) w(1,2) 2(1)] by auto
    then show ?thesis using bootsD(1)[OF assms(2)] 2(2) by blast
  qed (rule bootsD(1)[OF assms(1) w(1,2)])
next
  fix w r w' assume w: "net_ok w" "\<forall>q \<in> A. serving w q" "prog_bind p f w = Inr (r, w')"
  from w(3) obtain r1 w1 where p: "p w = Inr (r1, w1)" "(case r1 of Inl code \<Rightarrow> Inr (Inl code, w1) | Inr a \<Rightarrow> f a w1) = Inr (r, w')"
    by (auto simp: prog_bind_def res_bind_eq_Inr)
  note first = bootsD(2)[OF assms(1) w(1,2) p(1)]
  show "net_ok w' \<and> (\<forall>q \<in> A. serving w' q) \<and> (case r of Inl code \<Rightarrow> code = 1 | Inr a \<Rightarrow> \<forall>q \<in> C a. serving w' q)"
  proof (cases r1)
    case (Inl code)
    then have "r = Inl code" "w' = w1" using p(2) by simp_all
    then show ?thesis using first Inl by simp
  next
    case (Inr a)
    then have "\<forall>q \<in> A \<union> B a. serving w1 q" "f a w1 = Inr (r, w')" "net_ok w1" using first p(2) by (simp_all add: ball_Un)
    from bootsD(2)[OF assms(2) this(3,1,2)] show ?thesis by (simp add: ball_Un)
  qed
qed

lemma boots_ret [boots_intros]: "B a \<subseteq> A \<Longrightarrow> boots waits A (ret a) B"
  by (auto simp: boots_def ret_def)

lemma boots_leave [boots_intros]: "boots waits A (leave 1) B"
  by (simp add: boots_def leave_def)

lemma boots_pure [boots_intros]: "throws r \<Longrightarrow> boots waits A (pure_res r) (\<lambda>_. {})"
  by (cases r) (auto simp: boots_def pure_res_def throws_def stuck_def)

text \<open>Numbers and addresses in texts.\<close>

lemma throws_Inr [simp]: "throws (Inr a)"
  by (simp add: throws_def)

lemma throws_bind: "throws r \<Longrightarrow> (\<And>a. r = Inr a \<Longrightarrow> throws (f a)) \<Longrightarrow> throws (res_bind r f)"
  by (cases r) (auto simp: throws_def)

lemma throws_stoi [boots_intros]: "throws (my_stoi_dec t)" "throws (my_stoi_hex t)"
  by (auto simp: throws_def my_stoi_dec_def my_stoi_hex_def split: sum.splits conv_exn.splits)

lemma throws_addr_bytes: "throws (addr_bytes base junk i parts)"
  by (induction base junk i parts rule: addr_bytes.induct)
    (auto simp: throws_def res_bind_def split: sum.splits conv_exn.splits)

lemma throws_addr_of_string [boots_intros]: "throws (addr_of_string t sep hex junk)"
  by (simp add: addr_of_string_def throws_addr_bytes)

text \<open>The documented form of the keys of a section, \<^verbatim>\<open>section:key\<close>.\<close>

definition ini_ok :: "ini \<Rightarrow> bool" where
  "ini_ok d \<longleftrightarrow> (\<forall>s. \<forall>k \<in> set (ini_keys d s). CHR '':'' \<in> set k)"

lemma throws_behind_colon: "CHR '':'' \<in> set key \<Longrightarrow> throws (behind_colon key)"
  using find_sub_single_append[of "CHR '':''"] by (auto simp: behind_colon_def dest!: split_list_first)

lemma throws_load_mappings:
  "\<forall>k \<in> set keys. CHR '':'' \<in> set k \<Longrightarrow> throws (load_mappings_single getstring keys mi)"
  "\<forall>k \<in> set keys. CHR '':'' \<in> set k \<Longrightarrow> throws (load_mappings_duo getstring keys mi mo)"
  "\<forall>k \<in> set keys. CHR '':'' \<in> set k \<Longrightarrow> throws (ip4_load_mappings getstring keys mi' mo')"
  by (induction keys arbitrary: mi mo mi' mo')
    (auto simp: Let_def split: option.split intro!: throws_bind throws_behind_colon throws_stoi)

lemma boots_exits [boots_intros]: "boots waits A (or_exit x) (\<lambda>_. {})" "boots waits A (check b) (\<lambda>_. {})" "boots waits A (need d k) (\<lambda>_. {})"
  by (auto simp: or_exit_def check_def need_def Let_def intro!: boots_intros split: option.split)

lemma boots_load_config [boots_intros]: "boots waits A (load_config dict_of ss opts) (\<lambda>_. {})"
  by (auto simp: load_config_def Let_def intro!: boots_intros)

lemma boots_config:
  assumes "\<And>f. ini_ok (dict_of f)" "\<And>d. ini_ok d \<Longrightarrow> boots waits A (k d) B"
  shows "boots waits A (prog_bind (load_config dict_of ss opts) k) B"
proof -
  have "prog_bind (load_config dict_of ss opts) k \<in> {leave 1, k (dict_of (fst (read_options opts)))}"
    by (auto simp: load_config_def Let_def prog_bind_def leave_def ret_def)
  then show ?thesis using assms boots_leave by auto
qed

lemma boots_mappings [boots_intros]:
  "ini_ok d \<Longrightarrow> boots waits A (mappings_single d) (\<lambda>_. {})" "ini_ok d \<Longrightarrow> boots waits A (mappings_duo d) (\<lambda>_. {})"
  "ini_ok d \<Longrightarrow> boots waits A (pure_res (ip4_load_mappings g (ini_keys d s) mi mo)) (\<lambda>_. {})"
  by (auto simp: mappings_single_def mappings_duo_def ini_ok_def intro!: boots_intros throws_load_mappings)

lemma boots_read_cidr [boots_intros]: "boots waits A (read_cidr junk s) (\<lambda>_. {})"
  unfolding read_cidr_def by (rule boots_intros | simp)+

lemma boots_split [boots_intros]: "(\<And>a b. x = (a, b) \<Longrightarrow> boots waits A (f a b) B) \<Longrightarrow> boots waits A (case x of (a, b) \<Rightarrow> f a b) B"
  by (cases x) simp

lemma create_shm_serving:
  assumes "create_shm name sz w = (created, w')" "net_ok w"
  shows "net_ok w'" "serving w q \<Longrightarrow> serving w' q" "created \<Longrightarrow> serving w' name"
  using assms
  by (auto simp: create_shm_def net_ok_def begin_segment_empty serving_def capacity_def split: if_splits option.splits)

lemma boots_open_queue [boots_intros]: "boots waits A (open_queue name sz) (\<lambda>q. {q})"
proof (rule bootsI)
  fix w r w' assume w: "net_ok w" "\<forall>q \<in> A. serving w q" "open_queue name sz w = Inr (r, w')"
  obtain created w1 where c: "create_shm name (nat (sz mod 2 ^ 64)) w = (created, w1)" by fastforce
  then have "w1 = w'" "r = (if created then Inr name else Inl 1)" using w(3) by (auto simp: open_queue_def)
  then show "net_ok w' \<and> (\<forall>q \<in> A. serving w' q) \<and> (case r of Inl code \<Rightarrow> code = 1 | Inr a \<Rightarrow> \<forall>q \<in> {a}. serving w' q)"
    using create_shm_serving[OF c w(1)] w(2) by simp
qed (simp add: open_queue_def split: prod.splits)

text \<open>Messages sent while a server starts change no capacity.\<close>

definition steady :: "bool \<Rightarrow> (net \<Rightarrow> ('a \<times> net) res) \<Rightarrow> bool" where
  "steady waits f \<longleftrightarrow> (\<forall>w. net_ok w \<longrightarrow> (case f w of Inl h \<Rightarrow> stuck waits h | Inr (a, w') \<Rightarrow> net_ok w' \<and> capacity w' = capacity w))"

lemma steadyI:
  assumes "\<And>w. net_ok w \<Longrightarrow> (\<exists>h. f w = Inl h \<and> stuck waits h) \<or> (\<exists>a w'. f w = Inr (a, w') \<and> net_ok w' \<and> capacity w' = capacity w)"
  shows "steady waits f"
  unfolding steady_def using assms by fastforce

lemma steadyD:
  assumes "steady waits f" "net_ok w"
  shows "(\<exists>h. f w = Inl h \<and> stuck waits h) \<or> (\<exists>a w'. f w = Inr (a, w') \<and> net_ok w' \<and> capacity w' = capacity w)"
  using assms by (cases "f w") (force simp: steady_def)+

lemma boots_on_net: "steady waits f \<Longrightarrow> boots waits A (on_net f) (\<lambda>_. {})"
proof (rule bootsI)
  fix w h assume f: "steady waits f" and w: "net_ok w" "on_net f w = Inl h"
  then show "stuck waits h" using steadyD[OF f w(1)] by (auto simp: on_net_def)
next
  fix w r w' assume f: "steady waits f" and w: "net_ok w" "\<forall>q \<in> A. serving w q" "on_net f w = Inr (r, w')"
  then show "net_ok w' \<and> (\<forall>q \<in> A. serving w' q) \<and> (case r of Inl code \<Rightarrow> code = 1 | Inr a \<Rightarrow> \<forall>q \<in> {}. serving w' q)"
    using steadyD[OF f w(1)] by (auto simp: on_net_def serving_def)
qed

lemma filled_in_request: "filled_in ((allocate_shm_message (length ''get-ip4''))\<lparr> msg_type := msg_new, msg_data := to_bytes ''get-ip4'' \<rparr>)"
  "filled_in ((allocate_shm_message (length ''get-mac''))\<lparr> msg_type := msg_new, msg_data := to_bytes ''get-mac'' \<rparr>)"
  by (rule filled_in_text(1); simp add: small_def)+

lemma steady_return: "steady waits (\<lambda>w. Inr (a, w))"
  by (rule steadyI) simp

lemma steady_bind:
  assumes "steady waits f" "\<And>a. steady waits (g a)"
  shows "steady waits (\<lambda>w. res_bind (f w) (\<lambda>(a, w). g a w))"
proof (rule steadyI)
  fix w assume w: "net_ok w"
  let ?r = "\<lambda>w. res_bind (f w) (\<lambda>(a, w). g a w)"
  from steadyD[OF assms(1) w]
  show "(\<exists>h. ?r w = Inl h \<and> stuck waits h) \<or> (\<exists>b w'. ?r w = Inr (b, w') \<and> net_ok w' \<and> capacity w' = capacity w)"
  proof (elim disjE exE conjE)
    fix a w1 assume a: "f w = Inr (a, w1)" "net_ok w1" "capacity w1 = capacity w"
    show ?thesis using steadyD[OF assms(2) a(2), of a] a by auto
  qed auto
qed

lemma steady_pure:
  assumes "throws r" "\<And>a. steady waits (g a)"
  shows "steady waits (\<lambda>w. res_bind r (\<lambda>a. g a w))"
proof (cases r)
  case (Inl h)
  then show ?thesis using assms(1) by (intro steadyI) (simp add: throws_def stuck_def)
next
  case (Inr a)
  then show ?thesis using assms(2)[of a] by simp
qed

lemma steady_if: "steady waits f \<Longrightarrow> steady waits g \<Longrightarrow> steady waits (\<lambda>w. if b then f w else g w)"
  by (cases b) simp_all

lemma steady_option: "(\<And>a. x = Some a \<Longrightarrow> steady waits (g a)) \<Longrightarrow> steady waits f \<Longrightarrow> steady waits (\<lambda>w. case x of None \<Rightarrow> f w | Some a \<Rightarrow> g a w)"
  by (cases x) simp_all

lemma steady_prod: "(\<And>a b. x = (a, b) \<Longrightarrow> steady waits (g a b)) \<Longrightarrow> steady waits (\<lambda>w. case x of (a, b) \<Rightarrow> g a b w)"
  by (cases x) simp

text \<open>A message as it comes out of a queue: all of its data is there.\<close>

definition whole :: "message \<Rightarrow> bool" where
  "whole m \<longleftrightarrow> unat (msg_size m) \<le> length (msg_data m)"

lemma throws_meta_reply: "whole m \<Longrightarrow> throws (meta_reply_addr pre sep hex junk m)"
  by (auto simp: meta_reply_addr_def whole_def Let_def intro!: throws_bind throws_addr_of_string)

lemmas steady_rules = steady_return steady_bind steady_pure steady_if steady_option steady_prod

lemma tcp_send_meta_request_steady:
  assumes "length lid < max_id_length"
  shows "steady waits (tcp_send_meta_request (send_message lid) peer ''get-ip4'')"
  using send_message_law[OF _ filled_in_request(1) assms, of _ peer]
  by (intro steadyI) (fastforce simp: tcp_send_meta_request_def posted_def)

definition tcp_turns_ok :: "(u64 \<times> (u64 \<Rightarrow> message option)) list \<Rightarrow> bool" where
  "tcp_turns_ok turns \<longleftrightarrow> (\<forall>(now, answer) \<in> set turns. \<forall>nr. pred_option whole (answer nr))"

definition arp_turns_ok :: "(message option \<times> message option) list \<Rightarrow> bool" where
  "arp_turns_ok turns \<longleftrightarrow> (\<forall>(mac_reply, ip4_reply) \<in> set turns. pred_option whole mac_reply \<and> pred_option whole ip4_reply)"

lemma tcp_cfg_runtime_steady:
  assumes "length lid < max_id_length" "tcp_turns_ok turns"
  shows "steady waits (\<lambda>w. tcp_cfg_runtime (send_message lid) peer junk turns last_tx nr w)"
  using assms(2)
proof (induction turns arbitrary: last_tx nr)
  case Nil
  show ?case by (simp add: steady_return)
next
  case (Cons t turns)
  obtain now answer where t: "t = (now, answer)" by fastforce
  have w: "answer nr = Some m \<Longrightarrow> whole m" for nr m using Cons.prems by (force simp: tcp_turns_ok_def t pred_option_def)
  have ok: "tcp_turns_ok turns" using Cons.prems by (simp add: tcp_turns_ok_def)
  show ?case unfolding t tcp_cfg_runtime.simps
    by (assumption | rule steady_rules Cons.IH[OF ok] tcp_send_meta_request_steady[OF assms(1)] throws_meta_reply | erule w)+
qed

lemma arp_cfg_runtime_steady:
  assumes "length lid < max_id_length" "arp_turns_ok turns"
  shows "steady True (\<lambda>w. arp_cfg_runtime (send_message lid) ether ip4 junk turns known w)"
  using assms(2)
proof (induction turns arbitrary: known)
  case Nil
  show ?case by (simp add: steady_return)
next
  case (Cons t turns)
  obtain mac_reply ip4_reply where t: "t = (mac_reply, ip4_reply)" by fastforce
  have w: "mac_reply = Some m \<Longrightarrow> whole m" "ip4_reply = Some m \<Longrightarrow> whole m" for m using Cons.prems by (force simp: arp_turns_ok_def t)+
  have ask: "steady True (\<lambda>w. send_meta_request (send_message lid) peer req w)"
    if "filled_in ((allocate_shm_message (length req))\<lparr> msg_type := msg_new, msg_data := to_bytes req \<rparr>)" for peer req
  proof (rule steadyI)
    fix w assume w: "net_ok w"
    from w send_message_waits[OF w that assms(1), of peer]
    show "(\<exists>h. send_meta_request (send_message lid) peer req w = Inl h \<and> stuck True h)
      \<or> (\<exists>a w'. send_meta_request (send_message lid) peer req w = Inr (a, w') \<and> net_ok w' \<and> capacity w' = capacity w)"
      by (auto simp: send_meta_request_def posted_def stuck_def split: if_splits)
  qed
  have ok: "arp_turns_ok turns" using Cons.prems by (simp add: arp_turns_ok_def)
  show ?case unfolding t arp_cfg_runtime.simps cfg_runtime_turn_def cfg_ask_def
    by (assumption | rule steady_rules Cons.IH[OF ok] ask filled_in_request throws_meta_reply w | clarsimp simp: w)+
qed

lemma boots_cfg_runtime [boots_intros]:
  "lid \<in> A \<Longrightarrow> tcp_turns_ok turns \<Longrightarrow> boots waits A (on_net (tcp_cfg_runtime (send_message lid) peer junk turns last_tx nr)) (\<lambda>_. {})"
  "lid \<in> A \<Longrightarrow> arp_turns_ok turns' \<Longrightarrow> boots True A (on_net (arp_cfg_runtime (send_message lid) ether ip4 junk turns' known)) (\<lambda>_. {})"
proof -
  have *: "boots waits A (on_net f) (\<lambda>_. {})" if "lid \<in> A" "length lid < max_id_length \<Longrightarrow> steady waits f" for waits and f :: "net \<Rightarrow> ('a \<times> net) res"
  proof (cases "length lid < max_id_length")
    case False
    then have "\<not> serving w lid" for w by (simp add: serving_def)
    then show ?thesis using that(1) by (intro bootsI) blast+
  qed (use that(2) boots_on_net in blast)
  show "lid \<in> A \<Longrightarrow> tcp_turns_ok turns \<Longrightarrow> boots waits A (on_net (tcp_cfg_runtime (send_message lid) peer junk turns last_tx nr)) (\<lambda>_. {})"
    by (erule *) (rule tcp_cfg_runtime_steady)
  show "lid \<in> A \<Longrightarrow> arp_turns_ok turns' \<Longrightarrow> boots True A (on_net (arp_cfg_runtime (send_message lid) ether ip4 junk turns' known)) (\<lambda>_. {})"
    by (erule *) (rule arp_cfg_runtime_steady)
qed

lemma boots_services [boots_intros]:
  assumes cfg: "\<And>f. ini_ok (dict_of f)"
  shows
  "boots waits A (ntp_main dict_of opts) (\<lambda>(shm, out_name). {shm})"
  "boots waits A (time_main dict_of opts) (\<lambda>(shm, out_name). {shm})"
  "boots waits A (http_main dict_of tls opts) (\<lambda>(shm, out_name, shm_meta, is_tls). {shm, shm_meta})"
  "boots waits A (gopher_main dict_of fs opts) (\<lambda>(shm, out_name, shm_meta, base_path, hostname). {shm, shm_meta})"
  "boots waits A (vnc_main dict_of opts) (\<lambda>(shm, out_name, shm_meta, fb). {shm, shm_meta})"
  unfolding ntp_main_def time_main_def http_main_def gopher_main_def vnc_main_def Let_def
  by (assumption | rule cfg boots_config[OF cfg] boots_intros | simp)+

lemma boots_transports [boots_intros]:
  assumes cfg: "\<And>f. ini_ok (dict_of f)"
  shows
  "boots waits A (icmp_main dict_of opts) (\<lambda>(shm, out_name, shm_error). {shm, shm_error})"
  "boots waits A (udp_main dict_of opts) (\<lambda>(shm, out_name, mappings_in, shm_upper, icmp_error_name). {shm, shm_upper})"
  "tcp_turns_ok turns \<Longrightarrow> boots waits A (tcp_main dict_of salt junk turns stopped opts)
     (\<lambda>(shm, out_name, mappings_in, shm_upper, icmp_error_name, syn_cookie_salt, shm_meta, send_addr). {shm, shm_upper, shm_meta})"
  unfolding icmp_main_def udp_main_def tcp_main_def Let_def
  by (assumption | rule cfg boots_config[OF cfg] boots_intros | simp)+

lemma boots_tap_device_name [boots_intros]: "boots waits A (tap_device_name os d) (\<lambda>_. {})"
  by (cases "sc_platform os") (auto simp: tap_device_name_def intro!: boots_intros)

lemma boots_networks [boots_intros]:
  assumes cfg: "\<And>f. ini_ok (dict_of f)"
  shows
  "boots waits A (ip4_main dict_of junk opts) (\<lambda>c. {ic_shm c, ic_resolver_replies c, ic_upper_in c, ic_meta c})"
  "arp_turns_ok turns \<Longrightarrow> boots True A (arp_main dict_of junk turns opts) (\<lambda>(shm, mac_addr, ip4_addr, shm_resolver, out_name). {shm, shm_resolver})"
  "boots waits A (tap_main dict_of os opts) (\<lambda>(shm, tap_fd, mac_addr, mappings_in, mappings_out, shm_meta, fds). {shm, shm_meta})"
  "boots waits A (promisc_main dict_of os opts) (\<lambda>(shm, handle, mappings_in, mappings_out, announce_mac_name, shm_meta). {shm, shm_meta})"
  unfolding ip4_main_def arp_main_def tap_main_def promisc_main_def Let_def
  by (assumption | rule cfg boots_config[OF cfg] boots_intros | simp)+

text \<open>What the theorems ask of the surroundings: the library's keys, and messages that are whole.\<close>

definition surroundings_ok :: "surroundings \<Rightarrow> bool" where
  "surroundings_ok ev \<longleftrightarrow> (\<forall>f. ini_ok (ev_dict_of ev f)) \<and> tcp_turns_ok (ev_tcp_turns ev) \<and> arp_turns_ok (ev_arp_turns ev)"

lemma boots_boot:
  assumes "surroundings_ok ev"
  shows "boots (srv = Arp_server) {} (boot ev opts srv) set"
proof -
  have cfg: "ini_ok (ev_dict_of ev f)" "tcp_turns_ok (ev_tcp_turns ev)" "arp_turns_ok (ev_arp_turns ev)" for f
    using assms by (simp_all add: surroundings_ok_def)
  show ?thesis
    by (cases srv) (simp only: boot.simps simp_thms server.distinct, (rule boots_intros cfg)+, simp)+
qed

lemma prog_bind_started:
  "prog_bind p f w = Inr (Inr b, w') \<longleftrightarrow> (\<exists>a w1. p w = Inr (Inr a, w1) \<and> f a w1 = Inr (Inr b, w'))"
  by (cases "p w") (auto simp: prog_bind_def split: sum.splits)

lemma boot_not_empty: "boot ev opts srv w \<noteq> Inr (Inr [], w')"
  by (cases srv) (auto simp: prog_bind_started ret_def)

section \<open>Properties\<close>

text \<open>C29: Whatever its configuration and its surroundings (with the keys of a section in the form the library documents,
  and messages that are whole), each of the twelve servers does one of three things.  It gives up with exit code 1; or it runs with
  all its queues in place: under names that fit, open to senders, in a world whose queues are all well-formed; or it never
  starts: an exception that nobody catches ends it (a number in the configuration or in a reply that does not fit an
  \<^verbatim>\<open>int\<close>), or the ARP server waits without end to ask another server for an address.\<close>

theorem servers_start_with_their_queues:
  assumes "net_ok w" "surroundings_ok ev"
  shows "case boot ev opts srv w of
      Inl h \<Rightarrow> h = Uncaught \<or> srv = Arp_server \<and> h = Blocked
    | Inr (Inl code, w') \<Rightarrow> code = 1 \<and> net_ok w'
    | Inr (Inr queues, w') \<Rightarrow> net_ok w' \<and> queues \<noteq> [] \<and> (\<forall>q \<in> set queues. length q < max_id_length \<and> capacity w' q \<noteq> None)"
proof (cases "boot ev opts srv w")
  case (Inl h)
  then show ?thesis using bootsD(1)[OF boots_boot[OF assms(2)] assms(1) _ Inl] by (simp add: stuck_def disj_commute)
next
  case (Inr rw)
  obtain r w' where rw: "rw = (r, w')" by fastforce
  have b: "boot ev opts srv w = Inr (r, w')" using Inr rw by simp
  show ?thesis using bootsD(2)[OF boots_boot[OF assms(2)] assms(1) _ b] boot_not_empty[of ev opts srv w w'] b
    by (cases r) (auto simp: serving_def)
qed

text \<open>A configuration with an entry for every key.\<close>

definition sample_entries :: "(string \<times> string) list" where
  "sample_entries = [(''global:name'', ''tap''), (''global:lower-in-name'', ''low''), (''global:upper-in-name'', ''up''),
     (''global:name-upper'', ''up''), (''global:out-name'', ''out''), (''global:meta-name'', ''meta''), (''global:name-meta'', ''meta''),
     (''specific:icmp-error-name'', ''icmp''), (''specific:resolver-name'', ''arp''), (''specific:resolver-replies'', ''answers''),
     (''specific:dev'', ''tap0''), (''specific:listen-addr'', ''10.0.0.2/24''), (''specific:default-gw'', ''10.0.0.1'')]"

definition sample_ini :: ini where
  "sample_ini = \<lparr> ini_sections = [''global'', ''specific''],
     ini_string = (\<lambda>k v. case map_of sample_entries k of None \<Rightarrow> v | Some x \<Rightarrow> x),
     ini_int = (\<lambda>k n. if k = ''global:run-as'' \<or> k = ''global:run-group-as'' then 1000 else n),
     ini_bool = (\<lambda>k b. if b then 1 else 0), ini_keys = (\<lambda>s. []) \<rparr>"

definition sample_sys :: sys where
  "sample_sys = \<lparr> sc_platform = Linux, sc_open = (\<lambda>_. 3), sc_socket = 4, sc_cloexec = (\<lambda>_. 0), sc_ioctl = (\<lambda>fd rq b. (0, put_at 18 [2, 0, 0, 0, 0, 1] b)),
     sc_bind = (\<lambda>_ _. 0), sc_bindtodevice = (\<lambda>_ _. 0), sc_getifaddrs = None, sc_setgid = (\<lambda>_. 0), sc_setuid = (\<lambda>_. 0) \<rparr>"

definition sample_surroundings :: surroundings where
  "sample_surroundings = \<lparr> ev_dict_of = (\<lambda>_. sample_ini), ev_sys = sample_sys,
     ev_files = \<lparr> realpath = (\<lambda>_. None), stat_of = (\<lambda>_. None), open_file = (\<lambda>_. None), opendir = (\<lambda>_. None) \<rparr>,
     ev_tls = (\<lambda>_. False, \<lambda>_. False), ev_salt = None, ev_junk = (\<lambda>_. 0), ev_tcp_turns = [], ev_arp_turns = [], ev_stopped = False \<rparr>"

definition empty_net :: net where
  "empty_net = \<lparr> segs = (\<lambda>_. None), os_up = (\<lambda>_. True), clock = 0 \<rparr>"

text \<open>The same with a mapping of a port number that fits no \<^verbatim>\<open>int\<close>.\<close>

definition huge_port :: surroundings where
  "huge_port = sample_surroundings\<lparr> ev_dict_of := (\<lambda>_. sample_ini\<lparr> ini_keys := (\<lambda>s. [''mappings:99999999999'']),
     ini_string := (\<lambda>k v. if k = ''mappings:99999999999'' then ''ntp'' else ini_string sample_ini k v) \<rparr>) \<rparr>"

lemma huge_port_throws: "boot huge_port [(CHR ''c'', ''udp.ini'')] Udp_server w = Inl Uncaught"
proof -
  have "num_str 10 99999999999 = ''99999999999''"
    by (simp add: num_str_def digits_of.simps digit_char_def char_of_eq_iff)
  then have "my_stoi_dec ''99999999999'' = Inl Uncaught"
    using std_stoi_num_str_large[of 10 99999999999] by (simp add: my_stoi_dec_def)
  moreover have "behind_colon ''mappings:99999999999'' = Inr ''99999999999''" by code_simp
  ultimately show ?thesis
    by (simp add: udp_main_def prog_bind_def huge_port_def sample_surroundings_def load_config_def read_options_def sample_ini_def gsm_def
        need_def sample_entries_def ret_def mappings_single_def pure_res_def)
qed

theorem servers_start_with_their_queues_witness:
  "boot huge_port [(CHR ''c'', ''udp.ini'')] Udp_server empty_net = Inl Uncaught
    \<and> (\<exists>w'. boot sample_surroundings [(CHR ''c'', ''udp.ini'')] Udp_server empty_net = Inr (Inr [''low'', ''up''], w')
    \<and> net_ok w' \<and> capacity w' ''low'' \<noteq> None \<and> capacity w' ''up'' \<noteq> None)"
proof -
  obtain w' where "boot sample_surroundings [(CHR ''c'', ''udp.ini'')] Udp_server empty_net = Inr (Inr [''low'', ''up''], w')"
    by (auto simp: udp_main_def prog_bind_def sample_surroundings_def load_config_def read_options_def sample_ini_def gsm_def
        need_def sample_entries_def ret_def mappings_single_def pure_res_def or_exit_def open_queue_def create_shm_def msg_queue_size_def
        empty_net_def max_id_length_def sizeof_message_def)
  moreover have "net_ok empty_net" by (simp add: net_ok_def empty_net_def)
  moreover have "surroundings_ok sample_surroundings" "surroundings_ok huge_port"
    by (simp_all add: surroundings_ok_def ini_ok_def huge_port_def sample_surroundings_def sample_ini_def tcp_turns_ok_def arp_turns_ok_def)
  ultimately show ?thesis
    using servers_start_with_their_queues[of empty_net sample_surroundings Udp_server "[(CHR ''c'', ''udp.ini'')]"]
      servers_start_with_their_queues[of empty_net huge_port Udp_server "[(CHR ''c'', ''udp.ini'')]"] huge_port_throws[of empty_net]
    by auto
qed

text \<open>What a program does when nothing fails.\<close>

lemma prog_steps [simp]:
  "prog_bind (ret a) f = f a" "pure_res (Inr a) = ret a" "or_exit (Some a) = ret a" "check True = ret ()" "check False = leave 1"
  "prog_bind (leave code) f = leave code"
  by (auto simp: prog_bind_def ret_def leave_def pure_res_def or_exit_def check_def)

lemma need_given: "ini_string d key '''' \<noteq> '''' \<Longrightarrow> need d key = ret (ini_string d key '''')"
  by (simp add: need_def)

text \<open>A queue that can be made: a name that fits, room for the header of a message, and a system that
  plays along.\<close>

definition can_open :: "net \<Rightarrow> string \<Rightarrow> int \<Rightarrow> bool" where
  "can_open w name sz \<longleftrightarrow> length name < max_id_length \<and> int sizeof_message \<le> sz \<and> sz < 2 ^ 31 \<and> os_up w name"

definition opened :: "string \<Rightarrow> int \<Rightarrow> net \<Rightarrow> net" where
  "opened name sz w = w\<lparr> segs := (segs w)(name \<mapsto> begin_segment (segs w name) (nat sz)) \<rparr>"

lemma open_queue_opens:
  "can_open w name sz \<Longrightarrow> prog_bind (open_queue name sz) f w = f name (opened name sz w)"
  by (auto simp: prog_bind_def open_queue_def create_shm_def can_open_def opened_def nat_less_iff sizeof_message_def)

lemma opened_world [simp]:
  "can_open (opened name sz w) name' sz' = can_open w name' sz'"
  "inbox (opened name sz w) q = (if q = name then [] else inbox w q)"
  by (simp_all add: opened_def can_open_def inbox_def begin_segment_empty)

lemma opened_ok: "net_ok w \<Longrightarrow> net_ok (opened name sz w)"
  by (auto simp: net_ok_def opened_def begin_segment_empty split: if_splits)

lemma capacity_opened: "can_open w name sz \<Longrightarrow> capacity (opened name sz w) q = (if q = name then Some (nat sz) else capacity w q)"
  by (simp add: capacity_def opened_def can_open_def total_size_begin_segment split: option.split)

lemma read_cidr_text:
  assumes "a \<noteq> []" "n < 2 ^ 31"
  shows "read_cidr junk (addr_to_str a CHR ''.'' False @ ''/'' @ num_str 10 n) = ret (a, int n)"
proof -
  have "find_sub ''/'' (addr_to_str a CHR ''.'' False @ ''/'' @ num_str 10 n) = Some (length (addr_to_str a CHR ''.'' False))"
    using signs_not_in_addr(2) by (intro find_sub_after) simp_all
  then show ?thesis using assms addr_of_to_str(1)[OF assms(1), of junk]
    by (simp add: read_cidr_def my_stoi_dec_def std_stoi_num_str)
qed

text \<open>The names the IPv4 server asks for.\<close>

definition ip4_keys :: "string list" where
  "ip4_keys = [''global:lower-in-name'', ''global:upper-in-name'', ''global:out-name'', ''specific:icmp-error-name'',
     ''specific:resolver-name'', ''specific:resolver-replies'', ''global:meta-name'']"

text \<open>C30: The IPv4 server starts on every complete configuration, and runs with the address, the prefix
  length, the gateway, the mappings, the size of packets and each of the seven names that its file says, each in its place; its four queues are
  there and empty, and all others are as they were.\<close>

theorem ip4_starts_as_configured:
  assumes "net_ok w" "fst (read_options opts) \<noteq> ''''" "dict_of (fst (read_options opts)) = d"
    and sections: "set (ini_sections d) \<subseteq> {''global'', ''specific'', ''mappings''}"
    and keys: "\<forall>k \<in> set ip4_keys. ini_string d k '''' \<noteq> ''''"
    and listen: "ini_string d ''specific:listen-addr'' '''' = addr_to_str a CHR ''.'' False @ ''/'' @ num_str 10 n" "a \<noteq> []" "n < 2 ^ 31"
    and gw: "ini_string d ''specific:default-gw'' '''' = addr_to_str g CHR ''.'' False" "g \<noteq> []"
    and maps: "ip4_load_mappings (\<lambda>k. ini_string d k '''') (ini_keys d ''mappings'') (\<lambda>_. None) (\<lambda>_. None) = Inr (Some (mi, mo))"
    and queues: "can_open w (ini_string d ''global:lower-in-name'' '''') (msg_queue_size d)"
      "can_open w (ini_string d ''specific:resolver-replies'' '''') (ini_int d ''specific:msg-queue-size-resolver'' 2048)"
      "can_open w (ini_string d ''global:upper-in-name'' '''') (msg_queue_size d)"
      "can_open w (ini_string d ''global:meta-name'' '''') META_SHM_SIZE"
  shows "\<exists>c w'. ip4_main dict_of junk opts w = Inr (Inr c, w') \<and> net_ok w'
    \<and> ic_listen_addr c = (a, int n) \<and> ic_default_gw c = g \<and> ic_mappings_in c = mi \<and> ic_mappings_out c = mo
    \<and> ic_mtu_size c = ini_int d ''specific:ip4-mtu-size'' 1500 \<and> ic_link_name c = ini_string d ''global:out-name'' ''''
    \<and> ic_shm c = ini_string d ''global:lower-in-name'' '''' \<and> ic_upper_in c = ini_string d ''global:upper-in-name'' ''''
    \<and> ic_resolver_replies c = ini_string d ''specific:resolver-replies'' '''' \<and> ic_meta c = ini_string d ''global:meta-name'' ''''
    \<and> ic_icmp_error_name c = ini_string d ''specific:icmp-error-name'' '''' \<and> ic_resolver_name c = ini_string d ''specific:resolver-name'' ''''
    \<and> (\<forall>q \<in> {ic_shm c, ic_resolver_replies c, ic_upper_in c, ic_meta c}. inbox w' q = [] \<and> capacity w' q \<noteq> None)
    \<and> (\<forall>q. q \<notin> {ic_shm c, ic_resolver_replies c, ic_upper_in c, ic_meta c} \<longrightarrow> inbox w' q = inbox w q \<and> capacity w' q = capacity w q)"
proof -
  have cfg: "load_config dict_of gsm opts = ret d"
    using assms(2,3) sections by (auto simp: load_config_def gsm_def list_all_iff)
  have n: "need d k = ret (ini_string d k '''')" if "k \<in> set ip4_keys" for k using keys that by (intro need_given) blast
  have "need d ''specific:listen-addr'' = ret (addr_to_str a CHR ''.'' False @ ''/'' @ num_str 10 n)"
    "need d ''specific:default-gw'' = ret (addr_to_str g CHR ''.'' False)"
    using listen(1) gw addr_to_str_not_Nil[of g] by (simp_all add: need_def)
  moreover let ?lower = "ini_string d ''global:lower-in-name'' ''''" and ?answers = "ini_string d ''specific:resolver-replies'' ''''"
    and ?upper = "ini_string d ''global:upper-in-name'' ''''" and ?meta = "ini_string d ''global:meta-name'' ''''"
  define w' where "w' = opened ?meta META_SHM_SIZE (opened ?upper (msg_queue_size d)
    (opened ?answers (ini_int d ''specific:msg-queue-size-resolver'' 2048) (opened ?lower (msg_queue_size d) w)))"
  ultimately have "\<exists>c. ip4_main dict_of junk opts w = Inr (Inr c, w') \<and> ic_listen_addr c = (a, int n) \<and> ic_default_gw c = g
    \<and> ic_mappings_in c = mi \<and> ic_mappings_out c = mo \<and> ic_mtu_size c = ini_int d ''specific:ip4-mtu-size'' 1500
    \<and> ic_link_name c = ini_string d ''global:out-name'' '''' \<and> ic_shm c = ?lower \<and> ic_resolver_replies c = ?answers
    \<and> ic_upper_in c = ?upper \<and> ic_meta c = ?meta
    \<and> ic_icmp_error_name c = ini_string d ''specific:icmp-error-name'' '''' \<and> ic_resolver_name c = ini_string d ''specific:resolver-name'' ''''"
    unfolding ip4_main_def cfg prog_steps Let_def
    using n queues maps read_cidr_text[OF listen(2,3)] addr_of_to_str(1)[OF gw(2), of junk]
    by (simp add: ip4_keys_def open_queue_opens) (simp add: ret_def)
  then show ?thesis using queues assms(1) by (auto simp: w'_def opened_ok capacity_opened)
qed

theorem ip4_starts_as_configured_witness:
  "\<exists>c w'. ip4_main (\<lambda>_. sample_ini) (\<lambda>_. 0) [(CHR ''c'', ''ip4.ini'')] empty_net = Inr (Inr c, w') \<and> net_ok w'
    \<and> ic_listen_addr c = ([10, 0, 0, 2], 24) \<and> ic_default_gw c = [10, 0, 0, 1] \<and> ic_mtu_size c = 1500
    \<and> ic_shm c = ''low'' \<and> ic_upper_in c = ''up'' \<and> ic_resolver_name c = ''arp'' \<and> ic_icmp_error_name c = ''icmp''"
proof -
  have i: "ini_int sample_ini k n = (if k = ''global:run-as'' \<or> k = ''global:run-group-as'' then 1000 else n)" for k n
    by (simp add: sample_ini_def)
  have "addr_to_str [10, 0, 0, 2] CHR ''.'' False @ ''/'' @ num_str 10 24 = ''10.0.0.2/24''"
    "addr_to_str [10, 0, 0, 1] CHR ''.'' False = ''10.0.0.1''"
    by (simp_all add: addr_to_str_def num_str_def digits_of.simps digit_char_def char_of_eq_iff)
  then show ?thesis
    using ip4_starts_as_configured[where w = empty_net and opts = "[(CHR ''c'', ''ip4.ini'')]" and dict_of = "\<lambda>_. sample_ini"
        and d = sample_ini and a = "[10, 0, 0, 2]" and n = 24 and g = "[10, 0, 0, 1]" and mi = "\<lambda>_. None" and mo = "\<lambda>_. None" and junk = "\<lambda>_. 0"]
    by (force simp: i net_ok_def empty_net_def read_options_def ip4_keys_def can_open_def max_id_length_def sizeof_message_def
        msg_queue_size_def META_SHM_SIZE_def sample_ini_def sample_entries_def)
qed

lemma prog_bind_result:
  "prog_bind p f w = Inr (r, w') \<longleftrightarrow>
    (\<exists>code. p w = Inr (Inl code, w') \<and> r = Inl code) \<or> (\<exists>a w1. p w = Inr (Inr a, w1) \<and> f a w1 = Inr (r, w'))"
  by (cases "p w") (auto simp: prog_bind_def split: sum.splits)

lemma quiet_steps:
  "load_config dict_of ss opts w = Inr (r, w') \<Longrightarrow> w' = w \<and> (\<forall>d. r = Inr d \<longrightarrow> d = dict_of (fst (read_options opts)))"
  "need d k w = Inr (r', w') \<Longrightarrow> w' = w"
  "check b w = Inr (r'', w') \<Longrightarrow> w' = w \<and> (\<forall>u. r'' = Inr u \<longrightarrow> b)"
  "mappings_duo d w = Inr (r''', w') \<Longrightarrow> w' = w"
  "tap_device_name os d w = Inr (r', w') \<Longrightarrow> w' = w"
  by (auto simp: load_config_def need_def check_def mappings_duo_def tap_device_name_def prog_bind_result pure_res_def or_exit_def ret_def leave_def
      res_bind_eq_Inr Let_def split: if_splits option.splits platform.splits)

text \<open>C31: The tap server makes its queues only after it has given up its privileges: when anything in the world of
  queues has changed, or the server runs, then group and user have been set to those of the
  configuration, which are given.\<close>

theorem tap_serves_unprivileged:
  assumes "tap_main dict_of os opts w = Inr (r, w')" "w' \<noteq> w \<or> r = Inr args"
  shows "\<exists>uid gid. uid = ini_int (dict_of (fst (read_options opts))) ''global:run-as'' (-1)
    \<and> gid = ini_int (dict_of (fst (read_options opts))) ''global:run-group-as'' (-1)
    \<and> uid \<noteq> -1 \<and> gid \<noteq> -1 \<and> sc_setgid os gid \<noteq> -1 \<and> sc_setuid os uid \<noteq> -1"
  using assms unfolding tap_main_def Let_def
  by (auto simp: prog_bind_result split_def dest!: quiet_steps)

theorem tap_serves_unprivileged_witness:
  "\<exists>args w' uid gid. tap_main (\<lambda>_. sample_ini) sample_sys [(CHR ''c'', ''tap.ini'')] empty_net = Inr (Inr args, w')
    \<and> uid = ini_int sample_ini ''global:run-as'' (-1) \<and> gid = ini_int sample_ini ''global:run-group-as'' (-1)
    \<and> uid \<noteq> -1 \<and> gid \<noteq> -1 \<and> sc_setgid sample_sys gid \<noteq> -1 \<and> sc_setuid sample_sys uid \<noteq> -1"
proof -
  have tap: "tap_device sample_sys n = (3, n, [3])" "tap_device_name sample_sys d = need d ''specific:dev''" "sc_setgid sample_sys g = 0" "sc_setuid sample_sys g = 0" for n d g
    by (simp_all add: tap_device_def tap_device_name_def open_tap_def sample_sys_def)
  obtain mac fds where cfg: "tap_setup sample_sys n fd m = (mac n fd m, fds n fd m)" for n fd m
    using that[of "\<lambda>n fd m. fst (tap_setup sample_sys n fd m)" "\<lambda>n fd m. snd (tap_setup sample_sys n fd m)"] by simp
  obtain args w' where "tap_main (\<lambda>_. sample_ini) sample_sys [(CHR ''c'', ''tap.ini'')] empty_net = Inr (Inr args, w')"
    by (auto simp: tap_main_def prog_bind_def load_config_def read_options_def sample_ini_def gsm_def check_def
        need_def sample_entries_def ret_def mappings_duo_def pure_res_def or_exit_def open_queue_def create_shm_def msg_queue_size_def
        empty_net_def max_id_length_def sizeof_message_def META_SHM_SIZE_def tap cfg)
  from this tap_serves_unprivileged[OF this, where args = args] show ?thesis by (intro exI[of _ args] exI[of _ w']) simp
qed

end
