(* ===== verification/Resolve.thy ===== *)
theory Resolve
  imports Stack Calm
begin

text \<open>
  The IPv4 server and the ARP server of one host: a packet from above waits until the ARP server has told the hardware
  addresses of its sender and of the next hop.
\<close>

section \<open>Text messages\<close>

definition text_message :: "u32 \<Rightarrow> u64 \<Rightarrow> string \<Rightarrow> message" where
  "text_message ty nr t = (allocate_shm_message (length t))\<lparr> msg_type := ty, msg_nr := nr, msg_data := to_bytes t \<rparr>"

lemma padded_length_text: "length t \<le> 40 \<Longrightarrow> padded_length (text_message ty nr t) \<le> 112"
  using PAD8_bounds(2)[of "sizeof_message + length t"] unat_of_nat_u32[of "length t"]
  by (simp add: padded_length_def text_message_def allocate_shm_message_def sizeof_message_def)

lemma text_message_sent:
  assumes "net_ok w" "length lid < max_id_length" "t \<noteq> []" "length t \<le> 40" "spare 112 w q"
  shows "\<exists>m' w'. send_message lid q (text_message ty nr t) blocking w = Inr (True, m', w') \<and> net_ok w'
    \<and> carries lid (text_message ty nr t) m' \<and> adds q m' w w' \<and> capacity w' = capacity w"
proof -
  let ?m = "text_message ty nr t"
  have f: "filled_in ?m" unfolding text_message_def using assms(3,4) by (intro filled_in_text(2)) (simp_all add: small_def)
  obtain s where s: "segs w q = Some s" "os_up w q" using assms(5) by (auto simp: spare_def capacity_def split: option.splits if_splits)
  have wf: "well_formed s" using assms(1) s(1) by (auto simp: net_ok_def)
  have "fits ?m s" using assms(5) s padded_length_text[OF assms(4), of ty nr] fits_contents[OF wf, of ?m]
    by (simp add: spare_def capacity_def inbox_def)
  with segment_send_step[OF wf _ assms(2), of "?m\<lparr> sent_at := clock w \<rparr>" "clock w" blocking "[]"] f obtain s' where
    s': "segment_send lid (clock w) (?m\<lparr> sent_at := clock w \<rparr>) blocking s [] = Inr (True, stamped lid (clock w) (?m\<lparr> sent_at := clock w \<rparr>) s, s')"
      "well_formed s'" "contents s' = contents s @ [stamped lid (clock w) (?m\<lparr> sent_at := clock w \<rparr>) s]" "total_size s' = total_size s" by auto
  moreover have "carries lid ?m (stamped lid (clock w) (?m\<lparr> sent_at := clock w \<rparr>) s)"
    using carries_stamped[of lid "?m\<lparr> sent_at := clock w \<rparr>"] by simp
  moreover have "inbox w q = contents s" using s(1) by (simp add: inbox_def)
  ultimately show ?thesis using assms(1) s f
    by (auto simp: send_message_def net_ok_def adds_def inbox_update capacity_update filled_in_def)
qed

lemma carries_text:
  assumes "carries lid (text_message ty nr t) m" "length t \<le> 40"
  shows "load_n (msg_data m) 0 (unat (msg_size m)) = Inr (to_bytes t)" "msg_type m = ty" "ty = msg_reply \<Longrightarrow> msg_nr m = nr"
  using assms unat_of_nat_u32[of "length t"] by (simp_all add: carries_def text_message_def allocate_shm_message_def load_n_def)

lemma request_text: "(allocate_shm_message (length t))\<lparr> msg_type := ty, msg_data := to_bytes t \<rparr> = text_message ty 0 t"
  by (simp add: text_message_def allocate_shm_message_def)

section \<open>Questions\<close>

text \<open>The numbers a queue gives to messages that are not replies.\<close>

definition last_nr :: "net \<Rightarrow> string \<Rightarrow> u64" where
  "last_nr w q = (case segs w q of None \<Rightarrow> 0 | Some s \<Rightarrow> most_recent_msg_nr s)"

lemma send_put_nr: "ends (send_put m s) (\<lambda>r. \<forall>s'. r = Some s' \<longrightarrow> most_recent_msg_nr s' = most_recent_msg_nr s)"
  by (auto simp: send_put_def Let_def store_def intro!: calm)

lemma sent_number:
  assumes "send_message lid q m False w = Inr (True, m', w')" "msg_type m \<noteq> msg_reply"
  shows "msg_nr m' = last_nr w q + 1" "last_nr w' q = last_nr w q + 1"
proof -
  define m1 where "m1 = m\<lparr> sent_at := clock w \<rparr>"
  obtain s s' where s: "segs w q = Some s" "segment_send lid (clock w) m1 False s [] = Inr (True, m', s')"
    "w' = w\<lparr> segs := (segs w)(q := Some s') \<rparr>"
    using assms(1) by (auto simp: send_message_def m1_def Let_def res_bind_eq_Inr split: option.splits if_splits)
  obtain m2 s2 where st: "send_stamp lid (clock w) m1 s = (m2, s2)" by fastforce
  have nr: "msg_nr m2 = most_recent_msg_nr s + 1" "most_recent_msg_nr s2 = most_recent_msg_nr s + 1"
    using st assms(2) by (auto simp: send_stamp_def m1_def Let_def)
  have "m' = m2" "send_put m2 s2 = Inr (Some s')"
    using s(2) st by (auto simp: segment_send_def send_loop.simps res_bind_eq_Inr split: if_splits option.splits)
  then show "msg_nr m' = last_nr w q + 1" "last_nr w' q = last_nr w q + 1"
    using nr s(1,3) endsD[OF send_put_nr, of m2 s2] by (auto simp: last_nr_def)
qed

lemma start_resolve_asks:
  assumes "net_ok w" "length lid < max_id_length" "length a = 4" "spare 112 w q"
  shows "\<exists>m w'. start_resolve_by_ip4 (send_message lid) q a w = Inr (Some (last_nr w q + 1), w') \<and> kept w w' \<and> adds q m w w'
    \<and> search_mac a m \<and> msg_nr m = last_nr w q + 1 \<and> last_nr w' q = last_nr w q + 1 \<and> msg_type m = msg_new
    \<and> (\<exists>m0. carries lid m0 m) \<and> padded_length m \<le> 112"
proof -
  let ?t = "''search-mac='' @ addr_to_str a CHR ''.'' False"
  let ?m = "text_message msg_new 0 ?t"
  have l: "length ?t \<le> 40" using length_addr_text[of a "CHR ''.''" False] assms(3) by simp
  obtain m w' where m: "send_message lid q ?m False w = Inr (True, m, w')" "net_ok w'" "carries lid ?m m" "adds q m w w'" "capacity w' = capacity w"
    using text_message_sent[OF assms(1,2) _ l assms(4), of msg_new 0 False] by auto
  note n = sent_number[OF m(1)]
  have "search_mac a m" using m(3) l unat_of_nat_u32[of "length ?t"]
    by (auto simp: search_mac_def carries_def text_message_def allocate_shm_message_def)
  moreover have "(allocate_shm_message (length ?t))\<lparr> msg_type := msg_new, msg_data := to_bytes ?t \<rparr> = ?m" by (rule request_text)
  then have "start_resolve_by_ip4 (send_message lid) q a w = Inr (Some (last_nr w q + 1), w')"
    using m(1) n by (simp add: start_resolve_by_ip4_def Let_def text_message_def msg_new_def msg_reply_def)
  ultimately show ?thesis
    using m n padded_length_carries[OF m(3)] padded_length_text[OF l, of msg_new 0]
    by (auto simp: kept_def carries_def text_message_def msg_new_def msg_reply_def)
qed

text \<open>A question to the resolver, with the queue \<open>q\<close> for the answer.\<close>

definition asks :: "string \<Rightarrow> addr \<Rightarrow> message \<Rightarrow> bool" where
  "asks q a m \<longleftrightarrow> search_mac a m \<and> msg_type m = msg_new \<and> c_str (sender m) = q"

lemma resolver_asked:
  assumes "net_ok w" "length lid < max_id_length" "CHR 0x00 \<notin> set lid" "length a = 4" "spare 112 w q"
  obtains m w' where "start_resolve_by_ip4 (send_message lid) q a w = Inr (Some (last_nr w q + 1), w')" "kept w w'" "adds q m w w'"
    "asks lid a m" "msg_nr m = last_nr w q + 1" "last_nr w' q = last_nr w q + 1" "padded_length m \<le> 112"
  using start_resolve_asks[OF assms(1,2,4,5)] that assms(2,3) carries_fields(2) by (auto simp: asks_def)

text \<open>No packet waits under the two numbers the resolver's queue gives next.\<close>

definition free_numbers :: "net \<Rightarrow> string \<Rightarrow> out_state \<Rightarrow> bool" where
  "free_numbers w q st \<longleftrightarrow> map_ok (pending_messages st)
     \<and> find_key (last_nr w q + 1) (pending_messages st) = None \<and> find_key (last_nr w q + 1 + 1) (pending_messages st) = None"

lemma queued_two:
  assumes "map_ok (pending_messages st)" "find_key f (pending_messages st) = None" "find_key t (pending_messages st) = None" "f \<noteq> t"
    and "pending_messages st' = insert_key t a (insert_key f a (pending_messages st))" "pm_heap st' a = Some pm"
    and "from_nr pm = f" "to_nr pm = t" "pm_from pm = None" "pm_to pm = None"
  shows "queued f t pm st'" "k \<noteq> f \<Longrightarrow> k \<noteq> t \<Longrightarrow> find_key k (pending_messages st') = find_key k (pending_messages st)"
  using assms by (simp_all add: queued_def find_insert_key insert_key_ok)

text \<open>A packet from above: two questions, and the packet waits under their numbers.\<close>

lemma ip4_run_out_asks:
  assumes "net_ok w" "length q < max_id_length" "CHR 0x00 \<notin> set q" "length own = 4" "length dst = 4" "length pl < 2 ^ 31"
    and "route_via own bits gw dst = Inr via" "length via = 4" "msg_data m = wrap_down own dst pl @ pad"
    and "spare 224 w rq" "free_numbers w rq st"
  shows "\<exists>ma mb pm st' w'. ip4_run_out own bits gw (send_message q) rq now m st w = Inr (0, st', w')
    \<and> inbox w' = (inbox w)(rq := inbox w rq @ [ma, mb]) \<and> asks q own ma \<and> asks q via mb
    \<and> queued (msg_nr ma) (msg_nr mb) pm st' \<and> queued_msg pm = m
    \<and> (\<forall>k. k \<noteq> msg_nr ma \<and> k \<noteq> msg_nr mb \<longrightarrow> find_key k (pending_messages st') = find_key k (pending_messages st))"
proof -
  have "spare 112 w rq" using assms(10) by (rule spare_mono) simp
  from resolver_asked[OF assms(1-4) this] obtain ma wa where
    a: "start_resolve_by_ip4 (send_message q) rq own w = Inr (Some (last_nr w rq + 1), wa)" "kept w wa" "adds rq ma w wa" "asks q own ma"
      "msg_nr ma = last_nr w rq + 1" "last_nr wa rq = last_nr w rq + 1" "padded_length ma \<le> 112" by metis
  have "spare 112 wa rq" using assms(10) a(2,3,7) by (auto simp: spare_def adds_def kept_def split: option.splits)
  from resolver_asked[OF keptD(1)[OF a(2)] assms(2,3,8) this] obtain mb wb where
    b: "start_resolve_by_ip4 (send_message q) rq via wa = Inr (Some (last_nr wa rq + 1), wb)" "adds rq mb wa wb" "asks q via mb"
      "msg_nr mb = last_nr wa rq + 1" by metis
  let ?f = "last_nr w rq + 1"
  define pm where "pm = \<lparr> ts = now, queued_msg = m, from_nr = ?f, pm_from = None, to_nr = ?f + 1, pm_to = None \<rparr>"
  define st' where "st' = st\<lparr> pending_messages := insert_key (?f + 1) (pm_next st) (insert_key ?f (pm_next st) (pending_messages st)),
    pm_heap := (pm_heap st)(pm_next st := Some pm), pm_next := pm_next st + 1 \<rparr>"
  have "ip4_run_out own bits gw (send_message q) rq now m st w = Inr (0, st', wb)"
    using a(1,6) b(1) assms(4-9) by (simp add: ip4_run_out_def unwrap_wrap_down st'_def pm_def Let_def)
  moreover have "inbox wb = (inbox w)(rq := inbox w rq @ [ma, mb])" using a(3) b(2) by (simp add: adds_def)
  moreover have "queued ?f (?f + 1) pm st'" "k \<noteq> ?f \<Longrightarrow> k \<noteq> ?f + 1 \<Longrightarrow> find_key k (pending_messages st') = find_key k (pending_messages st)" for k
    using queued_two[of st ?f "?f + 1" st' "pm_next st" pm] assms(11) by (auto simp: free_numbers_def st'_def pm_def)
  ultimately show ?thesis using a(4-6) b(3,4)
    by (intro exI[of _ ma] exI[of _ mb] exI[of _ pm] exI[of _ st'] exI[of _ wb]) (simp add: pm_def)
qed

section \<open>Answers\<close>

lemma resolver_replies:
  assumes "net_ok w" "length lid < max_id_length" "search_mac ip m" "length ip = 4" "length own = 4" "length a = 6"
    and "(if ip = own then Some mac else map_of (arp_cache st) ip) = Some a" "spare 300 w (c_str (sender m))"
  obtains w' m' where "arp_run_resolver (send_message lid) own mac out shm_out junk junk_nr m st w = Inr (1, st, w')"
    "adds (c_str (sender m)) m' w w'" "\<And>junk'. resolves junk' m' (msg_nr m) a" "msg_type m' = msg_reply" "padded_length m' \<le> 300"
proof -
  let ?reply = "resolver_reply (ip4_mac_reply ip a) (msg_nr m)"
  have ne: "ip4_mac_reply ip a \<noteq> []" by (simp add: ip4_mac_reply_def)
  note sm = small_replies(1)[OF assms(6,4)]
  from transport.push_resolver_reply_posts[OF shm_transport[OF assms(2)] assms(1) ne sm, of "c_str (sender m)" "msg_nr m"]
  obtain r w' where p: "arp_run_resolver (send_message lid) own mac out shm_out junk junk_nr m st w = Inr (1, st, w')"
    "posted inbox capacity lid w (c_str (sender m)) ?reply r w'"
    using arp_run_resolver_search[OF assms(3-5), of "send_message lid" mac out shm_out junk junk_nr st w] assms(7) by auto
  have l: "padded_length ?reply \<le> 300"
    using PAD8_bounds(2)[of "sizeof_message + length (ip4_mac_reply ip a)"] unat_of_nat_u32[of "length (ip4_mac_reply ip a)"]
      length_addr_text[of a "CHR '':''" True] length_addr_text[of ip "CHR ''.''" False] assms(4,6)
    by (simp add: padded_length_def resolver_reply_def allocate_shm_message_def sizeof_message_def ip4_mac_reply_def)
  then obtain m' where m': "carries lid ?reply m'" "adds (c_str (sender m)) m' w w'" using posted_spare[OF p(2) assms(8)] by auto
  show ?thesis
    using that[OF p(1) m'(2) resolves_reply[OF m'(1) assms(4,6)]] m'(1) padded_length_carries[OF m'(1)] l
    by (simp add: carries_def resolver_reply_def)
qed

end
