(* ===== verification/Discovery.thy ===== *)
theory Discovery
  imports Startup Resolve
begin

text \<open>
  How the servers of a host find out their addresses when they start: the TCP server asks the IPv4
  server, the ARP server the link server and the IPv4 server, each by a text message whose
  number comes back in the reply.
\<close>

section \<open>Text messages\<close>

lemma meta_reply_text:
  assumes "carries lid (text_message ty nr t) m" "length t \<le> 40" "t = pre @ u" "length pre = 4" "addr_of_string u sep hex junk = Inr a"
  shows "meta_reply_addr pre sep hex junk m = Inr (Some a)"
  using assms(3-5) carries_text(1)[OF assms(1,2)] by (simp add: meta_reply_addr_def Let_def del: to_bytes_append)

section \<open>A request and its answer\<close>

lemma ip4_run_meta_answers:
  assumes "net_ok w" "length lid < max_id_length" "carries who (text_message msg_new nr0 ''get-ip4'') m" "spare 112 w who"
    and "length who < max_id_length" "CHR 0x00 \<notin> set who" "length a = 4"
  shows "\<exists>w' m'. ip4_run_meta (send_message lid) a m w = Inr (1, w') \<and> net_ok w' \<and> adds who m' w w'
    \<and> carries lid (text_message msg_reply (msg_nr m) (''ip4='' @ addr_to_str a CHR ''.'' False)) m'"
proof -
  let ?t = "''ip4='' @ addr_to_str a CHR ''.'' False"
  have "length ?t \<le> 40" using small_addr_text[of a "CHR ''.''" False] assms(7) by simp
  from text_message_sent[OF assms(1,2) _ this assms(4), of msg_reply "msg_nr m" False] obtain m' w' where
    "send_message lid who (text_message msg_reply (msg_nr m) ?t) False w = Inr (True, m', w')" "net_ok w'" "adds who m' w w'"
    "carries lid (text_message msg_reply (msg_nr m) ?t) m'" by auto
  moreover have "split ''get-ip4'' ''='' = [''get-ip4'']" by (rule split_single_None) simp_all
  ultimately show ?thesis
    using carries_text(1)[OF assms(3)] carries_fields(2)[OF assms(3,5,6)]
    by (auto simp: ip4_run_meta_def push_meta_reply_def post_def text_message_def)
qed

lemma tap_run_meta_answers:
  assumes "net_ok w" "length lid < max_id_length" "carries who (text_message msg_new nr0 ''get-mac'') m" "spare 112 w who"
    and "length who < max_id_length" "CHR 0x00 \<notin> set who" "length a = 6"
  shows "\<exists>w' m'. tap_run_meta (send_message lid) a m w = Inr (1, w') \<and> net_ok w' \<and> adds who m' w w'
    \<and> carries lid (text_message msg_reply (msg_nr m) (''mac='' @ addr_to_str a CHR '':'' True)) m'"
proof -
  let ?t = "''mac='' @ addr_to_str a CHR '':'' True"
  have "length ?t \<le> 40" using small_addr_text[of a "CHR '':''" True] assms(7) by simp
  from text_message_sent[OF assms(1,2) _ this assms(4), of msg_reply "msg_nr m" False] obtain m' w' where
    "send_message lid who (text_message msg_reply (msg_nr m) ?t) False w = Inr (True, m', w')" "net_ok w'" "adds who m' w w'"
    "carries lid (text_message msg_reply (msg_nr m) ?t) m'" by auto
  moreover have "split ''get-mac'' ''='' = [''get-mac'']" by (rule split_single_None) simp_all
  ultimately show ?thesis
    using carries_text(1)[OF assms(3)] carries_fields(2)[OF assms(3,5,6)]
    by (auto simp: tap_run_meta_def tap_push_meta_reply_def post_def text_message_def)
qed

lemma tcp_send_meta_request_sent:
  assumes "net_ok w" "length lid < max_id_length" "spare 112 w peer"
  shows "\<exists>m w'. tcp_send_meta_request (send_message lid) peer ''get-ip4'' w = Inr (Some (msg_nr m), w') \<and> net_ok w' \<and> adds peer m w w'
    \<and> carries lid (text_message msg_new 0 ''get-ip4'') m"
  using text_message_sent[OF assms(1,2) _ _ assms(3), of "''get-ip4''" msg_new 0 False]
  unfolding tcp_send_meta_request_def request_text by auto

lemma send_meta_request_sent:
  assumes "net_ok w" "length lid < max_id_length" "spare 112 w peer" "req \<noteq> []" "length req \<le> 40"
  shows "\<exists>m w'. send_meta_request (send_message lid) peer req w = Inr (Some (msg_nr m), w') \<and> net_ok w' \<and> adds peer m w w'
    \<and> carries lid (text_message msg_new 0 req) m \<and> capacity w' = capacity w"
  using text_message_sent[OF assms(1,2,4,5,3), of msg_new 0 True]
  by (auto simp: send_meta_request_def request_text)

section \<open>Properties\<close>

text \<open>C32: The TCP server learns its address from the IPv4 server.  Its request reaches the queue of the IPv4
  server, whose answer comes back under the number the TCP server waits for, and the first
  turn of its loop then returns the address of the IPv4 server.\<close>

theorem tcp_learns_its_address:
  assumes "net_ok w" "net_ok w2" "length tcp_meta < max_id_length" "length ip_meta < max_id_length" "CHR 0x00 \<notin> set tcp_meta"
    and "spare 112 w ip_meta" "spare 112 w2 tcp_meta" "length a = 4" "2000000 < now"
  shows "\<exists>nr w1 m1 w2' m2. tcp_send_meta_request (send_message tcp_meta) ip_meta ''get-ip4'' w = Inr (Some nr, w1) \<and> adds ip_meta m1 w w1
    \<and> ip4_run_meta (send_message ip_meta) a m1 w2 = Inr (1, w2') \<and> adds tcp_meta m2 w2 w2' \<and> wanted msg_reply (Some nr) m2
    \<and> tcp_cfg_runtime (send_message tcp_meta) ip_meta junk ((now, \<lambda>n. if n = nr then Some m2 else None) # turns) 0 0 w = Inr (a, w1)"
proof -
  let ?t = "''ip4='' @ addr_to_str a CHR ''.'' False"
  have len: "length ?t \<le> 40" "a \<noteq> []" using small_addr_text[of a "CHR ''.''" False] assms(8) by auto
  obtain m1 w1 where 1: "tcp_send_meta_request (send_message tcp_meta) ip_meta ''get-ip4'' w = Inr (Some (msg_nr m1), w1)"
    "adds ip_meta m1 w w1" "carries tcp_meta (text_message msg_new 0 ''get-ip4'') m1"
    using tcp_send_meta_request_sent[OF assms(1,3,6)] by blast
  obtain m2 w2' where 2: "ip4_run_meta (send_message ip_meta) a m1 w2 = Inr (1, w2')" "adds tcp_meta m2 w2 w2'"
    "carries ip_meta (text_message msg_reply (msg_nr m1) ?t) m2"
    using ip4_run_meta_answers[OF assms(2,4) 1(3) assms(7,3,5,8)] by blast
  have "meta_reply_addr ''ip4='' ''.'' False junk m2 = Inr (Some a)"
    using meta_reply_text[OF 2(3) len(1) refl] addr_of_to_str(1)[OF len(2), of junk] by simp
  moreover have "wanted msg_reply (Some (msg_nr m1)) m2" using carries_text(2,3)[OF 2(3) len(1)] by (simp add: wanted_def)
  ultimately show ?thesis using 1 2 assms(9)
    by (intro exI[of _ "msg_nr m1"] exI[of _ w1] exI[of _ m1] exI[of _ w2'] exI[of _ m2]) simp
qed

theorem tcp_learns_its_address_witness:
  "\<exists>nr w1 m1 w2' m2. tcp_send_meta_request (send_message ''tcp-meta'') ''ip4-meta'' ''get-ip4'' idle_net = Inr (Some nr, w1)
    \<and> adds ''ip4-meta'' m1 idle_net w1
    \<and> ip4_run_meta (send_message ''ip4-meta'') [10, 0, 0, 2] m1 idle_net = Inr (1, w2') \<and> adds ''tcp-meta'' m2 idle_net w2'
    \<and> wanted msg_reply (Some nr) m2
    \<and> tcp_cfg_runtime (send_message ''tcp-meta'') ''ip4-meta'' (\<lambda>_. 0) [(3000000, \<lambda>n. if n = nr then Some m2 else None)] 0 0 idle_net
        = Inr ([10, 0, 0, 2], w1)"
  by (rule tcp_learns_its_address) (simp_all add: idle_net_ok max_id_length_def spare_idle_net)

text \<open>The ARP server learns both its addresses, the hardware address from the link server and the IPv4
  address from the IPv4 server, in one turn of its loop when both answer.\<close>

theorem arp_learns_its_addresses:
  assumes "net_ok w" "net_ok w2" "net_ok w4" "length arp_meta < max_id_length" "CHR 0x00 \<notin> set arp_meta"
    and "length tap_meta < max_id_length" "length ip_meta < max_id_length" "length mac = 6" "length ip = 4"
    and "spare 112 w tap_meta" "spare 112 w ip_meta" "tap_meta \<noteq> ip_meta" "spare 112 w2 arp_meta" "spare 112 w4 arp_meta"
  shows "\<exists>w1 m1 w2' m2 w3 m3 w4' m4.
      send_meta_request (send_message arp_meta) tap_meta ''get-mac'' w = Inr (Some (msg_nr m1), w1) \<and> adds tap_meta m1 w w1
    \<and> tap_run_meta (send_message tap_meta) mac m1 w2 = Inr (1, w2') \<and> adds arp_meta m2 w2 w2' \<and> wanted msg_reply (Some (msg_nr m1)) m2
    \<and> send_meta_request (send_message arp_meta) ip_meta ''get-ip4'' w1 = Inr (Some (msg_nr m3), w3) \<and> adds ip_meta m3 w1 w3
    \<and> ip4_run_meta (send_message ip_meta) ip m3 w4 = Inr (1, w4') \<and> adds arp_meta m4 w4 w4' \<and> wanted msg_reply (Some (msg_nr m3)) m4
    \<and> arp_cfg_runtime (send_message arp_meta) tap_meta ip_meta junk ((Some m2, Some m4) # turns) (None, None) w = Inr ((mac, ip), w3)"
proof -
  let ?t = "''mac='' @ addr_to_str mac CHR '':'' True" and ?u = "''ip4='' @ addr_to_str ip CHR ''.'' False"
  have len: "length ?t \<le> 40" "mac \<noteq> []" "length ?u \<le> 40" "ip \<noteq> []"
    using small_addr_text[of mac "CHR '':''" True] small_addr_text[of ip "CHR ''.''" False] assms(8,9) by auto
  obtain m1 w1 where 1: "send_meta_request (send_message arp_meta) tap_meta ''get-mac'' w = Inr (Some (msg_nr m1), w1)" "net_ok w1"
    "adds tap_meta m1 w w1" "carries arp_meta (text_message msg_new 0 ''get-mac'') m1" "capacity w1 = capacity w"
    using send_meta_request_sent[OF assms(1,4,10), of "''get-mac''"] by auto
  obtain m2 w2' where 2: "tap_run_meta (send_message tap_meta) mac m1 w2 = Inr (1, w2')" "adds arp_meta m2 w2 w2'"
    "carries tap_meta (text_message msg_reply (msg_nr m1) ?t) m2"
    using tap_run_meta_answers[OF assms(2,6) 1(4) assms(13,4,5,8)] by blast
  have "spare 112 w1 ip_meta" using assms(11,12) 1(3,5) by (simp add: spare_def adds_def split: option.splits)
  then obtain m3 w3 where 3: "send_meta_request (send_message arp_meta) ip_meta ''get-ip4'' w1 = Inr (Some (msg_nr m3), w3)"
    "adds ip_meta m3 w1 w3" "carries arp_meta (text_message msg_new 0 ''get-ip4'') m3"
    using send_meta_request_sent[OF 1(2) assms(4), of ip_meta "''get-ip4''"] by auto
  obtain m4 w4' where 4: "ip4_run_meta (send_message ip_meta) ip m3 w4 = Inr (1, w4')" "adds arp_meta m4 w4 w4'"
    "carries ip_meta (text_message msg_reply (msg_nr m3) ?u) m4"
    using ip4_run_meta_answers[OF assms(3,7) 3(3) assms(14,4,5,9)] by blast
  have "meta_reply_addr ''mac='' '':'' True junk m2 = Inr (Some mac)" "meta_reply_addr ''ip4='' ''.'' False junk m4 = Inr (Some ip)"
    using meta_reply_text[OF 2(3) len(1) refl] meta_reply_text[OF 4(3) len(3) refl]
      addr_of_to_str(2)[OF len(2), of junk] addr_of_to_str(1)[OF len(4), of junk] by simp_all
  then have "arp_cfg_runtime (send_message arp_meta) tap_meta ip_meta junk ((Some m2, Some m4) # turns) (None, None) w = Inr ((mac, ip), w3)"
    using 1(1) 3(1) by (simp add: cfg_runtime_turn_def cfg_ask_def)
  moreover have "wanted msg_reply (Some (msg_nr m1)) m2" "wanted msg_reply (Some (msg_nr m3)) m4"
    using carries_text(2,3)[OF 2(3) len(1)] carries_text(2,3)[OF 4(3) len(3)] by (simp_all add: wanted_def)
  ultimately show ?thesis using 1(1,3) 2(1,2) 3(1,2) 4(1,2) by blast
qed

theorem arp_learns_its_addresses_witness:
  "\<exists>w1 m1 w2' m2 w3 m3 w4' m4.
      send_meta_request (send_message ''arp-meta'') ''tap-meta'' ''get-mac'' idle_net = Inr (Some (msg_nr m1), w1) \<and> adds ''tap-meta'' m1 idle_net w1
    \<and> tap_run_meta (send_message ''tap-meta'') [2, 0, 0, 0, 0, 1] m1 idle_net = Inr (1, w2') \<and> adds ''arp-meta'' m2 idle_net w2'
    \<and> wanted msg_reply (Some (msg_nr m1)) m2
    \<and> send_meta_request (send_message ''arp-meta'') ''ip4-meta'' ''get-ip4'' w1 = Inr (Some (msg_nr m3), w3) \<and> adds ''ip4-meta'' m3 w1 w3
    \<and> ip4_run_meta (send_message ''ip4-meta'') [10, 0, 0, 2] m3 idle_net = Inr (1, w4') \<and> adds ''arp-meta'' m4 idle_net w4'
    \<and> wanted msg_reply (Some (msg_nr m3)) m4
    \<and> arp_cfg_runtime (send_message ''arp-meta'') ''tap-meta'' ''ip4-meta'' (\<lambda>_. 0) [(Some m2, Some m4)] (None, None) idle_net
        = Inr (([2, 0, 0, 0, 0, 1], [10, 0, 0, 2]), w3)"
  by (rule arp_learns_its_addresses) (simp_all add: idle_net_ok max_id_length_def spare_idle_net)

end
