(* ===== verification/Ping.thy ===== *)
theory Ping
  imports Host Discovery
begin

text \<open>
  A host that is pinged: the turns its servers take from the frame with the echo request to the frame
  with the reply, through the queues between them.
\<close>

section \<open>Messages that are taken\<close>

lemma receive_first:
  assumes "net_ok w" "capacity w q \<noteq> None" "inbox w q = m # ms" "wanted ty None m"
  shows "\<exists>m' w'. receive q ty w = Inr (Some m', w') \<and> trim m' = m \<and> kept w w' \<and> inbox w' = (inbox w)(q := ms)"
proof -
  obtain s where s: "segs w q = Some s" "os_up w q" using assms(2) by (auto simp: capacity_def split: option.splits if_splits)
  have wf: "well_formed s" using assms(1) s(1) by (auto simp: net_ok_def)
  have "List.extract (wanted ty None) (contents s) = Some ([], m, ms)"
    using assms(3,4) s(1) by (simp add: inbox_def extract_Cons_code)
  with seg.get_law[OF wf, of ty None] obtain m' s' where t: "take_message ty None s = Inr (Some (m', s'))" "trim m' = m" "contents s' = ms"
    by auto
  note t' = take_message_sizes[OF wf t(1)]
  have "kept w (w\<lparr> segs := (segs w)(q := Some s') \<rparr>)"
    using assms(1) t' s by (auto simp: kept_def net_ok_def capacity_update)
  then show ?thesis using receive_takes[OF s, of ty] t by (auto simp: inbox_update)
qed

lemma trim_fields:
  assumes "trim m' = m"
  shows "sender m' = sender m" "msg_nr m' = msg_nr m" "msg_type m' = msg_type m" "msg_size m' = msg_size m" "\<exists>pad. msg_data m' = msg_data m @ pad"
proof -
  show "\<exists>pad. msg_data m' = msg_data m @ pad"
    using assms by (intro exI[of _ "drop (unat (msg_size m')) (msg_data m')"]) (auto simp: trim_def)
qed (use assms in \<open>auto simp: trim_def\<close>)

section \<open>A host at rest\<close>

definition ping_queues :: "wiring \<Rightarrow> string list" where
  "ping_queues c = [tap_q c, ip_q c, ip_upper_q c, ip_replies_q c, icmp_q c, arp_resolver_q c]"

text \<open>The servers are connected to each other, as the configuration files of the repository do.\<close>

definition echo_wired :: "wiring \<Rightarrow> bool" where
  "echo_wired c \<longleftrightarrow> wired c \<and> distinct (ping_queues c) \<and> (\<forall>q \<in> {ip_q c, icmp_q c, ip_replies_q c}. CHR 0x00 \<notin> set q)
     \<and> tap_frames c 0x800 = Some (ip_q c) \<and> tap_types c (ip_q c) = Some 0x800 \<and> ip_link c = tap_q c \<and> ip_resolver c = arp_resolver_q c
     \<and> ip_protos c 1 = Some (icmp_q c) \<and> ip_numbers c (icmp_q c) = Some 1 \<and> icmp_out c = ip_upper_q c
     \<and> arp_ip c = ip_addr c \<and> arp_mac c = tap_mac c \<and> 28 \<le> ip_mtu c \<and> ip_mtu c \<le> 65535"

text \<open>Nothing is in these queues, and there is room: in the queues to and from the resolver for two short texts,
  in the others for a packet with \<open>n\<close> bytes of data, with the frame it came in.\<close>

definition ping_room :: "wiring \<Rightarrow> nat \<Rightarrow> string \<Rightarrow> nat" where
  "ping_room c n q = (if q = arp_resolver_q c \<or> q = ip_replies_q c then 1024 else 2 * n + 300)"

definition quiet :: "wiring \<Rightarrow> nat \<Rightarrow> (string \<Rightarrow> message list) \<Rightarrow> (string \<Rightarrow> nat option) \<Rightarrow> bool" where
  "quiet c n ib cap \<longleftrightarrow> (\<forall>q \<in> set (ping_queues c). ib q = [] \<and> (\<exists>k. cap q = Some k \<and> ping_room c n q \<le> k))"

definition at_rest :: "wiring \<Rightarrow> nat \<Rightarrow> host \<Rightarrow> bool" where
  "at_rest c n h \<longleftrightarrow> host_ok h \<and> pending_messages (h_pending h) = [] \<and> quiet c n (inbox (h_net h)) (capacity (h_net h))"

lemma quietD:
  assumes "quiet c n ib cap" "q \<in> set (ping_queues c)"
  shows "ib q = []" "ib(q := []) = ib" "cap q \<noteq> None"
  using assms by (auto simp: quiet_def)

lemma quiet_spare:
  assumes "quiet c n ib cap" "q \<in> set (ping_queues c)" "capacity w = cap" "sum_list (map padded_length (inbox w q)) + k \<le> ping_room c n q"
  shows "spare k w q"
  using assms by (auto simp: quiet_def spare_def)

lemma echo_wiredD:
  assumes "echo_wired c"
  shows "wired c" "tap_frames c 0x800 = Some (ip_q c)" "tap_types c (ip_q c) = Some 0x800" "ip_link c = tap_q c" "ip_resolver c = arp_resolver_q c"
    "ip_protos c 1 = Some (icmp_q c)" "ip_numbers c (icmp_q c) = Some 1" "icmp_out c = ip_upper_q c" "arp_ip c = ip_addr c" "arp_mac c = tap_mac c"
    "28 \<le> ip_mtu c" "ip_mtu c \<le> 65535" "CHR 0x00 \<notin> set (ip_q c)" "CHR 0x00 \<notin> set (icmp_q c)" "CHR 0x00 \<notin> set (ip_replies_q c)"
    "length (tap_mac c) = 6" "length (ip_addr c) = 4"
  using assms by (simp_all add: echo_wired_def wired_def)

lemma ping_rooms:
  assumes "echo_wired c"
  shows "ping_room c n (tap_q c) = 2 * n + 300" "ping_room c n (ip_q c) = 2 * n + 300" "ping_room c n (ip_upper_q c) = 2 * n + 300"
    "ping_room c n (icmp_q c) = 2 * n + 300" "ping_room c n (arp_resolver_q c) = 1024" "ping_room c n (ip_replies_q c) = 1024"
  using assms by (auto simp: echo_wired_def ping_queues_def ping_room_def)

lemma resolver_queues_differ: "echo_wired c \<Longrightarrow> arp_resolver_q c \<noteq> ip_replies_q c"
  by (auto simp: echo_wired_def ping_queues_def)

lemma in_ping_queues [simp]:
  "tap_q c \<in> set (ping_queues c)" "ip_q c \<in> set (ping_queues c)" "ip_upper_q c \<in> set (ping_queues c)" "ip_replies_q c \<in> set (ping_queues c)"
  "icmp_q c \<in> set (ping_queues c)" "arp_resolver_q c \<in> set (ping_queues c)"
  by (simp_all add: ping_queues_def)

text \<open>A turn takes the first message, if it is of the type the thread waits for.\<close>

lemma turn_first:
  assumes "host_ok h" "capacity (h_net h) q \<noteq> None" "inbox (h_net h) q = m # ms" "ty = msg_any \<or> msg_type m = ty"
  obtains m' w pad where "\<And>f. turn q ty f h = f m' w" "trim m' = m" "msg_data m' = msg_data m @ pad"
    "net_ok w" "capacity w = capacity (h_net h)" "inbox w = (inbox (h_net h))(q := ms)"
proof -
  have "wanted ty None m" using assms(4) by (auto simp: wanted_def)
  with receive_first[of "h_net h" q m ms ty] assms(1-3) obtain m' w where
    "receive q ty (h_net h) = Inr (Some m', w)" "trim m' = m" "kept (h_net h) w" "inbox w = (inbox (h_net h))(q := ms)"
    by (auto simp: host_ok_def)
  then show ?thesis using that[of m' w] trim_fields(5)[of m' m] by (auto simp: turn_def kept_def)
qed

lemma turn_takes:
  assumes "host_ok h" "quiet c n ib (capacity (h_net h))" "q \<in> set (ping_queues c)" "inbox (h_net h) = ib'(q := m # ms)" "ty = msg_any \<or> msg_type m = ty"
  obtains m' w pad where "\<And>f. turn q ty f h = f m' w" "trim m' = m" "msg_data m' = msg_data m @ pad"
    "net_ok w" "capacity w = capacity (h_net h)" "inbox w = ib'(q := ms)"
  by (rule turn_first[OF assms(1) quietD(3)[OF assms(2,3)] _ assms(5)]) (use assms(4) that in auto)

section \<open>The turns\<close>

lemma ping_frame:
  assumes "echo_wired c" "host_ok h" "quiet c n (inbox (h_net h)) (capacity (h_net h))" "length smac = 6" "28 \<le> length pl" "length pl < 65500" "length pl \<le> n + 20"
  shows "\<exists>m w. host_turn c (Frame (eth_frame (tap_mac c) smac 0x800 pl)) h = Inr (h\<lparr> h_net := w \<rparr>)
    \<and> inbox w = (inbox (h_net h))(ip_q c := [m]) \<and> msg_data m = wrap_up (eth_frame (tap_mac c) smac 0x800 pl) smac (tap_mac c) pl"
proof -
  note c = echo_wiredD[OF assms(1)]
  have "spare (2 * length pl + 200) (h_net h) (ip_q c)"
    using assms(3,7) by (intro quiet_spare) (auto simp: quietD ping_rooms[OF assms(1)])
  with tap_run_in_spare[of "h_net h" "tap_q c" "tap_mac c" smac pl "tap_frames c" "0x800" "ip_q c"] assms(2,4-6) c wiredD[OF c(1)]
  obtain w m where "tap_run_in (send_message (tap_q c)) (tap_mac c) (tap_frames c) (eth_frame (tap_mac c) smac 0x800 pl) (h_net h) = Inr w"
    "msg_data m = wrap_up (eth_frame (tap_mac c) smac 0x800 pl) smac (tap_mac c) pl" "adds (ip_q c) m (h_net h) w" by (auto simp: host_ok_def)
  then show ?thesis using quietD(1)[OF assms(3), of "ip_q c"] by (auto simp: adds_def)
qed

lemma ping_ip_in:
  assumes "echo_wired c" "host_ok h" "quiet c n ib (capacity (h_net h))" "inbox (h_net h) = ib(ip_q c := [m])"
    and "length src = 4" "length smac = 6" "length req \<le> 65000" "length full < 70000" "length req \<le> n"
    and "msg_data m = wrap_up full smac (tap_mac c) (ip4_packet 1 ident 0 False src (ip_addr c) req)"
  shows "\<exists>m' w. host_turn c (Ip_in junk now) h = Inr (h\<lparr> h_net := w \<rparr>) \<and> inbox w = ib(icmp_q c := [m'])
    \<and> msg_data m' = wrap_up (ip4_packet 1 ident 0 False src (ip_addr c) req) src (ip_addr c) req \<and> msg_type m' = msg_new"
proof -
  note c = echo_wiredD[OF assms(1)] and q = quietD[OF assms(3)]
  obtain m1 w pad where t: "\<And>f. turn (ip_q c) msg_any f h = f m1 w" "trim m1 = m" "msg_data m1 = msg_data m @ pad"
    "net_ok w" "capacity w = capacity (h_net h)" "inbox w = ib(ip_q c := [])"
    by (rule turn_takes[OF assms(2,3) _ assms(4), of msg_any]) (use in_ping_queues in auto)
  have "spare (2 * length req + 220) w (icmp_q c)"
    using assms(3,9) t(5,6) q by (intro quiet_spare) (auto simp: ping_rooms[OF assms(1)])
  with ip4_run_in_spare[of w "ip_q c" src "ip_addr c" req full smac "tap_mac c" m1 1 ident pad "ip_protos c" "icmp_q c" "ip_icmp c" junk now "h_frags h"]
  obtain w' m' where "ip4_run_in (send_message (ip_q c)) (ip_addr c) (ip_protos c) (ip_icmp c) junk now m1 (h_frags h) w = Inr (1, h_frags h, w')"
    "msg_data m' = wrap_up (ip4_packet 1 ident 0 False src (ip_addr c) req) src (ip_addr c) req" "msg_type m' = msg_new" "adds (icmp_q c) m' w w'"
    using assms t c wiredD[OF c(1)] by auto
  then show ?thesis using t q by (auto simp: adds_def)
qed

lemma ping_icmp_in:
  assumes "echo_wired c" "host_ok h" "quiet c n ib (capacity (h_net h))" "inbox (h_net h) = ib(icmp_q c := [m])"
    and "length src = 4" "8 \<le> length req" "length req \<le> 65000" "take 2 req = [8, 0]" "ip_checksum req (length req) = 0" "length full < 70000"
    and "msg_data m = wrap_up full src (ip_addr c) req" "msg_type m = msg_new" "length req \<le> n"
  shows "\<exists>m' w. host_turn c Icmp_in h = Inr (h\<lparr> h_net := w \<rparr>) \<and> inbox w = ib(ip_upper_q c := [m'])
    \<and> carries (icmp_q c) (wrap_message_down (ip_addr c) src (echo_reply req) None) m'"
proof -
  note c = echo_wiredD[OF assms(1)] and q = quietD[OF assms(3)]
  obtain m1 w pad where t: "\<And>f. turn (icmp_q c) msg_new f h = f m1 w" "trim m1 = m" "msg_data m1 = msg_data m @ pad"
    "net_ok w" "capacity w = capacity (h_net h)" "inbox w = ib(icmp_q c := [])"
    by (rule turn_takes[OF assms(2,3) _ assms(4), of msg_new]) (use assms(12) in auto)
  let ?m = "wrap_message_down (ip_addr c) src (echo_reply req) None"
  have s: "small (length full)" "small (length src)" "small (length (ip_addr c))" using assms(5,10) c(17) by (simp_all add: small_def)
  have "length req \<le> 131070" "msg_data m1 = wrap_up full src (ip_addr c) req @ pad" using assms(7,11) t(3) by auto
  with transport.icmp_echo[OF shm_transport t(4) s assms(6) _ assms(8,9), of "icmp_q c" m1 pad "icmp_out c"] wiredD[OF c(1)] obtain r w' where
    "icmp_run_in (send_message (icmp_q c)) (icmp_out c) m1 w = Inr (1, w')" "posted inbox capacity (icmp_q c) w (icmp_out c) ?m r w'" by auto
  moreover have "spare (length req + 200) w (icmp_out c)"
    using assms(3,13) t(5,6) q unfolding c(8) by (intro quiet_spare) (auto simp: ping_rooms[OF assms(1)])
  moreover have "padded_length ?m \<le> length req + 200"
    using assms(5-7) c(17) padded_length_wrapped(1)[of "ip_addr c" src "echo_reply req" None] by (simp add: length_echo_reply)
  ultimately show ?thesis using posted_spare[of "icmp_q c" w "icmp_out c" ?m r w' "length req + 200"] t q c(8) by (auto simp: adds_def in_net_def)
qed

text \<open>The two answers a message waits for; no other message waits.\<close>

definition awaits :: "u64 \<Rightarrow> u64 \<Rightarrow> pending_msg \<Rightarrow> out_state \<Rightarrow> bool" where
  "awaits f t pm st \<longleftrightarrow> queued f t pm st \<and> (\<forall>k. k \<noteq> f \<and> k \<noteq> t \<longrightarrow> find_key k (pending_messages st) = None)"

lemma ping_ip_out:
  assumes "echo_wired c" "host_ok h" "quiet c n ib (capacity (h_net h))" "inbox (h_net h) = ib(ip_upper_q c := [m])"
    and "length src = 4" "length pl < 2 ^ 31" "route_via (ip_addr c) (ip_bits c) (ip_gw c) src = Inr via" "length via = 4"
    and "msg_data m = wrap_down (ip_addr c) src pl" "pending_messages (h_pending h) = []"
  shows "\<exists>ma mb pm ps w. host_turn c (Ip_out now) h = Inr (h\<lparr> h_net := w, h_pending := ps \<rparr>) \<and> inbox w = ib(arp_resolver_q c := [ma, mb])
    \<and> asks (ip_replies_q c) (ip_addr c) ma \<and> asks (ip_replies_q c) via mb \<and> awaits (msg_nr ma) (msg_nr mb) pm ps \<and> trim (queued_msg pm) = m"
proof -
  note c = echo_wiredD[OF assms(1)] and q = quietD[OF assms(3)]
  obtain m1 w pad where t: "\<And>f. turn (ip_upper_q c) msg_any f h = f m1 w" "trim m1 = m" "msg_data m1 = msg_data m @ pad"
    "net_ok w" "capacity w = capacity (h_net h)" "inbox w = ib(ip_upper_q c := [])"
    by (rule turn_takes[OF assms(2,3) _ assms(4), of msg_any]) auto
  have ib: "inbox w = ib" using t(6) q by simp
  have n: "length (ip_replies_q c) < max_id_length" using wiredD[OF c(1)] by simp
  have r: "spare 224 w (arp_resolver_q c)" using assms(3) t(5) ib q by (intro quiet_spare) (auto simp: ping_rooms[OF assms(1)])
  have d: "msg_data m1 = wrap_down (ip_addr c) src pl @ pad" using t(3) assms(9) by simp
  have free: "free_numbers w (arp_resolver_q c) (h_pending h)" by (simp add: free_numbers_def assms(10))
  from ip4_run_out_asks[where now = now, OF t(4) n c(15,17) assms(5-8) d r free] obtain ma mb pm ps w' where
    a: "ip4_run_out (ip_addr c) (ip_bits c) (ip_gw c) (send_message (ip_replies_q c)) (ip_resolver c) now m1 (h_pending h) w = Inr (0, ps, w')"
      "inbox w' = (inbox w)(arp_resolver_q c := inbox w (arp_resolver_q c) @ [ma, mb])"
      "asks (ip_replies_q c) (ip_addr c) ma" "asks (ip_replies_q c) via mb" "queued (msg_nr ma) (msg_nr mb) pm ps" "queued_msg pm = m1"
      "\<forall>k. k \<noteq> msg_nr ma \<and> k \<noteq> msg_nr mb \<longrightarrow> find_key k (pending_messages ps) = find_key k (pending_messages (h_pending h))"
    unfolding c(5) by blast
  have "awaits (msg_nr ma) (msg_nr mb) pm ps" using a(5,7) by (simp add: awaits_def assms(10))
  then show ?thesis using t(1,2) a(1-4,6) ib q
    by (intro exI[of _ ma] exI[of _ mb] exI[of _ pm] exI[of _ ps] exI[of _ w']) simp
qed

lemma search_mac_trim: "trim m' = m \<Longrightarrow> search_mac a m \<Longrightarrow> search_mac a m'"
  using trim_fields(4,5)[of m' m] by (auto simp: search_mac_def)

lemma ping_resolve:
  assumes "echo_wired c" "host_ok h" "quiet c n ib (capacity (h_net h))" "inbox (h_net h) = ib(ip_replies_q c := rs, arp_resolver_q c := m # ms)"
    and "asks (ip_replies_q c) a m" "length a = 4" "length mac = 6" "(if a = ip_addr c then Some (arp_mac c) else map_of (arp_cache (h_arp h)) a) = Some mac"
    and "sum_list (map padded_length rs) \<le> 300"
  shows "\<exists>r w. host_turn c (Arp_resolve junk nr) h = Inr (h\<lparr> h_net := w \<rparr>)
    \<and> inbox w = ib(ip_replies_q c := rs @ [r], arp_resolver_q c := ms)
    \<and> (\<forall>junk. resolves junk r (msg_nr m) mac) \<and> msg_type r = msg_reply \<and> padded_length r \<le> 300"
proof -
  note c = echo_wiredD[OF assms(1)] and q = quietD[OF assms(3)]
  have ne: "ip_replies_q c \<noteq> arp_resolver_q c" using resolver_queues_differ[OF assms(1)] by simp
  obtain m1 w pad where t: "\<And>f. turn (arp_resolver_q c) msg_new f h = f m1 w" "trim m1 = m" "msg_data m1 = msg_data m @ pad"
    "net_ok w" "capacity w = capacity (h_net h)" "inbox w = ib(ip_replies_q c := rs, arp_resolver_q c := ms)"
    by (rule turn_takes[OF assms(2,3) _ assms(4), of msg_new]) (use assms(5) in \<open>auto simp: asks_def\<close>)
  have to: "c_str (sender m1) = ip_replies_q c" "search_mac a m1" "msg_nr m1 = msg_nr m"
    using assms(5) trim_fields(1,2)[OF t(2)] search_mac_trim[OF t(2)] by (simp_all add: asks_def)
  have "spare 300 w (c_str (sender m1))" using assms(3,9) t(5,6) ne unfolding to(1) by (intro quiet_spare) (auto simp: ping_rooms[OF assms(1)])
  then obtain w' r where "arp_run_resolver (send_message (arp_resolver_q c)) (arp_ip c) (arp_mac c) (arp_out c) (send_message (arp_q c)) junk nr m1 (h_arp h) w
      = Inr (1, h_arp h, w')" "adds (ip_replies_q c) r w w'" "\<And>junk'. resolves junk' r (msg_nr m) mac" "msg_type r = msg_reply" "padded_length r \<le> 300"
    using resolver_replies[OF t(4) _ to(2) assms(6) _ assms(7), of "arp_resolver_q c" "arp_ip c" "arp_mac c" "h_arp h" "arp_out c" "send_message (arp_q c)" junk nr] assms(8)
      wiredD[OF c(1)] c(9,17) to by metis
  then show ?thesis using t(1,6) ne by (intro exI[of _ r] exI[of _ w']) (auto simp: adds_def)
qed

text \<open>After the first answer only the second is awaited.\<close>

definition half_resolved :: "u64 \<Rightarrow> addr \<Rightarrow> message \<Rightarrow> out_state \<Rightarrow> bool" where
  "half_resolved t fmac m st \<longleftrightarrow> (\<exists>a pm. pm_heap st a = Some pm \<and> queued_msg pm = m \<and> from_nr pm \<noteq> t \<and> to_nr pm = t \<and> pm_from pm = Some fmac
     \<and> (\<forall>k. find_key k (pending_messages st) = (if k = t then Some a else None)))"

lemma resolves_trim:
  assumes "trim m' = m" "resolves junk m nr a"
  shows "resolves junk m' nr a"
proof -
  have "take (unat (msg_size m)) (msg_data m') = take (unat (msg_size m)) (msg_data m)" "length (msg_data m) \<le> length (msg_data m')"
    using assms(1) by (auto simp: trim_def)
  then show ?thesis using assms(2) trim_fields(2,4)[OF assms(1)] by (simp add: resolves_def)
qed

lemma ping_first_reply:
  assumes "echo_wired c" "host_ok h" "quiet c n ib (capacity (h_net h))" "inbox (h_net h) = ib(ip_replies_q c := r # rs)"
    and "awaits f t pm (h_pending h)" "\<forall>junk. resolves junk r f fmac" "msg_type r = msg_reply"
  shows "\<exists>ps w. host_turn c (Ip_send junk ident) h = Inr (h\<lparr> h_net := w, h_pending := ps \<rparr>) \<and> inbox w = ib(ip_replies_q c := rs)
    \<and> half_resolved t fmac (queued_msg pm) ps"
proof -
  obtain m1 w pad where t: "\<And>f. turn (ip_replies_q c) msg_reply f h = f m1 w" "trim m1 = r" "msg_data m1 = msg_data r @ pad"
    "net_ok w" "capacity w = capacity (h_net h)" "inbox w = ib(ip_replies_q c := rs)"
    by (rule turn_takes[OF assms(2,3) _ assms(4), of msg_reply]) (use assms(7) in auto)
  have r: "resolves junk m1 f fmac" using assms(6) by (intro resolves_trim[OF t(2)]) simp
  obtain a where a: "find_key f (pending_messages (h_pending h)) = Some a" "pm_heap (h_pending h) a = Some pm"
    "find_key t (pending_messages (h_pending h)) = Some a" "f \<noteq> t" "from_nr pm = f" "to_nr pm = t" "pm_from pm = None" "pm_to pm = None"
    "\<And>k. k \<noteq> f \<Longrightarrow> k \<noteq> t \<Longrightarrow> find_key k (pending_messages (h_pending h)) = None"
    using assms(5) by (auto simp: awaits_def queued_def)
  define ps where "ps = (h_pending h)\<lparr> pending_messages := erase_key f (pending_messages (h_pending h)),
    pm_heap := (pm_heap (h_pending h))(a := Some (pm\<lparr> pm_from := Some fmac \<rparr>)) \<rparr>"
  have "ip4_sender (2 ^ 24) (send_message (ip_q c)) (ip_link c) (ip_numbers c) (ip_mtu c) junk ident m1 (h_pending h) w = Inr (1, ps, w)"
    using ip4_sender_resolved[OF r a(1,2), of _ _ _ _ _ _ w] a(5-8) by (simp add: pending_fill_def ps_def Let_def)
  moreover have "half_resolved t fmac (queued_msg pm) ps"
    unfolding half_resolved_def by (intro exI[of _ a] exI[of _ "pm\<lparr> pm_from := Some fmac \<rparr>"]) (use a in \<open>simp add: ps_def find_erase_key\<close>)
  ultimately show ?thesis using t(1,6) by (intro exI[of _ ps] exI[of _ w]) simp
qed

lemma ping_second_reply:
  assumes "echo_wired c" "host_ok h" "quiet c n ib (capacity (h_net h))" "inbox (h_net h) = ib(ip_replies_q c := [r])"
    and "half_resolved t fmac m (h_pending h)" "\<forall>junk. resolves junk r t tmac" "msg_type r = msg_reply" "length fmac = 6" "length tmac = 6"
    and "trim m = m0" "carries (icmp_q c) (wrap_message_down (ip_addr c) src pl None) m0" "length src = 4" "pl \<noteq> []" "length pl \<le> use_mtu_size (ip_mtu c)" "length pl \<le> n"
  shows "\<exists>ps w m'. host_turn c (Ip_send junk ident) h = Inr (h\<lparr> h_net := w, h_pending := ps \<rparr>) \<and> inbox w = ib(tap_q c := [m'])
    \<and> pending_messages ps = [] \<and> carries (ip_q c) (wrap_message_down fmac tmac (ip4_packet 1 ident 0 False (ip_addr c) src pl) None) m'"
proof -
  note c = echo_wiredD[OF assms(1)] and q = quietD[OF assms(3)]
  obtain m1 w pad where t: "\<And>f. turn (ip_replies_q c) msg_reply f h = f m1 w" "trim m1 = r" "msg_data m1 = msg_data r @ pad"
    "net_ok w" "capacity w = capacity (h_net h)" "inbox w = ib(ip_replies_q c := [])"
    by (rule turn_takes[OF assms(2,3) _ assms(4), of msg_reply]) (use assms(7) in auto)
  have r: "resolves junk m1 t tmac" using assms(6) by (intro resolves_trim[OF t(2)]) simp
  obtain a pm where a: "pm_heap (h_pending h) a = Some pm" "queued_msg pm = m" "from_nr pm \<noteq> t" "to_nr pm = t" "pm_from pm = Some fmac"
    "\<And>k. find_key k (pending_messages (h_pending h)) = (if k = t then Some a else None)"
    using assms(5) by (auto simp: half_resolved_def)
  let ?pm = "pm\<lparr> pm_to := Some tmac \<rparr>"
  define ps where "ps = (h_pending h)\<lparr> pending_messages := erase_key t (pending_messages (h_pending h)), pm_heap := (pm_heap (h_pending h))(a := None) \<rparr>"
  obtain pad' where d: "msg_data (queued_msg ?pm) = wrap_down (ip_addr c) src pl @ pad'"
    using trim_fields(5)[OF assms(10)] a(2) carries_fields(1)[OF assms(11)] by auto
  have n: "ip_numbers c (c_str (sender (queued_msg ?pm))) = Some 1"
    using trim_fields(1)[OF assms(10)] a(2) carries_fields(2)[OF assms(11)] wiredD[OF c(1)] c(7,14) by auto
  have l: "length pl \<le> 65515" "length pl \<le> 2 ^ 24" using use_mtu_size_bounds[OF c(11,12)] assms(14) c(12) by simp_all
  have "spare (length pl + 200) w (ip_link c)"
    using assms(3,15) t(5,6) q unfolding c(4) by (intro quiet_spare) (auto simp: ping_rooms[OF assms(1)])
  with ip4_transmit_spare[where mappings_out = "ip_numbers c" and lid = "ip_q c" and ident = ident,
    OF t(4) _ c(11,12,17) assms(12) assms(8,9) assms(13,14) l(1) d n l(2), of "ip_link c"] wiredD[OF c(1)]
  obtain w' m' where w': "ip4_transmit (2 ^ 24) (send_message (ip_q c)) (ip_link c) (ip_numbers c) (ip_mtu c) ident ?pm fmac tmac w = Inr w'"
    "carries (ip_q c) (wrap_message_down fmac tmac (ip4_packet 1 ident 0 False (ip_addr c) src pl) None) m'" "adds (ip_link c) m' w w'" by auto
  have "ip4_sender (2 ^ 24) (send_message (ip_q c)) (ip_link c) (ip_numbers c) (ip_mtu c) junk ident m1 (h_pending h) w = Inr (1, ps, w')"
    using ip4_sender_resolved[OF r, of "h_pending h" a pm _ _ _ _ _ _ w] a w'(1) by (simp add: pending_fill_def ps_def Let_def)
  moreover have "find_key k (pending_messages ps) = None" for k using a(6) by (simp add: ps_def find_erase_key)
  then have "pending_messages ps = []" by (metis find_key_def map_of_eq_empty_iff)
  moreover have "inbox w' = ib(tap_q c := [m'])" using w'(3) t(6) q c(4) by (simp add: adds_def)
  ultimately show ?thesis using t(1) w'(2) by (intro exI[of _ ps] exI[of _ w'] exI[of _ m']) simp
qed

lemma ping_tap_out:
  assumes "echo_wired c" "host_ok h" "quiet c n ib (capacity (h_net h))" "inbox (h_net h) = ib(tap_q c := [m])"
    and "carries (ip_q c) (wrap_message_down fmac tmac pl None) m" "length fmac = 6" "length tmac = 6" "pl \<noteq> []" "length pl < 70000"
  shows "\<exists>w. host_turn c (Tap_out True) h = Inr (h\<lparr> h_net := w, h_sent := h_sent h @ [eth_frame tmac fmac 0x800 pl] \<rparr>) \<and> inbox w = ib"
proof -
  note c = echo_wiredD[OF assms(1)] and q = quietD[OF assms(3)]
  obtain m1 w pad where t: "\<And>f. turn (tap_q c) msg_any f h = f m1 w" "trim m1 = m" "msg_data m1 = msg_data m @ pad"
    "net_ok w" "capacity w = capacity (h_net h)" "inbox w = ib(tap_q c := [])"
    by (rule turn_takes[OF assms(2,3) _ assms(4), of msg_any]) auto
  have l: "length pl < 2 ^ 64" using assms(9) by simp
  have "msg_data m1 = wrap_down fmac tmac pl @ pad" "tap_types c (c_str (sender m1)) = Some 0x800"
    using t(3) carries_fields[OF assms(5)] trim_fields(1)[OF t(2)] c wiredD[OF c(1)] by simp_all
  from tap_run_out_frame[where mappings_out = "tap_types c", OF this(1) assms(6-8) l this(2), of "device True" "h_sent h"]
  show ?thesis using t(1,6) q by (intro exI[of _ w]) (simp add: device_def eth_frame_def)
qed

section \<open>Pings\<close>

text \<open>An echo request in one packet, and what the threads of the host bring to their turns.\<close>

record ping =
  p_mac :: addr
  p_from :: addr
  p_ident :: u16
  p_req :: bytes
  p_via :: addr
  p_via_mac :: addr
  p_junk :: "nat \<Rightarrow> byte"
  p_now :: u64
  p_number :: u64
  p_reply_ident :: u16

definition ping_frame_of :: "wiring \<Rightarrow> ping \<Rightarrow> bytes" where
  "ping_frame_of c p = eth_frame (tap_mac c) (p_mac p) 0x800 (ip4_packet 1 (p_ident p) 0 False (p_from p) (ip_addr c) (p_req p))"

definition pong_frame_of :: "wiring \<Rightarrow> ping \<Rightarrow> bytes" where
  "pong_frame_of c p = eth_frame (p_via_mac p) (tap_mac c) 0x800 (ip4_packet 1 (p_reply_ident p) 0 False (ip_addr c) (p_from p) (echo_reply (p_req p)))"

definition ping_turns :: "wiring \<Rightarrow> ping \<Rightarrow> event list" where
  "ping_turns c p =
     [Frame (ping_frame_of c p), Ip_in (p_junk p) (p_now p), Icmp_in, Ip_out (p_now p), Arp_resolve (p_junk p) (p_number p),
      Arp_resolve (p_junk p) (p_number p), Ip_send (p_junk p) (p_reply_ident p), Ip_send (p_junk p) (p_reply_ident p), Tap_out True]"

text \<open>The request is valid and small enough for one packet, and the next hop to its sender is known.\<close>

definition answerable :: "wiring \<Rightarrow> nat \<Rightarrow> arp_state \<Rightarrow> ping \<Rightarrow> bool" where
  "answerable c n st p \<longleftrightarrow> length (p_mac p) = 6 \<and> length (p_from p) = 4 \<and> length (p_via p) = 4 \<and> length (p_via_mac p) = 6
     \<and> 8 \<le> length (p_req p) \<and> length (p_req p) \<le> use_mtu_size (ip_mtu c) \<and> length (p_req p) \<le> 65000 \<and> length (p_req p) \<le> n
     \<and> take 2 (p_req p) = [8, 0] \<and> ip_checksum (p_req p) (length (p_req p)) = 0
     \<and> route_via (ip_addr c) (ip_bits c) (ip_gw c) (p_from p) = Inr (p_via p)
     \<and> (if p_via p = ip_addr c then Some (arp_mac c) else map_of (arp_cache st) (p_via p)) = Some (p_via_mac p)"

lemma turn_keeps:
  assumes "echo_wired c" "host_ok h" "host_turn c e h = Inr h'" "proper e"
  shows "host_ok h'" "capacity (h_net h') = capacity (h_net h)"
  using endsD[OF host_turn_ok[OF _ assms(4,2)] assms(3)] assms(1) by (simp_all add: echo_wired_def steps_to_def)

lemma host_run_append: "host_run c (es @ fs) h = res_bind (host_run c es h) (host_run c fs)"
  by (induction es arbitrary: h) (auto simp: res_bind_def split: sum.split)

lemma ping_comes_in:
  assumes "echo_wired c" "at_rest c n h" "answerable c n (h_arp h) p"
  shows "\<exists>h' m. host_run c [Frame (ping_frame_of c p), Ip_in (p_junk p) (p_now p), Icmp_in] h = Inr h' \<and> host_ok h'
    \<and> capacity (h_net h') = capacity (h_net h) \<and> inbox (h_net h') = (inbox (h_net h))(ip_upper_q c := [m])
    \<and> carries (icmp_q c) (wrap_message_down (ip_addr c) (p_from p) (echo_reply (p_req p)) None) m
    \<and> h_pending h' = h_pending h \<and> h_arp h' = h_arp h \<and> h_sent h' = h_sent h"
proof -
  note c = echo_wiredD[OF assms(1)] and keep = turn_keeps[OF assms(1)]
  let ?pkt = "ip4_packet 1 (p_ident p) 0 False (p_from p) (ip_addr c) (p_req p)"
  have p: "length (p_mac p) = 6" "length (p_from p) = 4" "8 \<le> length (p_req p)" "length (p_req p) \<le> 65000" "take 2 (p_req p) = [8, 0]"
    "ip_checksum (p_req p) (length (p_req p)) = 0" "length (p_req p) \<le> n"
    using assms(3) by (simp_all add: answerable_def)
  have h: "host_ok h" and quiet: "quiet c n (inbox (h_net h)) (capacity (h_net h))" using assms(2) by (simp_all add: at_rest_def)
  have l: "length ?pkt = 20 + length (p_req p)" using p(2) c(17) by (simp add: length_ip4_packet)
  then have lf: "length (ping_frame_of c p) = 34 + length (p_req p)" using p(1) c(16) by (simp add: ping_frame_of_def eth_frame_fields)
  obtain m1 w1 where s1: "host_turn c (Frame (ping_frame_of c p)) h = Inr (h\<lparr> h_net := w1 \<rparr>)" "inbox w1 = (inbox (h_net h))(ip_q c := [m1])"
    "msg_data m1 = wrap_up (ping_frame_of c p) (p_mac p) (tap_mac c) ?pkt"
    using ping_frame[OF assms(1) h quiet p(1), of ?pkt] l p(3,4,7) by (auto simp: ping_frame_of_def)
  have k1: "host_ok (h\<lparr> h_net := w1 \<rparr>)" "capacity w1 = capacity (h_net h)" using keep[OF h s1(1)] lf p(4) by (simp_all add: proper_def)
  obtain m2 w2 where s2: "host_turn c (Ip_in (p_junk p) (p_now p)) (h\<lparr> h_net := w1 \<rparr>) = Inr (h\<lparr> h_net := w2 \<rparr>)" "inbox w2 = (inbox (h_net h))(icmp_q c := [m2])"
    "msg_data m2 = wrap_up ?pkt (p_from p) (ip_addr c) (p_req p)" "msg_type m2 = msg_new"
    using ping_ip_in[OF assms(1) k1(1), of n "inbox (h_net h)" m1 "p_from p" "p_mac p" "p_req p" "ping_frame_of c p" "p_ident p" "p_junk p" "p_now p"]
      quiet k1 s1 p lf by auto
  have k2: "host_ok (h\<lparr> h_net := w2 \<rparr>)" "capacity w2 = capacity (h_net h)" using keep[OF k1(1) s2(1)] k1(2) by (simp_all add: proper_def)
  obtain m3 w3 where s3: "host_turn c Icmp_in (h\<lparr> h_net := w2 \<rparr>) = Inr (h\<lparr> h_net := w3 \<rparr>)" "inbox w3 = (inbox (h_net h))(ip_upper_q c := [m3])"
    "carries (icmp_q c) (wrap_message_down (ip_addr c) (p_from p) (echo_reply (p_req p)) None) m3"
    using ping_icmp_in[OF assms(1) k2(1), of n "inbox (h_net h)" m2 "p_from p" "p_req p" ?pkt] quiet k2 s2 p l by auto
  have "host_ok (h\<lparr> h_net := w3 \<rparr>)" "capacity w3 = capacity (h_net h)" using keep[OF k2(1) s3(1)] k2(2) by (simp_all add: proper_def)
  then show ?thesis using s1(1) s2(1) s3 by (intro exI[of _ "h\<lparr> h_net := w3 \<rparr>"] exI[of _ m3]) simp
qed

text \<open>A reply of the ICMP server waits for its two link addresses, which the resolver sends.\<close>

lemma reply_resolved:
  assumes "echo_wired c" "host_ok h" "pending_messages (h_pending h) = []" "quiet c n ib (capacity (h_net h))" "inbox (h_net h) = ib(ip_upper_q c := [m])"
    and "msg_data m = wrap_down (ip_addr c) dst pl" "length dst = 4" "length pl \<le> 65515"
    and "route_via (ip_addr c) (ip_bits c) (ip_gw c) dst = Inr via" "length via = 4" "length mac = 6"
    and "(if via = ip_addr c then Some (arp_mac c) else map_of (arp_cache (h_arp h)) via) = Some mac"
  shows "\<exists>f t pm ra rb ps w. host_run c [Ip_out now, Arp_resolve junk nr, Arp_resolve junk nr] h = Inr (h\<lparr> h_net := w, h_pending := ps \<rparr>)
    \<and> host_ok (h\<lparr> h_net := w, h_pending := ps \<rparr>) \<and> capacity w = capacity (h_net h) \<and> inbox w = ib(ip_replies_q c := [ra, rb])
    \<and> awaits f t pm ps \<and> trim (queued_msg pm) = m \<and> (\<forall>junk. resolves junk ra f (tap_mac c)) \<and> (\<forall>junk. resolves junk rb t mac)
    \<and> msg_type ra = msg_reply \<and> msg_type rb = msg_reply"
proof -
  note c = echo_wiredD[OF assms(1)] and keep = turn_keeps[OF assms(1)] and q = quietD[OF assms(4)]
  obtain ma mb pm ps w1 where s1: "host_turn c (Ip_out now) h = Inr (h\<lparr> h_net := w1, h_pending := ps \<rparr>)" "inbox w1 = ib(arp_resolver_q c := [ma, mb])"
    "asks (ip_replies_q c) (ip_addr c) ma" "asks (ip_replies_q c) via mb" "awaits (msg_nr ma) (msg_nr mb) pm ps" "trim (queued_msg pm) = m"
    using ping_ip_out[OF assms(1,2,4,5,7) _ assms(9,10,6,3), of now] assms(8) by auto
  define g where "g w = h\<lparr> h_net := w, h_pending := ps \<rparr>" for w
  have g: "(g w)\<lparr> h_net := w' \<rparr> = g w'" "h_net (g w) = w" "h_arp (g w) = h_arp h" for w w' by (simp_all add: g_def)
  have k1: "host_ok (g w1)" "quiet c n ib (capacity (h_net (g w1)))" using keep[OF assms(2) s1(1)] assms(4) by (simp_all add: proper_def g_def)
  have i1: "inbox (h_net (g w1)) = ib(ip_replies_q c := [], arp_resolver_q c := [ma, mb])" using s1(2) q by (simp add: g)
  obtain ra w2 where s2: "host_turn c (Arp_resolve junk nr) (g w1) = Inr (g w2)" "inbox w2 = ib(ip_replies_q c := [ra], arp_resolver_q c := [mb])"
    "\<forall>junk. resolves junk ra (msg_nr ma) (tap_mac c)" "msg_type ra = msg_reply" "padded_length ra \<le> 300"
    using ping_resolve[OF assms(1) k1 i1 s1(3) c(17,16), of junk nr] c(10) by (auto simp: g)
  have k2: "host_ok (g w2)" "quiet c n ib (capacity (h_net (g w2)))" using keep[OF k1(1) s2(1)] k1(2) by (simp_all add: proper_def)
  have i2: "inbox (h_net (g w2)) = ib(ip_replies_q c := [ra], arp_resolver_q c := [mb])" using s2(2) by (simp add: g)
  obtain rb w3 where s3: "host_turn c (Arp_resolve junk nr) (g w2) = Inr (g w3)" "inbox w3 = ib(ip_replies_q c := [ra, rb], arp_resolver_q c := [])"
    "\<forall>junk. resolves junk rb (msg_nr mb) mac" "msg_type rb = msg_reply"
    using ping_resolve[OF assms(1) k2 i2 s1(4) assms(10,11), of junk nr, unfolded g, OF assms(12)] s2(5) by auto
  have "host_ok (g w3)" "capacity w3 = capacity (h_net h)"
    using keep[OF k2(1) s3(1)] keep(2)[OF k1(1) s2(1)] keep(2)[OF assms(2) s1(1)] by (simp_all add: proper_def g g_def)
  moreover have "inbox w3 = ib(ip_replies_q c := [ra, rb])" using s3(2) q resolver_queues_differ[OF assms(1)] by (auto simp: fun_eq_iff)
  ultimately show ?thesis using s1(1,5,6) s2(1,3,4) s3(1,3,4) unfolding g_def
    by (intro exI[of _ "msg_nr ma"] exI[of _ "msg_nr mb"] exI[of _ pm] exI[of _ ra] exI[of _ rb] exI[of _ ps] exI[of _ w3]) (simp del: host_turn.simps)
qed

text \<open>With both addresses the packet goes to the link server, and its frame to the device.\<close>

lemma reply_sent:
  assumes "echo_wired c" "host_ok h" "quiet c n ib (capacity (h_net h))" "inbox (h_net h) = ib(ip_replies_q c := [ra, rb])"
    and "awaits f t pm (h_pending h)" "trim (queued_msg pm) = m" "\<forall>junk. resolves junk ra f fmac" "\<forall>junk. resolves junk rb t mac"
    and "msg_type ra = msg_reply" "msg_type rb = msg_reply" "length fmac = 6" "length mac = 6"
    and "carries (icmp_q c) (wrap_message_down (ip_addr c) dst pl None) m" "length dst = 4" "pl \<noteq> []" "length pl \<le> use_mtu_size (ip_mtu c)" "length pl \<le> n"
  shows "\<exists>h'. host_run c [Ip_send junk ident, Ip_send junk ident, Tap_out True] h = Inr h'
    \<and> host_ok h' \<and> pending_messages (h_pending h') = [] \<and> capacity (h_net h') = capacity (h_net h) \<and> inbox (h_net h') = ib \<and> h_arp h' = h_arp h
    \<and> h_sent h' = h_sent h @ [eth_frame mac fmac 0x800 (ip4_packet 1 ident 0 False (ip_addr c) dst pl)]"
proof -
  note c = echo_wiredD[OF assms(1)] and keep = turn_keeps[OF assms(1)]
  let ?pkt = "ip4_packet 1 ident 0 False (ip_addr c) dst pl"
  have l: "length pl \<le> 65515" using use_mtu_size_bounds[OF c(11,12)] assms(16) c(12) by simp
  define g where "g w ps = h\<lparr> h_net := w, h_pending := ps \<rparr>" for w ps
  have g: "(g w ps)\<lparr> h_net := w', h_pending := ps' \<rparr> = g w' ps'" "h_net (g w ps) = w" "h_pending (g w ps) = ps" for w w' ps ps' by (simp_all add: g_def)
  obtain ps1 w1 where s1: "host_turn c (Ip_send junk ident) h = Inr (g w1 ps1)" "inbox w1 = ib(ip_replies_q c := [rb])"
    "half_resolved t fmac (queued_msg pm) ps1"
    using ping_first_reply[OF assms(1-5,7,9), of junk ident] unfolding g_def by blast
  have k1: "host_ok (g w1 ps1)" "capacity w1 = capacity (h_net h)" using keep[OF assms(2) s1(1)] by (simp_all add: proper_def g)
  obtain ps2 w2 m' where s2: "host_turn c (Ip_send junk ident) (g w1 ps1) = Inr (g w2 ps2)" "inbox w2 = ib(tap_q c := [m'])" "pending_messages ps2 = []"
    "carries (ip_q c) (wrap_message_down fmac mac ?pkt None) m'"
    using ping_second_reply[OF assms(1) k1(1), unfolded g k1(2), OF assms(3) s1(2,3) assms(8,10-12,6,13-17), of junk ident] by blast
  have k2: "host_ok (g w2 ps2)" "capacity w2 = capacity (h_net h)" using keep[OF k1(1) s2(1)] k1(2) by (simp_all add: proper_def g)
  have p: "?pkt \<noteq> []" "length ?pkt < 70000" using l assms(14) c(17) length_ip4_packet[of "ip_addr c" dst 1 ident 0 False pl] by auto
  obtain w3 where s3: "host_turn c (Tap_out True) (g w2 ps2) = Inr ((g w2 ps2)\<lparr> h_net := w3, h_sent := h_sent (g w2 ps2) @ [eth_frame mac fmac 0x800 ?pkt] \<rparr>)"
    "inbox w3 = ib"
    using ping_tap_out[OF assms(1) k2(1), unfolded g k2(2), OF assms(3) s2(2,4) assms(11,12) p] by blast
  have "host_ok ((g w2 ps2)\<lparr> h_net := w3, h_sent := h_sent (g w2 ps2) @ [eth_frame mac fmac 0x800 ?pkt] \<rparr>)" "capacity w3 = capacity (h_net h)"
    using keep[OF k2(1) s3(1)] k2(2) by (simp_all add: proper_def g)
  then show ?thesis using s1(1) s2(1,3) s3
    by (intro exI[of _ "(g w2 ps2)\<lparr> h_net := w3, h_sent := h_sent (g w2 ps2) @ [eth_frame mac fmac 0x800 ?pkt] \<rparr>"]) (simp add: g_def del: host_turn.simps)
qed

lemma ping_answered:
  assumes "echo_wired c" "at_rest c n h" "answerable c n (h_arp h) p"
  shows "\<exists>h'. host_run c (ping_turns c p) h = Inr h' \<and> at_rest c n h' \<and> h_arp h' = h_arp h \<and> h_sent h' = h_sent h @ [pong_frame_of c p]"
proof -
  note c = echo_wiredD[OF assms(1)]
  let ?pl = "echo_reply (p_req p)"
  have p: "length (p_from p) = 4" "length (p_via p) = 4" "length (p_via_mac p) = 6" "length ?pl = length (p_req p)" "?pl \<noteq> []"
    "length ?pl \<le> use_mtu_size (ip_mtu c)" "length ?pl \<le> 65515" "route_via (ip_addr c) (ip_bits c) (ip_gw c) (p_from p) = Inr (p_via p)"
    "(if p_via p = ip_addr c then Some (arp_mac c) else map_of (arp_cache (h_arp h)) (p_via p)) = Some (p_via_mac p)" "length ?pl \<le> n"
    using assms(3) length_echo_reply[of "p_req p"] by (auto simp: answerable_def)
  have q: "quiet c n (inbox (h_net h)) (capacity (h_net h))" "pending_messages (h_pending h) = []" using assms(2) by (simp_all add: at_rest_def)
  obtain h1 m where s1: "host_run c [Frame (ping_frame_of c p), Ip_in (p_junk p) (p_now p), Icmp_in] h = Inr h1" "host_ok h1"
    "capacity (h_net h1) = capacity (h_net h)" "inbox (h_net h1) = (inbox (h_net h))(ip_upper_q c := [m])"
    "carries (icmp_q c) (wrap_message_down (ip_addr c) (p_from p) ?pl None) m"
    "h_pending h1 = h_pending h" "h_arp h1 = h_arp h" "h_sent h1 = h_sent h"
    using ping_comes_in[OF assms] by blast
  have d: "msg_data m = wrap_down (ip_addr c) (p_from p) ?pl" using carries_fields(1)[OF s1(5)] by simp
  obtain f t pm ra rb ps w where s2: "host_run c [Ip_out (p_now p), Arp_resolve (p_junk p) (p_number p), Arp_resolve (p_junk p) (p_number p)] h1
      = Inr (h1\<lparr> h_net := w, h_pending := ps \<rparr>)" "host_ok (h1\<lparr> h_net := w, h_pending := ps \<rparr>)" "capacity w = capacity (h_net h1)"
    "inbox w = (inbox (h_net h))(ip_replies_q c := [ra, rb])" "awaits f t pm ps" "trim (queued_msg pm) = m"
    "\<forall>junk. resolves junk ra f (tap_mac c)" "\<forall>junk. resolves junk rb t (p_via_mac p)" "msg_type ra = msg_reply" "msg_type rb = msg_reply"
    using reply_resolved[OF assms(1) s1(2), unfolded s1(3,6,7), OF q(2,1) s1(4) d p(1,7,8,2,3,9)] unfolding s1(3,6,7) by blast
  obtain h3 where s3: "host_run c [Ip_send (p_junk p) (p_reply_ident p), Ip_send (p_junk p) (p_reply_ident p), Tap_out True] (h1\<lparr> h_net := w, h_pending := ps \<rparr>) = Inr h3"
    "host_ok h3" "pending_messages (h_pending h3) = []" "capacity (h_net h3) = capacity (h_net h)" "inbox (h_net h3) = inbox (h_net h)" "h_arp h3 = h_arp h"
    "h_sent h3 = h_sent h @ [pong_frame_of c p]"
    using reply_sent[OF assms(1) s2(2), of n "inbox (h_net h)" ra rb f t pm m "tap_mac c" "p_via_mac p" "p_from p" ?pl "p_junk p" "p_reply_ident p"]
      q(1) s1(3,5,7,8) s2 p c(16) by (auto simp: pong_frame_of_def)
  have "ping_turns c p = [Frame (ping_frame_of c p), Ip_in (p_junk p) (p_now p), Icmp_in]
      @ [Ip_out (p_now p), Arp_resolve (p_junk p) (p_number p), Arp_resolve (p_junk p) (p_number p)]
      @ [Ip_send (p_junk p) (p_reply_ident p), Ip_send (p_junk p) (p_reply_ident p), Tap_out True]" by (simp add: ping_turns_def)
  then have "host_run c (ping_turns c p) h = Inr h3" using s1(1) s2(1) s3(1) by (simp only: host_run_append res_bind_Inr)
  then show ?thesis using s3 q(1) by (auto simp: at_rest_def)
qed

section \<open>The host as a whole\<close>

text \<open>The configuration of the examples: names, queue sizes, addresses and mappings.\<close>

definition example_wiring :: wiring where
  "example_wiring = \<lparr> tap_q = ''tap-test-lan1'', tap_meta_q = ''tap-test-lan1-meta'', tap_mac = [2, 0, 0, 0, 0, 1],
     tap_frames = [0x806 \<mapsto> ''arp-lan1'', 0x800 \<mapsto> ''ip4-lan1-lower''], tap_types = [''arp-lan1'' \<mapsto> 0x806, ''ip4-lan1-lower'' \<mapsto> 0x800],
     arp_q = ''arp-lan1'', arp_resolver_q = ''arp-lan1-resolver'', arp_out = ''tap-test-lan1'', arp_mac = [2, 0, 0, 0, 0, 1], arp_ip = [192, 168, 1, 2],
     ip_q = ''ip4-lan1-lower'', ip_upper_q = ''ip4-lan1-upper'', ip_replies_q = ''ip4-lan1-resrepl'', ip_meta_q = ''ip4-lan1-meta'', ip_addr = [192, 168, 1, 2],
     ip_bits = 24, ip_gw = [192, 168, 1, 1], ip_protos = [1 \<mapsto> ''icmp-lan1-lower'', 6 \<mapsto> ''tcp-lan1-lower'', 17 \<mapsto> ''udp-lan1-lower''],
     ip_numbers = [''icmp-lan1-lower'' \<mapsto> 1, ''tcp-lan1-lower'' \<mapsto> 6, ''udp-lan1-lower'' \<mapsto> 17], ip_link = ''tap-test-lan1'', ip_resolver = ''arp-lan1-resolver'',
     ip_icmp = ''icmp-lan1-error'', ip_mtu = 1450, icmp_q = ''icmp-lan1-lower'', icmp_err_q = ''icmp-lan1-error'', icmp_out = ''ip4-lan1-upper'',
     udp_q = ''udp-lan1-lower'', udp_upper_q = ''udp-lan1-upper'', udp_out = ''ip4-lan1-upper'', udp_icmp = ''icmp-lan1-error'', udp_ports = [123 \<mapsto> ''ntp-lan1-lower''],
     tcp_q = ''tcp-lan1-lower'', tcp_upper_q = ''tcp-lan1-upper'', tcp_meta_q = ''tcp-lan1-meta'', tcp_out = ''ip4-lan1-upper'', tcp_addr = [192, 168, 1, 2],
     tcp_salt = replicate 16 0, tcp_services = [80 \<mapsto> ''http-lan1-lower''], ntp_q = ''ntp-lan1-lower'', ntp_out = ''udp-lan1-upper'', time_q = ''time-lan1-lower'',
     time_out = ''tcp-lan1-upper'' \<rparr>"

definition example_sizes :: "string \<Rightarrow> nat" where
  "example_sizes q = (if q \<in> {''ip4-lan1-lower'', ''ip4-lan1-upper'', ''icmp-lan1-lower'', ''icmp-lan1-error'', ''udp-lan1-lower'', ''udp-lan1-upper'',
     ''tcp-lan1-lower'', ''tcp-lan1-upper''} then 151000
     else if q = ''ip4-lan1-resrepl'' then 32768 else if q = ''arp-lan1-resolver'' then 2048 else 16384)"

definition example_host :: host where
  "example_host = \<lparr> h_net = \<lparr> segs = (\<lambda>q. Some (begin_segment None (example_sizes q))), os_up = (\<lambda>_. True), clock = 0 \<rparr>, h_sent = [],
     h_arp = \<lparr> requests = [], arp_cache = [([192, 168, 1, 7], [2, 0, 0, 0, 0, 7])] \<rparr>, h_frags = [],
     h_pending = \<lparr> pending_messages = [], pm_heap = Map.empty, pm_next = 0 \<rparr>, h_sessions = [], h_ports = [] \<rparr>"

definition example_ping :: ping where
  "example_ping = \<lparr> p_mac = [2, 0, 0, 0, 0, 7], p_from = [192, 168, 1, 7], p_ident = 5, p_req = [8, 0, 0xf7, 0xfa, 0, 1, 0, 4], p_via = [192, 168, 1, 7],
     p_via_mac = [2, 0, 0, 0, 0, 7], p_junk = (\<lambda>_. 0), p_now = 0, p_number = 99, p_reply_ident = 6 \<rparr>"

lemma example_wired: "echo_wired example_wiring"
  by (simp add: echo_wired_def wired_def ping_queues_def example_wiring_def max_id_length_def)

lemma example_net: "inbox (h_net example_host) q = []" "capacity (h_net example_host) q = Some (example_sizes q)"
  by (simp_all add: example_host_def inbox_def capacity_def begin_segment_empty total_size_begin_segment)

lemma example_ok: "host_ok example_host"
  by (simp add: host_ok_def sizes_ok_def example_net)
   (simp add: example_host_def net_ok_def begin_segment_empty example_sizes_def arp_ok_def cache_sorted_def frags_ok_def pending_ok_def table_ok_def map_ok_def)

lemma example_at_rest: "at_rest example_wiring 1400 example_host"
  unfolding at_rest_def quiet_def example_net
  using example_ok by (simp add: ping_queues_def ping_room_def example_sizes_def example_wiring_def) (simp add: example_host_def)

lemma example_answerable: "answerable example_wiring 1400 (h_arp example_host) example_ping"
proof -
  have "route_via [192, 168, 1, 2] 24 [192, 168, 1, 1] [192, 168, 1, 7] = Inr [192, 168, 1, 7]" by code_simp
  moreover have "ip_checksum (p_req example_ping) (length (p_req example_ping)) = 0" by code_simp
  ultimately show ?thesis by (simp add: answerable_def example_wiring_def example_host_def example_ping_def use_mtu_size_eq)
qed

text \<open>C6: Every run of the host that comes to an end (frames of any content, turns of the threads in any order, and other processes
  that send complete messages or take messages; no thread aborts or waits without end) keeps the host sound: all queues are
  well-formed with the sizes they had; the ARP cache is in the order of its keys and has addresses of four and six bytes; the
  fragments, the packets that wait, the sessions and the ports are in the order of their keys; a packet in reassembly has
  less than 128 KiB, and the other addresses and messages the servers keep, whose lengths they do not check, are no longer than a queue can be.\<close>

theorem host_stays_sound:
  assumes "wired c" "\<forall>e \<in> set es. proper e" "host_ok h" "host_run c es h = Inr h'"
  shows "host_ok h' \<and> capacity (h_net h') = capacity (h_net h)"
  using endsD[OF host_run_ok[OF assms(1-3)] assms(4)] by (simp add: steps_to_def)

theorem host_stays_sound_witness:
  "\<exists>h'. host_run example_wiring (ping_turns example_wiring example_ping) example_host = Inr h'
    \<and> host_ok h' \<and> capacity (h_net h') = capacity (h_net example_host)"
proof -
  obtain h' where h': "host_run example_wiring (ping_turns example_wiring example_ping) example_host = Inr h'"
    using ping_answered[OF example_wired example_at_rest example_answerable] by blast
  have "\<forall>e \<in> set (ping_turns example_wiring example_ping). proper e"
    by (simp add: ping_turns_def proper_def ping_frame_of_def eth_frame_fields length_ip4_packet example_wiring_def example_ping_def)
  with host_stays_sound[OF _ _ example_ok h'] h' example_wired show ?thesis by (simp add: echo_wired_def)
qed

text \<open>C5: A host at rest that is pinged, any number of times, by requests that come in one packet each and whose next hop back is the host itself or
  in the ARP cache, sends one valid reply to each request, in order, with the data of the request and through the next hop to the sender, and is
  at rest again, when its servers take the turns of \<open>ping_turns\<close> in that order for each: eight after the frame, with two
  questions to the resolver between the ICMP server's reply and the frame.  (For a next hop that is not in the cache the
  reply is never sent, since the resolver answers under a number it never set: see \<open>arp_resolver_loses_number\<close>.)\<close>

theorem host_answers_pings:
  assumes "echo_wired c" "at_rest c n h" "\<forall>p \<in> set ps. answerable c n (h_arp h) p"
  shows "\<exists>h'. host_run c (concat (map (ping_turns c) ps)) h = Inr h' \<and> at_rest c n h' \<and> h_sent h' = h_sent h @ map (pong_frame_of c) ps
    \<and> (\<forall>p \<in> set ps. take 2 (echo_reply (p_req p)) = [0, 0] \<and> drop 4 (echo_reply (p_req p)) = drop 4 (p_req p)
         \<and> ip_checksum (echo_reply (p_req p)) (length (p_req p)) = 0)"
  using assms(2,3)
proof (induction ps arbitrary: h)
  case (Cons p ps)
  obtain h1 where h1: "host_run c (ping_turns c p) h = Inr h1" "at_rest c n h1" "h_arp h1 = h_arp h" "h_sent h1 = h_sent h @ [pong_frame_of c p]"
    using ping_answered[OF assms(1) Cons.prems(1), of p] Cons.prems(2) by auto
  have "8 \<le> length (p_req p)" "length (p_req p) \<le> 131070" using Cons.prems(2) by (auto simp: answerable_def)
  note reply = echo_reply_ok[OF this]
  from Cons.IH[OF h1(2)] Cons.prems(2) h1 reply show ?case by (auto simp: host_run_append)
qed simp

theorem host_answers_pings_witness:
  "\<exists>h'. host_run example_wiring (concat (map (ping_turns example_wiring) [example_ping, example_ping])) example_host = Inr h'
    \<and> at_rest example_wiring 1400 h' \<and> h_sent h' = h_sent example_host @ map (pong_frame_of example_wiring) [example_ping, example_ping]
    \<and> (\<forall>p \<in> set [example_ping, example_ping]. take 2 (echo_reply (p_req p)) = [0, 0] \<and> drop 4 (echo_reply (p_req p)) = drop 4 (p_req p)
         \<and> ip_checksum (echo_reply (p_req p)) (length (p_req p)) = 0)"
  by (rule host_answers_pings[OF example_wired example_at_rest]) (simp add: example_answerable)

end
