(* ===== verification/Path.thy ===== *)
theory Path
  imports Resolve
begin

text \<open>
  The way of an IP packet from the transport server of one host to that of another on the same
  Ethernet, composed from the definitions of the servers it passes: the IPv4 server, which asks for two hardware
  addresses, the ARP server, which knows them, the sender of the IPv4 server, the link server, the wire, and
  on the other side the link server and the IPv4 server.
\<close>

section \<open>What a server adds to the queues\<close>

text \<open>What came into a queue on a turn of a server.\<close>

definition news :: "net \<Rightarrow> net \<Rightarrow> string \<Rightarrow> message list" where
  "news w w' q = drop (length (inbox w q)) (inbox w' q)"

definition the_one :: "'a list \<Rightarrow> 'a res" where
  "the_one xs = (case xs of [x] \<Rightarrow> Inr x | _ \<Rightarrow> Inl Blocked)"

definition the_two :: "'a list \<Rightarrow> ('a \<times> 'a) res" where
  "the_two xs = (case xs of [x, y] \<Rightarrow> Inr (x, y) | _ \<Rightarrow> Inl Blocked)"

lemma news_adds: "adds q m w w' \<Longrightarrow> news w w' q = [m]"
  by (simp add: adds_def news_def)

lemma the_one_single [simp]: "the_one [x] = Inr x"
  by (simp add: the_one_def)

text \<open>\<open>gets\<close>: one message more in one queue, and room for \<open>k\<close> bytes less in it.\<close>

definition gets :: "string \<Rightarrow> string \<Rightarrow> message \<Rightarrow> net \<Rightarrow> net \<Rightarrow> bool" where
  "gets lid q m w w' \<longleftrightarrow> (\<exists>m'. carries lid m m' \<and> adds q m' w w') \<and> capacity w' = capacity w"

lemma posted_gets:
  assumes "posted inbox capacity lid w q m r w'" "spare k w q" "padded_length m \<le> k"
  shows "r" "gets lid q m w w'"
proof -
  have "has_room (inbox w) (capacity w) q m" using assms(2,3) by (auto simp: spare_def has_room_def split: option.splits)
  then show "r" "gets lid q m w w'" using assms(1) by (auto simp: posted_def gets_def adds_def)
qed

lemma gets_spare:
  assumes "gets lid q m w w'"
  shows "q' \<noteq> q \<Longrightarrow> spare k w' q' = spare k w q'"
    and "spare k w q \<Longrightarrow> padded_length m + j \<le> k \<Longrightarrow> spare j w' q"
  using assms by (auto simp: gets_def adds_def spare_def padded_length_carries split: option.splits)

lemma news_gets:
  assumes "gets lid q m w w'"
  shows "\<exists>m'. news w w' q = [m'] \<and> carries lid m m'" "q' \<noteq> q \<Longrightarrow> news w w' q' = []"
  using assms by (auto simp: gets_def adds_def news_def)

lemma news_same: "news w w q = []"
  by (simp add: news_def)

lemma posted_until_room:
  assumes "posted_until inbox capacity lid w q ms w'" "spare (sum_list (map padded_length ms)) w q"
  shows "\<exists>ms'. list_all2 (carries lid) ms ms' \<and> inbox w' = (inbox w)(q := inbox w q @ ms')"
  using assms
proof (induction ms arbitrary: w)
  case (Cons m ms)
  then obtain r w1 where 1: "posted inbox capacity lid w q m r w1"
    "if r then posted_until inbox capacity lid w1 q ms w' else inbox w' = inbox w1 \<and> capacity w' = capacity w1" by auto
  have "spare (sum_list (map padded_length (m # ms))) w q" "padded_length m \<le> sum_list (map padded_length (m # ms))" using Cons.prems(2) by simp_all
  note g = posted_gets[OF 1(1) this]
  have "spare (sum_list (map padded_length ms)) w1 q" using gets_spare(2)[OF g(2) Cons.prems(2)] by simp
  moreover have "posted_until inbox capacity lid w1 q ms w'" using 1(2) g(1) by simp
  ultimately obtain ms' where "list_all2 (carries lid) ms ms'" "inbox w' = (inbox w1)(q := inbox w1 q @ ms')" using Cons.IH by blast
  moreover obtain m' where "carries lid m m'" "inbox w1 = (inbox w)(q := inbox w q @ [m'])" using g(2) by (auto simp: gets_def adds_def)
  ultimately show ?case by (intro exI[of _ "m' # ms'"]) simp
qed simp

section \<open>A path\<close>

text \<open>The settings of the servers a packet passes, and the queues as each of these servers finds them: on the first host
  the IPv4 server with its own address, prefix and gateway, the queues to and from the resolver and the packets that wait, the ARP server
  with its table, and the link server; on the second host the link server and the IPv4 server.\<close>

record path =
  from_addr :: addr
  from_bits :: int
  from_gw :: addr
  from_replies :: string
  from_resolver :: string
  from_now :: u64
  from_pending :: out_state
  from_upper_world :: net
  from_arp :: string
  from_arp_out :: string
  from_arp_state :: arp_state
  from_arp_nr :: u64
  from_arp_world :: net
  from_junk :: "nat \<Rightarrow> byte"
  from_ip :: string
  from_link :: string
  from_protos :: "string \<Rightarrow> byte option"
  from_mtu :: int
  from_ident :: u16
  from_types :: "string \<Rightarrow> u16 option"
  from_mac :: addr
  from_world :: net
  to_mac :: addr
  to_tap :: string
  to_frames :: "u16 \<Rightarrow> string option"
  to_tap_world :: net
  to_ip :: string
  to_ip_queue :: string
  to_addr :: addr
  to_packets :: "byte \<Rightarrow> string option"
  to_queue :: string
  to_icmp :: string
  to_junk :: "nat \<Rightarrow> byte"
  to_now :: u64
  to_frags :: "(u64, packet) std_map"
  to_world :: net

text \<open>The resolver thread of the ARP server takes a question; its answer goes to the IPv4 server.\<close>

definition arp_answer :: "path \<Rightarrow> message \<Rightarrow> message res" where
  "arp_answer p m =
     res_bind (arp_run_resolver (send_message (from_resolver p)) (from_addr p) (from_mac p) (from_arp_out p) (send_message (from_arp p))
       (from_junk p) (from_arp_nr p) m (from_arp_state p) (from_arp_world p)) (\<lambda>(n, st, w).
     the_one (news (from_arp_world p) w (from_replies p)))"

text \<open>A packet through the IPv4 server: it waits for two answers; the second lets the sender transmit it.  The result is the
  messages for the link server.\<close>

definition ip4_out :: "path \<Rightarrow> message \<Rightarrow> message list res" where
  "ip4_out p m =
     res_bind (ip4_run_out (from_addr p) (from_bits p) (from_gw p) (send_message (from_replies p)) (from_resolver p) (from_now p) m
       (from_pending p) (from_upper_world p)) (\<lambda>(n, st, w).
     res_bind (the_two (news (from_upper_world p) w (from_resolver p))) (\<lambda>(ask_from, ask_to).
     res_bind (arp_answer p ask_from) (\<lambda>from_reply.
     res_bind (arp_answer p ask_to) (\<lambda>to_reply.
     res_bind (ip4_sender 65535 (send_message (from_ip p)) (from_link p) (from_protos p) (from_mtu p) (from_junk p) (from_ident p)
       from_reply st (from_world p)) (\<lambda>(n, st, w).
     res_bind (ip4_sender 65535 (send_message (from_ip p)) (from_link p) (from_protos p) (from_mtu p) (from_junk p) (from_ident p)
       to_reply st w) (\<lambda>(n, st, w).
     Inr (news (from_world p) w (from_link p))))))))"

definition carry_out :: "path \<Rightarrow> message \<Rightarrow> bytes res" where
  "carry_out p m =
     res_bind (ip4_out p m) (\<lambda>ms.
     res_bind (the_one ms) (\<lambda>m.
     res_bind (tap_run_out wire (from_types p) m []) (\<lambda>(n, frames).
     the_one frames)))"

definition carry_in :: "path \<Rightarrow> bytes \<Rightarrow> message res" where
  "carry_in p frame =
     res_bind (tap_run_in (send_message (to_tap p)) (to_mac p) (to_frames p) frame (to_tap_world p)) (\<lambda>w.
     res_bind (the_one (news (to_tap_world p) w (to_ip_queue p))) (\<lambda>m.
     res_bind (ip4_run_in (send_message (to_ip p)) (to_addr p) (to_packets p) (to_icmp p) (to_junk p) (to_now p) m (to_frags p) (to_world p))
       (\<lambda>(n, frags, w).
     the_one (news (to_world p) w (to_queue p)))))"

definition carry :: "path \<Rightarrow> message \<Rightarrow> message res" where
  "carry p m = res_bind (carry_out p m) (carry_in p)"

text \<open>The ARP server of the first host knows the hardware address of the next hop, which is that of the second host.\<close>

definition next_hop_known :: "path \<Rightarrow> bool" where
  "next_hop_known p \<longleftrightarrow> (\<exists>via. route_via (from_addr p) (from_bits p) (from_gw p) (to_addr p) = Inr via \<and> length via = 4
     \<and> (if via = from_addr p then Some (from_mac p) else map_of (arp_cache (from_arp_state p)) via) = Some (to_mac p))"

text \<open>Names that fit, and addresses of the right lengths.\<close>

definition path_names :: "path \<Rightarrow> string \<Rightarrow> bool" where
  "path_names p l4 \<longleftrightarrow> length l4 < max_id_length \<and> CHR 0x00 \<notin> set l4
     \<and> length (from_ip p) < max_id_length \<and> CHR 0x00 \<notin> set (from_ip p)
     \<and> length (from_replies p) < max_id_length \<and> CHR 0x00 \<notin> set (from_replies p) \<and> length (from_resolver p) < max_id_length
     \<and> length (to_tap p) < max_id_length \<and> length (to_ip p) < max_id_length
     \<and> length (from_mac p) = 6 \<and> length (to_mac p) = 6 \<and> length (from_addr p) = 4 \<and> length (to_addr p) = 4"

text \<open>Room for one packet of the greatest size the MTU allows, with the frame it came in, and for two questions and an answer.\<close>

definition path_room :: "path \<Rightarrow> bool" where
  "path_room p \<longleftrightarrow> net_ok (from_upper_world p) \<and> net_ok (from_arp_world p) \<and> net_ok (from_world p) \<and> net_ok (to_tap_world p) \<and> net_ok (to_world p)
     \<and> spare 224 (from_upper_world p) (from_resolver p) \<and> spare 300 (from_arp_world p) (from_replies p)
     \<and> spare (use_mtu_size (from_mtu p) + 200) (from_world p) (from_link p)
     \<and> spare (2 * use_mtu_size (from_mtu p) + 240) (to_tap_world p) (to_ip_queue p)
     \<and> spare (2 * use_mtu_size (from_mtu p) + 220) (to_world p) (to_queue p)"

text \<open>A path that works for packets of protocol \<open>proto\<close> of the server \<open>l4\<close>: the servers are configured for each other,
  the next hop is known and there is room.\<close>

definition path_ok :: "path \<Rightarrow> string \<Rightarrow> byte \<Rightarrow> bool" where
  "path_ok p l4 proto \<longleftrightarrow> path_names p l4 \<and> path_room p \<and> next_hop_known p
     \<and> free_numbers (from_upper_world p) (from_resolver p) (from_pending p) \<and> 28 \<le> from_mtu p \<and> from_mtu p \<le> 65535
     \<and> from_protos p l4 = Some proto \<and> from_types p (from_ip p) = Some 0x800 \<and> to_frames p 0x800 = Some (to_ip_queue p)
     \<and> to_packets p proto = Some (to_queue p)"

lemmas path_parts = path_ok_def path_names_def path_room_def

lemma arp_answers:
  assumes "path_ok p l4 proto" "asks (from_replies p) a m" "length a = 4" "length mac = 6"
    and "(if a = from_addr p then Some (from_mac p) else map_of (arp_cache (from_arp_state p)) a) = Some mac"
  shows "\<exists>r. arp_answer p m = Inr r \<and> (\<forall>junk. resolves junk r (msg_nr m) mac)"
proof -
  note ok = assms(1)[unfolded path_parts]
  have q: "c_str (sender m) = from_replies p" "search_mac a m" using assms(2) by (simp_all add: asks_def)
  have "net_ok (from_arp_world p)" "length (from_resolver p) < max_id_length" "length (from_addr p) = 4"
    "spare 300 (from_arp_world p) (c_str (sender m))" using ok q by simp_all
  from resolver_replies[where junk = "from_junk p" and junk_nr = "from_arp_nr p" and out = "from_arp_out p" and shm_out = "send_message (from_arp p)",
      OF this(1,2) q(2) assms(3) this(3) assms(4,5) this(4)]
  obtain w' r where "arp_run_resolver (send_message (from_resolver p)) (from_addr p) (from_mac p) (from_arp_out p) (send_message (from_arp p))
       (from_junk p) (from_arp_nr p) m (from_arp_state p) (from_arp_world p) = Inr (1, from_arp_state p, w')"
    "adds (from_replies p) r (from_arp_world p) w'" "\<And>junk. resolves junk r (msg_nr m) mac" unfolding q(1) by metis
  then show ?thesis using news_adds[of "from_replies p" r "from_arp_world p" w'] by (simp add: arp_answer_def)
qed

text \<open>What comes out of the IPv4 server is what its sender transmits between the two hardware addresses.\<close>

lemma ip4_out_transmits:
  assumes "path_ok p l4 proto" "src = from_addr p" "length pl < 2 ^ 31" "msg_data m = wrap_down src (to_addr p) pl"
  shows "\<exists>pm. queued_msg pm = m \<and> ip4_out p m =
    res_bind (ip4_transmit 65535 (send_message (from_ip p)) (from_link p) (from_protos p) (from_mtu p) (from_ident p) pm
      (from_mac p) (to_mac p) (from_world p)) (\<lambda>w. Inr (news (from_world p) w (from_link p)))"
proof -
  note ok = assms(1)[unfolded path_parts]
  obtain via where via: "route_via (from_addr p) (from_bits p) (from_gw p) (to_addr p) = Inr via" "length via = 4"
    "(if via = from_addr p then Some (from_mac p) else map_of (arp_cache (from_arp_state p)) via) = Some (to_mac p)"
    using ok by (auto simp: next_hop_known_def)
  have d: "msg_data m = wrap_down (from_addr p) (to_addr p) pl @ []" using assms(2,4) by simp
  obtain ma mb pm st w where
    out: "ip4_run_out (from_addr p) (from_bits p) (from_gw p) (send_message (from_replies p)) (from_resolver p) (from_now p) m (from_pending p)
        (from_upper_world p) = Inr (0, st, w)"
      "inbox w = (inbox (from_upper_world p))(from_resolver p := inbox (from_upper_world p) (from_resolver p) @ [ma, mb])"
      "asks (from_replies p) (from_addr p) ma" "asks (from_replies p) via mb" "queued (msg_nr ma) (msg_nr mb) pm st" "queued_msg pm = m"
    using ip4_run_out_asks[where q = "from_replies p" and now = "from_now p", OF _ _ _ _ _ assms(3) via(1,2) d] ok by metis
  have two: "the_two (news (from_upper_world p) w (from_resolver p)) = Inr (ma, mb)" using out(2) by (simp add: news_def the_two_def)
  obtain rf where rf: "arp_answer p ma = Inr rf" "\<And>junk. resolves junk rf (msg_nr ma) (from_mac p)"
    using arp_answers[OF assms(1) out(3), of "from_mac p"] ok by auto
  obtain rt where rt: "arp_answer p mb = Inr rt" "\<And>junk. resolves junk rt (msg_nr mb) (to_mac p)"
    using arp_answers[OF assms(1) out(4) via(2) _ via(3)] ok by auto
  show ?thesis
  proof (rule ip4_two_replies[where junk = "from_junk p" and fuel = 65535 and shm = "send_message (from_ip p)" and link = "from_link p"
        and mo = "from_protos p" and mtu = "from_mtu p" and ident = "from_ident p" and w = "from_world p", OF out(5) rf(2) rt(2)])
    fix st2 st1 st1' pm'
    assume "ip4_sender 65535 (send_message (from_ip p)) (from_link p) (from_protos p) (from_mtu p) (from_junk p) (from_ident p) rf st (from_world p)
        = Inr (1, st1, from_world p)"
      "ip4_sender 65535 (send_message (from_ip p)) (from_link p) (from_protos p) (from_mtu p) (from_junk p) (from_ident p) rt st1 (from_world p)
        = res_bind (ip4_transmit 65535 (send_message (from_ip p)) (from_link p) (from_protos p) (from_mtu p) (from_ident p) pm' (from_mac p) (to_mac p)
            (from_world p)) (\<lambda>w. Inr (1, st2, w))" "queued_msg pm' = queued_msg pm"
    then show ?thesis using out(1,6) two rf(1) rt(1) by (intro exI[of _ pm']) (simp add: ip4_out_def res_bind_assoc)
  qed
qed

lemma carry_out_packet:
  assumes "path_ok p l4 proto" "src = from_addr p" "pl \<noteq> []" "length pl \<le> use_mtu_size (from_mtu p)"
    and "msg_data m = wrap_down src (to_addr p) pl" "c_str (sender m) = l4"
  shows "carry_out p m = Inr (eth_frame (to_mac p) (from_mac p) 0x800 (ip4_packet proto (from_ident p) 0 False src (to_addr p) pl))"
proof -
  define packet where "packet = ip4_packet proto (from_ident p) 0 False src (to_addr p) pl"
  note ok = assms(1)[unfolded path_parts]
  have src: "length src = 4" using ok assms(2) by simp
  have l: "length pl \<le> 65515" using use_mtu_size_bounds[of "from_mtu p"] ok assms(4) by simp
  then have "length pl < 2 ^ 31" by simp
  from ip4_out_transmits[OF assms(1,2) this assms(5)] obtain pm where pm: "queued_msg pm = m" "ip4_out p m =
    res_bind (ip4_transmit 65535 (send_message (from_ip p)) (from_link p) (from_protos p) (from_mtu p) (from_ident p) pm
      (from_mac p) (to_mac p) (from_world p)) (\<lambda>w. Inr (news (from_world p) w (from_link p)))" by blast
  have q: "msg_data (queued_msg pm) = wrap_down src (to_addr p) pl @ []" "from_protos p (c_str (sender (queued_msg pm))) = Some proto"
    using assms(5,6) ok pm(1) by simp_all
  have "spare (length pl + 200) (from_world p) (from_link p)" by (rule spare_mono[of "use_mtu_size (from_mtu p) + 200"]) (use ok assms(4) in simp_all)
  then obtain w' m' where s: "ip4_transmit 65535 (send_message (from_ip p)) (from_link p) (from_protos p) (from_mtu p) (from_ident p) pm
      (from_mac p) (to_mac p) (from_world p) = Inr w'"
    "carries (from_ip p) (wrap_message_down (from_mac p) (to_mac p) packet None) m'" "adds (from_link p) m' (from_world p) w'"
    using ip4_transmit_spare[where mappings_out = "from_protos p", OF _ _ _ _ src _ _ _ assms(3,4) l q,
        of "from_world p" "from_ip p" "from_mac p" "to_mac p" 65535 "from_link p" "from_ident p"]
      ok l unfolding packet_def by auto
  have p: "length packet = 20 + length pl" using ok src by (simp add: packet_def length_ip4_packet)
  then have "packet \<noteq> []" "length packet < 2 ^ 64" using l by auto
  moreover have "msg_data m' = wrap_down (from_mac p) (to_mac p) packet @ []" "from_types p (c_str (sender m')) = Some 0x800"
    using carries_fields[OF s(2)] ok by simp_all
  ultimately have "tap_run_out wire (from_types p) m' [] = Inr (1, [eth_frame (to_mac p) (from_mac p) 0x800 packet])"
    using tap_run_out_frame[of m' "from_mac p" "to_mac p" packet "[]" "from_types p" "0x800" wire "[]"] ok
      eth_frame_fields(1)[of "to_mac p" "from_mac p" "0x800" packet] by (simp add: wire_def)
  then show ?thesis using s(1) news_adds[OF s(3)] pm(2) by (simp add: carry_out_def packet_def)
qed

lemma carry_in_packet:
  assumes "path_ok p l4 proto" "length src = 4" "8 \<le> length pl" "length pl \<le> use_mtu_size (from_mtu p)"
  shows "\<exists>m. carry_in p (eth_frame (to_mac p) (from_mac p) 0x800 (ip4_packet proto ident 0 False src (to_addr p) pl)) = Inr m
    \<and> msg_data m = wrap_up (ip4_packet proto ident 0 False src (to_addr p) pl) src (to_addr p) pl"
proof -
  define packet where "packet = ip4_packet proto ident 0 False src (to_addr p) pl"
  define frame where "frame = eth_frame (to_mac p) (from_mac p) 0x800 packet"
  note ok = assms(1)[unfolded path_parts]
  have l: "length pl \<le> 65515" using use_mtu_size_bounds[of "from_mtu p"] ok assms(4) by simp
  have p: "length packet = 20 + length pl" using ok assms(2) by (simp add: packet_def length_ip4_packet)
  have f: "length frame = 34 + length pl" using ok p by (simp add: frame_def eth_frame_fields)
  have r: "spare (2 * length packet + 200) (to_tap_world p) (to_ip_queue p)" "spare (2 * length pl + 220) (to_world p) (to_queue p)"
    by (rule spare_mono[of "2 * use_mtu_size (from_mtu p) + 240"], use ok assms(4) p in simp_all)
      (rule spare_mono[of "2 * use_mtu_size (from_mtu p) + 220"], use ok assms(4) in simp_all)
  obtain w m where s: "tap_run_in (send_message (to_tap p)) (to_mac p) (to_frames p) frame (to_tap_world p) = Inr w"
    "msg_data m = wrap_up frame (from_mac p) (to_mac p) packet @ []" "adds (to_ip_queue p) m (to_tap_world p) w"
    using tap_run_in_spare[of "to_tap_world p" "to_tap p" "to_mac p" "from_mac p" packet "to_frames p" "0x800" "to_ip_queue p"] ok p r(1) assms(3) l
    unfolding frame_def by auto
  obtain w' m' where t: "ip4_run_in (send_message (to_ip p)) (to_addr p) (to_packets p) (to_icmp p) (to_junk p) (to_now p) m (to_frags p) (to_world p)
      = Inr (1, to_frags p, w')" "msg_data m' = wrap_up packet src (to_addr p) pl" "adds (to_queue p) m' (to_world p) w'"
    using ip4_run_in_spare[where mappings = "to_packets p", OF _ _ assms(2) _ l _ _ _ s(2)[unfolded packet_def],
        of "to_world p" "to_ip p" "to_queue p" "to_icmp p" "to_junk p" "to_now p" "to_frags p"] ok f l r(2)
    unfolding packet_def by auto
  then show ?thesis using s news_adds[OF s(3)] news_adds[OF t(3)]
    unfolding packet_def[symmetric] frame_def[symmetric] by (simp add: carry_in_def)
qed

lemma carry_packet:
  assumes "path_ok p l4 proto" "src = from_addr p" "8 \<le> length pl" "length pl \<le> use_mtu_size (from_mtu p)"
    and "carries l4 (wrap_message_down src (to_addr p) pl None) m"
  shows "\<exists>m'. carry p m = Inr m' \<and> length pl \<le> 65515
    \<and> msg_data m' = wrap_up (ip4_packet proto (from_ident p) 0 False src (to_addr p) pl) src (to_addr p) pl"
proof -
  note ok = assms(1)[unfolded path_parts]
  have l: "length pl \<le> 65515" "pl \<noteq> []" using use_mtu_size_bounds[of "from_mtu p"] ok assms(3,4) by auto
  have "msg_data m = wrap_down src (to_addr p) pl" "c_str (sender m) = l4" using carries_fields[OF assms(5)] ok by simp_all
  from carry_out_packet[OF assms(1,2) l(2) assms(4) this] carry_in_packet[OF assms(1) _ assms(3,4), of src "from_ident p"] l(1) ok assms(2)
  show ?thesis by (auto simp: carry_def)
qed

end
