(* ===== verification/Fragments_Across.thy ===== *)
theory Fragments_Across
  imports Path
begin

text \<open>
  A packet that does not fit the MTU, from the transport server of one host to that of another on the same
  Ethernet: the IPv4 server cuts it, the link server sends a frame for every piece, the frames
  arrive in any order, and the IPv4 server of the other host puts the packet together.
\<close>

section \<open>Frames of all pieces\<close>

fun link_out :: "(string \<Rightarrow> u16 option) \<Rightarrow> message list \<Rightarrow> bytes list \<Rightarrow> bytes list res" where
  "link_out types [] sent = Inr sent"
| "link_out types (m # ms) sent = res_bind (tap_run_out wire types m sent) (\<lambda>(n, sent). link_out types ms sent)"

definition send_out :: "path \<Rightarrow> message \<Rightarrow> bytes list res" where
  "send_out p m =
     res_bind (ip4_out p m) (\<lambda>ms. link_out (from_types p) ms [])"

text \<open>The frames one after the other; the IPv4 server takes what the link server gave it before the next frame comes.\<close>

fun ip4_in_all :: "path \<Rightarrow> message list \<Rightarrow> (u64, packet) std_map \<Rightarrow> net \<Rightarrow> ((u64, packet) std_map \<times> net) res" where
  "ip4_in_all p [] frags w = Inr (frags, w)"
| "ip4_in_all p (m # ms) frags w =
     res_bind (ip4_run_in (send_message (to_ip p)) (to_addr p) (to_packets p) (to_icmp p) (to_junk p) (to_now p) m frags w)
       (\<lambda>(n, frags, w). ip4_in_all p ms frags w)"

fun take_in :: "path \<Rightarrow> bytes list \<Rightarrow> (u64, packet) std_map \<Rightarrow> net \<Rightarrow> ((u64, packet) std_map \<times> net) res" where
  "take_in p [] frags w = Inr (frags, w)"
| "take_in p (frame # frames) frags w =
     res_bind (tap_run_in (send_message (to_tap p)) (to_mac p) (to_frames p) frame (to_tap_world p)) (\<lambda>v.
     res_bind (ip4_in_all p (news (to_tap_world p) v (to_ip_queue p)) frags w) (\<lambda>(frags, w). take_in p frames frags w))"

definition packet_of :: "path \<Rightarrow> byte \<Rightarrow> addr \<Rightarrow> nat \<times> bytes \<times> bool \<Rightarrow> bytes" where
  "packet_of p proto src fr = (case fr of (ofs, c, mf) \<Rightarrow> ip4_packet proto (from_ident p) ofs mf src (to_addr p) c)"

definition frame_of :: "path \<Rightarrow> byte \<Rightarrow> addr \<Rightarrow> nat \<times> bytes \<times> bool \<Rightarrow> bytes" where
  "frame_of p proto src fr = eth_frame (to_mac p) (from_mac p) 0x800 (packet_of p proto src fr)"

lemma length_packet_of: "length src = 4 \<Longrightarrow> length (to_addr p) = 4 \<Longrightarrow> length (packet_of p proto src fr) = 20 + length (fst (snd fr))"
  by (cases fr) (simp add: packet_of_def length_ip4_packet)

lemma link_out_frames:
  assumes "path_ok p l4 proto" "length src = 4" "\<forall>fr \<in> set frs. length (fst (snd fr)) \<le> 65515"
    and "list_all2 (carries (from_ip p)) (map (\<lambda>fr. wrap_message_down (from_mac p) (to_mac p) (packet_of p proto src fr) None) frs) ms"
  shows "link_out (from_types p) ms sent = Inr (sent @ map (frame_of p proto src) frs)"
  using assms(3,4)
proof (induction frs arbitrary: ms sent)
  case (Cons fr frs)
  then obtain m ms' where ms: "ms = m # ms'" "carries (from_ip p) (wrap_message_down (from_mac p) (to_mac p) (packet_of p proto src fr) None) m"
    "list_all2 (carries (from_ip p)) (map (\<lambda>fr. wrap_message_down (from_mac p) (to_mac p) (packet_of p proto src fr) None) frs) ms'"
    by (auto simp: list_all2_Cons1)
  note ok = assms(1)[unfolded path_parts]
  have l: "length (packet_of p proto src fr) = 20 + length (fst (snd fr))" using ok assms(2) by (simp add: length_packet_of)
  then have "packet_of p proto src fr \<noteq> []" "length (packet_of p proto src fr) < 2 ^ 64" using Cons.prems(1) by auto
  moreover have "msg_data m = wrap_down (from_mac p) (to_mac p) (packet_of p proto src fr) @ []" "from_types p (c_str (sender m)) = Some 0x800"
    using carries_fields[OF ms(2)] ok by simp_all
  ultimately have "tap_run_out wire (from_types p) m sent = Inr (1, sent @ [frame_of p proto src fr])"
    using tap_run_out_frame[of m "from_mac p" "to_mac p" "packet_of p proto src fr" "[]" "from_types p" "0x800" wire sent] ok
      eth_frame_fields(1)[of "to_mac p" "from_mac p" "0x800" "packet_of p proto src fr"] by (simp add: wire_def frame_of_def)
  then show ?case using ms(1) Cons.IH[OF _ ms(3)] Cons.prems(1) by simp
qed simp

lemma sum_padded:
  assumes "\<And>fr. fr \<in> set frs \<Longrightarrow> padded_length (g fr) \<le> length (fst (snd fr)) + k"
  shows "sum_list (map padded_length (map g frs)) \<le> sum_list (map (\<lambda>fr. length (fst (snd fr))) frs) + k * length frs"
  using assms by (induction frs) fastforce+

lemma sum_pieces: "sum_list (map (\<lambda>fr. length (fst (snd fr))) (pieces ofs cs)) = length (concat cs)"
  by (induction cs arbitrary: ofs) auto

lemma send_out_frames:
  assumes "path_ok p l4 proto" "src = from_addr p" "length pl \<le> 65515"
    and "spare (length pl + 200 * length (chunks (use_mtu_size (from_mtu p)) pl)) (from_world p) (from_link p)"
    and "msg_data m = wrap_down src (to_addr p) pl" "c_str (sender m) = l4"
  shows "send_out p m = Inr (map (frame_of p proto src) (pieces 0 (chunks (use_mtu_size (from_mtu p)) pl)))"
proof -
  note ok = assms(1)[unfolded path_parts]
  define u where "u = use_mtu_size (from_mtu p)"
  define g where "g = (\<lambda>fr. wrap_message_down (from_mac p) (to_mac p) (packet_of p proto src fr) None)"
  have u: "0 < u" using use_mtu_size_bounds(2) ok by (simp add: u_def)
  let ?frs = "pieces 0 (chunks u pl)"
  have src: "length src = 4" using ok assms(2) by simp
  have "length pl < 2 ^ 31" using assms(3) by simp
  from ip4_out_transmits[OF assms(1,2) this assms(5)] obtain pm where pm: "queued_msg pm = m" "ip4_out p m =
    res_bind (ip4_transmit 65535 (send_message (from_ip p)) (from_link p) (from_protos p) (from_mtu p) (from_ident p) pm
      (from_mac p) (to_mac p) (from_world p)) (\<lambda>w. Inr (news (from_world p) w (from_link p)))" by blast
  have q: "msg_data (queued_msg pm) = wrap_down src (to_addr p) pl @ []" "from_protos p (c_str (sender (queued_msg pm))) = Some proto"
    using assms(5,6) ok pm(1) by simp_all
  have "(\<lambda>(ofs, c, mf). wrap_message_down (from_mac p) (to_mac p) (ip4_packet proto (from_ident p) ofs mf src (to_addr p) c) None) = g"
    by (auto simp: g_def packet_of_def fun_eq_iff)
  then obtain w' where s: "ip4_transmit 65535 (send_message (from_ip p)) (from_link p) (from_protos p) (from_mtu p) (from_ident p) pm
      (from_mac p) (to_mac p) (from_world p) = Inr w'"
    "posted_until inbox capacity (from_ip p) (from_world p) (from_link p) (map g ?frs) w'"
    using ip4_transmit_posts[where mappings_out = "from_protos p" and ident = "from_ident p", OF _ _ _ _ src _ _ _ assms(3) q,
        of "from_world p" "from_ip p" "from_mtu p" "from_mac p" "to_mac p" 65535 "from_link p"] ok assms(3)
    unfolding u_def by (auto simp: small_def)
  have b: "length (fst (snd fr)) \<le> length pl" if "fr \<in> set ?frs" for fr
    using pieces_bounds[of "fst fr" "fst (snd fr)" "snd (snd fr)" 0 "chunks u pl"] that concat_chunks[OF u, of pl] by simp
  have "padded_length (g fr) \<le> length (fst (snd fr)) + 200" if "fr \<in> set ?frs" for fr
    using padded_length_envelope[of "wrap_down (from_mac p) (to_mac p) (packet_of p proto src fr)" None] b[OF that] ok src assms(3)
    by (simp add: g_def wrap_message_down_def length_packet_of)
  then have "sum_list (map padded_length (map g ?frs)) \<le> length pl + 200 * length (chunks u pl)"
    using sum_padded[of ?frs g 200] by (simp add: sum_pieces concat_chunks[OF u])
  from posted_until_room[OF s(2) spare_mono[OF assms(4)[folded u_def] this]] obtain ms where
    ms: "list_all2 (carries (from_ip p)) (map g ?frs) ms" "inbox w' = (inbox (from_world p))(from_link p := inbox (from_world p) (from_link p) @ ms)"
    by blast
  have "link_out (from_types p) ms [] = Inr ([] @ map (frame_of p proto src) ?frs)"
    using link_out_frames[OF assms(1) src _ ms(1)[unfolded g_def]] b assms(3) by fastforce
  then show ?thesis using s(1) ms(2) pm(2) by (simp add: send_out_def news_def u_def)
qed

section \<open>The pieces on the other host\<close>

text \<open>A piece that goes through the wire and into reassembly: the tables of the two ends agree.\<close>

definition fits :: "nat \<Rightarrow> nat \<times> bytes \<times> bool \<Rightarrow> bool" where
  "fits n fr \<longleftrightarrow> (case fr of (ofs, c, mf) \<Rightarrow> 8 \<le> length c \<and> length c \<le> n \<and> 8 dvd ofs \<and> ofs < 65536 \<and> (0 < ofs \<or> mf))"

lemma take_in_step:
  assumes "path_ok p l4 proto" "length src = 4" "fits (use_mtu_size (from_mtu p)) (ofs, c, mf)" "calc_session_id src (to_addr p) (ucast proto) (from_ident p) = Inr sid"
  shows "take_in p (frame_of p proto src (ofs, c, mf) # frames) frags w =
    (case ip4_fragment (to_junk p) (to_now p) sid ofs c mf frags of
       (None, frags') \<Rightarrow> take_in p frames frags' w
     | (Some whole, frags') \<Rightarrow>
         res_bind (post (send_message (to_ip p)) (to_queue p)
             ((wrap_message_up (packet_of p proto src (ofs, c, mf)) src (to_addr p) whole None)\<lparr> msg_id := sid \<rparr>) w)
           (\<lambda>(r, w). take_in p frames frags' w))"
proof -
  note ok = assms(1)[unfolded path_parts]
  define packet where "packet = packet_of p proto src (ofs, c, mf)"
  define frame where "frame = frame_of p proto src (ofs, c, mf)"
  have l: "length packet = 20 + length c" using ok assms(2) by (simp add: packet_def length_packet_of)
  have f: "length frame = 34 + length c" using ok l by (simp add: frame_def frame_of_def eth_frame_fields packet_def[symmetric])
  have c: "8 \<le> length c" "length c \<le> use_mtu_size (from_mtu p)" using assms(3) by (simp_all add: fits_def)
  have n: "use_mtu_size (from_mtu p) \<le> 65515" using use_mtu_size_bounds[of "from_mtu p"] ok by simp
  have room: "spare (2 * length packet + 200) (to_tap_world p) (to_ip_queue p)"
    by (rule spare_mono[of "2 * use_mtu_size (from_mtu p) + 240"]) (use ok c l in simp_all)
  obtain v m where s: "tap_run_in (send_message (to_tap p)) (to_mac p) (to_frames p) frame (to_tap_world p) = Inr v"
    "msg_data m = wrap_up frame (from_mac p) (to_mac p) packet @ []" "adds (to_ip_queue p) m (to_tap_world p) v"
    using tap_run_in_spare[of "to_tap_world p" "to_tap p" "to_mac p" "from_mac p" packet "to_frames p" "0x800" "to_ip_queue p"] ok l c n room
    unfolding frame_def frame_of_def packet_def[symmetric] by auto
  have pe: "packet = ip4_packet proto (from_ident p) ofs mf src (to_addr p) c" by (simp add: packet_def packet_of_def)
  note run = ip4_run_in_packet[where mappings = "to_packets p", OF assms(2) _ _ _ _ _ _ _ s(2)[unfolded pe] _ assms(4),
      of "to_queue p" "send_message (to_ip p)" "to_icmp p" "to_junk p" "to_now p" frags w]
  have "ip4_run_in (send_message (to_ip p)) (to_addr p) (to_packets p) (to_icmp p) (to_junk p) (to_now p) m frags w =
    (case ip4_fragment (to_junk p) (to_now p) sid ofs c mf frags of
       (None, packets') \<Rightarrow> Inr (1, packets', w)
     | (Some whole, packets') \<Rightarrow>
         res_bind (post (send_message (to_ip p)) (to_queue p) ((wrap_message_up packet src (to_addr p) whole None)\<lparr> msg_id := sid \<rparr>) w)
           (\<lambda>(r, w). Inr (1, packets', w)))"
    using run ok f assms(3) n unfolding pe by (simp add: fits_def small_def)
  then show ?thesis using s(1) news_adds[OF s(3)] unfolding frame_def[symmetric] packet_def[symmetric]
    by (auto simp: res_bind_def split: option.splits prod.splits sum.splits)
qed

lemma take_in_whole:
  assumes "path_ok p l4 proto" "length src = 4" "calc_session_id src (to_addr p) (ucast proto) (from_ident p) = Inr sid"
    and "\<forall>fr \<in> set frs. fits (use_mtu_size (from_mtu p)) fr" "frs \<noteq> []" "length whole \<le> 65535" "net_ok w"
    and "spare (use_mtu_size (from_mtu p) + length whole + 220) w (to_queue p)"
    and "feed (to_junk p) (to_now p) sid frs frags = (replicate (length frs - 1) None @ [Some whole], frags')"
  shows "\<exists>w' m' full. take_in p (map (frame_of p proto src) frs) frags w = Inr (frags', w') \<and> net_ok w' \<and> adds (to_queue p) m' w w'
    \<and> 28 \<le> length full \<and> length full \<le> use_mtu_size (from_mtu p) + 20 \<and> msg_data m' = wrap_up full src (to_addr p) whole"
  using assms(4,5,9)
proof (induction frs arbitrary: frags)
  case (Cons fr frs)
  obtain ofs c mf where fr: "fr = (ofs, c, mf)" by (cases fr)
  then have ft: "fits (use_mtu_size (from_mtu p)) (ofs, c, mf)" using Cons.prems by simp
  note step = take_in_step[OF assms(1,2) ft assms(3), of "map (frame_of p proto src) frs" frags w]
  obtain r frags1 where 1: "ip4_fragment (to_junk p) (to_now p) sid ofs c mf frags = (r, frags1)" by (cases "ip4_fragment (to_junk p) (to_now p) sid ofs c mf frags")
  obtain rs frags2 where 2: "feed (to_junk p) (to_now p) sid frs frags1 = (rs, frags2)" by (cases "feed (to_junk p) (to_now p) sid frs frags1")
  show ?case
  proof (cases "frs = []")
    case True
    then have "r = Some whole" "frags1 = frags'" using 1 Cons.prems(3) fr by auto
    moreover note ok = assms(1)[unfolded path_parts]
    have l: "28 \<le> length (packet_of p proto src fr)" "length (packet_of p proto src fr) \<le> use_mtu_size (from_mtu p) + 20"
      using length_packet_of[of src p proto fr] ok assms(2) ft by (simp_all add: fits_def fr)
    have l2: "length (packet_of p proto src fr) < 70000" using l(2) use_mtu_size_bounds[of "from_mtu p"] ok by simp
    moreover have "spare (length (packet_of p proto src fr) + length whole + 200) w (to_queue p)"
      by (rule spare_mono[OF assms(8)]) (use l(2) in simp)
    with ok obtain r' w' m' where "post (send_message (to_ip p)) (to_queue p)
        ((wrap_message_up (packet_of p proto src fr) src (to_addr p) whole None)\<lparr> msg_id := sid \<rparr>) w = Inr (r', w')"
      "net_ok w'" "msg_data m' = wrap_up (packet_of p proto src fr) src (to_addr p) whole" "adds (to_queue p) m' w w'"
      using ip4_post_up[OF assms(7) _ assms(2) _ assms(6) l2] by meson
    ultimately show ?thesis using step 1 True fr l by (intro exI[of _ w'] exI[of _ m'] exI[of _ "packet_of p proto src fr"]) simp
  next
    case False
    then obtain k where "length frs = Suc k" by (cases frs) auto
    then have "r = None" "feed (to_junk p) (to_now p) sid frs frags1 = (replicate (length frs - 1) None @ [Some whole], frags')"
      using 1 2 Cons.prems(3) fr by auto
    then show ?thesis using Cons.IH[of frags1] step 1 Cons.prems(1) False fr by simp
  qed
qed simp

lemma unmap_perm: "mset ys = mset (map f xs) \<Longrightarrow> \<exists>xs'. mset xs' = mset xs \<and> ys = map f xs'"
proof (induction ys arbitrary: xs)
  case (Cons y ys)
  then have "y \<in> set (map f xs)" by (metis list.set_intros(1) set_mset_mset)
  then obtain x where x: "x \<in> set xs" "y = f x" by auto
  then have "mset (map f xs) = add_mset y (mset (map f (remove1 x xs)))" by (simp add: mset_remove1 image_mset_add_mset[symmetric] del: image_mset_add_mset)
  then have "mset ys = mset (map f (remove1 x xs))" using Cons.prems by simp
  then obtain xs' where "mset xs' = mset (remove1 x xs)" "ys = map f xs'" using Cons.IH by blast
  then show ?case using x by (intro exI[of _ "x # xs'"]) (simp add: mset_remove1)
qed simp

lemma chunks_lengths: "c \<in> set (chunks n pl) \<Longrightarrow> length c = n \<or> length c = length pl mod n"
proof (induction n pl rule: chunks.induct)
  case (1 n pl)
  show ?case
  proof (cases "pl = [] \<or> n = 0")
    case False
    then have "c = take n pl \<or> c \<in> set (chunks n (drop n pl))" using 1(2) by (subst (asm) chunks.simps) simp
    then show ?thesis
    proof
      assume "c = take n pl"
      then show ?thesis by (cases "n \<le> length pl") simp_all
    next
      assume c: "c \<in> set (chunks n (drop n pl))"
      then have "n \<le> length pl" by (cases "n \<le> length pl") (simp_all add: chunks.simps[of n "[]"])
      then show ?thesis using 1(1)[OF False c] le_mod_geq[of n "length pl"] by simp
    qed
  qed (use 1(2) in \<open>simp add: chunks.simps\<close>)
qed

lemma pieces_marked: "2 \<le> length cs \<Longrightarrow> [] \<notin> set cs \<Longrightarrow> (ofs, c, mf) \<in> set (pieces 0 cs) \<Longrightarrow> 0 < ofs \<or> mf"
  using pieces_bounds[of ofs c mf "0 + length (hd cs)" "tl cs"] by (cases cs; cases "hd cs") auto

lemma length_chunks_two: "0 < n \<Longrightarrow> n < length pl \<Longrightarrow> 2 \<le> length (chunks n pl)"
  by (cases "chunks n (drop n pl)") (auto simp: chunks_eq_Nil chunks.simps[of n pl])

lemma length_chunks_eq: "length xs = length ys \<Longrightarrow> length (chunks n xs) = length (chunks n ys)"
proof (induction n xs arbitrary: ys rule: chunks.induct)
  case (1 n xs)
  then show ?case by (cases "xs = [] \<or> n = 0") (auto simp: chunks.simps[of n xs] chunks.simps[of n ys])
qed

lemma pieces_fit:
  assumes "8 dvd n" "0 < n" "n < length pl" "length pl \<le> 65515" "fr \<in> set (pieces 0 (chunks n pl))"
    and "length pl mod n = 0 \<or> 8 \<le> length pl mod n \<or> 8 \<le> length (fst (snd fr))"
  shows "fits n fr"
proof -
  obtain ofs c mf where fr: "fr = (ofs, c, mf)" by (cases fr)
  note p = assms(5)[unfolded fr]
  have b: "ofs + length c \<le> length pl" "c \<in> set (chunks n pl)" using pieces_bounds[OF p] concat_chunks[OF assms(2)] by simp_all
  then have "c \<noteq> []" using chunks_nonempty[of n pl] by metis
  moreover have "8 \<le> n" using assms(1,2) by (auto elim: dvdE)
  moreover have "length pl mod n \<le> n" using assms(2) by (simp add: less_imp_le)
  ultimately have "8 \<le> length c" "length c \<le> n" using chunks_lengths[OF b(2)] assms(6) by (auto simp: fr)
  moreover have "8 dvd ofs" using pieces_chunks_aligned[OF _ p] assms(1) dvd_trans by auto
  moreover have "0 < ofs \<or> mf" using pieces_marked[OF length_chunks_two[OF assms(2)] chunks_nonempty p] assms(3) by simp
  ultimately show ?thesis using b assms(4) by (simp add: fr fits_def)
qed

text \<open>The pieces of a packet in any order, at an IPv4 server that has none of them: with all of them the packet is complete,
  at the last one; with all but one it is not.\<close>

lemma feed_append:
  "feed junk now sid (xs @ ys) packets = (case feed junk now sid xs packets of (rs, packets) \<Rightarrow>
     case feed junk now sid ys packets of (rs', packets) \<Rightarrow> (rs @ rs', packets))"
  by (induction junk now sid xs packets rule: feed.induct) (simp_all split: prod.split)

lemma feed_pieces:
  assumes "0 < n" "n < length pl" "length pl \<le> 65515" "map_ok packets" "find_key sid packets = None" "mset frs = mset (pieces 0 (chunks n pl))"
  shows "frs \<noteq> []" "\<exists>packets'. feed junk now sid frs packets = (replicate (length frs - 1) None @ [Some pl], packets')
    \<and> (\<forall>k. find_key k packets' = find_key k packets)"
proof -
  define cs where "cs = chunks n pl"
  have c: "concat cs = pl" "[] \<notin> set cs" using concat_chunks assms(1) chunks_nonempty by (auto simp: cs_def)
  then have ne: "\<forall>c \<in> set cs. c \<noteq> []" by auto
  have l: "length (concat cs) \<le> 65535" "cs \<noteq> []" using assms(2,3) c(1) by auto
  have s: "set frs = set (pieces 0 cs)" "distinct frs" "length frs = length cs"
    using assms(6)[folded cs_def] pieces_distinct[OF ne, of 0] by (metis set_mset_mset, metis distinct_map mset_eq_imp_distinct_iff, metis length_pieces size_mset)
  then show "frs \<noteq> []" using l(2) by auto
  with feed_rest[OF ne l, of "[]" frs packets sid junk now] s has_frags_new[of cs] assms(4,5)
  show "\<exists>packets'. feed junk now sid frs packets = (replicate (length frs - 1) None @ [Some pl], packets')
    \<and> (\<forall>k. find_key k packets' = find_key k packets)" by (force simp: c(1))
qed

lemma take_in_any_order:
  assumes "path_ok p l4 proto" "length src = 4" "n = use_mtu_size (from_mtu p)" "n < length pl" "length pl \<le> 65515"
    and "length pl mod n = 0 \<or> 8 \<le> length pl mod n" "map_ok (to_frags p)"
    and "\<And>sid. calc_session_id src (to_addr p) (ucast proto) (from_ident p) = Inr sid \<Longrightarrow> find_key sid (to_frags p) = None"
    and "mset frames = mset (map (frame_of p proto src) (pieces 0 (chunks n pl)))"
    and "spare (n + length pl + 220) (to_world p) (to_queue p)"
  shows "\<exists>frags w' m' full. take_in p frames (to_frags p) (to_world p) = Inr (frags, w') \<and> adds (to_queue p) m' (to_world p) w'
    \<and> (\<lambda>k. find_key k frags) = (\<lambda>k. find_key k (to_frags p))
    \<and> 28 \<le> length full \<and> length full \<le> n + 20 \<and> msg_data m' = wrap_up full src (to_addr p) pl"
proof -
  note ok = assms(1)[unfolded path_parts]
  note u = use_mtu_size_bounds[of "from_mtu p", folded assms(3)]
  obtain sid where sid: "calc_session_id src (to_addr p) (ucast proto) (from_ident p) = Inr sid" using calc_session_id_total[OF assms(2)] ok by blast
  obtain frs where frs: "mset frs = mset (pieces 0 (chunks n pl))" "frames = map (frame_of p proto src) frs" using unmap_perm[OF assms(9)] by blast
  have n: "0 < n" using u(2) ok by simp
  from feed_pieces(1)[OF n assms(4,5,7) assms(8)[OF sid] frs(1)] feed_pieces(2)[OF n assms(4,5,7) assms(8)[OF sid] frs(1), of "to_junk p" "to_now p"]
  obtain frags where
    f: "frs \<noteq> []" "feed (to_junk p) (to_now p) sid frs (to_frags p) = (replicate (length frs - 1) None @ [Some pl], frags)"
      "\<And>k. find_key k frags = find_key k (to_frags p)" by auto
  have "set frs = set (pieces 0 (chunks n pl))" using frs(1) by (metis set_mset_mset)
  then have "\<forall>fr \<in> set frs. fits n fr" using pieces_fit[OF u(1,2) assms(4,5)] ok assms(6) by auto
  from take_in_whole[OF assms(1,2) sid this[unfolded assms(3)] f(1) _ _ _ f(2), where w = "to_world p"] ok assms(3,5,10)
  show ?thesis using f(3) unfolding frs(2) assms(3) by (auto simp: fun_eq_iff)
qed

text \<open>A last piece below eight bytes never arrives: the link server drops the frame, so that the packet stays
  incomplete.\<close>

lemma short_fragment_dropped:
  assumes "length src = 4" "length (to_addr p) = 4" "length (from_mac p) = 6" "length (to_mac p) = 6" "length c < 8"
  shows "tap_run_in (send_message (to_tap p)) (to_mac p) (to_frames p) (frame_of p proto src (ofs, c, mf)) w = Inr w"
  using assms eth_frame_fields(1)[of "to_mac p" "from_mac p" "0x800" "packet_of p proto src (ofs, c, mf)"]
  by (simp add: tap_run_in_def frame_of_def length_packet_of)

lemma take_in_incomplete:
  assumes "path_ok p l4 proto" "length src = 4" "calc_session_id src (to_addr p) (ucast proto) (from_ident p) = Inr sid"
    and "\<forall>fr \<in> set frs. 8 \<le> length (fst (snd fr)) \<longrightarrow> fits (use_mtu_size (from_mtu p)) fr"
    and "feed (to_junk p) (to_now p) sid (filter (\<lambda>fr. 8 \<le> length (fst (snd fr))) frs) frags = (rs, frags')" "\<forall>r \<in> set rs. r = None"
  shows "take_in p (map (frame_of p proto src) frs) frags w = Inr (frags', w)"
  using assms(4-6)
proof (induction frs arbitrary: frags rs)
  case (Cons fr frs)
  obtain ofs c mf where fr: "fr = (ofs, c, mf)" by (cases fr)
  show ?case
  proof (cases "8 \<le> length c")
    case True
    obtain r frags1 where 1: "ip4_fragment (to_junk p) (to_now p) sid ofs c mf frags = (r, frags1)" by (cases "ip4_fragment (to_junk p) (to_now p) sid ofs c mf frags")
    obtain rs' frags2 where 2: "feed (to_junk p) (to_now p) sid (filter (\<lambda>fr. 8 \<le> length (fst (snd fr))) frs) frags1 = (rs', frags2)" by fastforce
    have e: "r = None" "frags2 = frags'" "\<forall>r \<in> set rs'. r = None" using 1 2 Cons.prems(2,3) True fr by auto
    then show ?thesis using take_in_step[OF assms(1,2) _ assms(3), of ofs c mf] Cons.IH[OF _ 2[unfolded e(2)]] 1 Cons.prems(1) True fr by simp
  next
    case False
    then have "tap_run_in (send_message (to_tap p)) (to_mac p) (to_frames p) (frame_of p proto src (ofs, c, mf)) (to_tap_world p) = Inr (to_tap_world p)"
      using short_fragment_dropped assms(1,2) by (simp add: path_parts)
    then show ?thesis using Cons.IH Cons.prems False fr by (simp add: news_same)
  qed
qed simp

lemma pieces_short:
  "0 < n \<Longrightarrow> 8 \<le> n \<Longrightarrow> 0 < length pl mod n \<Longrightarrow> length pl mod n < 8
    \<Longrightarrow> \<exists>fr. filter (\<lambda>fr. \<not> 8 \<le> length (fst (snd fr))) (pieces ofs (chunks n pl)) = [fr]"
proof (induction n pl arbitrary: ofs rule: chunks.induct)
  case (1 n pl)
  then have ne: "pl \<noteq> []" by auto
  have c: "chunks n pl = take n pl # chunks n (drop n pl)" using ne 1(2) by (subst chunks.simps) simp
  show ?case
  proof (cases "n \<le> length pl")
    case True
    then have "length (drop n pl) mod n = length pl mod n" by (simp add: le_mod_geq)
    then have "\<exists>fr. filter (\<lambda>fr. \<not> 8 \<le> length (fst (snd fr))) (pieces (ofs + n) (chunks n (drop n pl))) = [fr]"
      using 1(1)[of "ofs + n"] ne 1(2-5) by simp
    then show ?thesis using True 1(3) by (simp add: c)
  next
    case False
    then have "drop n pl = []" "take n pl = pl" "length pl mod n = length pl" by simp_all
    then show ?thesis using 1(4,5) ne by (auto simp: c chunks.simps[of n "[]"] intro: exI[of _ False])
  qed
qed

lemma take_in_short:
  assumes "path_ok p l4 proto" "length src = 4" "n = use_mtu_size (from_mtu p)" "n < length pl" "length pl \<le> 65515"
    and "0 < length pl mod n" "length pl mod n < 8" "map_ok (to_frags p)"
    and "\<And>sid. calc_session_id src (to_addr p) (ucast proto) (from_ident p) = Inr sid \<Longrightarrow> find_key sid (to_frags p) = None"
    and "mset frames = mset (map (frame_of p proto src) (pieces 0 (chunks n pl)))"
  shows "\<exists>frags. take_in p frames (to_frags p) (to_world p) = Inr (frags, to_world p)"
proof -
  note ok = assms(1)[unfolded path_parts]
  note u = use_mtu_size_bounds[of "from_mtu p", folded assms(3)]
  let ?long = "\<lambda>fr :: nat \<times> bytes \<times> bool. 8 \<le> length (fst (snd fr))"
  obtain sid where sid: "calc_session_id src (to_addr p) (ucast proto) (from_ident p) = Inr sid" using calc_session_id_total[OF assms(2)] ok by blast
  obtain frs where frs: "mset frs = mset (pieces 0 (chunks n pl))" "frames = map (frame_of p proto src) frs" using unmap_perm[OF assms(10)] by blast
  have n8: "0 < n" "8 \<le> n" using u ok by (auto elim: dvdE)
  from pieces_short[OF n8 assms(6,7)] obtain fr where "filter (\<lambda>fr. \<not> ?long fr) (pieces 0 (chunks n pl)) = [fr]" by blast
  then have "mset (filter (\<lambda>fr. \<not> ?long fr) frs) = {#fr#}" unfolding mset_filter frs(1) by (simp flip: mset_filter)
  then have "mset (filter ?long frs @ [fr]) = mset (filter ?long frs) + mset (filter (\<lambda>fr. \<not> ?long fr) frs)" by simp
  also have "\<dots> = mset frs" unfolding mset_filter by (rule multiset_partition[symmetric])
  finally have "mset (filter ?long frs @ [fr]) = mset (pieces 0 (chunks n pl))" unfolding frs(1) .
  from feed_pieces(2)[OF n8(1) assms(4,5,8) assms(9)[OF sid] this, of "to_junk p" "to_now p"] obtain frags'' where
    f: "feed (to_junk p) (to_now p) sid (filter ?long frs @ [fr]) (to_frags p) = (replicate (length (filter ?long frs)) None @ [Some pl], frags'')" by auto
  obtain rs frags' where g: "feed (to_junk p) (to_now p) sid (filter ?long frs) (to_frags p) = (rs, frags')" by fastforce
  obtain r where "rs @ [r] = replicate (length (filter ?long frs)) None @ [Some pl]"
    using f g by (cases fr) (auto simp: feed_append split: prod.splits)
  then have "\<forall>r \<in> set rs. r = None" by simp
  moreover have "set frs = set (pieces 0 (chunks n pl))" using frs(1) by (metis set_mset_mset)
  then have "\<forall>fr \<in> set frs. ?long fr \<longrightarrow> fits n fr" using pieces_fit[OF u(1,2) assms(4,5)] ok by auto
  ultimately show ?thesis using take_in_incomplete[OF assms(1,2) sid _ g] unfolding frs(2) assms(3) by blast
qed

section \<open>A datagram larger than the MTU\<close>

text \<open>C13: Two hosts on one Ethernet, of which the first knows the hardware address of the next hop, with room in the queues for the datagram and its
  pieces.  A datagram that a service gives to its UDP server and that does not fit the MTU ends that server when its number of bytes is odd; otherwise it
  leaves the host, through the IPv4, the ARP and the link server, as several frames.  Received by the other host in whatever order, they reach its UDP server as one packet and the service of the destination
  port as one message with the addresses, the ports and the data of the sender, and twelve bytes behind them: four bytes the
  sender's UDP server never wrote and the first eight bytes of the last packet to arrive; no record of the reassembly stays behind.  But when the
  last piece has less than eight bytes of payload, its frame is dropped and nothing reaches the UDP server.\<close>

theorem udp_fragments_across_hosts:
  assumes there: "path_ok p udp 17" "map_ok (to_frags p)" "src = from_addr p" "n = use_mtu_size (from_mtu p)"
      "\<And>sid. calc_session_id src (to_addr p) 17 (from_ident p) = Inr sid \<Longrightarrow> find_key sid (to_frags p) = None"
    and worlds: "net_ok w1" "net_ok w2" "length udp' < max_id_length"
    and data: "4 \<le> length pl" "msg_data m = wrap_down src (to_addr p) pl @ pad" "n < 8 + length pl" "8 + length pl \<le> 65515"
    and room: "spare (length pl + 200) w1 out" "spare (n + length pl + 228) w2 service" "spare (n + length pl + 228) (to_world p) (to_queue p)"
      "spare (8 + length pl + 200 * length (chunks n (pl @ replicate 8 0))) (from_world p) (from_link p)"
    and port: "ports (get_uint16 (slice_at 2 2 pl)) = Some service"
  shows "if odd (length pl) then udp_run_out junk (send_message udp) out m w1 = Inl Assert_failed
    else \<exists>w1' m1 frames. udp_run_out junk (send_message udp) out m w1 = Inr (1, w1') \<and> adds out m1 w1 w1'
    \<and> send_out p m1 = Inr frames \<and> 1 < length frames
    \<and> (\<forall>arriving. mset arriving = mset frames \<longrightarrow>
        (if 0 < (8 + length pl) mod n \<and> (8 + length pl) mod n < 8
         then \<exists>frags. take_in p arriving (to_frags p) (to_world p) = Inr (frags, to_world p)
         else \<exists>frags w' m2 w2' m3 full. take_in p arriving (to_frags p) (to_world p) = Inr (frags, w') \<and> adds (to_queue p) m2 (to_world p) w'
           \<and> (\<lambda>k. find_key k frags) = (\<lambda>k. find_key k (to_frags p))
           \<and> udp_run_in (send_message udp') ports icmp m2 w2 = Inr (1, w2') \<and> adds service m3 w2 w2'
           \<and> msg_data m3 = wrap_up full src (to_addr p) (pl @ map junk [length pl + 4 ..< length pl + 8] @ take 8 full)))"
proof (cases "odd (length pl)")
  case True
  have "length src = 4" "length (to_addr p) = 4" using there(1,3) by (simp_all add: path_parts)
  then show ?thesis using udp_run_out_odd[OF _ _ data(1) _ True data(2)] True data(4) by simp
next
  case even: False
  note ok = there(1)[unfolded path_parts]
  have src: "length src = 4" using ok there(3) by simp
  obtain c r w1' where s1: "udp_run_out junk (send_message udp) out m w1 = Inr (1, w1')"
    "tcp_udp_checksum src (to_addr p) (udp_packet_of junk pl c) (8 + length pl) 17 = 0"
    "posted inbox capacity udp w1 out (wrap_message_down src (to_addr p) (udp_packet_of junk pl c) None) r w1'"
    using transport.udp_run_out_sends[OF shm_transport worlds(1) src _ data(1) _ _ data(2), of udp junk out] ok data(4) even by auto
  define dgram where "dgram = udp_packet_of junk pl c"
  have d: "length dgram = 8 + length pl" using data(1) by (simp add: dgram_def length_udp_packet_of)
  have g: "udp_datagram src (to_addr p) dgram" "slice_at 2 2 dgram = slice_at 2 2 pl"
    using udp_packet_of_datagram[OF src _ data(1) _ s1(2)] data(4) ok by (simp_all add: dgram_def)
  have "padded_length (wrap_message_down src (to_addr p) dgram None) \<le> length pl + 200"
    using padded_length_wrapped(1)[of src "to_addr p" dgram None] src ok d data(4) by simp
  with posted_spare[OF s1(3)[folded dgram_def] room(1)] obtain m1 where
    m1: "carries udp (wrap_message_down src (to_addr p) dgram None) m1" "adds out m1 w1 w1'" by blast
  have u: "0 < n" using use_mtu_size_bounds(2) ok by (simp add: there(4))
  have l: "n < length dgram" "length dgram \<le> 65515" using data(3,4) d by simp_all
  have "length (chunks n dgram) = length (chunks n (pl @ replicate 8 0))" using d by (intro length_chunks_eq) simp
  then have s2: "send_out p m1 = Inr (map (frame_of p 17 src) (pieces 0 (chunks n dgram)))"
    using send_out_frames[OF there(1,3) l(2), of m1] room(4) d carries_fields[OF m1(1)] ok by (simp add: there(4))
  moreover have "1 < length (map (frame_of p 17 src) (pieces 0 (chunks n dgram)))" using length_chunks_two[OF u l(1)] by simp
  moreover have "\<exists>frags. take_in p arriving (to_frags p) (to_world p) = Inr (frags, to_world p)"
    if "0 < (8 + length pl) mod n \<and> (8 + length pl) mod n < 8" and arr: "mset arriving = mset (map (frame_of p 17 src) (pieces 0 (chunks n dgram)))" for arriving
    using take_in_short[OF there(1) src there(4) l _ _ there(2) _ arr] that(1) there(5) by (simp add: d)
  moreover have "\<exists>frags w' m2 w2' m3 full. take_in p arriving (to_frags p) (to_world p) = Inr (frags, w') \<and> adds (to_queue p) m2 (to_world p) w'
      \<and> (\<lambda>k. find_key k frags) = (\<lambda>k. find_key k (to_frags p))
      \<and> udp_run_in (send_message udp') ports icmp m2 w2 = Inr (1, w2') \<and> adds service m3 w2 w2'
      \<and> msg_data m3 = wrap_up full src (to_addr p) (pl @ map junk [length pl + 4 ..< length pl + 8] @ take 8 full)"
    if cut: "\<not> (0 < (8 + length pl) mod n \<and> (8 + length pl) mod n < 8)" and arr: "mset arriving = mset (map (frame_of p 17 src) (pieces 0 (chunks n dgram)))" for arriving
  proof -
    have r: "spare (n + length dgram + 220) (to_world p) (to_queue p)" using room(3) d by (simp add: ac_simps)
    have "length dgram mod n = 0 \<or> 8 \<le> length dgram mod n" using cut d by auto
    from take_in_any_order[OF there(1) src there(4) l this there(2) _ arr r] there(5)
    obtain frags w' m2 full where t: "take_in p arriving (to_frags p) (to_world p) = Inr (frags, w')" "adds (to_queue p) m2 (to_world p) w'"
      "(\<lambda>k. find_key k frags) = (\<lambda>k. find_key k (to_frags p))" "28 \<le> length full" "length full \<le> n + 20"
      "msg_data m2 = wrap_up full src (to_addr p) dgram @ []" by auto
    have "length full < 70000" using t(5) data(3,4) by simp
    moreover have "spare (length full + length dgram + 200) w2 service" by (rule spare_mono[OF room(2)]) (use t(5) d in simp)
    ultimately obtain w2' m3 where "udp_run_in (send_message udp') ports icmp m2 w2 = Inr (1, w2')"
      "msg_data m3 = wrap_up full src (to_addr p) (take 4 dgram @ drop 8 dgram @ take 8 full)" "adds service m3 w2 w2'"
      using udp_run_in_spare[where mappings = ports, OF worlds(2,3) g(1) _ _ t(6), of service icmp] t(4) port g(2) by auto
    moreover have "take 4 dgram @ drop 8 dgram = pl @ map junk [length pl + 4 ..< length pl + 8]"
      using data(1) by (simp add: dgram_def udp_packet_of_def put_uint16_def)
    ultimately show ?thesis using t(1-3) by (metis append.assoc)
  qed
  ultimately show ?thesis using even s1(1) m1(2) unfolding if_not_P[OF even] by (intro exI[of _ w1'] exI[of _ m1] exI[of _ "map (frame_of p 17 src) (pieces 0 (chunks n dgram))"]) auto
qed

definition sample_road :: path where
  "sample_road = \<lparr> from_addr = [10, 0, 0, 1], from_bits = 24, from_gw = [10, 0, 0, 254], from_replies = ''ip4-replies'', from_resolver = ''arp-resolver'',
     from_now = 0, from_pending = \<lparr> pending_messages = [], pm_heap = Map.empty, pm_next = 0 \<rparr>, from_upper_world = usual_net,
     from_arp = ''arp'', from_arp_out = ''tap'', from_arp_state = \<lparr> requests = [], arp_cache = [([10, 0, 0, 2], replicate 6 4)] \<rparr>, from_arp_nr = 0,
     from_arp_world = usual_net, from_junk = (\<lambda>_. 0),
     from_ip = ''ip4'', from_link = ''tap'', from_protos = [''udp'' \<mapsto> 17], from_mtu = 40, from_ident = 7,
     from_types = [''ip4'' \<mapsto> 0x800], from_mac = replicate 6 2, from_world = usual_net, to_mac = replicate 6 4, to_tap = ''tap'',
     to_frames = [0x800 \<mapsto> ''ip4''], to_tap_world = usual_net, to_ip = ''ip4'', to_ip_queue = ''ip4'', to_addr = [10, 0, 0, 2],
     to_packets = [17 \<mapsto> ''udp''], to_queue = ''udp'', to_icmp = ''icmp'', to_junk = (\<lambda>_. 0), to_now = 0, to_frags = [], to_world = usual_net \<rparr>"

lemma sample_road_ok: "path_ok sample_road ''udp'' 17" "use_mtu_size (from_mtu sample_road) = 16"
proof -
  show u: "use_mtu_size (from_mtu sample_road) = 16" by (subst use_mtu_size_eq) (simp_all add: sample_road_def)
  have "route_via [10, 0, 0, 1] 24 [10, 0, 0, 254] [10, 0, 0, 2] = Inr [10, 0, 0, 2]" by code_simp
  then show "path_ok sample_road ''udp'' 17"
    unfolding path_parts u by (simp add: sample_road_def next_hop_known_def free_numbers_def usual_net_ok spare_usual_net max_id_length_def)
qed

definition sample_dgram :: bytes where "sample_dgram = [0x12, 0x67, 0, 123] @ replicate 30 9"

theorem udp_fragments_across_hosts_witness:
  "\<exists>w1' m1 frames. udp_run_out (\<lambda>_. 0) (send_message ''udp'') ''ip4''
        (hello\<lparr> msg_data := wrap_down [10, 0, 0, 1] (to_addr sample_road) sample_dgram \<rparr>) usual_net = Inr (1, w1')
    \<and> adds ''ip4'' m1 usual_net w1' \<and> send_out sample_road m1 = Inr frames \<and> 1 < length frames
    \<and> (\<forall>arriving. mset arriving = mset frames \<longrightarrow>
        (\<exists>frags w' m2 w2' m3 full. take_in sample_road arriving (to_frags sample_road) (to_world sample_road) = Inr (frags, w')
         \<and> adds (to_queue sample_road) m2 (to_world sample_road) w'
         \<and> (\<lambda>k. find_key k frags) = (\<lambda>k. find_key k (to_frags sample_road))
         \<and> udp_run_in (send_message ''udp'') [123 \<mapsto> ''ntp''] ''icmp'' m2 usual_net = Inr (1, w2') \<and> adds ''ntp'' m3 usual_net w2'
         \<and> msg_data m3 = wrap_up full [10, 0, 0, 1] (to_addr sample_road) (sample_dgram @ [0, 0, 0, 0] @ take 8 full)))"
proof -
  have w: "from_addr sample_road = [10, 0, 0, 1]" "to_frags sample_road = []" "to_world sample_road = usual_net" "from_world sample_road = usual_net"
    by (simp_all add: sample_road_def)
  have l: "length sample_dgram = 34" by (simp add: sample_dgram_def)
  have "length (chunks 16 (sample_dgram @ replicate 8 0)) = 3" by (simp add: chunks.simps sample_dgram_def)
  then have room: "8 + length sample_dgram + 200 * length (chunks (use_mtu_size (from_mtu sample_road)) (sample_dgram @ replicate 8 0)) \<le> 16384"
    by (simp add: sample_road_ok(2) l)
  have "get_uint16 (slice_at 2 2 sample_dgram) = 123" by code_simp
  then have "[123 \<mapsto> ''ntp''] (get_uint16 (slice_at 2 2 sample_dgram)) = Some ''ntp''" by simp
  moreover have "map (\<lambda>_. 0 :: byte) [34 + 4 ..< 34 + 8] = [0, 0, 0, 0]" by (simp add: upt_rec)
  ultimately show ?thesis
    using udp_fragments_across_hosts[OF sample_road_ok(1) _ w(1)[symmetric] refl _ usual_net_ok usual_net_ok, of "''udp''" sample_dgram
        "hello\<lparr> msg_data := wrap_down [10, 0, 0, 1] (to_addr sample_road) sample_dgram \<rparr>" "[]" "''ip4''" "''ntp''" "[123 \<mapsto> ''ntp'']" "\<lambda>_. 0" "''icmp''"] room
    by (simp add: w spare_usual_net sample_road_ok(2) l max_id_length_def)
qed

end
