(* ===== verification/Tcp_Wire.thy ===== *)
theory Tcp_Wire
  imports Tcp
begin

text \<open>
  TCP on the wire: the segments \<open>send_tcp_packet\<close> emits, and that \<open>tcp_parse\<close> reads them.
\<close>

section \<open>Segments\<close>

definition tcp_pkt :: "addr \<Rightarrow> addr \<Rightarrow> u16 \<Rightarrow> u16 \<Rightarrow> u32 \<Rightarrow> u32 \<Rightarrow> byte \<Rightarrow> u16 \<Rightarrow> bytes \<Rightarrow> bytes" where
  "tcp_pkt f t sp dp sq ak flags win dat =
     (let c = tcp_udp_checksum f t (tcp_header sp dp sq ak flags win 0 @ dat) (20 + length dat) 6
      in tcp_header sp dp sq ak flags win c @ dat)"

lemma length_tcp_header [simp]: "length (tcp_header sp dp sq ak flags win c) = 20"
  by (simp add: tcp_header_def)

lemma length_tcp_pkt [simp]: "length (tcp_pkt f t sp dp sq ak flags win dat) = 20 + length dat"
  by (simp add: tcp_pkt_def Let_def)

lemma tcp_header_checksum:
  "put_at 16 (put_uint16 c) (tcp_header sp dp sq ak flags win 0 @ dat) = tcp_header sp dp sq ak flags win c @ dat"
  by (simp add: tcp_header_def put_at_def)

lemma tcp_pkt_verifies:
  assumes "length f = 4" "length t = 4" "20 + length dat \<le> 65535"
  shows "tcp_udp_checksum f t (tcp_pkt f t sp dp sq ak flags win dat) (20 + length dat) 6 = 0"
proof -
  let ?p = "tcp_header sp dp sq ak flags win 0 @ dat"
  have "slice_at 16 2 ?p = [0, 0]" by (simp add: tcp_header_def slice_at_def put_uint16_def)
  then show ?thesis using tcp_udp_checksum_fill[of f t 16 ?p 6] assms
    by (simp add: tcp_pkt_def Let_def tcp_header_checksum)
qed

lemma tcp_pkt_fields:
  "slice_at 0 2 (tcp_pkt f t sp dp sq ak flags win dat) = put_uint16 sp"
  "slice_at 2 2 (tcp_pkt f t sp dp sq ak flags win dat) = put_uint16 dp"
  "slice_at 4 4 (tcp_pkt f t sp dp sq ak flags win dat) = put_uint32 sq"
  "slice_at 8 4 (tcp_pkt f t sp dp sq ak flags win dat) = put_uint32 ak"
  "slice_at 14 2 (tcp_pkt f t sp dp sq ak flags win dat) = put_uint16 win"
  "tcp_pkt f t sp dp sq ak flags win dat ! 12 = 0x50"
  "tcp_pkt f t sp dp sq ak flags win dat ! 13 = flags"
  "drop 20 (tcp_pkt f t sp dp sq ak flags win dat) = dat"
  by (simp_all add: tcp_pkt_def Let_def tcp_header_def slice_at_def put_uint16_def put_uint32_def)

lemma tcp_calc_session_id_total:
  assumes "length f = 4" "length t = 4"
  shows "\<exists>sid. tcp_calc_session_id sp dp f t = Inr sid"
proof -
  obtain h where "siphash (le_enc 2 (unat sp) @ le_enc 2 (unat dp) @ f @ t) tcp_session_id_salt 8 = Inr h"
    using siphash_length[of tcp_session_id_salt] by (auto simp: tcp_session_id_salt_def)
  moreover have "f \<noteq> [] \<and> t \<noteq> []" using assms by auto
  ultimately show ?thesis by (simp add: tcp_calc_session_id_def)
qed

lemma tcp_parse_pkt:
  assumes "length f = 4" "length t = 4" "20 + length dat \<le> 65535" "small (length full)"
    and "tcp_calc_session_id sp dp f t = Inr sid"
  shows "tcp_parse (wrap_up full f t (tcp_pkt f t sp dp sq ak flags win dat) @ pad) = Inr (Some
    \<lparr> sg_from = f, sg_to = t, sg_sport = sp, sg_dport = dp, sg_sid = sid, sg_flags = flags, sg_window = win,
      sg_seq = sq, sg_ack = ak, sg_data = dat, sg_mss_index = 1 \<rparr>)"
proof -
  define q where "q = tcp_pkt f t sp dp sq ak flags win dat"
  note fields = tcp_pkt_fields[of f t sp dp sq ak flags win dat, folded q_def]
  have len: "length q = 20 + length dat" by (simp add: q_def)
  have ck: "tcp_udp_checksum f t q (20 + length dat) 6 = 0"
    using tcp_pkt_verifies[OF assms(1-3)] by (simp add: q_def)
  have hs: "unat (drop_bit 4 (q ! 12)) * 4 = 20" by (simp add: fields)
  have so: "syn_options r 20 20 1 = Inr 1" for r by (simp add: syn_options.simps)
  have "unwrap_message_up (wrap_up full f t q @ pad) = Inr
    \<lparr> up_full_len = length full, up_full = full @ pad, up_from_len = length f, up_from = f @ t @ q @ full @ pad,
      up_to_len = length t, up_to = t @ q @ full @ pad, up_pl_len = length q, up_pl = q @ full @ pad \<rparr>"
    using assms len by (intro unwrap_wrap_up) simp_all
  then show ?thesis
    unfolding tcp_parse_def q_def[symmetric]
    using assms len ck so fields hs take_slice_at[of 2 q] by (simp add: Let_def)
qed

section \<open>What is sent for a payload\<close>

text \<open>The segments of a payload: at most \<open>m\<close> bytes each, at least one segment.\<close>

function tcp_pieces :: "nat \<Rightarrow> u32 \<Rightarrow> bytes \<Rightarrow> (u32 \<times> bytes) list" where
  "tcp_pieces m sq p =
     (if length p \<le> m \<or> m = 0 then [(sq, p)]
      else (sq, take m p) # tcp_pieces m (sq + word_of_nat m) (drop m p))"
  by pat_completeness auto
termination
  by (relation "measure (\<lambda>(m, sq, p). length p)") auto

declare tcp_pieces.simps [simp del]

lemma tcp_pieces_concat: "concat (map snd (tcp_pieces m sq p)) = p"
proof (induction m sq p rule: tcp_pieces.induct)
  case (1 m sq p)
  then show ?case by (subst tcp_pieces.simps) auto
qed

lemma tcp_pieces_size: "0 < m \<Longrightarrow> (s, d) \<in> set (tcp_pieces m sq p) \<Longrightarrow> length d \<le> m"
proof (induction m sq p rule: tcp_pieces.induct)
  case (1 m sq p)
  then show ?case by (subst (asm) (2) tcp_pieces.simps) (auto split: if_splits)
qed

lemma tcp_pieces_seq:
  "i < length (tcp_pieces m sq p) \<Longrightarrow>
   fst (tcp_pieces m sq p ! i) = sq + word_of_nat (length (concat (map snd (take i (tcp_pieces m sq p)))))"
proof (induction m sq p arbitrary: i rule: tcp_pieces.induct)
  case (1 m sq p)
  show ?case
  proof (cases "length p \<le> m \<or> m = 0")
    case True
    then have "tcp_pieces m sq p = [(sq, p)]" by (subst tcp_pieces.simps) simp
    then show ?thesis using 1(2) by simp
  next
    case False
    then have e: "tcp_pieces m sq p = (sq, take m p) # tcp_pieces m (sq + word_of_nat m) (drop m p)"
      by (subst tcp_pieces.simps) simp
    show ?thesis
    proof (cases i)
      case (Suc j)
      then show ?thesis using 1 False e by (simp add: add.assoc)
    qed (simp add: e)
  qed
qed

context transport
begin

lemma send_tcp_step:
  assumes "ok w" "length f = 4" "length t = 4"
    and "use_n = min (length p) (unat m)"
  shows "\<exists>r w1. ok w1 \<and> posted ib cap lid w down (wrap_message_down f t (tcp_pkt f t sp dp sq ak flags win (take use_n p)) None) r w1
    \<and> send_tcp_loop (Suc fuel) shm down f t sp dp sq ak flags win p m n w =
      (if \<not> r then Inr (if 0 < n + use_n then int (n + use_n) else -1, w1)
       else if use_n < length p then
         send_tcp_loop fuel shm down f t sp dp (sq + word_of_nat use_n) ak flags win (drop use_n p) m (n + use_n) w1
       else Inr (int (n + use_n), w1))"
proof -
  let ?d = "take use_n p"
  let ?pkt = "tcp_pkt f t sp dp sq ak flags win ?d"
  have "unat m < 2 ^ LENGTH(16)" by (rule unsigned_less)
  then have m16: "unat m \<le> 65535" by simp
  have n: "length ?d = use_n" "use_n \<le> 65535" using assms(4) m16 by auto
  have "l4_checksum f t (tcp_header sp dp sq ak flags win 0 @ ?d) (20 + use_n) 6
      = Inr (tcp_udp_checksum f t (tcp_header sp dp sq ak flags win 0 @ ?d) (20 + use_n) 6)"
    using l4_checksum_Inr[of f t "20 + use_n"] assms n by simp
  moreover have "put_at 16 (put_uint16 (tcp_udp_checksum f t (tcp_header sp dp sq ak flags win 0 @ ?d) (20 + use_n) 6))
      (tcp_header sp dp sq ak flags win 0 @ ?d) = ?pkt"
    using n by (simp only: tcp_header_checksum tcp_pkt_def Let_def)
  moreover obtain r w1 where "post shm down (wrap_message_down f t ?pkt None) w = Inr (r, w1)" "ok w1"
      "posted ib cap lid w down (wrap_message_down f t ?pkt None) r w1"
    using post_down[of w f t ?pkt down None] assms n by (auto simp: small_def)
  ultimately show ?thesis
    by (intro exI[of _ r] exI[of _ w1]) (simp add: send_tcp_loop.simps Let_def assms(4)[symmetric] del: take_append)
qed

lemma send_tcp_loop_posts:
  assumes "ok w" "length f = 4" "length t = 4" "0 < unat m \<or> p = []" "length p \<le> fuel"
  shows "\<exists>n' w'. send_tcp_loop (Suc fuel) shm down f t sp dp sq ak flags win p m n w = Inr (n', w') \<and> ok w'
    \<and> posted_until ib cap lid w down (map (\<lambda>(s, d). wrap_message_down f t (tcp_pkt f t sp dp s ak flags win d) None)
        (tcp_pieces (unat m) sq p)) w'"
  using assms(1,4,5)
proof (induction fuel arbitrary: w p sq n)
  case 0
  obtain r w1 where "ok w1" "posted ib cap lid w down (wrap_message_down f t (tcp_pkt f t sp dp sq ak flags win []) None) r w1"
    "send_tcp_loop (Suc 0) shm down f t sp dp sq ak flags win [] m n w =
      Inr (if r \<or> 0 < n then int n else -1, w1)"
    using send_tcp_step[OF 0(1) assms(2,3), of 0 "[]" m down sp dp sq ak flags win 0 n] by auto
  moreover have "p = []" "tcp_pieces (unat m) sq [] = [(sq, [])]" using 0(3) by (simp, subst tcp_pieces.simps, simp)
  ultimately show ?case by (cases r) auto
next
  case (Suc fuel)
  let ?n = "min (length p) (unat m)"
  obtain r w1 where st: "ok w1"
    "posted ib cap lid w down (wrap_message_down f t (tcp_pkt f t sp dp sq ak flags win (take ?n p)) None) r w1"
    "send_tcp_loop (Suc (Suc fuel)) shm down f t sp dp sq ak flags win p m n w =
      (if \<not> r then Inr (if 0 < n + ?n then int (n + ?n) else -1, w1)
       else if ?n < length p then
         send_tcp_loop (Suc fuel) shm down f t sp dp (sq + word_of_nat ?n) ak flags win (drop ?n p) m (n + ?n) w1
       else Inr (int (n + ?n), w1))"
    using send_tcp_step[OF Suc.prems(1) assms(2,3) refl[of ?n], of down sp dp sq ak flags win "Suc fuel" n] by blast
  show ?case
  proof (cases "length p \<le> unat m")
    case True
    then have "tcp_pieces (unat m) sq p = [(sq, p)]" by (subst tcp_pieces.simps) simp
    moreover have "?n = length p" "take ?n p = p" using True by simp_all
    ultimately show ?thesis using st by (cases r) (simp_all, blast+)
  next
    case False
    then have m: "0 < unat m" "?n = unat m" "?n < length p" using Suc.prems(2) by auto
    have e: "tcp_pieces (unat m) sq p = (sq, take (unat m) p) # tcp_pieces (unat m) (sq + word_of_nat (unat m)) (drop (unat m) p)"
      using m False by (subst tcp_pieces.simps) simp
    have "length (drop ?n p) \<le> fuel" using m Suc.prems(3) by simp
    from Suc.IH[OF st(1) _ this, of "sq + word_of_nat ?n" "n + ?n"] m(1) st show ?thesis
      unfolding e m(2) using False by (cases r) (simp_all, blast+)
  qed
qed

end

section \<open>Properties of segments\<close>

lemma tcp_pieces_seqs:
  "map fst (tcp_pieces m sq p) =
     map (\<lambda>i. sq + word_of_nat (length (concat (map snd (take i (tcp_pieces m sq p)))))) [0 ..< length (tcp_pieces m sq p)]"
  by (rule nth_equalityI) (simp_all add: tcp_pieces_seq)

text \<open>C34: For an MSS above zero \<open>send_tcp_packet\<close> ends, and the IP server receives, in this order
  and up to the first one without room in its queue, segments with checksums that verify and
  of at most the MSS each, whose data is the payload and whose sequence numbers count its
  bytes.\<close>

theorem tcp_sends_segments:
  assumes "net_ok w" "length lid < max_id_length" "length f = 4" "length t = 4" "0 < m" "m \<le> 65515"
  shows "\<exists>n w' segs. send_tcp_packet (send_message lid) down f t sp dp sq ak flags win payload m w = Inr (n, w')
    \<and> net_ok w' \<and> concat (map snd segs) = payload \<and> list_all (\<lambda>(s, d). length d \<le> unat m) segs
    \<and> list_all (\<lambda>(s, d). tcp_udp_checksum f t (tcp_pkt f t sp dp s ak flags win d) (20 + length d) 6 = 0) segs
    \<and> map fst segs = map (\<lambda>i. sq + word_of_nat (length (concat (map snd (take i segs))))) [0 ..< length segs]
    \<and> posted_until inbox capacity lid w down
        (map (\<lambda>(s, d). wrap_message_down f t (tcp_pkt f t sp dp s ak flags win d) None) segs) w'"
proof -
  let ?segs = "tcp_pieces (unat m) sq payload"
  have m: "0 < unat m" "unat m \<le> 65515" using assms(5,6) by (simp_all add: unat_gt_0 word_le_nat_alt)
  obtain n w' where "send_tcp_packet (send_message lid) down f t sp dp sq ak flags win payload m w = Inr (n, w')" "net_ok w'"
    "posted_until inbox capacity lid w down
        (map (\<lambda>(s, d). wrap_message_down f t (tcp_pkt f t sp dp s ak flags win d) None) ?segs) w'"
    using transport.send_tcp_loop_posts[OF shm_transport[OF assms(2)] assms(1,3,4), of m payload "length payload" down sp dp sq ak flags win 0] m
    unfolding send_tcp_packet_def by blast
  moreover have "concat (map snd ?segs) = payload" by (rule tcp_pieces_concat)
  moreover have sz: "list_all (\<lambda>(s, d). length d \<le> unat m) ?segs"
    using tcp_pieces_size[OF m(1)] by (auto simp: list_all_iff)
  moreover have "list_all (\<lambda>(s, d). tcp_udp_checksum f t (tcp_pkt f t sp dp s ak flags win d) (20 + length d) 6 = 0) ?segs"
    using sz m(2) tcp_pkt_verifies[OF assms(3,4)] by (fastforce simp: list_all_iff)
  moreover note tcp_pieces_seqs[of "unat m" sq payload]
  ultimately show ?thesis by blast
qed

theorem tcp_sends_segments_witness:
  "(\<exists>n w' segs. send_tcp_packet (send_message ''tcp'') ''ip4'' [10, 0, 0, 2] [10, 0, 0, 1] 80 4711 1000 2000 0x18 32768 (replicate 1000 65) 536 idle_net = Inr (n, w')
    \<and> net_ok w' \<and> concat (map snd segs) = replicate 1000 65 \<and> list_all (\<lambda>(s, d). length d \<le> unat (536 :: u16)) segs
    \<and> list_all (\<lambda>(s, d). tcp_udp_checksum [10, 0, 0, 2] [10, 0, 0, 1]
         (tcp_pkt [10, 0, 0, 2] [10, 0, 0, 1] 80 4711 s 2000 0x18 32768 d) (20 + length d) 6 = 0) segs
    \<and> map fst segs = map (\<lambda>i. 1000 + word_of_nat (length (concat (map snd (take i segs))))) [0 ..< length segs]
    \<and> posted_until inbox capacity ''tcp'' idle_net ''ip4''
        (map (\<lambda>(s, d). wrap_message_down [10, 0, 0, 2] [10, 0, 0, 1]
           (tcp_pkt [10, 0, 0, 2] [10, 0, 0, 1] 80 4711 s 2000 0x18 32768 d) None) segs) w')"
  by (rule tcp_sends_segments) (simp_all add: idle_net_ok max_id_length_def)

text \<open>A segment as \<open>send_tcp_packet\<close> builds it, handed up by the IP server, is parsed into
  exactly the ports, numbers, flags, window and data it was built from.\<close>

theorem tcp_reads_what_was_sent:
  assumes "length f = 4" "length t = 4" "20 + length dat \<le> 65535" "small (length full)"
  shows "\<exists>sid. tcp_calc_session_id sp dp f t = Inr sid
    \<and> tcp_parse (wrap_up full f t (tcp_pkt f t sp dp sq ak flags win dat) @ pad) = Inr (Some
      \<lparr> sg_from = f, sg_to = t, sg_sport = sp, sg_dport = dp, sg_sid = sid, sg_flags = flags, sg_window = win,
        sg_seq = sq, sg_ack = ak, sg_data = dat, sg_mss_index = 1 \<rparr>)"
  using tcp_calc_session_id_total[OF assms(1,2), of sp dp] tcp_parse_pkt[OF assms] by blast

theorem tcp_reads_what_was_sent_witness:
  "\<exists>sid. tcp_calc_session_id 4711 80 [10, 0, 0, 1] [10, 0, 0, 2] = Inr sid
    \<and> tcp_parse (wrap_up [0x45] [10, 0, 0, 1] [10, 0, 0, 2]
        (tcp_pkt [10, 0, 0, 1] [10, 0, 0, 2] 4711 80 1 2 0x18 8192 [104, 105]) @ [0]) = Inr (Some
      \<lparr> sg_from = [10, 0, 0, 1], sg_to = [10, 0, 0, 2], sg_sport = 4711, sg_dport = 80, sg_sid = sid, sg_flags = 0x18,
        sg_window = 8192, sg_seq = 1, sg_ack = 2, sg_data = [104, 105], sg_mss_index = 1 \<rparr>)"
  by (rule tcp_reads_what_was_sent) (simp_all add: small_def)

text \<open>The count that is returned includes a piece that found no room: when the only segment
  of a payload is dropped, the result is the length of the payload, not -1.\<close>

theorem tcp_count_includes_lost:
  assumes "net_ok w" "length lid < max_id_length" "length f = 4" "length t = 4" "0 < length payload" "length payload \<le> unat m"
    and "capacity w down = None"
  shows "\<exists>w'. send_tcp_packet (send_message lid) down f t sp dp sq ak flags win payload m w = Inr (int (length payload), w')
    \<and> inbox w' = inbox w"
proof -
  have n: "length payload = min (length payload) (unat m)" using assms(6) by simp
  obtain r w' where "posted inbox capacity lid w down
      (wrap_message_down f t (tcp_pkt f t sp dp sq ak flags win (take (length payload) payload)) None) r w'"
    "send_tcp_packet (send_message lid) down f t sp dp sq ak flags win payload m w = Inr (int (length payload), w')"
    using transport.send_tcp_step[OF shm_transport[OF assms(2)] assms(1,3,4) n, of down sp dp sq ak flags win "length payload" 0] assms(5)
    unfolding send_tcp_packet_def by (auto split: if_splits)
  then show ?thesis using assms(7) by (auto simp: posted_def has_room_def)
qed

theorem tcp_count_includes_lost_witness:
  "\<exists>w'. send_tcp_packet (send_message ''tcp'') ''ip4'' [10, 0, 0, 2] [10, 0, 0, 1] 80 4711 1000 2000 0x18 32768 [104, 105] 536
      (idle_net\<lparr> segs := (\<lambda>_. None) \<rparr>) = Inr (int (length ([104, 105] :: bytes)), w')
    \<and> inbox w' = inbox (idle_net\<lparr> segs := (\<lambda>_. None) \<rparr>)"
  by (rule tcp_count_includes_lost) (simp_all add: net_ok_def capacity_def max_id_length_def)

end
