(* ===== verification/Tcp_Handshake.thy ===== *)
theory Tcp_Handshake
  imports Tcp_Session Tcp_Wire
begin

text \<open>
  Opening connections: SYN cookies keep no state for a half-open connection, an acknowledgement
  of the right cookie opens the session with the MSS the cookie encodes, and any other
  acknowledgement without a session is answered by a reset.
\<close>

section \<open>Messages of the TCP server\<close>

context transport
begin

lemma tcp_reply_posts:
  assumes "ok w" "length (sg_from sg) = 4" "length (sg_to sg) = 4"
  shows "\<exists>r w'. tcp_reply shm out sg sq ak flags win m w = Inr (if r then 0 else -1, w') \<and> ok w'
    \<and> posted ib cap lid w out (wrap_message_down (sg_to sg) (sg_from sg)
        (tcp_pkt (sg_to sg) (sg_from sg) (sg_dport sg) (sg_sport sg) sq ak flags win []) None) r w'"
  using send_tcp_step[OF assms(1,3,2), of 0 "[]" m out "sg_dport sg" "sg_sport sg" sq ak flags win 0 0]
  by (auto simp: tcp_reply_def send_tcp_packet_def split: if_splits)

lemma post_up_tcp:
  assumes "ok w" "small (length f)" "small (length t)" "small (length pl)"
  shows "\<exists>r w'. post shm dest (wrap_message_up_tcp sid f sp t dp flags pl) w = Inr (r, w') \<and> ok w'
    \<and> posted ib cap lid w dest (wrap_message_up_tcp sid f sp t dp flags pl) r w'"
  using assms by (intro post_law filled_in_wrap_up_tcp) (auto simp: small_def)

end

lemma small_consts: "small 0" "small 4"
  by (simp_all add: small_def)

section \<open>SYN cookies\<close>

lemma and_7_take_bit: "(x :: u32) AND 7 = take_bit 3 x"
  by (simp add: take_bit_eq_mask mask_eq_exp_minus_1)

lemma cookie_low_bits:
  fixes s x :: u32
  assumes "i \<le> 7"
  shows "((s AND 0xFFFFFF00) OR push_bit 3 x OR word_of_nat i) AND 7 = word_of_nat i"
proof -
  have "(s AND 0xFFFFFF00) AND 7 = 0" by (simp add: and.assoc)
  moreover have "take_bit 3 (push_bit 3 x) = 0" by (simp add: take_bit_push_bit)
  moreover have "i = 0 \<or> i = 1 \<or> i = 2 \<or> i = 3 \<or> i = 4 \<or> i = 5 \<or> i = 6 \<or> i = 7" using assms by linarith
  then have "(word_of_nat i :: u32) AND 7 = word_of_nat i" by (elim disjE) simp_all
  ultimately show ?thesis
    by (simp only: bit.conj_disj_distrib2 and_7_take_bit) simp
qed

lemma my_syn_cookie_total:
  assumes "length salt = 16" "i \<le> 7"
  shows "\<exists>c. my_syn_cookie sid salt i now = Inr c \<and> unat (c AND 7) = i"
proof -
  obtain h where h: "siphash (le_enc 8 (unat sid) @ [word_of_nat (now div 64 mod 32)]) salt 8 = Inr h"
    using siphash_length[of salt] assms(1) by auto
  let ?s = "(word_of_nat (le_dec (take 4 h)) XOR word_of_nat (le_dec (drop 4 h)) :: u32)"
  let ?c = "(?s AND 0xFFFFFF00) OR push_bit 3 (word_of_nat (now div 64 mod 32)) OR word_of_nat i"
  have "?c AND 7 = word_of_nat i" using assms by (intro cookie_low_bits)
  moreover have "unat (word_of_nat i :: u32) = i" using assms(2) by (intro unat_of_nat_u32) simp
  moreover have "my_syn_cookie sid salt i now = Inr ?c"
    using h assms(2) by (simp add: my_syn_cookie_def Let_def)
  ultimately show ?thesis by metis
qed

lemma mss_index_bound: "i \<le> 7 \<Longrightarrow> mss_index_of m i \<le> 7"
proof -
  have "foldl (\<lambda>idx i. if P i then i else idx) i xs \<le> 7" if "\<forall>x \<in> set xs. x \<le> 7" "i \<le> 7" for P xs and i :: nat
    using that by (induction xs arbitrary: i) auto
  then show "i \<le> 7 \<Longrightarrow> mss_index_of m i \<le> 7" by (simp add: mss_index_of_def)
qed

lemma syn_options_bound: "syn_options pl cur fin i = Inr j \<Longrightarrow> i \<le> 7 \<Longrightarrow> j \<le> 7"
proof (induction pl cur fin i rule: syn_options.induct)
  case (1 pl cur fin i)
  show ?case using 1(3,4) unfolding syn_options.simps[of pl cur fin i]
    by (auto simp: mss_index_bound res_bind_eq_Inr split: if_splits intro: 1(1,2))
qed


section \<open>Flags\<close>

lemma flag_simps [simp]:
  "has_flag FLAG_SYN FLAG_SYN" "\<not> has_flag FLAG_SYN FLAG_RST" "\<not> has_flag FLAG_SYN FLAG_ACK"
  "\<not> has_flag FLAG_SYN FLAG_FIN"
  "\<not> has_flag FLAG_SYN (FLAG_FIN OR FLAG_RST OR FLAG_PSH OR FLAG_URG OR FLAG_ACK)"
  "has_flag FLAG_ACK FLAG_ACK" "\<not> has_flag FLAG_ACK FLAG_RST" "\<not> has_flag FLAG_ACK FLAG_SYN"
  "\<not> has_flag FLAG_ACK FLAG_FIN"
  "\<not> has_flag FLAG_RST FLAG_SYN" "has_flag FLAG_RST FLAG_RST"
  by (simp_all add: has_flag_def FLAG_SYN_def FLAG_RST_def FLAG_ACK_def FLAG_FIN_def FLAG_PSH_def FLAG_URG_def)

section \<open>Properties of opening\<close>

definition reply_pkt :: "tcp_seg \<Rightarrow> u32 \<Rightarrow> u32 \<Rightarrow> byte \<Rightarrow> u16 \<Rightarrow> message" where
  "reply_pkt sg sq ak flags win = wrap_message_down (sg_to sg) (sg_from sg)
     (tcp_pkt (sg_to sg) (sg_from sg) (sg_dport sg) (sg_sport sg) sq ak flags win []) None"

text \<open>C10: A SYN for a port with a server is answered by a SYN+ACK with a cookie that carries the
  index of the MSS in its low bits, and no session is made.\<close>

theorem tcp_syn_keeps_no_state:
  assumes "net_ok w" "length lid < max_id_length" "length (sg_from sg) = 4" "length (sg_to sg) = 4" "length salt = 16"
    and "sg_flags sg = FLAG_SYN" "sg_mss_index sg \<le> 7" "find_key (sg_sid sg) sessions = None"
    and "mappings (sg_dport sg) = Some name"
  shows "\<exists>c r w'. my_syn_cookie (sg_sid sg) salt (sg_mss_index sg) now = Inr c \<and> unat (c AND 7) = sg_mss_index sg
    \<and> tcp_segment (send_message lid) out mappings salt now now_us sg sessions w = Inr (sessions, w') \<and> net_ok w'
    \<and> posted inbox capacity lid w out (reply_pkt sg c (sg_seq sg + 1) (FLAG_SYN OR FLAG_ACK) INITIAL_LOCAL_WINDOW_SIZE) r w'"
proof -
  obtain c where c: "my_syn_cookie (sg_sid sg) salt (sg_mss_index sg) now = Inr c" "unat (c AND 7) = sg_mss_index sg"
    using my_syn_cookie_total[OF assms(5,7)] by blast
  obtain r w' where "tcp_reply (send_message lid) out sg c (sg_seq sg + 1) (FLAG_SYN OR FLAG_ACK) INITIAL_LOCAL_WINDOW_SIZE
      MI_IP4_MIN_TCP_MTU w = Inr (if r then 0 else -1, w')" "net_ok w'"
    "posted inbox capacity lid w out (reply_pkt sg c (sg_seq sg + 1) (FLAG_SYN OR FLAG_ACK) INITIAL_LOCAL_WINDOW_SIZE) r w'"
    using transport.tcp_reply_posts[OF shm_transport[OF assms(2)] assms(1,3,4)] unfolding reply_pkt_def by blast
  then show ?thesis using c assms
    by (auto simp: tcp_segment_def tcp_dispatch_def tcp_syn_def send_syn_cookie_def tcp_body_def tcp_clean_def verdict0_def write_back_def)
qed

definition sample_seg :: "byte \<Rightarrow> u32 \<Rightarrow> tcp_seg" where
  "sample_seg flags ak = \<lparr> sg_from = [10, 0, 0, 1], sg_to = [10, 0, 0, 2], sg_sport = 4711, sg_dport = 80, sg_sid = 99,
     sg_flags = flags, sg_window = 8192, sg_seq = 1000, sg_ack = ak, sg_data = [], sg_mss_index = 6 \<rparr>"

theorem tcp_syn_keeps_no_state_witness:
  "(let sg = sample_seg FLAG_SYN 0 in
    \<exists>c r w'. my_syn_cookie (sg_sid sg) (replicate 16 7) (sg_mss_index sg) 5000 = Inr c \<and> unat (c AND 7) = sg_mss_index sg
    \<and> tcp_segment (send_message ''tcp'') ''ip4'' [80 \<mapsto> ''http''] (replicate 16 7) 5000 9 sg [] idle_net = Inr ([], w') \<and> net_ok w'
    \<and> posted inbox capacity ''tcp'' idle_net ''ip4''
        (reply_pkt sg c (sg_seq sg + 1) (FLAG_SYN OR FLAG_ACK) INITIAL_LOCAL_WINDOW_SIZE) r w')"
  unfolding Let_def
  by (rule tcp_syn_keeps_no_state[where name = "''http''"])
    (simp_all add: idle_net_ok max_id_length_def sample_seg_def find_key_def)

text \<open>C11: An acknowledgement of the cookie that was sent, within the same slot of 64 seconds, tells
  the application and, when that message finds room, opens an established session with the
  numbers of the handshake and the MSS the cookie stands for.\<close>

theorem tcp_ack_opens_session:
  assumes "net_ok w" "length lid < max_id_length" "length (sg_from sg) = 4" "length (sg_to sg) = 4" "length salt = 16"
    and "my_syn_cookie (sg_sid sg) salt i now = Inr c" "i \<le> 7" "now' div 64 mod 32 = now div 64 mod 32"
    and "sg_flags sg = FLAG_ACK" "sg_ack sg = c + 1" "sg_data sg = []" "find_key (sg_sid sg) sessions = None"
    and "mappings (sg_dport sg) = Some name" "length name < max_id_length"
  shows "\<exists>r w1 w' s. posted inbox capacity lid w name
      (wrap_message_up_tcp (sg_sid sg) (sg_from sg) (sg_sport sg) (sg_to sg) (sg_dport sg) MI_TCP_OPEN []) r w1
    \<and> tcp_segment (send_message lid) out mappings salt now' now_us sg sessions w =
        Inr (if r then set_key (sg_sid sg) s sessions else sessions, w') \<and> net_ok w'
    \<and> (if r then inbox w' = inbox w1 else \<exists>r2. posted inbox capacity lid w1 out (reply_pkt sg 0 0 FLAG_RST (sg_window sg)) r2 w')
    \<and> st_state s = Established \<and> local_seq s = c + 1 \<and> peer_seq s = sg_seq sg \<and> mss s = mss_ranges ! i
    \<and> shm_peer s = name \<and> local_addr s = sg_to sg \<and> local_port s = sg_dport sg \<and> peer_addr s = sg_from sg
    \<and> peer_port s = sg_sport sg \<and> in_flight s = 0 \<and> td_bytes (l7_to_tcp s) = [] \<and> \<not> fin_sent s"
proof -
  let ?s = "new_session_t\<lparr> is_client := False, st_state := Established, local_seq := sg_ack sg,
    local_addr := sg_to sg, local_port := sg_dport sg, peer_seq := sg_seq sg, peer_addr := sg_from sg,
    peer_port := sg_sport sg, local_window_size := INITIAL_LOCAL_WINDOW_SIZE, mss := mss_ranges ! i, shm_peer := name \<rparr>"
  have c: "unat ((sg_ack sg - 1) AND 7) = i" "my_syn_cookie (sg_sid sg) salt i now' = Inr (sg_ack sg - 1)"
    using my_syn_cookie_total[OF assms(5,7), of "sg_sid sg" now] assms(6,8,10) by (simp_all add: my_syn_cookie_def Let_def)
  obtain r w1 where p: "post (send_message lid) name
      (wrap_message_up_tcp (sg_sid sg) (sg_from sg) (sg_sport sg) (sg_to sg) (sg_dport sg) MI_TCP_OPEN []) w = Inr (r, w1)" "net_ok w1"
    "posted inbox capacity lid w name
      (wrap_message_up_tcp (sg_sid sg) (sg_from sg) (sg_sport sg) (sg_to sg) (sg_dport sg) MI_TCP_OPEN []) r w1"
    using transport.post_up_tcp[OF shm_transport[OF assms(2)] assms(1)] assms(3,4) by (metis list.size(3) small_consts)
  have s: "tcp_dispatch (send_message lid) out mappings salt now' sg None w =
      Inr (if r then (Proceed, verdict0, Some ?s, w1) else (Clean, verdict0\<lparr> invalid := True, clean_session := True \<rparr>, None, w1))"
    using p c assms(9,13,14) by (simp add: tcp_dispatch_def tcp_ack_def tcp_ack_new_def peer_name_def)
  show ?thesis
  proof (cases r)
    case True
    then have "tcp_segment (send_message lid) out mappings salt now' now_us sg sessions w = Inr (set_key (sg_sid sg) ?s sessions, w1)"
      using s assms(9,11,12) by (simp add: tcp_segment_def tcp_body_def tcp_input_def tcp_fin_def tcp_clean_def verdict0_def write_back_def new_session_t_def)
    then show ?thesis using p True assms(10)
      by (intro exI[of _ r] exI[of _ w1] exI[of _ w1] exI[of _ ?s]) (simp add: new_session_t_def)
  next
    case False
    obtain r2 w' where "tcp_reply (send_message lid) out sg 0 0 FLAG_RST (sg_window sg) MI_IP4_MIN_TCP_MTU w1 = Inr (if r2 then 0 else -1, w')"
      "net_ok w'" "posted inbox capacity lid w1 out (reply_pkt sg 0 0 FLAG_RST (sg_window sg)) r2 w'"
      using transport.tcp_reply_posts[OF shm_transport[OF assms(2)] p(2) assms(3,4)] unfolding reply_pkt_def by blast
    then show ?thesis using p False s assms(10,12)
      by (intro exI[of _ r] exI[of _ w1] exI[of _ w'] exI[of _ ?s])
        (auto simp: new_session_t_def tcp_segment_def tcp_body_def tcp_clean_def verdict0_def write_back_def)
  qed
qed

theorem tcp_ack_opens_session_witness:
  "\<exists>c sg. my_syn_cookie 99 (replicate 16 7) 6 5000 = Inr c \<and> sg = sample_seg FLAG_ACK (c + 1)
    \<and> (\<exists>r w1 w' s. posted inbox capacity ''tcp'' idle_net ''http''
      (wrap_message_up_tcp (sg_sid sg) (sg_from sg) (sg_sport sg) (sg_to sg) (sg_dport sg) MI_TCP_OPEN []) r w1
    \<and> tcp_segment (send_message ''tcp'') ''ip4'' [80 \<mapsto> ''http''] (replicate 16 7) 5001 9 sg [] idle_net =
        Inr (if r then set_key (sg_sid sg) s [] else [], w') \<and> net_ok w'
    \<and> (if r then inbox w' = inbox w1
       else \<exists>r2. posted inbox capacity ''tcp'' w1 ''ip4'' (reply_pkt sg 0 0 FLAG_RST (sg_window sg)) r2 w')
    \<and> st_state s = Established \<and> local_seq s = c + 1 \<and> peer_seq s = sg_seq sg \<and> mss s = mss_ranges ! 6
    \<and> shm_peer s = ''http'' \<and> local_addr s = sg_to sg \<and> local_port s = sg_dport sg \<and> peer_addr s = sg_from sg
    \<and> peer_port s = sg_sport sg \<and> in_flight s = 0 \<and> td_bytes (l7_to_tcp s) = [] \<and> \<not> fin_sent s)"
proof -
  obtain c where c: "my_syn_cookie 99 (replicate 16 7) 6 5000 = Inr c"
    using my_syn_cookie_total[of "replicate 16 7" 6 99 5000] by auto
  show ?thesis
    by (rule exI[of _ c], rule exI[of _ "sample_seg FLAG_ACK (c + 1)"], intro conjI c refl,
        rule tcp_ack_opens_session[where i = 6 and now = 5000])
      (simp_all add: c sample_seg_def idle_net_ok max_id_length_def find_key_def)
qed

text \<open>C12: An acknowledgement without a session whose number is not the cookie of this slot is
  answered by a reset: no session is made and no application is told.\<close>

theorem tcp_forged_ack_rejected:
  assumes "net_ok w" "length lid < max_id_length" "length (sg_from sg) = 4" "length (sg_to sg) = 4"
    and "my_syn_cookie (sg_sid sg) salt (unat ((sg_ack sg - 1) AND 7)) now = Inr c" "sg_ack sg \<noteq> c + 1"
    and "sg_flags sg = FLAG_ACK" "find_key (sg_sid sg) sessions = None"
  shows "\<exists>r w'. tcp_segment (send_message lid) out mappings salt now now_us sg sessions w = Inr (sessions, w') \<and> net_ok w'
    \<and> posted inbox capacity lid w out (reply_pkt sg (c + 1) (sg_seq sg) FLAG_RST (sg_window sg)) r w'"
proof -
  obtain r w' where "tcp_reply (send_message lid) out sg (c + 1) (sg_seq sg) FLAG_RST (sg_window sg) MI_IP4_MIN_TCP_MTU w
      = Inr (if r then 0 else -1, w')" "net_ok w'"
    "posted inbox capacity lid w out (reply_pkt sg (c + 1) (sg_seq sg) FLAG_RST (sg_window sg)) r w'"
    using transport.tcp_reply_posts[OF shm_transport[OF assms(2)] assms(1,3,4)] unfolding reply_pkt_def by blast
  moreover have "c \<noteq> sg_ack sg - 1" using assms(6) by auto
  ultimately show ?thesis using assms(5,7,8)
    by (auto simp: tcp_segment_def tcp_dispatch_def tcp_ack_def tcp_ack_new_def tcp_body_def tcp_clean_def verdict0_def write_back_def)
qed

theorem tcp_forged_ack_rejected_witness:
  "\<exists>c ak r w'. my_syn_cookie 99 (replicate 16 7) 0 5000 = Inr c \<and> ak \<noteq> c + 1
    \<and> tcp_segment (send_message ''tcp'') ''ip4'' [80 \<mapsto> ''http''] (replicate 16 7) 5000 9 (sample_seg FLAG_ACK ak) [] idle_net = Inr ([], w')
    \<and> net_ok w' \<and> posted inbox capacity ''tcp'' idle_net ''ip4'' (reply_pkt (sample_seg FLAG_ACK ak) (c + 1) 1000 FLAG_RST 8192) r w'"
proof -
  obtain c where c: "my_syn_cookie 99 (replicate 16 7) 0 5000 = Inr c"
    using my_syn_cookie_total[of "replicate 16 7" 0 99 5000] by auto
  define ak :: u32 where "ak = (if c = 0 then 9 else 1)"
  have ak: "unat ((ak - 1) AND 7) = 0" "ak \<noteq> c + 1" by (simp_all add: ak_def)
  from c ak tcp_forged_ack_rejected[of idle_net "''tcp''" "sample_seg FLAG_ACK ak" "replicate 16 7" 5000 c "[]" "''ip4''"
      "[80 \<mapsto> ''http'']" 9]
  show ?thesis
    by (intro exI[of _ c] exI[of _ ak]) (simp add: sample_seg_def idle_net_ok max_id_length_def find_key_def)
qed

text \<open>A SYN for a port without a server is answered by a reset and leaves no session.\<close>

theorem tcp_unmapped_port_reset:
  assumes "net_ok w" "length lid < max_id_length" "length (sg_from sg) = 4" "length (sg_to sg) = 4"
    and "sg_flags sg = FLAG_SYN" "find_key (sg_sid sg) sessions = None" "mappings (sg_dport sg) = None"
  shows "\<exists>r w'. tcp_segment (send_message lid) out mappings salt now now_us sg sessions w = Inr (sessions, w') \<and> net_ok w'
    \<and> posted inbox capacity lid w out (reply_pkt sg 0 0 FLAG_RST (sg_window sg)) r w'"
proof -
  obtain r w' where "tcp_reply (send_message lid) out sg 0 0 FLAG_RST (sg_window sg) MI_IP4_MIN_TCP_MTU w
      = Inr (if r then 0 else -1, w')" "net_ok w'"
    "posted inbox capacity lid w out (reply_pkt sg 0 0 FLAG_RST (sg_window sg)) r w'"
    using transport.tcp_reply_posts[OF shm_transport[OF assms(2)] assms(1,3,4)] unfolding reply_pkt_def by blast
  then show ?thesis using assms(5-7)
    by (auto simp: tcp_segment_def tcp_dispatch_def tcp_syn_def tcp_body_def tcp_clean_def verdict0_def write_back_def)
qed

theorem tcp_unmapped_port_reset_witness:
  "\<exists>r w'. tcp_segment (send_message ''tcp'') ''ip4'' [81 \<mapsto> ''http''] (replicate 16 7) 5000 9 (sample_seg FLAG_SYN 0) [] idle_net = Inr ([], w')
    \<and> net_ok w' \<and> posted inbox capacity ''tcp'' idle_net ''ip4''
        (reply_pkt (sample_seg FLAG_SYN 0) 0 0 FLAG_RST (sg_window (sample_seg FLAG_SYN 0))) r w'"
  by (rule tcp_unmapped_port_reset) (simp_all add: sample_seg_def idle_net_ok max_id_length_def find_key_def)

lemma tcp_parse_index: "tcp_parse d = Inr (Some sg) \<Longrightarrow> sg_mss_index sg \<le> 7"
  unfolding tcp_parse_def Let_def
  by (auto simp: res_bind_eq_Inr split: if_splits dest: syn_options_bound)

text \<open>C35: Whatever bytes arrive, the MSS index of a parsed segment is one of the eight of the table,
  so that making a cookie for it never trips the assertion.\<close>

theorem tcp_cookie_never_asserts:
  assumes "tcp_parse d = Inr (Some sg)" "length salt = 16"
  shows "sg_mss_index sg < length mss_ranges \<and> (\<exists>c. my_syn_cookie (sg_sid sg) salt (sg_mss_index sg) now = Inr c)"
  using my_syn_cookie_total[OF assms(2) tcp_parse_index[OF assms(1)], of "sg_sid sg" now] tcp_parse_index[OF assms(1)]
  by (auto simp: mss_ranges_def)

theorem tcp_cookie_never_asserts_witness:
  "\<exists>sg. tcp_parse (wrap_up [0x45] [10, 0, 0, 1] [10, 0, 0, 2] (tcp_pkt [10, 0, 0, 1] [10, 0, 0, 2] 4711 80 1 2 FLAG_SYN 8192 [])) = Inr (Some sg)
    \<and> sg_mss_index sg < length mss_ranges \<and> (\<exists>c. my_syn_cookie (sg_sid sg) (replicate 16 7) (sg_mss_index sg) 5000 = Inr c)"
proof -
  obtain sid where "tcp_calc_session_id 4711 80 [10, 0, 0, 1] [10, 0, 0, 2] = Inr sid"
    using tcp_calc_session_id_total[of "[10, 0, 0, 1]" "[10, 0, 0, 2]" 4711 80] by auto
  then have "\<exists>sg. tcp_parse (wrap_up [0x45] [10, 0, 0, 1] [10, 0, 0, 2]
      (tcp_pkt [10, 0, 0, 1] [10, 0, 0, 2] 4711 80 1 2 FLAG_SYN 8192 [])) = Inr (Some sg)"
    using tcp_parse_pkt[of "[10, 0, 0, 1]" "[10, 0, 0, 2]" "[]" "[0x45]" 4711 80 sid 1 2 FLAG_SYN 8192 "[]"] by (simp add: small_def)
  then show ?thesis using tcp_cookie_never_asserts[where salt = "replicate 16 7" and now = 5000] by fastforce
qed

end
