(* ===== verification/Tcp_Receive.thy ===== *)
theory Tcp_Receive
  imports Tcp_Handshake
begin

text \<open>
  Data from the peer: what is delivered to the application, and what is acknowledged.
\<close>

section \<open>Data segments\<close>

text \<open>A segment that carries data and an acknowledgement and nothing else.\<close>

definition data_segment :: "tcp_seg \<Rightarrow> bool" where
  "data_segment sg \<longleftrightarrow> has_flag (sg_flags sg) FLAG_ACK \<and> \<not> has_flag (sg_flags sg) FLAG_SYN
     \<and> \<not> has_flag (sg_flags sg) FLAG_RST \<and> \<not> has_flag (sg_flags sg) FLAG_FIN \<and> sg_data sg \<noteq> []
     \<and> length (sg_from sg) = 4 \<and> length (sg_to sg) = 4 \<and> small (length (sg_data sg))"

definition after_ack :: "u64 \<Rightarrow> tcp_seg \<Rightarrow> session_t \<Rightarrow> session_t" where
  "after_ack now_us sg s =
     tcp_ack_session (sg_ack sg) (s\<lparr> updated_ts := now_us, peer_window_size := sg_window sg \<rparr>)"

lemma after_ack_fields [simp]:
  "peer_seq (after_ack now_us sg s) = peer_seq s" "shm_peer (after_ack now_us sg s) = shm_peer s"
  "half_closed (after_ack now_us sg s) = half_closed s" "st_state (after_ack now_us sg s) = st_state s"
  "mss (after_ack now_us sg s) = mss s" "local_window_size (after_ack now_us sg s) = local_window_size s"
  by (simp_all add: after_ack_def tcp_ack_session_def Let_def)

lemma data_segment_step:
  assumes "data_segment sg" "find_key (sg_sid sg) ss = Some s" "st_state s \<noteq> Closed"
  shows "tcp_segment shm out mappings salt now now_us sg ss w =
    res_bind (tcp_input shm out sg verdict0 (after_ack now_us sg s) w) (\<lambda>(v, s, w).
    res_bind (tcp_clean shm out sg v (Some s) w) (\<lambda>(session, w).
    Inr (write_back (sg_sid sg) session ss, w)))"
  using assms
  by (simp add: tcp_segment_def tcp_dispatch_def tcp_ack_def tcp_body_def tcp_fin_def data_segment_def after_ack_def
      verdict0_def Let_def res_bind_assoc split_def)

definition data_message :: "tcp_seg \<Rightarrow> session_t \<Rightarrow> message" where
  "data_message sg s = wrap_message_up_tcp (sg_sid sg) (sg_from sg) (sg_sport sg) (sg_to sg) (sg_dport sg)
     (if half_closed s then MI_TCP_FIN else 0) (sg_data sg)"

definition close_message :: "tcp_seg \<Rightarrow> message" where
  "close_message sg = wrap_message_up_tcp (sg_sid sg) (sg_from sg) (sg_sport sg) (sg_to sg) (sg_dport sg) MI_TCP_CLOSE []"

text \<open>\<open>acks\<close>: an acknowledgement of \<open>q\<close> is sent; when it finds no room, the application is told
  that the session closes.\<close>

definition acks :: "('w \<Rightarrow> string \<Rightarrow> message list) \<Rightarrow> ('w \<Rightarrow> string \<Rightarrow> nat option) \<Rightarrow> string \<Rightarrow> string \<Rightarrow> tcp_seg \<Rightarrow> session_t \<Rightarrow> u32 \<Rightarrow> 'w \<Rightarrow> bool \<Rightarrow> 'w \<Rightarrow> bool" where
  "acks ib cap lid out sg s q w r w' \<longleftrightarrow> (\<exists>w1. posted ib cap lid w out (reply_pkt sg (local_seq s) q FLAG_ACK (local_window_size s)) r w1
     \<and> (if r then w' = w1 else \<exists>r2. posted ib cap lid w1 (shm_peer s) (close_message sg) r2 w'))"

context transport
begin

lemma clean_or_close:
  assumes "ok w1" "length (sg_from sg) = 4" "length (sg_to sg) = 4" "\<not> invalid v"
    and "posted ib cap lid w out (reply_pkt sg (local_seq s) q FLAG_ACK (local_window_size s)) r w1"
    and "clean_session v \<longleftrightarrow> \<not> r" "local_seq s' = local_seq s" "shm_peer s' = shm_peer s"
  shows "\<exists>w'. tcp_clean shm out sg v (Some s') w1 = Inr (Some s', w') \<and> ok w' \<and> acks ib cap lid out sg s q w r w'"
proof (cases r)
  case True
  then show ?thesis using assms by (auto simp: tcp_clean_def acks_def)
next
  case False
  have "small (length (sg_from sg))" "small (length (sg_to sg))" "small (length ([] :: bytes))"
    using assms(2,3) by (simp_all add: small_def)
  then obtain r2 w2 where "post shm (shm_peer s) (close_message sg) w1 = Inr (r2, w2)" "ok w2"
      "posted ib cap lid w1 (shm_peer s) (close_message sg) r2 w2"
    using post_up_tcp[OF assms(1)] unfolding close_message_def by blast
  then show ?thesis using assms False by (auto simp: tcp_clean_def acks_def close_message_def)
qed

lemma data_in_order:
  assumes "ok w" "data_segment sg" "find_key (sg_sid sg) ss = Some s" "st_state s \<noteq> Closed" "sg_seq sg = peer_seq s"
  shows "\<exists>r1 w1 s' w'. posted ib cap lid w (shm_peer s) (data_message sg s) r1 w1
    \<and> tcp_segment shm out mappings salt now now_us sg ss w = Inr (set_key (sg_sid sg) s' ss, w') \<and> ok w'
    \<and> (if r1 then \<exists>r2. acks ib cap lid out sg (after_ack now_us sg s) (peer_seq s + word_of_nat (length (sg_data sg))) w1 r2 w'
           \<and> s' = (if r2 then (after_ack now_us sg s)\<lparr> peer_seq := peer_seq s + word_of_nat (length (sg_data sg)) \<rparr>
                   else after_ack now_us sg s)
        else s' = after_ack now_us sg s \<and> w' = w1)"
proof -
  let ?s = "after_ack now_us sg s" and ?q = "peer_seq s + word_of_nat (length (sg_data sg))"
  have l: "length (sg_from sg) = 4" "length (sg_to sg) = 4" "small (length (sg_from sg))" "small (length (sg_to sg))"
    "small (length (sg_data sg))" "sg_data sg \<noteq> []" "has_flag (sg_flags sg) FLAG_ACK"
    using assms(2) by (simp_all add: data_segment_def small_def)
  obtain r1 w1 where p: "post shm (shm_peer s) (data_message sg s) w = Inr (r1, w1)" "ok w1"
    "posted ib cap lid w (shm_peer s) (data_message sg s) r1 w1"
    using post_up_tcp[OF assms(1) l(3-5)] unfolding data_message_def by blast
  show ?thesis
  proof (cases r1)
    case False
    then have "tcp_input shm out sg verdict0 ?s w = Inr (verdict0, ?s, w1)"
      using assms(5) l p(1) by (simp add: tcp_input_def Let_def data_message_def)
    moreover have "tcp_clean shm out sg verdict0 (Some ?s) w1 = Inr (Some ?s, w1)" by (simp add: tcp_clean_def verdict0_def)
    ultimately show ?thesis using p False by (auto simp: data_segment_step[OF assms(2-4)] write_back_def)
  next
    case True
    obtain r w2 where a: "tcp_reply shm out sg (local_seq ?s) ?q FLAG_ACK (local_window_size s) (mss s) w1
        = Inr (if r then 0 else -1, w2)" "ok w2"
      "posted ib cap lid w1 out (reply_pkt sg (local_seq ?s) ?q FLAG_ACK (local_window_size s)) r w2"
      using tcp_reply_posts[OF p(2) l(1,2)] unfolding reply_pkt_def by blast
    let ?v = "verdict0\<lparr> clean_session := \<not> r, acked_packet := r \<rparr>"
    let ?s' = "if r then ?s\<lparr> peer_seq := ?q \<rparr> else ?s"
    have f: "local_seq ?s' = local_seq ?s" "shm_peer ?s' = shm_peer s" by simp_all
    have i: "tcp_input shm out sg verdict0 ?s w = Inr (?v, ?s', w2)"
      using assms(5) l p(1) True a(1) by (cases r) (simp_all add: tcp_input_def Let_def verdict0_def data_message_def)
    obtain w' where "tcp_clean shm out sg ?v (Some ?s') w2 = Inr (Some ?s', w')" "ok w'" "acks ib cap lid out sg ?s ?q w1 r w'"
      using clean_or_close[OF a(2) l(1,2), of ?v w1 out ?s ?q r ?s'] a(3) f by (auto simp: verdict0_def)
    then have seg: "tcp_segment shm out mappings salt now now_us sg ss w = Inr (set_key (sg_sid sg) ?s' ss, w')"
      and last: "ok w'" "\<exists>r2. acks ib cap lid out sg ?s ?q w1 r2 w' \<and> ?s' = (if r2 then ?s\<lparr> peer_seq := ?q \<rparr> else ?s)"
      unfolding data_segment_step[OF assms(2-4)] i by (simp add: write_back_def, blast, blast)
    then show ?thesis using p(3) True by (intro exI[of _ r1] exI[of _ w1] exI[of _ ?s'] exI[of _ w'] conjI) simp_all
  qed
qed

lemma data_out_of_order:
  assumes "ok w" "data_segment sg" "find_key (sg_sid sg) ss = Some s" "st_state s \<noteq> Closed" "sg_seq sg \<noteq> peer_seq s"
  shows "\<exists>r w'. tcp_segment shm out mappings salt now now_us sg ss w = Inr (set_key (sg_sid sg) (after_ack now_us sg s) ss, w') \<and> ok w'
    \<and> acks ib cap lid out sg (after_ack now_us sg s) (peer_seq s) w r w'"
proof -
  let ?s = "after_ack now_us sg s"
  have l: "length (sg_from sg) = 4" "length (sg_to sg) = 4" using assms(2) by (simp_all add: data_segment_def)
  obtain r w1 where a: "tcp_reply shm out sg (local_seq ?s) (peer_seq s) FLAG_ACK (local_window_size s) (mss s) w
      = Inr (if r then 0 else -1, w1)" "ok w1"
    "posted ib cap lid w out (reply_pkt sg (local_seq ?s) (peer_seq s) FLAG_ACK (local_window_size s)) r w1"
    using tcp_reply_posts[OF assms(1) l] unfolding reply_pkt_def by blast
  let ?v = "verdict0\<lparr> clean_session := \<not> r \<rparr>"
  have i: "tcp_input shm out sg verdict0 ?s w = Inr (?v, ?s, w1)"
    using assms(5) a(1) by (cases r) (simp_all add: tcp_input_def Let_def verdict0_def)
  obtain w' where "tcp_clean shm out sg ?v (Some ?s) w1 = Inr (Some ?s, w')" "ok w'" "acks ib cap lid out sg ?s (peer_seq s) w r w'"
    using clean_or_close[OF a(2) l, of ?v w out ?s "peer_seq s" r ?s] a(3) by (auto simp: verdict0_def)
  then show ?thesis using i by (auto simp: data_segment_step[OF assms(2-4)] write_back_def)
qed

end

section \<open>Properties of receiving\<close>

text \<open>C8: A data segment with the number that is expected is handed to the application of its
  session.  If that finds room, an acknowledgement of its last byte follows, and the expected
  number moves past the data exactly when the acknowledgement is queued; else the
  application is told of a close while the session goes on expecting the same data.\<close>

theorem tcp_delivers_in_order:
  assumes "net_ok w" "length lid < max_id_length" "data_segment sg" "find_key (sg_sid sg) ss = Some s" "st_state s \<noteq> Closed"
    and "sg_seq sg = peer_seq s"
  shows "\<exists>r1 w1 s' w'. posted inbox capacity lid w (shm_peer s) (data_message sg s) r1 w1
    \<and> tcp_segment (send_message lid) out mappings salt now now_us sg ss w = Inr (set_key (sg_sid sg) s' ss, w') \<and> net_ok w'
    \<and> (if r1 then \<exists>r2. acks inbox capacity lid out sg (after_ack now_us sg s) (peer_seq s + word_of_nat (length (sg_data sg))) w1 r2 w'
           \<and> s' = (if r2 then (after_ack now_us sg s)\<lparr> peer_seq := peer_seq s + word_of_nat (length (sg_data sg)) \<rparr>
                   else after_ack now_us sg s)
        else s' = after_ack now_us sg s \<and> w' = w1)"
  using assms by (intro transport.data_in_order[OF shm_transport])

definition sample_data :: "u32 \<Rightarrow> tcp_seg" where
  "sample_data sq = (sample_seg (FLAG_ACK OR FLAG_PSH) 5000)\<lparr> sg_seq := sq, sg_data := [104, 105] \<rparr>"

definition sample_server_session :: session_t where
  "sample_server_session = new_session_t\<lparr> st_state := Established, local_seq := 5000, peer_seq := 1000, shm_peer := ''http'' \<rparr>"

lemmas sample_receive = idle_net_ok max_id_length_def data_segment_def sample_data_def sample_seg_def small_def has_flag_def
  FLAG_ACK_def FLAG_PSH_def FLAG_SYN_def FLAG_RST_def FLAG_FIN_def find_key_def sample_server_session_def new_session_t_def

theorem tcp_delivers_in_order_witness:
  "(let sg = sample_data 1000; s = sample_server_session in
    \<exists>r1 w1 s' w'. posted inbox capacity ''tcp'' idle_net (shm_peer s) (data_message sg s) r1 w1
    \<and> tcp_segment (send_message ''tcp'') ''ip4'' [80 \<mapsto> ''http''] [] 5000 9 sg [(99, s)] idle_net = Inr (set_key (sg_sid sg) s' [(99, s)], w') \<and> net_ok w'
    \<and> (if r1 then \<exists>r2. acks inbox capacity ''tcp'' ''ip4'' sg (after_ack 9 sg s) (peer_seq s + word_of_nat (length (sg_data sg))) w1 r2 w'
           \<and> s' = (if r2 then (after_ack 9 sg s)\<lparr> peer_seq := peer_seq s + word_of_nat (length (sg_data sg)) \<rparr>
                   else after_ack 9 sg s)
        else s' = after_ack 9 sg s \<and> w' = w1))"
  unfolding Let_def by (rule tcp_delivers_in_order) (simp_all add: sample_receive)

text \<open>C9: A data segment with any other number is not delivered: the only answer is an
  acknowledgement of the number that is expected (or, without room for it, word of a close to
  the application), and the expected number stays.\<close>

theorem tcp_refuses_out_of_order:
  assumes "net_ok w" "length lid < max_id_length" "data_segment sg" "find_key (sg_sid sg) ss = Some s" "st_state s \<noteq> Closed"
    and "sg_seq sg \<noteq> peer_seq s"
  shows "\<exists>r w'. tcp_segment (send_message lid) out mappings salt now now_us sg ss w = Inr (set_key (sg_sid sg) (after_ack now_us sg s) ss, w') \<and> net_ok w'
    \<and> acks inbox capacity lid out sg (after_ack now_us sg s) (peer_seq s) w r w'"
  using assms by (intro transport.data_out_of_order[OF shm_transport])

theorem tcp_refuses_out_of_order_witness:
  "(let sg = sample_data 1200; s = sample_server_session in
    \<exists>r w'. tcp_segment (send_message ''tcp'') ''ip4'' [80 \<mapsto> ''http''] [] 5000 9 sg [(99, s)] idle_net = Inr (set_key (sg_sid sg) (after_ack 9 sg s) [(99, s)], w')
    \<and> net_ok w' \<and> acks inbox capacity ''tcp'' ''ip4'' sg (after_ack 9 sg s) (peer_seq s) idle_net r w')"
  unfolding Let_def by (rule tcp_refuses_out_of_order) (simp_all add: sample_receive)

section \<open>Closing from the application side\<close>

text \<open>A close request that names a session the peer had opened takes the session out of the
  map and then follows the iterator past the end of the map of local ports.\<close>

theorem tcp_close_of_accepted_session:
  assumes "find_key sid ss = Some s" "find_key (local_port s) ports = None"
  shows "tcp_close shm out sid ss ports w = Inl Out_of_bounds"
  using assms by (simp add: tcp_close_def Let_def)

theorem tcp_close_of_accepted_session_witness:
  "tcp_close (send_message ''tcp'') ''ip4'' 99 [(99, sample_server_session)] [] idle_net = Inl Out_of_bounds"
  by (rule tcp_close_of_accepted_session) (simp_all add: find_key_def)

end
