(* ===== verification/Tcp_Across.thy ===== *)
theory Tcp_Across
  imports Path Tcp_Receive
begin

text \<open>
  A TCP connection between two hosts on one Ethernet: the segments one TCP server sends go along
  a path (\<open>carry\<close>) to the other, whose answers come back along another.
\<close>

section \<open>Two TCP servers\<close>

text \<open>A TCP server with its settings and the queues as it finds them.\<close>

record endpoint =
  ep_id :: string
  ep_out :: string
  ep_app :: string
  ep_services :: "u16 \<Rightarrow> string option"
  ep_salt :: bytes
  ep_now :: nat
  ep_us :: u64
  ep_net :: net

text \<open>Messages of the other server arrive one after the other; the result is the sessions, the answers,
  and what the application gets.  The queues are empty again before each turn.\<close>

fun talk :: "path \<Rightarrow> endpoint \<Rightarrow> message list \<Rightarrow> sessions \<Rightarrow> (sessions \<times> message list \<times> message list) res" where
  "talk p e [] ss = Inr (ss, [], [])"
| "talk p e (m # ms) ss =
     res_bind (carry p m) (\<lambda>m'.
     res_bind (tcp_run_in (send_message (ep_id e)) (ep_out e) (ep_services e) (ep_salt e) (ep_now e) (ep_us e) m' ss (ep_net e)) (\<lambda>(n, ss, w).
     res_bind (talk p e ms ss) (\<lambda>(ss, out, up).
     Inr (ss, news (ep_net e) w (ep_out e) @ out, news (ep_net e) w (ep_app e) @ up))))"

text \<open>A round: the sender of one server, the segments to the other, and the answers to them.\<close>

definition tcp_round ::
  "path \<Rightarrow> path \<Rightarrow> endpoint \<Rightarrow> endpoint \<Rightarrow> sessions \<Rightarrow> sessions \<Rightarrow> (sessions \<times> sessions \<times> message list) res" where
  "tcp_round there back a b ssa ssb =
     res_bind (tcp_sender_pass (send_message (ep_id a)) (ep_out a) ssa (ep_net a)) (\<lambda>(ssa, w).
     res_bind (talk there b (news (ep_net a) w (ep_out a)) ssb) (\<lambda>(ssb, out, up).
     res_bind (talk back a out ssa) (\<lambda>(ssa, _, _).
     Inr (ssa, ssb, up))))"

fun tcp_rounds ::
  "nat \<Rightarrow> path \<Rightarrow> path \<Rightarrow> endpoint \<Rightarrow> endpoint \<Rightarrow> sessions \<Rightarrow> sessions \<Rightarrow> (sessions \<times> sessions \<times> message list) res" where
  "tcp_rounds 0 there back a b ssa ssb = Inr (ssa, ssb, [])"
| "tcp_rounds (Suc n) there back a b ssa ssb =
     res_bind (tcp_round there back a b ssa ssb) (\<lambda>(ssa, ssb, up).
     res_bind (tcp_rounds n there back a b ssa ssb) (\<lambda>(ssa, ssb, up').
     Inr (ssa, ssb, up @ up')))"

text \<open>The data an application finds in a message.\<close>

definition l7_bytes :: "message \<Rightarrow> bytes" where
  "l7_bytes m = (case unwrap_message_up_tcp (msg_data m) of Inl _ \<Rightarrow> [] | Inr v \<Rightarrow> take (tv_pl_len v) (tv_pl v))"

text \<open>A TCP server whose queues have room for a segment with \<open>n\<close> bytes of data and an acknowledgement.\<close>

definition endpoint_ok :: "nat \<Rightarrow> endpoint \<Rightarrow> bool" where
  "endpoint_ok n e \<longleftrightarrow> net_ok (ep_net e) \<and> length (ep_id e) < max_id_length \<and> length (ep_salt e) = 16
     \<and> ep_out e \<noteq> ep_app e \<and> length (ep_app e) < max_id_length
     \<and> spare (n + 400) (ep_net e) (ep_out e) \<and> spare (n + 200) (ep_net e) (ep_app e)"

section \<open>Segments into queues with room\<close>

lemma padded_length_tcp:
  "length f = 4 \<Longrightarrow> length t = 4 \<Longrightarrow> length d \<le> 65535 \<Longrightarrow> padded_length (wrap_message_down f t (tcp_pkt f t sp dp sq ak fl win d) None) \<le> 200 + length d"
  using padded_length_envelope[of "wrap_down f t (tcp_pkt f t sp dp sq ak fl win d)" None]
  by (simp add: wrap_message_down_def)

lemma padded_length_up_tcp:
  "length f = 4 \<Longrightarrow> length t = 4 \<Longrightarrow> length d \<le> 65535 \<Longrightarrow> padded_length (wrap_message_up_tcp sid f sp t dp fl d) \<le> 200 + length d"
  using PAD8_bounds(2)[of "sizeof_message + (52 + length d)"] unat_of_nat_u32[of "52 + length d"]
  by (simp add: padded_length_def wrap_message_up_tcp_def allocate_shm_message_def sizeof_message_def Let_def)

lemma send_tcp_gets:
  assumes "net_ok w" "length lid < max_id_length" "length f = 4" "length t = 4" "length d \<le> unat m" "spare k w out" "200 + length d \<le> k"
  shows "\<exists>w'. send_tcp_packet (send_message lid) out f t sp dp sq ak fl win d m w = Inr (int (length d), w') \<and> net_ok w'
    \<and> gets lid out (wrap_message_down f t (tcp_pkt f t sp dp sq ak fl win d) None) w w'"
proof -
  have n: "min (length d) (unat m) = length d" using assms(5) by simp
  have "unat m < 2 ^ LENGTH(16)" by (rule unsigned_less)
  then have l: "padded_length (wrap_message_down f t (tcp_pkt f t sp dp sq ak fl win d) None) \<le> k"
    using padded_length_tcp[OF assms(3,4), of d sp dp sq ak fl win] assms(5,7) by simp
  obtain r w' where w': "net_ok w'" "posted inbox capacity lid w out (wrap_message_down f t (tcp_pkt f t sp dp sq ak fl win d) None) r w'"
    "send_tcp_packet (send_message lid) out f t sp dp sq ak fl win d m w
      = (if \<not> r then Inr (if 0 < length d then int (length d) else - 1, w') else Inr (int (length d), w'))"
    using transport.send_tcp_step[OF shm_transport[OF assms(2)] assms(1,3,4) n[symmetric], of out sp dp sq ak fl win "length d" 0]
    unfolding send_tcp_packet_def by auto
  show ?thesis using posted_gets[OF w'(2) assms(6) l] w'(1,3) by auto
qed

lemma tcp_reply_gets:
  assumes "net_ok w" "length lid < max_id_length" "length (sg_from sg) = 4" "length (sg_to sg) = 4" "spare k w out" "200 \<le> k"
  shows "\<exists>w'. tcp_reply (send_message lid) out sg sq ak fl win m w = Inr (0, w') \<and> net_ok w' \<and> gets lid out (reply_pkt sg sq ak fl win) w w'"
  using send_tcp_gets[OF assms(1,2,4,3) _ assms(5), of "[]" m] assms(6) by (simp add: tcp_reply_def reply_pkt_def)

lemma post_up_gets:
  assumes "net_ok w" "length lid < max_id_length" "length f = 4" "length t = 4" "length d \<le> 65535" "spare k w q" "200 + length d \<le> k"
  shows "\<exists>w'. post (send_message lid) q (wrap_message_up_tcp sid f sp t dp fl d) w = Inr (True, w') \<and> net_ok w'
    \<and> gets lid q (wrap_message_up_tcp sid f sp t dp fl d) w w'"
proof -
  have "small (length f)" "small (length t)" "small (length d)" using assms(3-5) by (simp_all add: small_def)
  from transport.post_up_tcp[OF shm_transport[OF assms(2)] assms(1) this, of q sid sp dp fl] obtain r w' where
    w': "post (send_message lid) q (wrap_message_up_tcp sid f sp t dp fl d) w = Inr (r, w')" "net_ok w'"
      "posted inbox capacity lid w q (wrap_message_up_tcp sid f sp t dp fl d) r w'" by blast
  have "padded_length (wrap_message_up_tcp sid f sp t dp fl d) \<le> k" using padded_length_up_tcp[OF assms(3-5), of sid sp dp fl] assms(7) by simp
  from posted_gets[OF w'(3) assms(6) this] w'(1,2) show ?thesis by auto
qed

section \<open>A segment on its way\<close>

definition seg :: "addr \<Rightarrow> addr \<Rightarrow> u16 \<Rightarrow> u16 \<Rightarrow> u64 \<Rightarrow> u32 \<Rightarrow> u32 \<Rightarrow> byte \<Rightarrow> u16 \<Rightarrow> bytes \<Rightarrow> tcp_seg" where
  "seg f t sp dp sid sq ak fl win d = \<lparr> sg_from = f, sg_to = t, sg_sport = sp, sg_dport = dp, sg_sid = sid, sg_flags = fl, sg_window = win,
      sg_seq = sq, sg_ack = ak, sg_data = d, sg_mss_index = 1 \<rparr>"

lemma seg_simps [simp]:
  "sg_from (seg f t sp dp sid sq ak fl win d) = f" "sg_to (seg f t sp dp sid sq ak fl win d) = t"
  "sg_sport (seg f t sp dp sid sq ak fl win d) = sp" "sg_dport (seg f t sp dp sid sq ak fl win d) = dp"
  "sg_sid (seg f t sp dp sid sq ak fl win d) = sid" "sg_flags (seg f t sp dp sid sq ak fl win d) = fl"
  "sg_window (seg f t sp dp sid sq ak fl win d) = win" "sg_seq (seg f t sp dp sid sq ak fl win d) = sq"
  "sg_ack (seg f t sp dp sid sq ak fl win d) = ak" "sg_data (seg f t sp dp sid sq ak fl win d) = d"
  "sg_mss_index (seg f t sp dp sid sq ak fl win d) = 1"
  by (simp_all add: seg_def)

lemma path_lengths: "path_ok p lid proto \<Longrightarrow> length (from_addr p) = 4" "path_ok p lid proto \<Longrightarrow> length (to_addr p) = 4"
  by (simp_all add: path_parts)

lemma talk_segment:
  assumes "path_ok p lid 6" "f = from_addr p" "to_addr p = t" "20 + length d \<le> use_mtu_size (from_mtu p)"
    and "carries lid (wrap_message_down f t (tcp_pkt f t sp dp sq ak fl win d) None) m" "tcp_calc_session_id sp dp f t = Inr sid"
  shows "talk p e (m # ms) ss =
    res_bind (tcp_segment (send_message (ep_id e)) (ep_out e) (ep_services e) (ep_salt e) (ep_now e) (ep_us e) (seg f t sp dp sid sq ak fl win d) ss (ep_net e))
      (\<lambda>(ss, w). res_bind (talk p e ms ss) (\<lambda>(ss, out, up).
        Inr (ss, news (ep_net e) w (ep_out e) @ out, news (ep_net e) w (ep_app e) @ up)))"
proof -
  have t: "length t = 4" "length f = 4" using path_lengths[OF assms(1)] assms(2,3) by simp_all
  let ?full = "ip4_packet 6 (from_ident p) 0 False f t (tcp_pkt f t sp dp sq ak fl win d)"
  obtain m' where m': "carry p m = Inr m'" "20 + length d \<le> 65515"
    "msg_data m' = wrap_up ?full f t (tcp_pkt f t sp dp sq ak fl win d) @ []"
    using carry_packet[OF assms(1,2) _ _ assms(5)[folded assms(3)]] assms(3,4) by auto
  have "tcp_parse (msg_data m') = Inr (Some (seg f t sp dp sid sq ak fl win d))"
    unfolding m'(3) seg_def using m'(2) assms(6) t by (intro tcp_parse_pkt) (simp_all add: small_def length_ip4_packet)
  then show ?thesis using m'(1) by (simp add: tcp_run_in_def res_bind_assoc split_def)
qed

section \<open>The turns of a handshake\<close>

lemma synack_flags [simp]:
  "has_flag (FLAG_SYN OR FLAG_ACK) FLAG_SYN" "has_flag (FLAG_SYN OR FLAG_ACK) FLAG_ACK" "\<not> has_flag (FLAG_SYN OR FLAG_ACK) FLAG_RST"
  "\<not> has_flag (FLAG_SYN OR FLAG_ACK) FLAG_FIN"
  by (simp_all add: has_flag_def FLAG_SYN_def FLAG_ACK_def FLAG_RST_def FLAG_FIN_def)

lemma syn_turn:
  assumes "net_ok w" "length lid < max_id_length" "length (sg_from sg) = 4" "length (sg_to sg) = 4" "spare k w out" "200 \<le> k"
    and "sg_flags sg = FLAG_SYN" "find_key (sg_sid sg) ss = None" "services (sg_dport sg) = Some name"
    and "my_syn_cookie (sg_sid sg) salt (sg_mss_index sg) now = Inr c"
  shows "\<exists>w'. tcp_segment (send_message lid) out services salt now us sg ss w = Inr (ss, w') \<and> net_ok w'
    \<and> gets lid out (reply_pkt sg c (sg_seq sg + 1) (FLAG_SYN OR FLAG_ACK) INITIAL_LOCAL_WINDOW_SIZE) w w'"
proof -
  obtain w' where "tcp_reply (send_message lid) out sg c (sg_seq sg + 1) (FLAG_SYN OR FLAG_ACK) INITIAL_LOCAL_WINDOW_SIZE
      MI_IP4_MIN_TCP_MTU w = Inr (0, w')" "net_ok w'"
    "gets lid out (reply_pkt sg c (sg_seq sg + 1) (FLAG_SYN OR FLAG_ACK) INITIAL_LOCAL_WINDOW_SIZE) w w'"
    using tcp_reply_gets[OF assms(1-6)] by blast
  then show ?thesis using assms(7-10)
    by (auto simp: tcp_segment_def tcp_dispatch_def tcp_syn_def send_syn_cookie_def tcp_body_def tcp_clean_def verdict0_def write_back_def)
qed

text \<open>The client answers twice: once where it handles the SYN, once because the number of the segment
  is not the one it now expects.\<close>

lemma synack_turn:
  assumes "net_ok w" "length lid < max_id_length" "length (sg_from sg) = 4" "length (sg_to sg) = 4" "spare k w out" "400 \<le> k"
    and "sg_flags sg = FLAG_SYN OR FLAG_ACK" "find_key (sg_sid sg) ss = Some s" "is_client s" "st_state s = Syn_sent"
    and "s' = s\<lparr> updated_ts := us, peer_window_size := sg_window sg, st_state := Established, start_peer_seq := sg_seq sg, peer_seq := sg_seq sg + 1 \<rparr>"
  shows "\<exists>w1 w2. tcp_segment (send_message lid) out services salt now us sg ss w = Inr (set_key (sg_sid sg) s' ss, w2) \<and> net_ok w2
    \<and> gets lid out (reply_pkt sg (local_seq s) (sg_seq sg + 1) FLAG_ACK (local_window_size s)) w w1
    \<and> gets lid out (reply_pkt sg (local_seq s) (sg_seq sg + 1) FLAG_ACK (local_window_size s)) w1 w2"
proof -
  let ?m = "reply_pkt sg (local_seq s) (sg_seq sg + 1) FLAG_ACK (local_window_size s)"
  obtain w1 where w1: "tcp_reply (send_message lid) out sg (local_seq s) (sg_seq sg + 1) FLAG_ACK (local_window_size s) (mss s) w = Inr (0, w1)"
    "net_ok w1" "gets lid out ?m w w1"
    using tcp_reply_gets[OF assms(1-5)] assms(6) by force
  have "padded_length ?m + 200 \<le> k"
    using padded_length_tcp[OF assms(4,3), of "[]" "sg_dport sg" "sg_sport sg" "local_seq s" "sg_seq sg + 1" FLAG_ACK "local_window_size s"] assms(6)
    unfolding reply_pkt_def by simp
  then have "spare 200 w1 out" using gets_spare(2)[OF w1(3) assms(5)] by blast
  then obtain w2 where w2: "tcp_reply (send_message lid) out sg (local_seq s) (sg_seq sg + 1) FLAG_ACK (local_window_size s) (mss s) w1 = Inr (0, w2)"
    "net_ok w2" "gets lid out ?m w1 w2"
    using tcp_reply_gets[OF w1(2) assms(2-4)] by blast
  have "sg_seq sg \<noteq> sg_seq sg + 1" by simp
  then have "tcp_segment (send_message lid) out services salt now us sg ss w = Inr (set_key (sg_sid sg) s' ss, w2)"
    using w1(1) w2(1) assms(7-11)
    by (simp add: tcp_segment_def tcp_dispatch_def tcp_syn_def tcp_body_def tcp_input_def tcp_fin_def tcp_clean_def verdict0_def write_back_def)
  then show ?thesis using w1 w2 by blast
qed

lemma cookie_turn:
  assumes "net_ok w" "length lid < max_id_length" "length (sg_from sg) = 4" "length (sg_to sg) = 4" "spare k w name" "200 \<le> k"
    and "my_syn_cookie (sg_sid sg) salt i now = Inr c" "length salt = 16" "i \<le> 7" "now' div 64 mod 32 = now div 64 mod 32"
    and "sg_flags sg = FLAG_ACK" "sg_ack sg = c + 1" "sg_data sg = []" "find_key (sg_sid sg) ss = None"
    and "services (sg_dport sg) = Some name" "length name < max_id_length"
    and "s = new_session_t\<lparr> is_client := False, st_state := Established, local_seq := c + 1,
      local_addr := sg_to sg, local_port := sg_dport sg, peer_seq := sg_seq sg, peer_addr := sg_from sg,
      peer_port := sg_sport sg, local_window_size := INITIAL_LOCAL_WINDOW_SIZE, mss := mss_ranges ! i, shm_peer := name \<rparr>"
  shows "\<exists>w'. tcp_segment (send_message lid) out services salt now' us sg ss w = Inr (set_key (sg_sid sg) s ss, w') \<and> net_ok w'
    \<and> gets lid name (wrap_message_up_tcp (sg_sid sg) (sg_from sg) (sg_sport sg) (sg_to sg) (sg_dport sg) MI_TCP_OPEN []) w w'"
proof -
  have c: "unat ((sg_ack sg - 1) AND 7) = i" "my_syn_cookie (sg_sid sg) salt i now' = Inr (sg_ack sg - 1)"
    using my_syn_cookie_total[OF assms(8,9), of "sg_sid sg" now] assms(7,10,12) by (simp_all add: my_syn_cookie_def Let_def)
  obtain w' where w': "post (send_message lid) name
      (wrap_message_up_tcp (sg_sid sg) (sg_from sg) (sg_sport sg) (sg_to sg) (sg_dport sg) MI_TCP_OPEN []) w = Inr (True, w')" "net_ok w'"
    "gets lid name (wrap_message_up_tcp (sg_sid sg) (sg_from sg) (sg_sport sg) (sg_to sg) (sg_dport sg) MI_TCP_OPEN []) w w'"
    using post_up_gets[OF assms(1-4) _ assms(5), of "[]" "sg_sid sg" "sg_sport sg" "sg_dport sg" MI_TCP_OPEN] assms(6) by auto
  then have "tcp_dispatch (send_message lid) out services salt now' sg None w = Inr (Proceed, verdict0, Some s, w')"
    using c assms(11,12,15-17) by (simp add: tcp_dispatch_def tcp_ack_def tcp_ack_new_def peer_name_def)
  then show ?thesis using w'(2,3) assms(11,13,14,17)
    by (auto simp: tcp_segment_def tcp_body_def tcp_input_def tcp_fin_def tcp_clean_def verdict0_def write_back_def new_session_t_def)
qed

lemma ack_turn:
  assumes "sg_flags sg = FLAG_ACK" "sg_data sg = []" "find_key (sg_sid sg) ss = Some s" "st_state s \<noteq> Closed" "sg_seq sg = peer_seq s"
  shows "tcp_segment shm out services salt now us sg ss w = Inr (set_key (sg_sid sg) (after_ack us sg s) ss, w)"
proof -
  have "peer_seq (tcp_ack_session (sg_ack sg) (s\<lparr> updated_ts := us, peer_window_size := sg_window sg \<rparr>)) = sg_seq sg"
    using assms(5) by (simp add: tcp_ack_session_def Let_def)
  then show ?thesis using assms
    by (simp add: tcp_segment_def tcp_dispatch_def tcp_ack_def tcp_body_def tcp_input_def tcp_fin_def tcp_clean_def verdict0_def write_back_def after_ack_def)
qed

section \<open>Connecting\<close>

definition client_session :: "string \<Rightarrow> u32 \<Rightarrow> addr \<Rightarrow> u16 \<Rightarrow> addr \<Rightarrow> u16 \<Rightarrow> session_t" where
  "client_session name isn la lp pa pp = new_session_t\<lparr> is_client := True, shm_peer := name, st_state := Syn_sent, local_seq := isn + 1,
     start_local_seq := isn, peer_seq := 0, start_peer_seq := 0, local_window_size := INITIAL_LOCAL_WINDOW_SIZE,
     local_addr := la, local_port := lp, peer_addr := pa, peer_port := pp \<rparr>"

definition session_id_reply :: "u64 \<Rightarrow> message" where
  "session_id_reply sid = (let reply = ''session-id='' @ num_str 16 (unat sid) in
     (allocate_shm_message (length reply))\<lparr> msg_type := msg_reply, msg_data := to_bytes reply \<rparr>)"

lemma session_id_reply_small: "filled_in (session_id_reply sid)" "padded_length (session_id_reply sid) \<le> 200"
proof -
  let ?t = "''session-id='' @ num_str 16 (unat sid)"
  have "unat sid < 2 ^ LENGTH(64)" by (rule unsigned_less)
  then have "unat sid < 16 ^ Suc 15" by simp
  then have n: "length ?t \<le> 27" using length_digits_of[of 16 "unat sid" 15] by (simp add: num_str_def)
  then have u: "unat (word_of_nat (length ?t) :: u32) = length ?t" by (intro unat_of_nat_u32) simp
  then have "(word_of_nat (length ?t) :: u32) \<noteq> 0" by (metis Nil_is_append_conv length_0_conv list.distinct(1) unat_0)
  then show "filled_in (session_id_reply sid)"
    using u by (simp add: filled_in_def session_id_reply_def allocate_shm_message_def Let_def del: length_append)
  show "padded_length (session_id_reply sid) \<le> 200"
    using u n PAD8_bounds(2)[of "sizeof_message + length ?t"]
    by (simp add: padded_length_def session_id_reply_def allocate_shm_message_def sizeof_message_def Let_def)
qed

lemma open_turn:
  assumes "net_ok w" "length lid < max_id_length" "length mid < max_id_length" "length la = 4" "length pa = 4"
    and "List.find (\<lambda>p. find_key p ports = None) rand_ports = Some lp" "tcp_calc_session_id pp lp pa la = Inr sid" "length name < max_id_length"
    and "spare 200 w out" "spare 200 w (c_str (sender m))" "out \<noteq> c_str (sender m)"
  shows "\<exists>w1 w2. tcp_open (send_message lid) out la (send_message mid) rand_ports isn m pa pp name ss ports w
      = Inr (insert_key sid (client_session name isn la lp pa pp) ss, insert_key lp sid ports, w2) \<and> net_ok w2
    \<and> gets lid out (wrap_message_down la pa (tcp_pkt la pa lp pp isn 0 FLAG_SYN INITIAL_LOCAL_WINDOW_SIZE []) None) w w1
    \<and> gets mid (c_str (sender m)) (session_id_reply sid) w1 w2"
proof -
  obtain w1 where w1: "send_tcp_packet (send_message lid) out la pa lp pp isn 0 FLAG_SYN INITIAL_LOCAL_WINDOW_SIZE [] MI_IP4_MIN_TCP_MTU w
      = Inr (0, w1)" "net_ok w1" "gets lid out (wrap_message_down la pa (tcp_pkt la pa lp pp isn 0 FLAG_SYN INITIAL_LOCAL_WINDOW_SIZE []) None) w w1"
    using send_tcp_gets[OF assms(1,2,4,5) _ assms(9), of "[]" MI_IP4_MIN_TCP_MTU lp pp isn 0] by auto
  obtain r w2 where w2: "post (send_message mid) (c_str (sender m)) (session_id_reply sid) w1 = Inr (r, w2)" "net_ok w2"
    "posted inbox capacity mid w1 (c_str (sender m)) (session_id_reply sid) r w2"
    using transport.post_law[OF shm_transport[OF assms(3)] w1(2) session_id_reply_small(1)] by blast
  have "spare 200 w1 (c_str (sender m))" using gets_spare(1)[OF w1(3)] assms(10,11) by simp
  from posted_gets[OF w2(3) this session_id_reply_small(2)] have g: "r" "gets mid (c_str (sender m)) (session_id_reply sid) w1 w2" by auto
  have "tcp_open (send_message lid) out la (send_message mid) rand_ports isn m pa pp name ss ports w
      = Inr (insert_key sid (client_session name isn la lp pa pp) ss, insert_key lp sid ports, w2)"
    using w1(1) w2(1) g(1) assms(6-8)
    by (simp add: tcp_open_def peer_name_def Let_def client_session_def session_id_reply_def new_session_t_def)
  then show ?thesis using w1(3) w2(2) g(2) by blast
qed

text \<open>Two sessions that are the ends of one connection with nothing under way: what one will send next
  is what the other expects next.\<close>

definition session_key :: "session_t \<Rightarrow> u64 res" where
  "session_key s = tcp_calc_session_id (peer_port s) (local_port s) (peer_addr s) (local_addr s)"

definition at_rest :: "session_t \<Rightarrow> bool" where
  "at_rest s \<longleftrightarrow> st_state s = Established \<and> in_flight s = 0 \<and> \<not> half_closed s \<and> \<not> fin_sent s \<and> 0 < mss s
     \<and> local_window_size s = INITIAL_LOCAL_WINDOW_SIZE
     \<and> length (local_addr s) = 4 \<and> length (peer_addr s) = 4"

definition linked :: "session_t \<Rightarrow> session_t \<Rightarrow> bool" where
  "linked a b \<longleftrightarrow> at_rest a \<and> at_rest b \<and> local_seq a = peer_seq b \<and> local_seq b = peer_seq a
     \<and> local_addr a = peer_addr b \<and> local_addr b = peer_addr a \<and> local_port a = peer_port b \<and> local_port b = peer_port a"

lemma linked_sym: "linked a b \<Longrightarrow> linked b a"
  by (auto simp: linked_def)

lemma carries_data: "carries lid m m' \<Longrightarrow> msg_data m' = msg_data m"
  by (simp add: carries_def)

lemma msg_data_up_tcp: "msg_data (wrap_message_up_tcp sid f sp t dp fl d) = wrap_up_tcp sid f sp t dp fl d"
  by (simp add: wrap_message_up_tcp_def Let_def)

lemma endpoint_spare:
  assumes "endpoint_ok n e"
  shows "k \<le> n + 400 \<Longrightarrow> spare k (ep_net e) (ep_out e)" "k \<le> n + 200 \<Longrightarrow> spare k (ep_net e) (ep_app e)"
  using assms unfolding endpoint_ok_def by (blast intro: spare_mono)+

lemma acks_of_session:
  assumes "in_flight s = 0" "ak = local_seq s"
  shows "tcp_ack_session ak s = s\<lparr> l7_to_tcp := l7_to_tcp s, in_flight := 0 \<rparr>"
  using assms by (simp add: tcp_ack_session_def td_forget_def)

lemma pure_segment_fits: "path_ok p lid proto \<Longrightarrow> 44 \<le> from_mtu p \<Longrightarrow> 20 + length ([] :: bytes) \<le> use_mtu_size (from_mtu p)"
  using use_mtu_size_eq[of "from_mtu p"] by (auto simp: path_parts nat_le_iff le_nat_iff)

declare talk.simps(2) [simp del]

text \<open>The messages of the handshake, as the IPv4 servers get them.\<close>

definition seg_message :: "addr \<Rightarrow> addr \<Rightarrow> u16 \<Rightarrow> u16 \<Rightarrow> u32 \<Rightarrow> u32 \<Rightarrow> byte \<Rightarrow> bytes \<Rightarrow> message" where
  "seg_message f t sp dp sq ak fl d = wrap_message_down f t (tcp_pkt f t sp dp sq ak fl INITIAL_LOCAL_WINDOW_SIZE d) None"

lemma talk_one:
  assumes "path_ok p lid 6" "f = from_addr p" "to_addr p = t" "20 + length d \<le> use_mtu_size (from_mtu p)"
    and "carries lid (seg_message f t sp dp sq ak fl d) m" "tcp_calc_session_id sp dp f t = Inr sid"
    and "tcp_segment (send_message (ep_id e)) (ep_out e) (ep_services e) (ep_salt e) (ep_now e) (ep_us e)
        (seg f t sp dp sid sq ak fl INITIAL_LOCAL_WINDOW_SIZE d) ss (ep_net e) = Inr (ss', w)"
  shows "talk p e (m # ms) ss = res_bind (talk p e ms ss') (\<lambda>(ss, out, up).
        Inr (ss, news (ep_net e) w (ep_out e) @ out, news (ep_net e) w (ep_app e) @ up))"
  using talk_segment[OF assms(1-4) assms(5)[unfolded seg_message_def] assms(6)] assms(7) by simp

lemma talk_syn:
  assumes "endpoint_ok n b" "ep_services b dp = Some name" "path_ok p lid 6" "f = from_addr p" "to_addr p = t" "44 \<le> from_mtu p"
    and "tcp_calc_session_id sp dp f t = Inr sid" "find_key sid ss = None" "my_syn_cookie sid (ep_salt b) 1 (ep_now b) = Inr k"
    and "carries lid (seg_message f t sp dp sq 0 FLAG_SYN []) m"
  shows "\<exists>m'. talk p b [m] ss = Inr (ss, [m'], []) \<and> carries (ep_id b) (seg_message t f dp sp k (sq + 1) (FLAG_SYN OR FLAG_ACK) []) m'"
proof -
  let ?sg = "seg f t sp dp sid sq 0 FLAG_SYN INITIAL_LOCAL_WINDOW_SIZE []"
  note ob = assms(1)[unfolded endpoint_ok_def]
  have "length t = 4" "length f = 4" using path_lengths[OF assms(3)] assms(4,5) by simp_all
  then obtain w where w: "tcp_segment (send_message (ep_id b)) (ep_out b) (ep_services b) (ep_salt b) (ep_now b) (ep_us b) ?sg ss (ep_net b) = Inr (ss, w)"
    "gets (ep_id b) (ep_out b) (seg_message t f dp sp k (sq + 1) (FLAG_SYN OR FLAG_ACK) []) (ep_net b) w"
    using syn_turn[of "ep_net b" "ep_id b" ?sg 200 "ep_out b" ss "ep_services b" name "ep_salt b" "ep_now b" k "ep_us b"]
      ob assms(2,8,9) endpoint_spare(1)[OF assms(1), of 200] by (auto simp: reply_pkt_def seg_message_def)
  from talk_one[OF assms(3-5) pure_segment_fits[OF assms(3,6)] assms(10,7) w(1), of "[]"] news_gets[OF w(2)] ob show ?thesis by auto
qed

lemma talk_synack:
  assumes "endpoint_ok n a" "path_ok p lid 6" "f = from_addr p" "to_addr p = t" "44 \<le> from_mtu p"
    and "tcp_calc_session_id sp dp f t = Inr sid" "find_key sid ss = Some s" "is_client s" "st_state s = Syn_sent" "local_window_size s = INITIAL_LOCAL_WINDOW_SIZE"
    and "carries lid (seg_message f t sp dp sq ak (FLAG_SYN OR FLAG_ACK) []) m"
    and "s' = s\<lparr> updated_ts := ep_us a, peer_window_size := INITIAL_LOCAL_WINDOW_SIZE, st_state := Established, start_peer_seq := sq, peer_seq := sq + 1 \<rparr>"
  shows "\<exists>m1 m2. talk p a [m] ss = Inr (set_key sid s' ss, [m1, m2], [])
    \<and> carries (ep_id a) (seg_message t f dp sp (local_seq s) (sq + 1) FLAG_ACK []) m1
    \<and> carries (ep_id a) (seg_message t f dp sp (local_seq s) (sq + 1) FLAG_ACK []) m2"
proof -
  let ?sg = "seg f t sp dp sid sq ak (FLAG_SYN OR FLAG_ACK) INITIAL_LOCAL_WINDOW_SIZE []"
  let ?m = "seg_message t f dp sp (local_seq s) (sq + 1) FLAG_ACK []"
  note oa = assms(1)[unfolded endpoint_ok_def]
  have "length t = 4" "length f = 4" using path_lengths[OF assms(2)] assms(3,4) by simp_all
  then obtain w1 w2 where w: "tcp_segment (send_message (ep_id a)) (ep_out a) (ep_services a) (ep_salt a) (ep_now a) (ep_us a) ?sg ss (ep_net a)
      = Inr (set_key sid s' ss, w2)" "gets (ep_id a) (ep_out a) ?m (ep_net a) w1" "gets (ep_id a) (ep_out a) ?m w1 w2"
    using synack_turn[of "ep_net a" "ep_id a" ?sg 400 "ep_out a" ss s s' "ep_us a" "ep_services a" "ep_salt a" "ep_now a"]
      oa assms(7-10,12) endpoint_spare(1)[OF assms(1), of 400] by (auto simp: reply_pkt_def seg_message_def)
  have n: "news (ep_net a) w2 (ep_app a) = []" using w(2,3) oa by (auto simp: gets_def adds_def news_def)
  obtain m1 m2 where "news (ep_net a) w2 (ep_out a) = [m1, m2]" "carries (ep_id a) ?m m1" "carries (ep_id a) ?m m2"
    using w(2,3) by (auto simp: gets_def adds_def news_def)
  then show ?thesis using talk_one[OF assms(2-4) pure_segment_fits[OF assms(2,5)] assms(11,6) w(1), of "[]"] n by auto
qed

lemma talk_cookie:
  assumes "endpoint_ok n b" "ep_services b dp = Some (ep_app b)" "path_ok p lid 6" "f = from_addr p" "to_addr p = t" "44 \<le> from_mtu p"
    and "tcp_calc_session_id sp dp f t = Inr sid" "find_key sid ss = None" "my_syn_cookie sid (ep_salt b) 1 now = Inr k"
    and "ep_now b div 64 mod 32 = now div 64 mod 32" "carries lid (seg_message f t sp dp sq (k + 1) FLAG_ACK []) m"
    and "s = new_session_t\<lparr> is_client := False, st_state := Established, local_seq := k + 1,
      local_addr := t, local_port := dp, peer_seq := sq, peer_addr := f,
      peer_port := sp, local_window_size := INITIAL_LOCAL_WINDOW_SIZE, mss := 536, shm_peer := ep_app b \<rparr>"
  shows "\<exists>m'. talk p b (m # ms) ss = res_bind (talk p b ms (set_key sid s ss)) (\<lambda>(ss, out, up). Inr (ss, out, m' # up))
    \<and> carries (ep_id b) (wrap_message_up_tcp sid f sp t dp MI_TCP_OPEN []) m'"
proof -
  let ?sg = "seg f t sp dp sid sq (k + 1) FLAG_ACK INITIAL_LOCAL_WINDOW_SIZE []"
  note ob = assms(1)[unfolded endpoint_ok_def]
  have "length t = 4" "length f = 4" using path_lengths[OF assms(3)] assms(4,5) by simp_all
  moreover have "mss_ranges ! 1 = 536" by (simp add: mss_ranges_def)
  ultimately obtain w where w: "tcp_segment (send_message (ep_id b)) (ep_out b) (ep_services b) (ep_salt b) (ep_now b) (ep_us b) ?sg ss (ep_net b)
      = Inr (set_key sid s ss, w)" "gets (ep_id b) (ep_app b) (wrap_message_up_tcp sid f sp t dp MI_TCP_OPEN []) (ep_net b) w"
    using cookie_turn[of "ep_net b" "ep_id b" ?sg 200 "ep_app b" "ep_salt b" 1 now k "ep_now b" ss "ep_services b" s "ep_out b" "ep_us b"]
      ob assms(2,8-10,12) endpoint_spare(2)[OF assms(1), of 200] by auto
  from talk_one[OF assms(3-5) pure_segment_fits[OF assms(3,6)] assms(11,7) w(1), of ms] news_gets[OF w(2)] ob show ?thesis by auto
qed

lemma talk_ack:
  assumes "path_ok p lid 6" "f = from_addr p" "to_addr p = t" "44 \<le> from_mtu p" "tcp_calc_session_id sp dp f t = Inr sid"
    and "find_key sid ss = Some s" "st_state s \<noteq> Closed" "carries lid (seg_message f t sp dp (peer_seq s) ak FLAG_ACK []) m"
  shows "talk p e (m # ms) ss = talk p e ms (set_key sid (after_ack (ep_us e) (seg f t sp dp sid (peer_seq s) ak FLAG_ACK INITIAL_LOCAL_WINDOW_SIZE []) s) ss)"
proof -
  let ?sg = "seg f t sp dp sid (peer_seq s) ak FLAG_ACK INITIAL_LOCAL_WINDOW_SIZE []"
  have "tcp_segment (send_message (ep_id e)) (ep_out e) (ep_services e) (ep_salt e) (ep_now e) (ep_us e) ?sg ss (ep_net e)
      = Inr (set_key sid (after_ack (ep_us e) ?sg s) ss, ep_net e)"
    using ack_turn[of ?sg ss s] assms(6,7) by simp
  from talk_one[OF assms(1-3) pure_segment_fits[OF assms(1,4)] assms(8,5) this, of ms] show ?thesis
    by (simp add: news_same split_def res_bind_def split: sum.split)
qed


definition sample_path :: "addr \<Rightarrow> addr \<Rightarrow> path" where
  "sample_path src dest = \<lparr> from_addr = src, from_bits = 24, from_gw = [10, 0, 0, 254], from_replies = ''ip4-replies'', from_resolver = ''arp-resolver'',
     from_now = 0, from_pending = \<lparr> pending_messages = [], pm_heap = Map.empty, pm_next = 0 \<rparr>, from_upper_world = usual_net,
     from_arp = ''arp'', from_arp_out = ''tap'', from_arp_state = \<lparr> requests = [], arp_cache = [(dest, replicate 6 4)] \<rparr>, from_arp_nr = 0,
     from_arp_world = usual_net, from_junk = (\<lambda>_. 0),
     from_ip = ''ip4'', from_link = ''tap'', from_protos = [''tcp'' \<mapsto> 6, ''udp'' \<mapsto> 17], from_mtu = 1500, from_ident = 7,
     from_types = [''ip4'' \<mapsto> 0x800], from_mac = replicate 6 2, from_world = usual_net, to_mac = replicate 6 4, to_tap = ''tap'',
     to_frames = [0x800 \<mapsto> ''ip4''], to_tap_world = usual_net, to_ip = ''ip4'', to_ip_queue = ''ip4'', to_addr = dest,
     to_packets = [6 \<mapsto> ''tcp'', 17 \<mapsto> ''udp''], to_queue = ''tcp'', to_icmp = ''icmp'', to_junk = (\<lambda>_. 0), to_now = 0, to_frags = [], to_world = usual_net \<rparr>"

definition sample_endpoint :: "string \<Rightarrow> endpoint" where
  "sample_endpoint app = \<lparr> ep_id = ''tcp'', ep_out = ''ip4'', ep_app = app, ep_services = [80 \<mapsto> app], ep_salt = replicate 16 7,
     ep_now = 5000, ep_us = 9, ep_net = usual_net \<rparr>"

lemma sample_fields [simp]:
  "ep_id (sample_endpoint app) = ''tcp''" "ep_out (sample_endpoint app) = ''ip4''" "ep_app (sample_endpoint app) = app"
  "ep_services (sample_endpoint app) = [80 \<mapsto> app]" "ep_now (sample_endpoint app) = 5000" "ep_net (sample_endpoint app) = usual_net"
  "to_addr (sample_path src dest) = dest" "from_addr (sample_path src dest) = src" "from_mtu (sample_path src dest) = 1500"
  by (simp_all add: sample_endpoint_def sample_path_def)

lemma sample_hops:
  "route_via [10, 0, 0, 1] 24 [10, 0, 0, 254] [10, 0, 0, 2] = Inr [10, 0, 0, 2]"
  "route_via [10, 0, 0, 2] 24 [10, 0, 0, 254] [10, 0, 0, 1] = Inr [10, 0, 0, 1]"
  by code_simp+

lemma sample_path_ok:
  "path_ok (sample_path [10, 0, 0, 1] [10, 0, 0, 2]) ''tcp'' 6" "path_ok (sample_path [10, 0, 0, 2] [10, 0, 0, 1]) ''tcp'' 6"
  by (simp_all add: path_parts next_hop_known_def free_numbers_def sample_path_def usual_net_ok spare_usual_net max_id_length_def use_mtu_size_eq sample_hops)

lemma sample_endpoint_ok: "app \<noteq> ''ip4'' \<Longrightarrow> length app < max_id_length \<Longrightarrow> n \<le> 15000 \<Longrightarrow> endpoint_ok n (sample_endpoint app)"
  by (simp add: endpoint_ok_def sample_endpoint_def usual_net_ok spare_usual_net max_id_length_def)


section \<open>A round of data\<close>

lemma data_flags [simp]:
  "has_flag (FLAG_ACK OR FLAG_PSH) FLAG_ACK" "\<not> has_flag (FLAG_ACK OR FLAG_PSH) FLAG_SYN" "\<not> has_flag (FLAG_ACK OR FLAG_PSH) FLAG_RST"
  "\<not> has_flag (FLAG_ACK OR FLAG_PSH) FLAG_FIN"
  by (simp_all add: has_flag_def FLAG_ACK_def FLAG_PSH_def FLAG_SYN_def FLAG_RST_def FLAG_FIN_def)

lemma data_turn:
  assumes "net_ok w" "length lid < max_id_length" "data_segment sg" "find_key (sg_sid sg) ss = Some s" "st_state s \<noteq> Closed" "sg_seq sg = peer_seq s"
    and "length (sg_data sg) \<le> 65535" "spare (200 + length (sg_data sg)) w (shm_peer s)" "spare 200 w out" "out \<noteq> shm_peer s"
    and "q = peer_seq s + word_of_nat (length (sg_data sg))"
  shows "\<exists>w1 w'. tcp_segment (send_message lid) out services salt now us sg ss w = Inr (set_key (sg_sid sg) ((after_ack us sg s)\<lparr> peer_seq := q \<rparr>) ss, w')
    \<and> gets lid (shm_peer s) (data_message sg s) w w1
    \<and> gets lid out (reply_pkt sg (local_seq (after_ack us sg s)) q FLAG_ACK (local_window_size s)) w1 w'"
proof -
  let ?a = "reply_pkt sg (local_seq (after_ack us sg s)) q FLAG_ACK (local_window_size s)"
  obtain r1 w1 s' w' where p: "posted inbox capacity lid w (shm_peer s) (data_message sg s) r1 w1"
    "tcp_segment (send_message lid) out services salt now us sg ss w = Inr (set_key (sg_sid sg) s' ss, w')"
    "if r1 then \<exists>r2. acks inbox capacity lid out sg (after_ack us sg s) q w1 r2 w'
           \<and> s' = (if r2 then (after_ack us sg s)\<lparr> peer_seq := q \<rparr> else after_ack us sg s)
        else s' = after_ack us sg s \<and> w' = w1"
    using transport.data_in_order[OF shm_transport[OF assms(2)] assms(1,3-6), of out services salt now us] assms(11) by blast
  have l: "length (sg_from sg) = 4" "length (sg_to sg) = 4" using assms(3) by (simp_all add: data_segment_def)
  then have "padded_length (data_message sg s) \<le> 200 + length (sg_data sg)" unfolding data_message_def using assms(7) by (intro padded_length_up_tcp)
  from posted_gets[OF p(1) assms(8) this] have g: "r1" "gets lid (shm_peer s) (data_message sg s) w w1" by auto
  then obtain r2 w2 where r2: "posted inbox capacity lid w1 out ?a r2 w2" "r2 \<Longrightarrow> w' = w2"
    "s' = (if r2 then (after_ack us sg s)\<lparr> peer_seq := q \<rparr> else after_ack us sg s)"
    using p(3) by (auto simp: acks_def split: if_splits)
  have "padded_length ?a \<le> 200"
    using padded_length_tcp[OF l(2,1), of "[]"] unfolding reply_pkt_def by force
  moreover have "spare 200 w1 out" using gets_spare(1)[OF g(2)] assms(9,10) by simp
  ultimately have "r2" "gets lid out ?a w1 w2" using posted_gets[OF r2(1)] by auto
  then show ?thesis using p(2) g(2) r2(2,3) by auto
qed

text \<open>The last segment carries a FIN when the application has ended the stream.\<close>

lemma sender_turn:
  assumes "endpoint_ok (unat (mss s)) e" "at_rest s" "n = min (length (td_bytes (l7_to_tcp s))) (unat (mss s))" "0 < n \<or> fin"
    and "fin \<longleftrightarrow> l7_send_fin s \<and> length (td_bytes (l7_to_tcp s)) = n"
  shows "\<exists>w'. tcp_sender_pass (send_message (ep_id e)) (ep_out e) [(sid, s)] (ep_net e)
      = Inr ([(sid, (if fin then s\<lparr> local_seq := local_seq s + 1, fin_sent := True \<rparr> else s)\<lparr> in_flight := n \<rparr>)], w')
    \<and> gets (ep_id e) (ep_out e) (seg_message (local_addr s) (peer_addr s) (local_port s) (peer_port s) (local_seq s) (peer_seq s)
        ((if fin then FLAG_FIN else 0) OR FLAG_ACK OR FLAG_PSH) (take n (td_bytes (l7_to_tcp s)))) (ep_net e) w'"
proof -
  define d flags where "d = take n (td_bytes (l7_to_tcp s))" and "flags = (if fin then FLAG_FIN else 0) OR FLAG_ACK OR FLAG_PSH"
  note oe = assms(1)[unfolded endpoint_ok_def] and os = assms(2)[unfolded at_rest_def]
  have "unat (mss s) < 2 ^ LENGTH(16)" by (rule unsigned_less)
  then have m: "min 65536 (unat (mss s)) = unat (mss s)" "n \<le> 65535" using assms(3) by simp_all
  have d: "length d = n" "n \<le> unat (mss s)" "d \<noteq> [] \<or> fin" using assms(3,4) by (auto simp: d_def)
  obtain w' where w': "send_tcp_packet (send_message (ep_id e)) (ep_out e) (local_addr s) (peer_addr s) (local_port s) (peer_port s) (local_seq s) (peer_seq s)
      flags (local_window_size s) d (mss s) (ep_net e) = Inr (int n, w')"
    "gets (ep_id e) (ep_out e) (seg_message (local_addr s) (peer_addr s) (local_port s) (peer_port s) (local_seq s) (peer_seq s) flags d) (ep_net e) w'"
    using send_tcp_gets[of "ep_net e" "ep_id e" "local_addr s" "peer_addr s" d "mss s" "200 + length d" "ep_out e"] oe os d m(2) endpoint_spare(1)[OF assms(1), of "200 + length d"]
    unfolding seg_message_def by fastforce
  have pk: "td_peek (unat (mss s)) (l7_to_tcp s) = (d, length (td_bytes (l7_to_tcp s)) = n)"
    using assms(3) by (simp add: td_peek_def Let_def d_def)
  have "in_flight s = 0" "\<not> fin_sent s" "(if length (td_bytes (l7_to_tcp s)) = n then l7_send_fin s else False) = fin" using os assms(5) by simp_all
  then have "tcp_sender_session (send_message (ep_id e)) (ep_out e) s (ep_net e)
      = Inr (Some ((if fin then s\<lparr> local_seq := local_seq s + 1, fin_sent := True \<rparr> else s)\<lparr> in_flight := n \<rparr>), w')"
    using w'(1) assms(4) d(1,3) unfolding tcp_sender_session_def m(1) pk flags_def by (simp add: Let_def)
  then show ?thesis using w'(2) unfolding d_def flags_def by simp
qed

lemma l7_bytes_data:
  assumes "carries lid (wrap_message_up_tcp sid f sp t dp fl d) m" "length f = 4" "length t = 4" "length d \<le> 65535"
  shows "l7_bytes m = d"
proof -
  have "msg_data m = wrap_up_tcp sid f sp t dp fl d @ []" using carries_data[OF assms(1)] by (simp add: msg_data_up_tcp)
  then show ?thesis using unwrap_wrap_up_tcp[of f t d sid sp dp fl "[]"] assms(2-4) by (simp add: l7_bytes_def)
qed

lemma after_ack_nothing:
  "in_flight s = 0 \<Longrightarrow> sg_ack sg = local_seq s \<Longrightarrow> after_ack us sg s = s\<lparr> updated_ts := us, peer_window_size := sg_window sg, l7_to_tcp := l7_to_tcp s \<rparr>"
  by (simp add: after_ack_def tcp_ack_session_def td_forget_def)

lemma after_ack_all:
  assumes "in_flight s = n" "n \<le> length (td_bytes (l7_to_tcp s))" "sg_ack sg = local_seq s + word_of_nat n" "unat (local_seq s) + n < 2 ^ 32"
  shows "after_ack us sg s = s\<lparr> updated_ts := us, peer_window_size := sg_window sg, in_flight := 0, local_seq := local_seq s + word_of_nat n,
    l7_to_tcp := \<lparr> td_seq = td_seq (l7_to_tcp s) + word_of_nat n, td_bytes = drop n (td_bytes (l7_to_tcp s)) \<rparr> \<rparr>"
proof -
  have n: "unat (word_of_nat n :: u32) = n" using assms(4) by (intro unat_of_nat_u32) simp
  have "unat (local_seq s + word_of_nat n) = unat (local_seq s) + n" using assms(4) n by (subst unat_add_lem[THEN iffD1]) simp_all
  then have "local_seq s \<le> local_seq s + word_of_nat n" by (simp add: word_le_nat_alt)
  then show ?thesis using assms(1-3) n by (simp add: after_ack_def tcp_ack_session_def td_forget_def Let_def)
qed

lemma talk_data:
  assumes "endpoint_ok n e" "path_ok p lid 6" "f = from_addr p" "to_addr p = t" "20 + length d \<le> use_mtu_size (from_mtu p)" "0 < length d"
    and "tcp_calc_session_id sp dp f t = Inr sid" "at_rest s" "shm_peer s = ep_app e" "ak = local_seq s"
    and "carries lid (seg_message f t sp dp (peer_seq s) ak (FLAG_ACK OR FLAG_PSH) d) m" "length d \<le> n"
    and "s' = s\<lparr> updated_ts := ep_us e, peer_window_size := INITIAL_LOCAL_WINDOW_SIZE, peer_seq := peer_seq s + word_of_nat (length d) \<rparr>"
  shows "\<exists>m1 m2. talk p e [m] [(sid, s)] = Inr ([(sid, s')], [m1], [m2]) \<and> l7_bytes m2 = d
    \<and> carries (ep_id e) (seg_message t f dp sp (local_seq s) (peer_seq s + word_of_nat (length d)) FLAG_ACK []) m1"
proof -
  let ?sg = "seg f t sp dp sid (peer_seq s) ak (FLAG_ACK OR FLAG_PSH) INITIAL_LOCAL_WINDOW_SIZE d"
  let ?a = "seg_message t f dp sp (local_seq s) (peer_seq s + word_of_nat (length d)) FLAG_ACK []"
  note oe = assms(1)[unfolded endpoint_ok_def] and os = assms(8)[unfolded at_rest_def]
  have t: "length t = 4" "length f = 4" using path_lengths[OF assms(2)] assms(3,4) by simp_all
  have d: "length d \<le> 65535" using assms(2,5) use_mtu_size_bounds[of "from_mtu p"] by (auto simp: path_ok_def)
  have ak: "after_ack (ep_us e) ?sg s = s\<lparr> updated_ts := ep_us e, peer_window_size := INITIAL_LOCAL_WINDOW_SIZE, l7_to_tcp := l7_to_tcp s \<rparr>"
    using after_ack_nothing[of s ?sg] os assms(10) by simp
  have sg: "data_segment ?sg" using assms(6) t d by (simp add: data_segment_def small_def)
  obtain w1 w where w: "tcp_segment (send_message (ep_id e)) (ep_out e) (ep_services e) (ep_salt e) (ep_now e) (ep_us e) ?sg [(sid, s)] (ep_net e)
      = Inr ([(sid, s')], w)" "gets (ep_id e) (ep_app e) (data_message ?sg s) (ep_net e) w1" "gets (ep_id e) (ep_out e) ?a w1 w"
    using data_turn[OF _ _ sg _ _ _ _ _ _ _ refl, of "ep_net e" "ep_id e" "[(sid, s)]" s "ep_out e" "ep_services e" "ep_salt e" "ep_now e" "ep_us e"]
      oe os d assms(9,12,13) endpoint_spare(2)[OF assms(1), of "200 + length d"] endpoint_spare(1)[OF assms(1), of 200] unfolding ak
    by (simp add: find_key_def reply_pkt_def seg_message_def) blast
  obtain m1 m2 where m: "news (ep_net e) w (ep_out e) = [m1]" "carries (ep_id e) ?a m1" "news (ep_net e) w (ep_app e) = [m2]" "carries (ep_id e) (data_message ?sg s) m2"
    using w(2,3) oe by (auto simp: gets_def adds_def news_def)
  have "l7_bytes m2 = d" using m(4) t d unfolding data_message_def by (auto intro: l7_bytes_data)
  moreover have "talk p e [m] [(sid, s)] = Inr ([(sid, s')], [m1], [m2])"
    using talk_one[OF assms(2-5,11,7) w(1), of "[]"] m by simp
  ultimately show ?thesis using m(2) by blast
qed

text \<open>The ends of a connection with paths in both directions and the applications at them.\<close>

definition connected :: "path \<Rightarrow> path \<Rightarrow> endpoint \<Rightarrow> endpoint \<Rightarrow> u64 \<Rightarrow> u64 \<Rightarrow> session_t \<Rightarrow> session_t \<Rightarrow> bool" where
  "connected there home a b sa sb c s \<longleftrightarrow> endpoint_ok (unat (mss c)) a \<and> endpoint_ok (unat (mss c)) b \<and> linked c s \<and> session_key c = Inr sa \<and> session_key s = Inr sb
     \<and> shm_peer c = ep_app a \<and> shm_peer s = ep_app b
     \<and> path_ok there (ep_id a) 6 \<and> local_addr c = from_addr there \<and> to_addr there = peer_addr c \<and> 20 + unat (mss c) \<le> use_mtu_size (from_mtu there) \<and> 44 \<le> from_mtu there
     \<and> path_ok home (ep_id b) 6 \<and> peer_addr c = from_addr home \<and> to_addr home = local_addr c \<and> 44 \<le> from_mtu home"

lemma tcp_round_delivers:
  assumes "connected there home a b sa sb c s" "n = min (length (td_bytes (l7_to_tcp c))) (unat (mss c))" "0 < n" "\<not> (l7_send_fin c \<and> length (td_bytes (l7_to_tcp c)) = n)"
    and "unat (local_seq c) + n < 2 ^ 32"
  shows "\<exists>c' s' m. tcp_round there home a b [(sa, c)] [(sb, s)] = Inr ([(sa, c')], [(sb, s')], [m])
    \<and> connected there home a b sa sb c' s' \<and> l7_bytes m = take n (td_bytes (l7_to_tcp c)) \<and> td_bytes (l7_to_tcp c') = drop n (td_bytes (l7_to_tcp c))
    \<and> mss c' = mss c \<and> l7_send_fin c' = l7_send_fin c \<and> local_seq c' = local_seq c + word_of_nat n"
proof -
  define d c1 where "d = take n (td_bytes (l7_to_tcp c))" and "c1 = c\<lparr> in_flight := n \<rparr>"
  define s' where "s' = s\<lparr> updated_ts := ep_us b, peer_window_size := INITIAL_LOCAL_WINDOW_SIZE, peer_seq := peer_seq s + word_of_nat (length d) \<rparr>"
  note con = assms(1)[unfolded connected_def] and li = assms(1)[unfolded connected_def linked_def at_rest_def]
  have d: "length d = n" "n \<le> unat (mss c)" using assms(2) by (auto simp: d_def)
  have k: "tcp_calc_session_id (peer_port c) (local_port c) (peer_addr c) (local_addr c) = Inr sa"
    "tcp_calc_session_id (local_port c) (peer_port c) (local_addr c) (peer_addr c) = Inr sb" using li by (auto simp: session_key_def)
  have r: "at_rest c" "at_rest s" using con by (simp_all add: linked_def)
  obtain w where w: "tcp_sender_pass (send_message (ep_id a)) (ep_out a) [(sa, c)] (ep_net a) = Inr ([(sa, c1)], w)"
    "gets (ep_id a) (ep_out a) (seg_message (local_addr c) (peer_addr c) (local_port c) (peer_port c) (peer_seq s) (local_seq s) (FLAG_ACK OR FLAG_PSH) d) (ep_net a) w"
    using sender_turn[OF _ r(1) assms(2), of a False sa] assms(3) assms(4) con li unfolding d_def c1_def by auto
  from news_gets(1)[OF w(2)] obtain m where m: "news (ep_net a) w (ep_out a) = [m]"
    "carries (ep_id a) (seg_message (local_addr c) (peer_addr c) (local_port c) (peer_port c) (peer_seq s) (local_seq s) (FLAG_ACK OR FLAG_PSH) d) m" by blast
  obtain m1 m2 where m1: "talk there b [m] [(sb, s)] = Inr ([(sb, s')], [m1], [m2])" "l7_bytes m2 = d"
    "carries (ep_id b) (seg_message (peer_addr c) (local_addr c) (peer_port c) (local_port c) (peer_seq c1) (local_seq c + word_of_nat n) FLAG_ACK []) m1"
    using talk_data[OF _ _ _ _ _ _ k(2) r(2) _ refl m(2) _ s'_def, of "unat (mss c)" there] con li d assms(3) by (auto simp: c1_def)
  let ?sg = "seg (peer_addr c) (local_addr c) (peer_port c) (local_port c) sa (peer_seq c1) (local_seq c + word_of_nat n) FLAG_ACK INITIAL_LOCAL_WINDOW_SIZE []"
  define c' where "c' = c1\<lparr> updated_ts := ep_us a, peer_window_size := INITIAL_LOCAL_WINDOW_SIZE, in_flight := 0, local_seq := local_seq c + word_of_nat n,
    l7_to_tcp := \<lparr> td_seq = td_seq (l7_to_tcp c) + word_of_nat n, td_bytes = drop n (td_bytes (l7_to_tcp c)) \<rparr> \<rparr>"
  have "after_ack (ep_us a) ?sg c1 = c'"
    using after_ack_all[of c1 n ?sg "ep_us a"] assms(2,5) by (simp add: c'_def c1_def)
  moreover have "talk home a [m1] [(sa, c1)] = talk home a [] (set_key sa (after_ack (ep_us a) ?sg c1) [(sa, c1)])"
    using con li m1(3) by (intro talk_ack[OF _ _ _ _ k(1)]) (auto simp: find_key_def c1_def)
  ultimately have "tcp_round there home a b [(sa, c)] [(sb, s)] = Inr ([(sa, c')], [(sb, s')], [m2])"
    using w(1) m(1) m1(1) by (simp add: tcp_round_def)
  moreover have "connected there home a b sa sb c' s'"
    using assms(1) d(1) by (auto simp: connected_def linked_def at_rest_def session_key_def c'_def c1_def s'_def)
  ultimately show ?thesis using m1(2) by (auto simp: d_def c'_def c1_def)
qed

text \<open>The number of rounds for \<open>n\<close> bytes.\<close>

definition rounds_for :: "nat \<Rightarrow> nat \<Rightarrow> nat" where
  "rounds_for m n = (n + m - 1) div m"

lemma rounds_for_Suc: "0 < m \<Longrightarrow> 0 < n \<Longrightarrow> rounds_for m n = Suc (rounds_for m (n - min n m))"
proof (cases "n \<le> m")
  case True
  moreover assume "0 < m" "0 < n"
  ultimately have "(n + m - 1) div m = 1" by (intro div_nat_eqI) auto
  then show ?thesis using True \<open>0 < m\<close> by (simp add: rounds_for_def)
next
  case False
  assume "0 < m"
  have "n + m - 1 = (n - m + m - 1) + m" using False by simp
  then show ?thesis using \<open>0 < m\<close> False unfolding rounds_for_def by (simp only: div_add_self2) simp
qed

text \<open>C15: Whatever an application has written to a connection arrives at the other end: after as many rounds as
  there are segments, each through all servers of both hosts and back for the acknowledgement, the application there has
  exactly these bytes in order, nothing is left to send, and the two sessions agree again.  The sequence
  number must not wrap on the way, the queues must have room for a segment, and the hardware addresses must be known.\<close>

theorem tcp_stream_across_hosts:
  assumes "connected there home a b sa sb c s" "\<not> l7_send_fin c" "unat (local_seq c) + length (td_bytes (l7_to_tcp c)) < 2 ^ 32"
  shows "\<exists>c' s' up. tcp_rounds (rounds_for (unat (mss c)) (length (td_bytes (l7_to_tcp c)))) there home a b [(sa, c)] [(sb, s)]
      = Inr ([(sa, c')], [(sb, s')], up)
    \<and> concat (map l7_bytes up) = td_bytes (l7_to_tcp c) \<and> td_bytes (l7_to_tcp c') = [] \<and> connected there home a b sa sb c' s'"
  using assms
proof (induction "length (td_bytes (l7_to_tcp c))" arbitrary: c s rule: less_induct)
  case less
  let ?S = "td_bytes (l7_to_tcp c)" and ?m = "unat (mss c)"
  have m: "0 < ?m" using less.prems(1) by (auto simp: connected_def linked_def at_rest_def unat_gt_0)
  show ?case
  proof (cases "?S = []")
    case True
    moreover have "rounds_for ?m 0 = 0" using m by (simp add: rounds_for_def)
    ultimately show ?thesis using less.prems(1) by simp
  next
    case False
    define n where "n = min (length ?S) ?m"
    have n: "0 < n" "n \<le> length ?S" using False m by (auto simp: n_def)
    obtain c1 s1 up where 1: "tcp_round there home a b [(sa, c)] [(sb, s)] = Inr ([(sa, c1)], [(sb, s1)], [up])"
      "connected there home a b sa sb c1 s1" "l7_bytes up = take n ?S" "td_bytes (l7_to_tcp c1) = drop n ?S" "mss c1 = mss c" "l7_send_fin c1 = l7_send_fin c"
      "local_seq c1 = local_seq c + word_of_nat n"
      using tcp_round_delivers[OF less.prems(1) n_def n(1)] less.prems(2,3) n(2) by auto
    have "unat (word_of_nat n :: u32) = n" using less.prems(3) n(2) by (intro unat_of_nat_u32) simp
    then have "unat (local_seq c1) = unat (local_seq c) + n"
      unfolding 1(7) using less.prems(3) n(2) by (subst unat_add_lem[THEN iffD1]) simp_all
    then have "unat (local_seq c1) + length (td_bytes (l7_to_tcp c1)) < 2 ^ 32" using less.prems(3) n(2) 1(4) by simp
    moreover have "length (td_bytes (l7_to_tcp c1)) < length ?S" using n 1(4) by simp
    ultimately obtain c' s' ups where "tcp_rounds (rounds_for ?m (length (drop n ?S))) there home a b [(sa, c1)] [(sb, s1)] = Inr ([(sa, c')], [(sb, s')], ups)"
      "concat (map l7_bytes ups) = drop n ?S" "td_bytes (l7_to_tcp c') = []" "connected there home a b sa sb c' s'"
      using less.hyps[OF _ 1(2)] less.prems(2) 1(4-6) by auto
    moreover have "rounds_for ?m (length ?S) = Suc (rounds_for ?m (length (drop n ?S)))" using rounds_for_Suc[OF m] n by (simp add: n_def)
    ultimately show ?thesis using 1(1,3) by simp
  qed
qed

definition sample_end :: "addr \<Rightarrow> u16 \<Rightarrow> addr \<Rightarrow> u16 \<Rightarrow> u32 \<Rightarrow> u32 \<Rightarrow> string \<Rightarrow> bytes \<Rightarrow> session_t" where
  "sample_end la lp pa pp lseq pseq app d = new_session_t\<lparr> st_state := Established, local_seq := lseq, peer_seq := pseq, local_addr := la, local_port := lp,
     peer_addr := pa, peer_port := pp, local_window_size := INITIAL_LOCAL_WINDOW_SIZE, shm_peer := app, l7_to_tcp := \<lparr> td_seq = 0, td_bytes = d \<rparr> \<rparr>"

lemma sample_connected:
  "\<exists>sa sb. connected (sample_path [10, 0, 0, 1] [10, 0, 0, 2]) (sample_path [10, 0, 0, 2] [10, 0, 0, 1]) (sample_endpoint ''cli'') (sample_endpoint ''http'') sa sb
     ((sample_end [10, 0, 0, 1] 40000 [10, 0, 0, 2] 80 78 900 ''cli'' d)\<lparr> l7_send_fin := fin \<rparr>)
     (sample_end [10, 0, 0, 2] 80 [10, 0, 0, 1] 40000 900 78 ''http'' [])"
proof -
  define c where "c = (sample_end [10, 0, 0, 1] 40000 [10, 0, 0, 2] 80 78 900 ''cli'' d)\<lparr> l7_send_fin := fin \<rparr>"
  define s where "s = sample_end [10, 0, 0, 2] 80 [10, 0, 0, 1] 40000 900 78 ''http'' []"
  have l: "length [10, 0, 0, 1 :: byte] = 4" "length [10, 0, 0, 2 :: byte] = 4" by simp_all
  obtain sa sb where k: "tcp_calc_session_id 80 40000 [10, 0, 0, 2] [10, 0, 0, 1] = Inr sa" "tcp_calc_session_id 40000 80 [10, 0, 0, 1] [10, 0, 0, 2] = Inr sb"
    using tcp_calc_session_id_total[OF l(2,1)] tcp_calc_session_id_total[OF l] by metis
  have "linked c s" "session_key c = Inr sa" "session_key s = Inr sb" "shm_peer c = ''cli''" "shm_peer s = ''http''" "mss c = 536"
    "peer_addr c = [10, 0, 0, 2]" "local_addr c = [10, 0, 0, 1]"
    using k by (simp_all add: c_def s_def linked_def at_rest_def session_key_def sample_end_def new_session_t_def MI_IP4_MIN_TCP_MTU_def)
  then have "connected (sample_path [10, 0, 0, 1] [10, 0, 0, 2]) (sample_path [10, 0, 0, 2] [10, 0, 0, 1]) (sample_endpoint ''cli'') (sample_endpoint ''http'') sa sb c s"
    by (simp add: connected_def sample_path_ok sample_endpoint_ok max_id_length_def use_mtu_size_eq)
  then show ?thesis unfolding c_def s_def by blast
qed

theorem tcp_stream_across_hosts_witness:
  "(let a = sample_endpoint ''cli''; b = sample_endpoint ''http''; there = sample_path [10, 0, 0, 1] [10, 0, 0, 2]; home = sample_path [10, 0, 0, 2] [10, 0, 0, 1];
        c = sample_end [10, 0, 0, 1] 40000 [10, 0, 0, 2] 80 78 900 ''cli'' (replicate 1000 65);
        s = sample_end [10, 0, 0, 2] 80 [10, 0, 0, 1] 40000 900 78 ''http'' [] in
    \<exists>sa sb. connected there home a b sa sb c s
    \<and> (\<exists>c' s' up. tcp_rounds (rounds_for (unat (mss c)) (length (td_bytes (l7_to_tcp c)))) there home a b [(sa, c)] [(sb, s)]
      = Inr ([(sa, c')], [(sb, s')], up)
    \<and> concat (map l7_bytes up) = td_bytes (l7_to_tcp c) \<and> td_bytes (l7_to_tcp c') = [] \<and> connected there home a b sa sb c' s'))"
proof -
  define c where "c = sample_end [10, 0, 0, 1] 40000 [10, 0, 0, 2] 80 78 900 ''cli'' (replicate 1000 65)"
  define s where "s = sample_end [10, 0, 0, 2] 80 [10, 0, 0, 1] 40000 900 78 ''http'' []"
  have f: "\<not> l7_send_fin c" "td_bytes (l7_to_tcp c) = replicate 1000 65" "local_seq c = 78" "c\<lparr> l7_send_fin := False \<rparr> = c"
    by (simp_all add: c_def sample_end_def new_session_t_def)
  obtain sa sb where "connected (sample_path [10, 0, 0, 1] [10, 0, 0, 2]) (sample_path [10, 0, 0, 2] [10, 0, 0, 1]) (sample_endpoint ''cli'') (sample_endpoint ''http'') sa sb c s"
    using sample_connected[of False "replicate 1000 65"] f(4) unfolding c_def s_def by auto
  with tcp_stream_across_hosts[OF this f(1)] f(2,3) show ?thesis unfolding Let_def c_def[symmetric] s_def[symmetric] by force
qed

end
