(* ===== verification/Tcp_Fin.thy ===== *)
theory Tcp_Fin
  imports Tcp_Across
begin

text \<open>
  The end of a stream between two hosts: the last segment carries a FIN.  All data arrives, and the receiver knows
  the stream has ended, but three things are not as they should be: the data is handed over before the end is noted,
  so that the application is not told; the acknowledgement covers the data and not the FIN; and the sender counts
  the FIN before the data, so that this acknowledgement leaves it with one byte it takes as not acknowledged.
\<close>

section \<open>The last segment\<close>

lemma fin_flags [simp]:
  "has_flag (FLAG_FIN OR FLAG_ACK OR FLAG_PSH) FLAG_ACK" "\<not> has_flag (FLAG_FIN OR FLAG_ACK OR FLAG_PSH) FLAG_SYN"
  "\<not> has_flag (FLAG_FIN OR FLAG_ACK OR FLAG_PSH) FLAG_RST" "has_flag (FLAG_FIN OR FLAG_ACK OR FLAG_PSH) FLAG_FIN"
  by (simp_all add: has_flag_def FLAG_ACK_def FLAG_PSH_def FLAG_SYN_def FLAG_RST_def FLAG_FIN_def)

lemma fin_turn:
  assumes "net_ok w" "length lid < max_id_length" "length (sg_from sg) = 4" "length (sg_to sg) = 4" "sg_flags sg = FLAG_FIN OR FLAG_ACK OR FLAG_PSH"
    and "find_key (sg_sid sg) ss = Some s" "at_rest s" "sg_seq sg = peer_seq s" "sg_ack sg = local_seq s" "sg_data sg \<noteq> []"
    and "length (sg_data sg) \<le> 65535" "spare (200 + length (sg_data sg)) w (shm_peer s)" "spare 200 w out" "out \<noteq> shm_peer s"
    and "q = peer_seq s + word_of_nat (length (sg_data sg))"
    and "s' = s\<lparr> updated_ts := us, peer_window_size := sg_window sg, peer_seq := q + 1, half_closed := True \<rparr>"
  shows "\<exists>w1 w'. tcp_segment (send_message lid) out services salt now us sg ss w = Inr (set_key (sg_sid sg) s' ss, w')
    \<and> gets lid (shm_peer s) (data_message sg s) w w1 \<and> gets lid out (reply_pkt sg (local_seq s) q FLAG_ACK (local_window_size s)) w1 w'"
proof -
  let ?s = "s\<lparr> updated_ts := us, peer_window_size := sg_window sg \<rparr>"
  note os = assms(7)[unfolded at_rest_def]
  have ack: "tcp_ack_session (sg_ack sg) ?s = ?s" using os assms(9) by (simp add: tcp_ack_session_def td_forget_def)
  obtain w1 where w1: "post (send_message lid) (shm_peer s) (data_message sg s) w = Inr (True, w1)" "net_ok w1" "gets lid (shm_peer s) (data_message sg s) w w1"
    using post_up_gets[OF assms(1-4,11,12) order_refl] unfolding data_message_def by blast
  have "spare 200 w1 out" using gets_spare(1)[OF w1(3)] assms(13,14) by simp
  then obtain w2 where w2: "tcp_reply (send_message lid) out sg (local_seq s) q FLAG_ACK (local_window_size s) (mss s) w1 = Inr (0, w2)"
    "gets lid out (reply_pkt sg (local_seq s) q FLAG_ACK (local_window_size s)) w1 w2"
    using tcp_reply_gets[OF w1(2) assms(2-4)] by blast
  let ?v = "verdict0\<lparr> acked_packet := True \<rparr>"
  have i: "tcp_input (send_message lid) out sg verdict0 ?s w = Inr (?v, ?s\<lparr> peer_seq := q \<rparr>, w2)"
    using w1(1) w2(1) assms(5,8,10,15) by (simp add: tcp_input_def Let_def data_message_def)
  have f: "tcp_fin (send_message lid) out sg ?v (?s\<lparr> peer_seq := q \<rparr>) w2 = Inr (s', w2)"
    using os assms(5,16) by (simp add: tcp_fin_def)
  have "tcp_dispatch (send_message lid) out services salt now sg (Some ?s) w = Inr (Proceed, verdict0, Some ?s, w)"
    using os assms(5) ack by (simp add: tcp_dispatch_def tcp_ack_def)
  then have "tcp_segment (send_message lid) out services salt now us sg ss w = Inr (set_key (sg_sid sg) s' ss, w2)"
    using assms(6) i f by (simp add: tcp_segment_def tcp_body_def tcp_clean_def verdict0_def write_back_def)
  then show ?thesis using w1(3) w2(2) by blast
qed

lemma talk_fin:
  assumes "endpoint_ok n e" "path_ok p lid 6" "f = from_addr p" "to_addr p = t" "20 + length d \<le> use_mtu_size (from_mtu p)" "0 < length d"
    and "tcp_calc_session_id sp dp f t = Inr sid" "at_rest s" "shm_peer s = ep_app e"
    and "carries lid (seg_message f t sp dp (peer_seq s) (local_seq s) (FLAG_FIN OR FLAG_ACK OR FLAG_PSH) d) m"
    and "q = peer_seq s + word_of_nat (length d)" "length d \<le> n"
    and "s' = s\<lparr> updated_ts := ep_us e, peer_window_size := INITIAL_LOCAL_WINDOW_SIZE, peer_seq := q + 1, half_closed := True \<rparr>"
  shows "\<exists>m1 m2. talk p e [m] [(sid, s)] = Inr ([(sid, s')], [m1], [m2]) \<and> l7_bytes m2 = d
    \<and> msg_data m2 = wrap_up_tcp sid f sp t dp 0 d
    \<and> carries (ep_id e) (seg_message t f dp sp (local_seq s) q FLAG_ACK []) m1"
proof -
  let ?sg = "seg f t sp dp sid (peer_seq s) (local_seq s) (FLAG_FIN OR FLAG_ACK OR FLAG_PSH) INITIAL_LOCAL_WINDOW_SIZE d"
  let ?a = "seg_message t f dp sp (local_seq s) q FLAG_ACK []"
  note oe = assms(1)[unfolded endpoint_ok_def] and os = assms(8)[unfolded at_rest_def]
  have t: "length t = 4" "length f = 4" using path_lengths[OF assms(2)] assms(3,4) by simp_all
  have d: "length d \<le> 65535" using assms(2,5) use_mtu_size_bounds[of "from_mtu p"] by (auto simp: path_ok_def)
  have "\<exists>w1 w. tcp_segment (send_message (ep_id e)) (ep_out e) (ep_services e) (ep_salt e) (ep_now e) (ep_us e) ?sg [(sid, s)] (ep_net e)
      = Inr (set_key (sg_sid ?sg) s' [(sid, s)], w) \<and> gets (ep_id e) (shm_peer s) (data_message ?sg s) (ep_net e) w1
      \<and> gets (ep_id e) (ep_out e) (reply_pkt ?sg (local_seq s) q FLAG_ACK (local_window_size s)) w1 w"
    using oe t d assms(6,8,9,11-13) endpoint_spare(2)[OF assms(1), of "200 + length d"] endpoint_spare(1)[OF assms(1), of 200]
    by (intro fin_turn) (simp_all add: find_key_def)
  then obtain w1 w where w: "tcp_segment (send_message (ep_id e)) (ep_out e) (ep_services e) (ep_salt e) (ep_now e) (ep_us e) ?sg [(sid, s)] (ep_net e)
      = Inr ([(sid, s')], w)" "gets (ep_id e) (ep_app e) (data_message ?sg s) (ep_net e) w1" "gets (ep_id e) (ep_out e) ?a w1 w"
    using os assms(9) by (auto simp: reply_pkt_def seg_message_def)
  obtain m1 m2 where m: "news (ep_net e) w (ep_out e) = [m1]" "carries (ep_id e) ?a m1" "news (ep_net e) w (ep_app e) = [m2]"
    "carries (ep_id e) (wrap_message_up_tcp sid f sp t dp 0 d) m2"
    using w(2,3) oe os by (auto simp: gets_def adds_def news_def data_message_def)
  have "l7_bytes m2 = d" using m(4) t d by (auto intro: l7_bytes_data)
  moreover have "msg_data m2 = wrap_up_tcp sid f sp t dp 0 d" using carries_data[OF m(4)] by (simp add: msg_data_up_tcp)
  moreover have "talk p e [m] [(sid, s)] = Inr ([(sid, s')], [m1], [m2])" using talk_one[OF assms(2-5,10,7) w(1), of "[]"] m by simp
  ultimately show ?thesis using m(2) by blast
qed

lemma after_ack_but_one:
  assumes "in_flight s = Suc k" "Suc k \<le> length (td_bytes (l7_to_tcp s))" "local_seq s = i + 1" "sg_ack sg = local_seq s + word_of_nat k"
    and "unat i + Suc k < 2 ^ 32"
  shows "after_ack us sg s = s\<lparr> updated_ts := us, peer_window_size := sg_window sg, in_flight := 0, local_seq := local_seq s + word_of_nat k,
    l7_to_tcp := \<lparr> td_seq = td_seq (l7_to_tcp s) + word_of_nat k, td_bytes = drop k (td_bytes (l7_to_tcp s)) \<rparr> \<rparr>"
proof -
  have k: "unat (word_of_nat k :: u32) = k" using assms(5) by (intro unat_of_nat_u32) simp
  have "unat (local_seq s) = unat i + 1" unfolding assms(3) using assms(5) by (subst unat_add_lem[THEN iffD1]) simp_all
  then have "unat (local_seq s + word_of_nat k) = unat (local_seq s) + k" using assms(5) k by (subst unat_add_lem[THEN iffD1]) simp_all
  then have "local_seq s \<le> local_seq s + word_of_nat k" by (simp add: word_le_nat_alt)
  then show ?thesis using assms(1,2,4) k by (simp add: after_ack_def tcp_ack_session_def td_forget_def Let_def)
qed

text \<open>After the last segment the receiver is half closed and expects the number behind the FIN; the sender, which
  sends nothing more, has one byte left.\<close>

definition ended :: "session_t \<Rightarrow> session_t \<Rightarrow> bool" where
  "ended c s \<longleftrightarrow> fin_sent c \<and> half_closed s \<and> in_flight c = 0 \<and> peer_seq s = local_seq c + 1 \<and> length (td_bytes (l7_to_tcp c)) = 1"

lemma tcp_round_fin:
  assumes "connected there home a b sa sb c s" "S = td_bytes (l7_to_tcp c)" "S \<noteq> []" "length S \<le> unat (mss c)" "l7_send_fin c"
    and "unat (local_seq c) + length S < 2 ^ 32"
  shows "\<exists>c' s' m. tcp_round there home a b [(sa, c)] [(sb, s)] = Inr ([(sa, c')], [(sb, s')], [m]) \<and> ended c' s' \<and> l7_bytes m = S
    \<and> msg_data m = wrap_up_tcp sb (local_addr c) (local_port c) (peer_addr c) (peer_port c) 0 S"
proof -
  define n c1 where "n = length S" and "c1 = c\<lparr> local_seq := local_seq c + 1, fin_sent := True, in_flight := length S \<rparr>"
  define s' where "s' = s\<lparr> updated_ts := ep_us b, peer_window_size := INITIAL_LOCAL_WINDOW_SIZE, peer_seq := (peer_seq s + word_of_nat (length S)) + 1, half_closed := True \<rparr>"
  note con = assms(1)[unfolded connected_def] and li = assms(1)[unfolded connected_def linked_def at_rest_def]
  have n: "n = min (length (td_bytes (l7_to_tcp c))) (unat (mss c))" "0 < n" using assms(2-4) by (simp_all add: n_def)
  have k: "tcp_calc_session_id (peer_port c) (local_port c) (peer_addr c) (local_addr c) = Inr sa"
    "tcp_calc_session_id (local_port c) (peer_port c) (local_addr c) (peer_addr c) = Inr sb" using li by (auto simp: session_key_def)
  have r: "at_rest c" "at_rest s" using con by (simp_all add: linked_def)
  obtain w where w: "tcp_sender_pass (send_message (ep_id a)) (ep_out a) [(sa, c)] (ep_net a) = Inr ([(sa, c1)], w)"
    "gets (ep_id a) (ep_out a) (seg_message (local_addr c) (peer_addr c) (local_port c) (peer_port c) (peer_seq s) (local_seq s)
      (FLAG_FIN OR FLAG_ACK OR FLAG_PSH) S) (ep_net a) w"
    using sender_turn[OF _ r(1) n(1), of a True sa] n(2) con li assms(2,5) unfolding c1_def n_def by auto
  from news_gets(1)[OF w(2)] obtain m where m: "news (ep_net a) w (ep_out a) = [m]"
    "carries (ep_id a) (seg_message (local_addr c) (peer_addr c) (local_port c) (peer_port c) (peer_seq s) (local_seq s) (FLAG_FIN OR FLAG_ACK OR FLAG_PSH) S) m" by blast
  obtain m1 m2 where m1: "talk there b [m] [(sb, s)] = Inr ([(sb, s')], [m1], [m2])" "l7_bytes m2 = S"
    "msg_data m2 = wrap_up_tcp sb (local_addr c) (local_port c) (peer_addr c) (peer_port c) 0 S"
    "carries (ep_id b) (seg_message (peer_addr c) (local_addr c) (peer_port c) (local_port c) (peer_seq c1) (local_seq c + word_of_nat n) FLAG_ACK []) m1"
    using talk_fin[OF _ _ _ _ _ _ k(2) r(2) _ m(2) refl _ s'_def, of "unat (mss c)" there] con li assms(3,4) by (auto simp: c1_def n_def)
  let ?sg = "seg (peer_addr c) (local_addr c) (peer_port c) (local_port c) sa (peer_seq c1) (local_seq c + word_of_nat n) FLAG_ACK INITIAL_LOCAL_WINDOW_SIZE []"
  define c' where "c' = c1\<lparr> updated_ts := ep_us a, peer_window_size := INITIAL_LOCAL_WINDOW_SIZE, in_flight := 0, local_seq := local_seq c + word_of_nat n,
    l7_to_tcp := \<lparr> td_seq = td_seq (l7_to_tcp c1) + word_of_nat (n - 1), td_bytes = drop (n - 1) S \<rparr> \<rparr>"
  have one: "(word_of_nat n :: u32) = 1 + word_of_nat (n - 1)" using n(2) by (metis Suc_diff_1 of_nat_Suc)
  have "after_ack (ep_us a) ?sg c1 = c'"
    using after_ack_but_one[of c1 "n - 1" "local_seq c" ?sg "ep_us a"] assms(2,6) n(2) one by (simp add: c'_def c1_def n_def)
  moreover have "talk home a [m1] [(sa, c1)] = talk home a [] (set_key sa (after_ack (ep_us a) ?sg c1) [(sa, c1)])"
    using con li m1(4) by (intro talk_ack[OF _ _ _ _ k(1)]) (auto simp: find_key_def c1_def)
  ultimately have "tcp_round there home a b [(sa, c)] [(sb, s)] = Inr ([(sa, c')], [(sb, s')], [m2])"
    using w(1) m(1) m1(1) by (simp add: tcp_round_def)
  moreover have "length (drop (n - 1) S) = 1" using n(2) unfolding n_def by (cases S) simp_all
  then have "ended c' s'" using li by (auto simp: ended_def c'_def c1_def s'_def n_def[symmetric] simp del: length_drop)
  ultimately show ?thesis using m1(2,3) by blast
qed

lemma ended_stream_arrives:
  assumes "connected there home a b sa sb c s" "l7_send_fin c" "td_bytes (l7_to_tcp c) \<noteq> []"
    and "unat (local_seq c) + length (td_bytes (l7_to_tcp c)) < 2 ^ 32"
  shows "\<exists>c' s' up. tcp_rounds (rounds_for (unat (mss c)) (length (td_bytes (l7_to_tcp c)))) there home a b [(sa, c)] [(sb, s)]
      = Inr ([(sa, c')], [(sb, s')], up) \<and> concat (map l7_bytes up) = td_bytes (l7_to_tcp c) \<and> ended c' s'"
  using assms
proof (induction "length (td_bytes (l7_to_tcp c))" arbitrary: c s rule: less_induct)
  case less
  let ?S = "td_bytes (l7_to_tcp c)" and ?m = "unat (mss c)"
  have m: "0 < ?m" using less.prems(1) by (auto simp: connected_def linked_def at_rest_def unat_gt_0)
  show ?case
  proof (cases "length ?S \<le> ?m")
    case True
    have "rounds_for ?m (length ?S) = Suc 0" using rounds_for_Suc[OF m, of "length ?S"] less.prems(3) m True by (simp add: rounds_for_def)
    then show ?thesis using tcp_round_fin[OF less.prems(1) refl less.prems(3) True less.prems(2,4)] by auto
  next
    case False
    have n: "?m = min (length ?S) ?m" "length ?S \<noteq> ?m" using False by simp_all
    obtain c1 s1 up where 1: "tcp_round there home a b [(sa, c)] [(sb, s)] = Inr ([(sa, c1)], [(sb, s1)], [up])"
      "connected there home a b sa sb c1 s1" "l7_bytes up = take ?m ?S" "td_bytes (l7_to_tcp c1) = drop ?m ?S" "mss c1 = mss c" "l7_send_fin c1"
      "local_seq c1 = local_seq c + word_of_nat ?m"
      using tcp_round_delivers[OF less.prems(1) n(1) m] n(2) less.prems(2,4) False by auto
    have "unat (word_of_nat ?m :: u32) = ?m" using less.prems(4) False by (intro unat_of_nat_u32) simp
    then have "unat (local_seq c1) = unat (local_seq c) + ?m"
      unfolding 1(7) using less.prems(4) False by (subst unat_add_lem[THEN iffD1]) simp_all
    then have "unat (local_seq c1) + length (td_bytes (l7_to_tcp c1)) < 2 ^ 32" using less.prems(4) False 1(4) by simp
    moreover have "length (td_bytes (l7_to_tcp c1)) < length ?S" "td_bytes (l7_to_tcp c1) \<noteq> []" using m False 1(4) by auto
    ultimately obtain c' s' ups where "tcp_rounds (rounds_for ?m (length (drop ?m ?S))) there home a b [(sa, c1)] [(sb, s1)] = Inr ([(sa, c')], [(sb, s')], ups)"
      "concat (map l7_bytes ups) = drop ?m ?S" "ended c' s'"
      using less.hyps[OF _ 1(2,6)] 1(4,5) by auto
    moreover have "rounds_for ?m (length ?S) = Suc (rounds_for ?m (length (drop ?m ?S)))" using rounds_for_Suc[OF m, of "length ?S"] less.prems(3) False by simp
    ultimately show ?thesis using 1(1,3) by simp
  qed
qed

section \<open>A FIN alone\<close>

text \<open>A FIN that comes after all data is in: it is acknowledged with its number, and the application is not told.\<close>

lemma fin_alone_turn:
  assumes "net_ok w" "length lid < max_id_length" "length (sg_from sg) = 4" "length (sg_to sg) = 4" "sg_flags sg = FLAG_FIN OR FLAG_ACK OR FLAG_PSH"
    and "find_key (sg_sid sg) ss = Some s" "at_rest s" "sg_seq sg = peer_seq s" "sg_ack sg = local_seq s" "sg_data sg = []" "spare 200 w out"
    and "s' = s\<lparr> updated_ts := us, peer_window_size := sg_window sg, peer_seq := peer_seq s + 1, half_closed := True \<rparr>"
  shows "\<exists>w'. tcp_segment (send_message lid) out services salt now us sg ss w = Inr (set_key (sg_sid sg) s' ss, w')
    \<and> gets lid out (reply_pkt sg (local_seq s) (peer_seq s + 1) FLAG_ACK (local_window_size s)) w w'"
proof -
  let ?s = "s\<lparr> updated_ts := us, peer_window_size := sg_window sg \<rparr>"
  note os = assms(7)[unfolded at_rest_def]
  have ack: "tcp_ack_session (sg_ack sg) ?s = ?s" using os assms(9) by (simp add: tcp_ack_session_def td_forget_def)
  obtain w2 where w2: "tcp_reply (send_message lid) out sg (local_seq s) (peer_seq s + 1) FLAG_ACK (local_window_size s) (mss s) w = Inr (0, w2)"
    "gets lid out (reply_pkt sg (local_seq s) (peer_seq s + 1) FLAG_ACK (local_window_size s)) w w2"
    using tcp_reply_gets[OF assms(1-4,11)] by blast
  have i: "tcp_input (send_message lid) out sg verdict0 ?s w = Inr (verdict0, ?s, w)"
    using assms(5,8,10) by (simp add: tcp_input_def Let_def)
  have f: "tcp_fin (send_message lid) out sg verdict0 ?s w = Inr (s', w2)"
    using os w2(1) assms(5,10,12) by (simp add: tcp_fin_def verdict0_def)
  have "tcp_dispatch (send_message lid) out services salt now sg (Some ?s) w = Inr (Proceed, verdict0, Some ?s, w)"
    using os assms(5) ack by (simp add: tcp_dispatch_def tcp_ack_def)
  moreover have "\<not> invalid verdict0" "\<not> clean_session verdict0" by (simp_all add: verdict0_def)
  ultimately have "tcp_segment (send_message lid) out services salt now us sg ss w = Inr (set_key (sg_sid sg) s' ss, w2)"
    using assms(6) i f by (simp add: tcp_segment_def tcp_body_def tcp_clean_def write_back_def)
  then show ?thesis using w2(2) by blast
qed

lemma talk_fin_alone:
  assumes "endpoint_ok n e" "path_ok p lid 6" "f = from_addr p" "to_addr p = t" "44 \<le> from_mtu p"
    and "tcp_calc_session_id sp dp f t = Inr sid" "at_rest s"
    and "carries lid (seg_message f t sp dp (peer_seq s) (local_seq s) (FLAG_FIN OR FLAG_ACK OR FLAG_PSH) []) m"
    and "s' = s\<lparr> updated_ts := ep_us e, peer_window_size := INITIAL_LOCAL_WINDOW_SIZE, peer_seq := peer_seq s + 1, half_closed := True \<rparr>"
  shows "\<exists>m1. talk p e [m] [(sid, s)] = Inr ([(sid, s')], [m1], [])
    \<and> carries (ep_id e) (seg_message t f dp sp (local_seq s) (peer_seq s + 1) FLAG_ACK []) m1"
proof -
  let ?sg = "seg f t sp dp sid (peer_seq s) (local_seq s) (FLAG_FIN OR FLAG_ACK OR FLAG_PSH) INITIAL_LOCAL_WINDOW_SIZE []"
  note oe = assms(1)[unfolded endpoint_ok_def] and os = assms(7)[unfolded at_rest_def]
  have "length t = 4" "length f = 4" using path_lengths[OF assms(2)] assms(3,4) by simp_all
  with fin_alone_turn[of "ep_net e" "ep_id e" ?sg "[(sid, s)]" s "ep_out e" s' "ep_us e" "ep_services e" "ep_salt e" "ep_now e"]
  obtain w where w: "tcp_segment (send_message (ep_id e)) (ep_out e) (ep_services e) (ep_salt e) (ep_now e) (ep_us e) ?sg [(sid, s)] (ep_net e)
      = Inr ([(sid, s')], w)" "gets (ep_id e) (ep_out e) (seg_message t f dp sp (local_seq s) (peer_seq s + 1) FLAG_ACK []) (ep_net e) w"
    using oe os assms(7,9) endpoint_spare(1)[OF assms(1), of 200] by (auto simp: find_key_def reply_pkt_def seg_message_def)
  from talk_one[OF assms(2-4) pure_segment_fits[OF assms(2,5)] assms(8,6) w(1), of "[]"] news_gets[OF w(2)] oe show ?thesis by auto
qed

text \<open>After a FIN alone the two ends agree: the sender has nothing left, and the receiver expects what it would send next.\<close>

definition closed_off :: "session_t \<Rightarrow> session_t \<Rightarrow> bool" where
  "closed_off c s \<longleftrightarrow> fin_sent c \<and> half_closed s \<and> in_flight c = 0 \<and> peer_seq s = local_seq c \<and> td_bytes (l7_to_tcp c) = []"

lemma tcp_round_fin_alone:
  assumes "connected there home a b sa sb c s" "td_bytes (l7_to_tcp c) = []" "l7_send_fin c"
  shows "\<exists>c' s'. tcp_round there home a b [(sa, c)] [(sb, s)] = Inr ([(sa, c')], [(sb, s')], []) \<and> closed_off c' s'"
proof -
  define c1 where "c1 = c\<lparr> local_seq := local_seq c + 1, fin_sent := True, in_flight := 0 \<rparr>"
  define s' where "s' = s\<lparr> updated_ts := ep_us b, peer_window_size := INITIAL_LOCAL_WINDOW_SIZE, peer_seq := peer_seq s + 1, half_closed := True \<rparr>"
  note con = assms(1)[unfolded connected_def] and li = assms(1)[unfolded connected_def linked_def at_rest_def]
  have k: "tcp_calc_session_id (peer_port c) (local_port c) (peer_addr c) (local_addr c) = Inr sa"
    "tcp_calc_session_id (local_port c) (peer_port c) (local_addr c) (peer_addr c) = Inr sb" using li by (auto simp: session_key_def)
  have r: "at_rest c" "at_rest s" using con by (simp_all add: linked_def)
  obtain w where w: "tcp_sender_pass (send_message (ep_id a)) (ep_out a) [(sa, c)] (ep_net a) = Inr ([(sa, c1)], w)"
    "gets (ep_id a) (ep_out a) (seg_message (local_addr c) (peer_addr c) (local_port c) (peer_port c) (peer_seq s) (local_seq s)
      (FLAG_FIN OR FLAG_ACK OR FLAG_PSH) []) (ep_net a) w"
    using sender_turn[OF _ r(1), of a 0 True sa] con li assms(2,3) unfolding c1_def by auto
  from news_gets(1)[OF w(2)] obtain m where m: "news (ep_net a) w (ep_out a) = [m]"
    "carries (ep_id a) (seg_message (local_addr c) (peer_addr c) (local_port c) (peer_port c) (peer_seq s) (local_seq s) (FLAG_FIN OR FLAG_ACK OR FLAG_PSH) []) m" by blast
  obtain m1 where m1: "talk there b [m] [(sb, s)] = Inr ([(sb, s')], [m1], [])"
    "carries (ep_id b) (seg_message (peer_addr c) (local_addr c) (peer_port c) (local_port c) (peer_seq c1) (local_seq c1) FLAG_ACK []) m1"
    using talk_fin_alone[OF _ _ _ _ _ k(2) r(2) m(2) s'_def, of "unat (mss c)" there] con li by (auto simp: c1_def)
  let ?sg = "seg (peer_addr c) (local_addr c) (peer_port c) (local_port c) sa (peer_seq c1) (local_seq c1) FLAG_ACK INITIAL_LOCAL_WINDOW_SIZE []"
  define c' where "c' = c1\<lparr> updated_ts := ep_us a, peer_window_size := INITIAL_LOCAL_WINDOW_SIZE, l7_to_tcp := l7_to_tcp c1 \<rparr>"
  have "after_ack (ep_us a) ?sg c1 = c'" using after_ack_nothing[of c1 ?sg "ep_us a"] by (simp add: c'_def c1_def)
  moreover have "talk home a [m1] [(sa, c1)] = talk home a [] (set_key sa (after_ack (ep_us a) ?sg c1) [(sa, c1)])"
    using con li m1(2) by (intro talk_ack[OF _ _ _ _ k(1)]) (auto simp: find_key_def c1_def)
  ultimately have "tcp_round there home a b [(sa, c)] [(sb, s)] = Inr ([(sa, c')], [(sb, s')], [])"
    using w(1) m(1) m1(1) by (simp add: tcp_round_def)
  moreover have "closed_off c' s'" using li assms(2) by (simp add: closed_off_def c'_def c1_def s'_def)
  ultimately show ?thesis by blast
qed

text \<open>C16: A stream its application has ended arrives complete as well.  When data is still to be sent, then after as many rounds as there
  are segments the other application has exactly these bytes, and the last segment has told the other TCP server of the
  end; the sender is left with one byte that it takes as not acknowledged.  When all data was acknowledged before, one round with a
  FIN alone does it, and the two ends agree.  The sequence number must not wrap on the way, the queues must have room for a segment,
  and the hardware addresses must be known.\<close>

theorem tcp_ended_stream_across_hosts:
  assumes "connected there home a b sa sb c s" "l7_send_fin c"
    and "unat (local_seq c) + length (td_bytes (l7_to_tcp c)) < 2 ^ 32"
  shows "\<exists>c' s' up. tcp_rounds (max 1 (rounds_for (unat (mss c)) (length (td_bytes (l7_to_tcp c))))) there home a b [(sa, c)] [(sb, s)]
      = Inr ([(sa, c')], [(sb, s')], up) \<and> concat (map l7_bytes up) = td_bytes (l7_to_tcp c)
    \<and> (if td_bytes (l7_to_tcp c) = [] then closed_off c' s' else ended c' s')"
proof (cases "td_bytes (l7_to_tcp c) = []")
  case True
  have "0 < unat (mss c)" using assms(1) by (auto simp: connected_def linked_def at_rest_def unat_gt_0)
  then have "max 1 (rounds_for (unat (mss c)) (length (td_bytes (l7_to_tcp c)))) = Suc 0" by (simp add: True rounds_for_def)
  then show ?thesis using tcp_round_fin_alone[OF assms(1) True assms(2)] by (auto simp: True)
next
  case False
  have "0 < unat (mss c)" using assms(1) by (auto simp: connected_def linked_def at_rest_def unat_gt_0)
  then have "max 1 (rounds_for (unat (mss c)) (length (td_bytes (l7_to_tcp c)))) = rounds_for (unat (mss c)) (length (td_bytes (l7_to_tcp c)))"
    using rounds_for_Suc[of "unat (mss c)" "length (td_bytes (l7_to_tcp c))"] False by simp
  then show ?thesis using ended_stream_arrives[OF assms(1,2) False assms(3)] False by simp
qed

theorem tcp_ended_stream_across_hosts_witness:
  "(let a = sample_endpoint ''cli''; b = sample_endpoint ''http''; there = sample_path [10, 0, 0, 1] [10, 0, 0, 2]; home = sample_path [10, 0, 0, 2] [10, 0, 0, 1];
        c = (sample_end [10, 0, 0, 1] 40000 [10, 0, 0, 2] 80 78 900 ''cli'' (replicate 1000 65))\<lparr> l7_send_fin := True \<rparr>;
        s = sample_end [10, 0, 0, 2] 80 [10, 0, 0, 1] 40000 900 78 ''http'' [] in
    \<exists>sa sb. connected there home a b sa sb c s
    \<and> (\<exists>c' s' up. tcp_rounds (max 1 (rounds_for (unat (mss c)) (length (td_bytes (l7_to_tcp c))))) there home a b [(sa, c)] [(sb, s)]
      = Inr ([(sa, c')], [(sb, s')], up) \<and> concat (map l7_bytes up) = td_bytes (l7_to_tcp c) \<and> ended c' s'))"
proof -
  define c where "c = (sample_end [10, 0, 0, 1] 40000 [10, 0, 0, 2] 80 78 900 ''cli'' (replicate 1000 65))\<lparr> l7_send_fin := True \<rparr>"
  define s where "s = sample_end [10, 0, 0, 2] 80 [10, 0, 0, 1] 40000 900 78 ''http'' []"
  obtain sa sb where "connected (sample_path [10, 0, 0, 1] [10, 0, 0, 2]) (sample_path [10, 0, 0, 2] [10, 0, 0, 1]) (sample_endpoint ''cli'') (sample_endpoint ''http'') sa sb c s"
    using sample_connected[of True "replicate 1000 65"] unfolding c_def s_def by auto
  moreover have "l7_send_fin c" "td_bytes (l7_to_tcp c) = replicate 1000 65" "local_seq c = 78" by (simp_all add: c_def sample_end_def)
  ultimately show ?thesis using tcp_ended_stream_across_hosts[of _ _ _ _ sa sb c s] unfolding Let_def c_def[symmetric] s_def[symmetric] by force
qed

end
