(* ===== verification/Http_Across.thy ===== *)
theory Http_Across
  imports Tcp_Fin Http
begin

text \<open>A file of the HTTP server on its way to another host: the HTTP server, its TCP server, and the way to the
  application at the other end of the connection.\<close>

lemma tcp_run_out_all_single:
  assumes "list_all2 (carries lid) (map (app_message session 0) ds @ [app_message session MI_TCP_FIN []]) ms" "list_all (\<lambda>d. small (length d)) ds"
  shows "\<exists>t. tcp_run_out_all ms [(l7_session_id session, s)] = Inr [(l7_session_id session, s\<lparr> l7_to_tcp := t, l7_send_fin := True \<rparr>)]
    \<and> td_bytes t = td_bytes (l7_to_tcp s) @ concat ds"
  using assms
proof (induction ds arbitrary: ms s)
  case Nil
  then obtain m where m: "ms = [m]" "carries lid (app_message session MI_TCP_FIN []) m" by (auto simp: list_all2_Cons1)
  have "tcp_run_out m [(l7_session_id session, s)] = Inr (1, [(l7_session_id session, s\<lparr> l7_send_fin := True \<rparr>)])"
    using tcp_run_out_app_message[OF m(2), of "[(l7_session_id session, s)]" s] by (simp add: small_def MI_TCP_FIN_def find_key_def)
  then show ?case using m(1) by (intro exI[of _ "l7_to_tcp s"]) simp
next
  case (Cons d ds)
  then obtain m ms' where m: "ms = m # ms'" "carries lid (app_message session 0 d) m"
    "list_all2 (carries lid) (map (app_message session 0) ds @ [app_message session MI_TCP_FIN []]) ms'" by (auto simp: list_all2_Cons1)
  define t where "t = (if d = [] then l7_to_tcp s else td_add d (l7_to_tcp s))"
  have "tcp_run_out m [(l7_session_id session, s)] = Inr (1, [(l7_session_id session, s\<lparr> l7_to_tcp := t \<rparr>)])"
    using tcp_run_out_app_message[OF m(2), of "[(l7_session_id session, s)]" s] Cons.prems(2) by (auto simp: t_def Let_def find_key_def)
  moreover have "td_bytes t = td_bytes (l7_to_tcp s) @ d" by (simp add: t_def td_add_def)
  ultimately show ?case using Cons.IH[OF m(3), of "s\<lparr> l7_to_tcp := t \<rparr>"] Cons.prems(2) m(1) by auto
qed

lemma connected_written:
  "connected there home a b sa sb (c\<lparr> l7_to_tcp := t, l7_send_fin := f \<rparr>) s \<longleftrightarrow> connected there home a b sa sb c s"
  by (simp add: connected_def linked_def at_rest_def session_key_def)

text \<open>C17: A browser on one host, a file on another.  When the request for a file that can be read has come in over a
  connection without TLS, and the header and the whole file fit into the queue of the TCP server at once, the application
  at the other end of the connection receives exactly the header that announces the length and the type, followed by the
  whole file: through the HTTP server, the TCP server's queue and sender, and segment by segment through the IPv4, ARP and link
  servers of the one host and the link and IPv4 servers of the other, with the end of the stream noted at the other side.  The
  sequence number must not wrap on the way, the queues on the path must have room for a segment, and the hardware addresses must be known.\<close>

theorem http_file_across_hosts:
  assumes "connected there home a b sa sb c s" "td_bytes (l7_to_tcp c) = []" "l7_session_id session = sa"
    and "net_ok w" "length lid < max_id_length" "http_read_request ins [] = Inr (Some recv_buffer, ins')"
    and "http_request recv_buffer = Inr (Serve url)"
    and "fs (open_path (http_base_path @ url)) = Some (Some (length dat), dat)" "length dat < 10 ^ 9"
    and "room_for (inbox w) (capacity w) (l7_out_name session) (http_messages session url dat)"
    and "reply = to_bytes (http_header 200 (length dat) ''OK!'' (http_mime_type url)) @ dat" "unat (local_seq c) + length reply < 2 ^ 32"
  shows "\<exists>w' ms c1 c' s' up.
      process_http_request None (send_message lid) fs (\<lambda>_. False) ins session w = Inr (session\<lparr> l7_finished := True \<rparr>, w')
    \<and> inbox w' = (inbox w)(l7_out_name session := inbox w (l7_out_name session) @ ms)
    \<and> tcp_run_out_all ms [(sa, c)] = Inr [(sa, c1)]
    \<and> tcp_rounds (rounds_for (unat (mss c)) (length reply)) there home a b [(sa, c1)] [(sb, s)] = Inr ([(sa, c')], [(sb, s')], up)
    \<and> concat (map l7_bytes up) = reply \<and> ended c' s'"
proof -
  let ?ds = "to_bytes (http_header 200 (length dat) ''OK!'' (http_mime_type url)) # file_chunks dat"
  have dat: "length dat < 10 ^ 18" using assms(9) by simp
  obtain w' where w': "process_http_request None (send_message lid) fs (\<lambda>_. False) ins session w = Inr (session\<lparr> l7_finished := True \<rparr>, w')"
    "enqueued lid (inbox w) (l7_out_name session) (http_messages session url dat) (inbox w')"
    using http_serves_file[where fs = fs, OF assms(4-8) dat assms(10)] by blast
  then obtain ms where ms: "list_all2 (carries lid) (map (app_message session 0) ?ds @ [app_message session MI_TCP_FIN []]) ms"
    "inbox w' = (inbox w)(l7_out_name session := inbox w (l7_out_name session) @ ms)"
    unfolding enqueued_def http_messages_def by blast
  have "list_all (\<lambda>d. small (length d)) ?ds"
    using http_header_small[OF dat] length_http_mime_type file_chunks_small by (simp add: list_all_iff)
  from tcp_run_out_all_single[OF ms(1) this, of c] obtain t where
    t: "tcp_run_out_all ms [(sa, c)] = Inr [(sa, c\<lparr> l7_to_tcp := t, l7_send_fin := True \<rparr>)]" "td_bytes t = reply"
    using assms(2,3,11) by (auto simp: file_chunks_concat)
  have "0 < length reply" unfolding assms(11) by (simp add: http_header_def)
  then have "reply \<noteq> []" by simp
  from ended_stream_arrives[of there home a b sa sb "c\<lparr> l7_to_tcp := t, l7_send_fin := True \<rparr>" s] assms(1,12) t(2) this
  obtain c' s' up where "tcp_rounds (rounds_for (unat (mss c)) (length reply)) there home a b [(sa, c\<lparr> l7_to_tcp := t, l7_send_fin := True \<rparr>)] [(sb, s)]
      = Inr ([(sa, c')], [(sb, s')], up)" "concat (map l7_bytes up) = reply" "ended c' s'" by (auto simp: connected_written)
  then show ?thesis using w'(1) ms(2) t(1) by blast
qed

theorem http_file_across_hosts_witness:
  "(let a = sample_endpoint ''cli''; b = sample_endpoint ''http''; there = sample_path [10, 0, 0, 1] [10, 0, 0, 2]; home = sample_path [10, 0, 0, 2] [10, 0, 0, 1];
        c = (sample_end [10, 0, 0, 1] 40000 [10, 0, 0, 2] 80 78 900 ''cli'' [])\<lparr> l7_send_fin := False \<rparr>;
        s = sample_end [10, 0, 0, 2] 80 [10, 0, 0, 1] 40000 900 78 ''http'' [];
        reply = to_bytes (http_header 200 (length [104, 105 :: byte]) ''OK!'' (http_mime_type ''/a.txt'')) @ [104, 105] in
    \<exists>sa sb w' ms c1 c' s' up. connected there home a b sa sb c s
    \<and> process_http_request None (send_message ''http'') (\<lambda>p. if p = ''./www/a.txt'' then Some (Some 2, [104, 105]) else None) (\<lambda>_. False)
        [Chunk (to_bytes sample_get)] (sample_l7\<lparr> l7_session_id := sa \<rparr>) idle_net = Inr (sample_l7\<lparr> l7_session_id := sa, l7_finished := True \<rparr>, w')
    \<and> inbox w' = (inbox idle_net)(l7_out_name sample_l7 := inbox idle_net (l7_out_name sample_l7) @ ms)
    \<and> tcp_run_out_all ms [(sa, c)] = Inr [(sa, c1)]
    \<and> tcp_rounds (rounds_for (unat (mss c)) (length reply)) there home a b [(sa, c1)] [(sb, s)] = Inr ([(sa, c')], [(sb, s')], up)
    \<and> concat (map l7_bytes up) = reply \<and> ended c' s')"
proof -
  define c where "c = (sample_end [10, 0, 0, 1] 40000 [10, 0, 0, 2] 80 78 900 ''cli'' [])\<lparr> l7_send_fin := False \<rparr>"
  define s where "s = sample_end [10, 0, 0, 2] 80 [10, 0, 0, 1] 40000 900 78 ''http'' []"
  define reply where "reply = to_bytes (http_header 200 (length [104, 105 :: byte]) ''OK!'' (http_mime_type ''/a.txt'')) @ [104, 105]"
  obtain sa sb where con: "connected (sample_path [10, 0, 0, 1] [10, 0, 0, 2]) (sample_path [10, 0, 0, 2] [10, 0, 0, 1]) (sample_endpoint ''cli'') (sample_endpoint ''http'') sa sb c s"
    using sample_connected[of False "[]"] unfolding c_def s_def by auto
  have c: "td_bytes (l7_to_tcp c) = []" "local_seq c = 78" by (simp_all add: c_def sample_end_def)
  define session where "session = sample_l7\<lparr> l7_session_id := sa \<rparr>"
  have session: "l7_session_id session = sa" "l7_out_name session = l7_out_name sample_l7" by (simp_all add: session_def)
  have read: "http_read_request [Chunk (to_bytes sample_get)] [] = Inr (Some sample_get, [])"
    by (subst http_read_request.simps) (simp add: sample_get_def CRLF_def starts_with_def)
  have url: "http_request sample_get = Inr (Serve ''/a.txt'')" by code_simp
  have ch: "file_chunks [104, 105] = [[104, 105]]" by (simp add: file_chunks.simps)
  have h: "small (length (http_header 200 2 ''OK!'' (http_mime_type ''/a.txt'')))"
    using length_http_mime_type by (intro http_header_small) simp_all
  then have room: "room_for (inbox idle_net) (capacity idle_net) (l7_out_name session) (http_messages session ''/a.txt'' [104, 105])"
    using padded_length_app_message[of "to_bytes (http_header 200 2 ''OK!'' (http_mime_type ''/a.txt''))" session 0]
      padded_length_app_message[of "[104, 105]" session 0] padded_length_app_message[of "[]" session MI_TCP_FIN]
    by (simp add: room_for_def inbox_def capacity_def idle_net_def begin_segment_empty total_size_begin_segment http_messages_def ch
        small_def sizeof_message_def numeral_2_eq_2)
  have "length [104, 105 :: byte] = 2" by simp
  then have "length reply < 1000002" using h unfolding reply_def small_def by (simp del: list.size)
  then have "unat (local_seq c) + length reply < 2 ^ 32" by (simp add: c)
  with http_file_across_hosts[OF con c(1) session(1) idle_net_ok _ read url _ _ room reply_def,
      of "''http''" "\<lambda>p. if p = ''./www/a.txt'' then Some (Some 2, [104, 105]) else None"] con
  show ?thesis unfolding Let_def c_def[symmetric] s_def[symmetric] reply_def[symmetric] session_def[symmetric]
    by (force simp: max_id_length_def open_path_def http_base_path_def session_def)
qed

end
