(* ===== verification/Trace.thy ===== *)
theory Trace
  imports Tcp Apps Log
begin

text \<open>
  The texts the servers write to their logs about what passes: \<^verbatim>\<open>dump\<close> of \<^verbatim>\<open>src/utils/str.cpp\<close>, the flags of a
  segment and the table of sessions of \<^verbatim>\<open>src/tcp_server.cpp\<close>, and the access logs of the HTTP and Gopher servers.
\<close>

section \<open>Flags\<close>

definition FLAG_CWR :: byte where "FLAG_CWR = 0x80"
definition FLAG_ECE :: byte where "FLAG_ECE = 0x40"

definition flags_to_str :: "byte \<Rightarrow> string" where
  "flags_to_str flags =
     (let out = [];
          out = (if has_flag flags FLAG_CWR then out @ ''CWR,'' else out);
          out = (if has_flag flags FLAG_ECE then out @ ''ECE,'' else out);
          out = (if has_flag flags FLAG_URG then out @ ''URG,'' else out);
          out = (if has_flag flags FLAG_ACK then out @ ''ACK,'' else out);
          out = (if has_flag flags FLAG_PSH then out @ ''PSH,'' else out);
          out = (if has_flag flags FLAG_RST then out @ ''RST,'' else out);
          out = (if has_flag flags FLAG_SYN then out @ ''SYN,'' else out);
          out = (if has_flag flags FLAG_FIN then out @ ''FIN,'' else out)
      in if out \<noteq> [] then butlast out else out)"

definition flag_names :: "(byte \<times> string) list" where
  "flag_names = [(FLAG_CWR, ''CWR''), (FLAG_ECE, ''ECE''), (FLAG_URG, ''URG''), (FLAG_ACK, ''ACK''),
     (FLAG_PSH, ''PSH''), (FLAG_RST, ''RST''), (FLAG_SYN, ''SYN''), (FLAG_FIN, ''FIN'')]"

definition flag_list :: "byte \<Rightarrow> string list" where
  "flag_list flags = map snd (filter (\<lambda>(f, n). has_flag flags f) flag_names)"

text \<open>The names that are set with commas between them; the flags can be read back from it.\<close>

lemma butlast_each: "xs \<noteq> [] \<Longrightarrow> butlast (concat (map (\<lambda>x. x @ [c]) xs)) = join [c] xs"
proof (induction "[c]" xs rule: join.induct)
  case (3 x y xs)
  then show ?case by (simp add: butlast_append)
qed auto

lemma concat_filter_Cons:
  "concat (map f (map snd (filter P (x # xs)))) = (if P x then f (snd x) else []) @ concat (map f (map snd (filter P xs)))"
  by simp

lemma append_if: "(if b then out @ x else out) = out @ (if b then x else [])"
  by simp

lemma flags_to_str_join: "flags_to_str flags = join '','' (flag_list flags)"
proof -
  have e: "concat (map (\<lambda>x. x @ '','') (flag_list flags)) =
      (if has_flag flags FLAG_CWR then ''CWR,'' else []) @ (if has_flag flags FLAG_ECE then ''ECE,'' else [])
      @ (if has_flag flags FLAG_URG then ''URG,'' else []) @ (if has_flag flags FLAG_ACK then ''ACK,'' else [])
      @ (if has_flag flags FLAG_PSH then ''PSH,'' else []) @ (if has_flag flags FLAG_RST then ''RST,'' else [])
      @ (if has_flag flags FLAG_SYN then ''SYN,'' else []) @ (if has_flag flags FLAG_FIN then ''FIN,'' else [])"
    unfolding flag_list_def flag_names_def by (simp only: concat_filter_Cons prod.case snd_conv) simp
  have "flags_to_str flags = (let out = concat (map (\<lambda>x. x @ '','') (flag_list flags)) in if out \<noteq> [] then butlast out else out)"
    unfolding flags_to_str_def e append_if Let_def append.assoc by simp
  then show ?thesis using butlast_each[of "flag_list flags" "CHR '',''"] by (cases "flag_list flags = []") (auto simp: Let_def)
qed

lemma flags_by_name: "(f, n) \<in> set flag_names \<Longrightarrow> has_flag flags f \<longleftrightarrow> n \<in> set (flag_list flags)"
  by (auto simp: flag_list_def flag_names_def)

lemma byte_by_flags:
  assumes "\<forall>(f, n) \<in> set flag_names. has_flag a f = has_flag b f"
  shows "a = b"
proof (rule bit_word_eqI)
  fix k assume "k < LENGTH(8)"
  then have "k = 0 \<or> k = 1 \<or> k = 2 \<or> k = 3 \<or> k = 4 \<or> k = 5 \<or> k = 6 \<or> k = 7" by simp linarith
  moreover have "has_flag x (push_bit k 1) = bit x k" if "k < 8" for x :: byte and k
    using that by (simp add: has_flag_def and_exp_eq_0_iff_not_bit push_bit_of_1)
  then have "bit a k = bit b k" if "k < 8" "push_bit k 1 \<in> fst ` set flag_names" for k
    using assms that by force
  ultimately show "bit a k = bit b k"
    by (elim disjE) (simp_all add: flag_names_def FLAG_CWR_def FLAG_ECE_def FLAG_URG_def FLAG_ACK_def FLAG_PSH_def FLAG_RST_def FLAG_SYN_def FLAG_FIN_def)
qed

theorem flags_to_str_inject: "flags_to_str a = flags_to_str b \<Longrightarrow> a = b"
proof -
  assume e: "flags_to_str a = flags_to_str b"
  have sp: "split (flags_to_str x) '','' = flag_list x" for x
  proof (cases "flag_list x = []")
    case False
    have sub: "set (flag_list x) \<subseteq> set (map snd flag_names)" by (auto simp: flag_list_def)
    have names: "\<forall>n \<in> set (map snd flag_names). CHR '','' \<notin> set n \<and> n \<noteq> []" by (simp add: flag_names_def)
    have n: "CHR '','' \<notin> set n \<and> n \<noteq> []" if "n \<in> set (flag_list x)" for n
      using bspec[OF names subsetD[OF sub that]] .
    have "split (join '','' (flag_list x)) '','' = flag_list x"
      using n n[OF last_in_set[OF False]] False by (intro split_join_single) simp_all
    then show ?thesis by (simp add: flags_to_str_join)
  qed (simp add: flags_to_str_join)
  have l: "flag_list a = flag_list b" using e sp[of a] sp[of b] by simp
  have "has_flag a f = has_flag b f" if "(f, n) \<in> set flag_names" for f n
    unfolding flags_by_name[OF that] l by (rule refl)
  then show "a = b" by (intro byte_by_flags ballI) (simp only: split_paired_all prod.case)
qed

section \<open>Bytes\<close>

text \<open>\<^verbatim>\<open>char\<close> is signed: bytes from 128 on are negative and shown as a blank.\<close>

definition dump_char :: "byte \<Rightarrow> char" where
  "dump_char b = (let c = sint b in if 32 < c \<and> c < 127 then char_of_byte b else CHR '' '')"

definition dump :: "bytes \<Rightarrow> string" where
  "dump bs = map dump_char bs @ ''|'' @ concat (map (\<lambda>b. CHR '' '' # hex2 b) bs)"

text \<open>The bytes can be read back from the part behind the bar.\<close>

fun undump :: "nat \<Rightarrow> string \<Rightarrow> int list" where
  "undump 0 t = []"
| "undump (Suc n) t = (case std_stoi 16 (take 2 (drop 1 t)) of Inl _ \<Rightarrow> [] | Inr i \<Rightarrow> i # undump n (drop 3 t))"

lemma undump_hex: "undump (length bs) (concat (map (\<lambda>b. CHR '' '' # hex2 b) bs)) = map (\<lambda>b. int (unat b)) bs"
proof (induction bs)
  case (Cons b bs)
  have "length (hex2 b) = 2" by (simp add: hex2_eq)
  then show ?case using Cons std_stoi_hex2[of b] by simp
qed simp

theorem dump_reads_back: "undump (length bs) (drop (Suc (length bs)) (dump bs)) = map (\<lambda>b. int (unat b)) bs"
  using undump_hex[of bs] by (simp add: dump_def)

lemma dump_char_printable: "32 \<le> unat (byte_of_char (dump_char b)) \<and> unat (byte_of_char (dump_char b)) < 127"
proof (cases "32 < sint b \<and> sint b < 127")
  case True
  then have "uint b = sint b" unfolding uint_sint[of b] by (intro take_bit_int_eq_self) simp_all
  then have "int (unat b) = sint b" by simp
  then have "32 < unat b" "unat b < 127" using True by linarith+
  moreover have "byte_of_char (char_of_byte b) = word_of_nat (of_char (char_of (unat b)))"
    unfolding byte_of_char_def char_of_byte_def by (simp only: of_nat_of_char)
  ultimately have "unat (byte_of_char (char_of_byte b)) = unat b" by (simp add: of_char_of)
  then show ?thesis using True \<open>32 < unat b\<close> \<open>unat b < 127\<close> by (simp add: dump_char_def Let_def)
qed (auto simp: dump_char_def Let_def byte_of_char_def)

section \<open>Access logs and the table of sessions\<close>

definition http_access_log :: "tcp_l7_session_t \<Rightarrow> bool \<Rightarrow> string \<Rightarrow> nat \<Rightarrow> string" where
  "http_access_log hs ssl url http_code =
     ''HTTP'' @ (if ssl then ''S'' else []) @ '' GET('' @ num_str 10 http_code @ '') by ['' @ addr_to_str (l7_from hs) CHR ''.'' False @ '']:''
     @ num_str 10 (unat (l7_from_port hs)) @ '': '' @ url"

definition gopher_access_log :: "tcp_l7_session_t \<Rightarrow> string \<Rightarrow> string" where
  "gopher_access_log hs url =
     ''GOPHER req. by ['' @ addr_to_str (l7_from hs) CHR ''.'' False @ '']:'' @ num_str 10 (unat (l7_from_port hs)) @ '': '' @ url"

text \<open>\<open>age\<close> prints a number of microseconds as seconds (\<^verbatim>\<open>%.6f\<close> of a
  \<^verbatim>\<open>double\<close>, which is exact for ages below 70 years).\<close>

definition age :: "u64 \<Rightarrow> string" where
  "age us = num_str 10 (unat us div 1000000) @ ''.'' @ (let f = num_str 10 (unat us mod 1000000) in replicate (6 - length f) CHR ''0'' @ f)"

definition dump_sessions :: "u64 \<Rightarrow> sessions \<Rightarrow> string list" where
  "dump_sessions now sessions = concat (map (\<lambda>(sid, s).
     [''Session '' @ num_str 16 (unat sid),
      ''Age: '' @ age (now - updated_ts s),
      ''['' @ addr_to_str (local_addr s) CHR ''.'' False @ '']:'' @ num_str 10 (unat (local_port s)) @ (if l7_send_fin s then '' (FIN)'' else [])
        @ '' -> ['' @ addr_to_str (peer_addr s) CHR ''.'' False @ '']:'' @ num_str 10 (unat (peer_port s)) @ (if half_closed s then '' (FIN)'' else []),
      ''queued tcp->l7: '' @ num_str 10 (length (td_bytes (tcp_to_l7 s))) @ '', l7->tcp: '' @ num_str 10 (length (td_bytes (l7_to_tcp s)))
        @ '', in flight: '' @ num_str 10 (in_flight s)]) sessions)"

text \<open>Four lines for each session, in the order of the identifiers.\<close>

lemma dump_sessions_length: "length (dump_sessions now ss) = 4 * length ss"
  by (induction ss) (auto simp: dump_sessions_def)

lemma dump_sessions_order:
  assumes "i < length ss"
  shows "dump_sessions now ss ! (4 * i) = ''Session '' @ num_str 16 (unat (fst (ss ! i)))"
  using assms
proof (induction ss arbitrary: i)
  case (Cons x ss)
  then show ?case by (cases i) (auto simp: dump_sessions_def nth_append split: prod.splits)
qed simp

end
