(* ===== verification/Tcp_Stream.thy ===== *)
theory Tcp_Stream
  imports Tcp_Handshake
begin

text \<open>
  The stream from an application to its peer: whatever segments, writes, retransmissions and
  clean-ups happen in between, a session that is not closed holds exactly the bytes of the
  stream that are not acknowledged, at the sequence number that belongs to them.
\<close>

section \<open>The invariant of a session\<close>

text \<open>\<open>S\<close> is everything the application has written, \<open>isn\<close> the number of its first byte.  The
  first \<open>k\<close> bytes are acknowledged.\<close>

definition stream_inv :: "u32 \<Rightarrow> bytes \<Rightarrow> session_t \<Rightarrow> bool" where
  "stream_inv isn S s \<longleftrightarrow> st_state s = Closed \<or>
     (\<exists>k \<le> length S. td_bytes (l7_to_tcp s) = drop k S \<and> local_seq s = isn + word_of_nat k + (if fin_sent s then 1 else 0)
        \<and> in_flight s \<le> length S - k)"

lemma stream_inv_frame [simp]:
  "stream_inv isn S (s\<lparr> peer_seq := x1 \<rparr>) = stream_inv isn S s"
  "stream_inv isn S (s\<lparr> start_peer_seq := x2 \<rparr>) = stream_inv isn S s"
  "stream_inv isn S (s\<lparr> updated_ts := x3 \<rparr>) = stream_inv isn S s"
  "stream_inv isn S (s\<lparr> peer_window_size := x4 \<rparr>) = stream_inv isn S s"
  "stream_inv isn S (s\<lparr> half_closed := x5 \<rparr>) = stream_inv isn S s"
  "stream_inv isn S (s\<lparr> l7_send_fin := x6 \<rparr>) = stream_inv isn S s"
  by (simp_all add: stream_inv_def)

lemma stream_inv_state:
  "stream_inv isn S (s\<lparr> st_state := Closed \<rparr>)"
  "stream_inv isn S s \<Longrightarrow> st_state s \<noteq> Closed \<Longrightarrow> stream_inv isn S (s\<lparr> st_state := Established \<rparr>)"
  by (auto simp: stream_inv_def)

lemma tcp_ack_session_cases:
  "tcp_ack_session ak s =
     (let n = unat (ak - local_seq s) in
      if local_seq s \<le> ak \<and> n \<le> in_flight s
      then s\<lparr> l7_to_tcp := td_forget n (l7_to_tcp s), local_seq := ak, in_flight := 0 \<rparr>
      else if local_seq s \<le> ak then s else s\<lparr> in_flight := 0 \<rparr>)"
  by (auto simp: tcp_ack_session_def Let_def)

lemma tcp_ack_session_state [simp]: "st_state (tcp_ack_session ak s) = st_state s"
  by (simp add: tcp_ack_session_def Let_def)

lemma stream_inv_forget:
  assumes "stream_inv isn S s" "unat (ak - local_seq s) \<le> in_flight s"
  shows "stream_inv isn S (s\<lparr> l7_to_tcp := td_forget (unat (ak - local_seq s)) (l7_to_tcp s), local_seq := ak, in_flight := 0 \<rparr>)"
proof (cases "st_state s = Closed")
  case False
  define n where "n = unat (ak - local_seq s)"
  from False obtain k where k: "k \<le> length S" "td_bytes (l7_to_tcp s) = drop k S"
    "local_seq s = isn + word_of_nat k + (if fin_sent s then 1 else 0)" "in_flight s \<le> length S - k"
    using assms(1) by (auto simp: stream_inv_def)
  have "(word_of_nat n :: u32) = ak - local_seq s" by (simp add: n_def)
  then have "ak = isn + word_of_nat (k + n) + (if fin_sent s then 1 else 0)" using k(3) by simp
  moreover have "td_bytes (td_forget n (l7_to_tcp s)) = drop (k + n) S" "k + n \<le> length S"
    using k assms(2) by (auto simp: td_forget_def Let_def n_def add.commute)
  ultimately have "stream_inv isn S (s\<lparr> l7_to_tcp := td_forget n (l7_to_tcp s), local_seq := ak, in_flight := 0 \<rparr>)"
    unfolding stream_inv_def by (intro disjI2 exI[of _ "k + n"]) simp
  then show ?thesis by (simp only: n_def)
qed (simp add: stream_inv_def)

lemma stream_inv_ack: "stream_inv isn S s \<Longrightarrow> stream_inv isn S (tcp_ack_session ak s)"
  unfolding tcp_ack_session_cases Let_def
  by (auto intro: stream_inv_forget) (auto simp: stream_inv_def)

section \<open>A segment keeps the invariant\<close>

lemma tcp_dispatch_stream:
  assumes "tcp_dispatch shm out mappings salt now sg (Some s) w = Inr (fl, v, session, w')" "stream_inv isn S s"
  shows "\<exists>s'. session = Some s' \<and> stream_inv isn S s' \<and> (invalid v \<longrightarrow> invalid_w_rst v \<or> st_state s' = Closed)"
  using assms
  by (auto simp: tcp_dispatch_def tcp_syn_def tcp_ack_def Let_def res_bind_eq_Inr verdict0_def stream_inv_ack stream_inv_state
      split: if_splits)

lemma tcp_input_stream:
  assumes "tcp_input shm out sg v s w = Inr (v', s', w')" "stream_inv isn S s"
  shows "stream_inv isn S s'" "invalid v' = invalid v" "st_state s' = st_state s"
  using assms
  by (auto simp: tcp_input_def Let_def res_bind_eq_Inr split: if_splits)

lemma tcp_fin_stream:
  assumes "tcp_fin shm out sg v s w = Inr (s', w')" "stream_inv isn S s"
  shows "stream_inv isn S s'" "st_state s' = st_state s"
  using assms
  by (auto simp: tcp_fin_def Let_def res_bind_eq_Inr split: if_splits)

lemma tcp_clean_stream:
  assumes "tcp_clean shm out sg v (Some s) w = Inr (session, w')" "stream_inv isn S s"
    and "invalid v \<longrightarrow> invalid_w_rst v \<or> st_state s = Closed"
  shows "\<exists>s'. session = Some s' \<and> stream_inv isn S s'"
  using assms
  by (auto simp: tcp_clean_def Let_def res_bind_eq_Inr split: if_splits) (auto simp: stream_inv_def)

lemma tcp_body_stream:
  assumes "tcp_body shm out sg v (Some s) w = Inr (v', session, w')" "stream_inv isn S s"
    and "invalid v \<longrightarrow> invalid_w_rst v \<or> st_state s = Closed"
  shows "\<exists>s'. session = Some s' \<and> stream_inv isn S s' \<and> (invalid v' \<longrightarrow> invalid_w_rst v' \<or> st_state s' = Closed)"
proof (cases "invalid v")
  case True
  then show ?thesis using assms tcp_fin_stream[of shm out sg v s w] by (auto simp: tcp_body_def res_bind_eq_Inr)
next
  case False
  then show ?thesis using assms(1) tcp_input_stream[of shm out sg v s w, OF _ assms(2)] tcp_fin_stream[of shm out sg]
    by (fastforce simp: tcp_body_def res_bind_eq_Inr)
qed

text \<open>\<open>streams\<close>: the map is sorted and the session under \<open>sid\<close> is there and keeps its stream.\<close>

definition streams :: "u32 \<Rightarrow> bytes \<Rightarrow> u64 \<Rightarrow> sessions \<Rightarrow> bool" where
  "streams isn S sid ss \<longleftrightarrow> map_ok ss \<and> (case find_key sid ss of None \<Rightarrow> False | Some s \<Rightarrow> stream_inv isn S s)"

lemma streams_write_back:
  assumes "streams isn S sid ss" "sid = sid' \<Longrightarrow> stream_inv isn S s"
  shows "streams isn S sid (write_back sid' (Some s) ss)"
  using assms by (auto simp: streams_def write_back_def find_set_key set_key_ok)

lemma streams_erase:
  "streams isn S sid ss \<Longrightarrow> find_key sid (erase_key k ss) \<noteq> None \<Longrightarrow> streams isn S sid (erase_key k ss)"
  by (auto simp: streams_def find_erase_key erase_key_ok split: if_splits)

lemma tcp_segment_shape:
  assumes "tcp_segment shm out mappings salt now now_us sg ss w = Inr (ss', w')"
  shows "ss' = erase_key (sg_sid sg) ss \<or> (\<exists>session. ss' = write_back (sg_sid sg) session ss)"
proof -
  obtain fl v session w1 where "tcp_dispatch shm out mappings salt now sg
      (map_option (\<lambda>s. s\<lparr> updated_ts := now_us, peer_window_size := sg_window sg \<rparr>) (find_key (sg_sid sg) ss)) w
      = Inr (fl, v, session, w1)"
    using assms by (auto simp: tcp_segment_def Let_def res_bind_eq_Inr)
  then show ?thesis using assms by (cases fl) (auto simp: tcp_segment_def Let_def res_bind_eq_Inr)
qed

lemma tcp_segment_known:
  assumes "tcp_segment shm out mappings salt now now_us sg ss w = Inr (ss', w')"
    and "find_key (sg_sid sg) ss = Some s" "stream_inv isn S s"
  shows "ss' = erase_key (sg_sid sg) ss \<or> (\<exists>s'. ss' = write_back (sg_sid sg) (Some s') ss \<and> stream_inv isn S s')"
proof -
  let ?s = "s\<lparr> updated_ts := now_us, peer_window_size := sg_window sg \<rparr>"
  have "stream_inv isn S ?s" using assms(3) by simp
  obtain fl v session w1 where d: "tcp_dispatch shm out mappings salt now sg (Some ?s) w = Inr (fl, v, session, w1)"
    using assms(1,2) by (auto simp: tcp_segment_def Let_def res_bind_eq_Inr)
  obtain s1 where s1: "session = Some s1" "stream_inv isn S s1" "invalid v \<longrightarrow> invalid_w_rst v \<or> st_state s1 = Closed"
    using tcp_dispatch_stream[OF d \<open>stream_inv isn S ?s\<close>] by blast
  note clean = tcp_clean_stream[where shm = shm and out = out and sg = sg and isn = isn and S = S]
  show ?thesis
  proof (cases fl)
    case Clean
    then show ?thesis using assms(1,2) d s1 clean[of v s1 w1]
      by (auto simp: tcp_segment_def Let_def res_bind_eq_Inr)
  next
    case Proceed
    then obtain v2 session2 w2 where b: "tcp_body shm out sg v (Some s1) w1 = Inr (v2, session2, w2)"
      using assms(1,2) d s1(1) by (auto simp: tcp_segment_def Let_def res_bind_eq_Inr)
    from tcp_body_stream[OF this s1(2,3)] obtain s2 where "session2 = Some s2" "stream_inv isn S s2"
      "invalid v2 \<longrightarrow> invalid_w_rst v2 \<or> st_state s2 = Closed" by blast
    then show ?thesis using assms(1,2) d s1(1) Proceed b clean[of v2 s2 w2]
      by (auto simp: tcp_segment_def Let_def res_bind_eq_Inr)
  next
    case Done
    then show ?thesis using assms(1,2) d s1 by (auto simp: tcp_segment_def Let_def)
  next
    case Release
    then show ?thesis using assms(1,2) d s1 by (auto simp: tcp_segment_def Let_def)
  qed
qed

lemma tcp_segment_stream:
  assumes "tcp_segment shm out mappings salt now now_us sg ss w = Inr (ss', w')" "streams isn S sid ss"
    and "find_key sid ss' \<noteq> None"
  shows "streams isn S sid ss'"
proof (cases "sg_sid sg = sid")
  case True
  obtain s where s: "find_key (sg_sid sg) ss = Some s" "stream_inv isn S s"
    using assms(2) True by (auto simp: streams_def split: option.splits)
  show ?thesis using tcp_segment_known[OF assms(1) s] streams_erase[OF assms(2)] streams_write_back[OF assms(2)] assms(3) by blast
next
  case False
  have "streams isn S sid (write_back (sg_sid sg) session ss)" for session
    using streams_write_back[OF assms(2)] assms(2) False by (cases session) (auto simp: write_back_def)
  then show ?thesis using tcp_segment_shape[OF assms(1)] streams_erase[OF assms(2)] assms(3) by blast
qed

section \<open>The other threads keep the invariant\<close>

text \<open>What a message from an application adds to the stream of session \<open>sid\<close>.\<close>

definition written :: "u64 \<Rightarrow> message \<Rightarrow> bytes" where
  "written sid m = (let d = take (unat (msg_size m)) (msg_data m) in
     if word_of_nat (le_dec (take 8 d)) = sid then drop 12 d else [])"

lemma stream_inv_write:
  "stream_inv isn S s \<Longrightarrow> stream_inv isn (S @ d) (s\<lparr> l7_to_tcp := td_add d (l7_to_tcp s) \<rparr>)"
  by (force simp: stream_inv_def td_add_def)

lemma tcp_run_out_stream:
  assumes "tcp_run_out m ss = Inr (n, ss')" "streams isn S sid ss"
  shows "streams isn (S @ written sid m) sid ss'"
proof (cases "unat (msg_size m) < 12")
  case True
  then show ?thesis using assms by (auto simp: tcp_run_out_def written_def Let_def)
next
  case False
  let ?d = "take (unat (msg_size m)) (msg_data m)"
  let ?id = "word_of_nat (le_dec (take 8 ?d)) :: u64"
  obtain d where l: "load_n (msg_data m) 0 (unat (msg_size m)) = Inr d" using assms(1) False
    by (auto simp: tcp_run_out_def res_bind_eq_Inr Let_def)
  then have d: "d = ?d" "unat (msg_size m) \<le> length (msg_data m)" by (auto simp: load_n_def split: if_splits)
  obtain s where s: "map_ok ss" "find_key sid ss = Some s" "stream_inv isn S s"
    using assms(2) by (auto simp: streams_def split: option.splits)
  have w: "stream_inv isn (S @ drop 12 ?d)
      (if 12 < unat (msg_size m) then s\<lparr> l7_to_tcp := td_add (drop 12 ?d) (l7_to_tcp s) \<rparr> else s)"
    using stream_inv_write[OF s(3)] s(3) d(2) by auto
  show ?thesis
  proof (cases "?id = sid")
    case True
    then show ?thesis using assms(1) False l d(1) s w
      by (auto simp: tcp_run_out_def Let_def written_def streams_def find_set_key set_key_ok split: if_splits)
  next
    case id: False
    then show ?thesis using assms(1) False l d(1) s
      by (auto simp: tcp_run_out_def Let_def written_def streams_def find_set_key set_key_ok split: if_splits option.splits)
  qed
qed

lemma send_tcp_loop_count:
  "send_tcp_loop fuel shm down f t sp dp sq ak flags win p m n w = Inr (r, w') \<Longrightarrow> r \<le> int (n + length p) \<and> - 1 \<le> r"
proof (induction fuel arbitrary: sq p n w)
  case (Suc fuel)
  define u where "u = min (length p) (unat m)"
  have u: "u \<le> length p" by (simp add: u_def)
  obtain rc w1 where "(if \<not> rc then Inr (if 0 < n + u then int (n + u) else -1, w1)
      else if 0 < length p - u then
        send_tcp_loop fuel shm down f t sp dp (sq + word_of_nat u) ak flags win (drop u p) m (n + u) w1
      else Inr (int (n + u), w1)) = Inr (r, w')"
    using Suc.prems unfolding send_tcp_loop.simps(2) Let_def u_def[symmetric] by (auto simp: res_bind_eq_Inr)
  then consider "r = int (n + u)" | "r = -1"
    | "send_tcp_loop fuel shm down f t sp dp (sq + word_of_nat u) ak flags win (drop u p) m (n + u) w1 = Inr (r, w')"
    by (auto split: if_splits)
  then show ?case using u Suc.IH[of "sq + word_of_nat u" "drop u p" "n + u" w1] by cases simp_all
qed (simp add: send_tcp_loop.simps)

lemma stream_inv_send:
  assumes "stream_inv isn S s" "\<not> fin_sent s" "n \<le> length (td_bytes (l7_to_tcp s))"
  shows "stream_inv isn S ((if fin then s\<lparr> local_seq := local_seq s + 1, fin_sent := True \<rparr> else s)\<lparr> in_flight := n \<rparr>)"
proof (cases "st_state s = Closed")
  case False
  then obtain k where "k \<le> length S" "td_bytes (l7_to_tcp s) = drop k S" "local_seq s = isn + word_of_nat k"
    using assms(1,2) by (auto simp: stream_inv_def)
  then show ?thesis using assms(2,3) unfolding stream_inv_def by (intro disjI2 exI[of _ k]) simp
qed (simp add: stream_inv_def)

lemma tcp_sender_session_stream:
  assumes "tcp_sender_session shm out s w = Inr (Some s', w')" "stream_inv isn S s"
  shows "stream_inv isn S s'"
proof (cases "in_flight s \<noteq> 0 \<or> fin_sent s")
  case True
  then show ?thesis using assms by (simp add: tcp_sender_session_def)
next
  case False
  define b where "b = take (min (length (td_bytes (l7_to_tcp s))) (min 65536 (unat (mss s)))) (td_bytes (l7_to_tcp s))"
  define fin where "fin \<longleftrightarrow> length (td_bytes (l7_to_tcp s)) = min (length (td_bytes (l7_to_tcp s))) (min 65536 (unat (mss s))) \<and> l7_send_fin s"
  define X where "X = send_tcp_packet shm out (local_addr s) (peer_addr s) (local_port s) (peer_port s)
      (local_seq s) (peer_seq s) ((if fin then FLAG_FIN else 0) OR FLAG_ACK OR FLAG_PSH) (local_window_size s) b (mss s) w"
  have u: "tcp_sender_session shm out s w =
      (if 0 < length b \<or> fin then
          res_bind X (\<lambda>(sent_n, w).
          if sent_n = -1 then Inr (None, w)
          else Inr (Some ((if sent_n = int (length b) \<and> fin then s\<lparr> local_seq := local_seq s + 1, fin_sent := True \<rparr> else s)
                 \<lparr> in_flight := nat sent_n \<rparr>), w))
        else Inr (Some s, w))"
    using False by (auto simp: tcp_sender_session_def td_peek_def Let_def X_def b_def fin_def intro!: arg_cong2[where f = res_bind])
  show ?thesis
  proof (cases "0 < length b \<or> fin")
    case True
    then have "res_bind X (\<lambda>(sent_n, w). if sent_n = -1 then Inr (None, w)
          else Inr (Some ((if sent_n = int (length b) \<and> fin then s\<lparr> local_seq := local_seq s + 1, fin_sent := True \<rparr> else s)
                 \<lparr> in_flight := nat sent_n \<rparr>), w)) = Inr (Some s', w')"
      using assms(1) unfolding u by simp
    then obtain sn w1 where sn: "X = Inr (sn, w1)"
        "s' = (if sn = int (length b) \<and> fin then s\<lparr> local_seq := local_seq s + 1, fin_sent := True \<rparr> else s)\<lparr> in_flight := nat sn \<rparr>"
      unfolding res_bind_eq_Inr by (auto split: if_split_asm prod.split_asm)
    have "nat sn \<le> length b" using send_tcp_loop_count[OF sn(1)[unfolded X_def send_tcp_packet_def]] by auto
    moreover have "length b \<le> length (td_bytes (l7_to_tcp s))" by (simp add: b_def)
    ultimately have "nat sn \<le> length (td_bytes (l7_to_tcp s))" by simp
    from stream_inv_send[OF assms(2) _ this, of "sn = int (length b) \<and> fin"] False show ?thesis unfolding sn(2) by simp
  next
    case False
    then show ?thesis using u assms by simp
  qed
qed

lemma tcp_sender_pass_keys: "tcp_sender_pass shm out ss w = Inr (ss', w') \<Longrightarrow> map fst ss' = map fst ss"
  by (induction shm out ss w arbitrary: ss' w' rule: tcp_sender_pass.induct)
    (auto simp: res_bind_eq_Inr split: option.splits)

lemma tcp_sender_pass_find:
  assumes "tcp_sender_pass shm out ss w = Inr (ss', w')" "find_key sid ss = Some s" "stream_inv isn S s"
  shows "\<exists>s'. find_key sid ss' = Some s' \<and> stream_inv isn S s'"
  using assms(1,2)
proof (induction ss arbitrary: w ss')
  case (Cons x ss)
  obtain k s0 where x: "x = (k, s0)" by force
  obtain r w1 where r: "tcp_sender_session shm out s0 w = Inr (r, w1)"
    using Cons.prems(1) by (auto simp: x res_bind_eq_Inr)
  show ?case
  proof (cases r)
    case None
    then show ?thesis using Cons.prems r assms(3) by (auto simp: x)
  next
    case (Some s1)
    then obtain rest where rest: "tcp_sender_pass shm out ss w1 = Inr (rest, w')" "ss' = (k, s1) # rest"
      using Cons.prems(1) r by (auto simp: x res_bind_eq_Inr)
    have "k = sid \<Longrightarrow> stream_inv isn S s1"
      using tcp_sender_session_stream[of shm out s0 w s1 w1 isn S] r Some Cons.prems(2) assms(3) by (simp add: x find_key_def)
    then show ?thesis using Cons.IH[OF rest(1)] Cons.prems(2) rest(2) by (auto simp: x find_key_def)
  qed
qed simp

lemma tcp_sender_pass_stream:
  assumes "tcp_sender_pass shm out ss w = Inr (ss', w')" "streams isn S sid ss"
  shows "streams isn S sid ss'"
  using tcp_sender_pass_find[OF assms(1), of sid] tcp_sender_pass_keys[OF assms(1)] assms(2)
  by (fastforce simp: streams_def map_ok_def split: option.splits)

lemma erase_keys_stream:
  "streams isn S sid ss \<Longrightarrow> find_key sid (fold erase_key ks ss) \<noteq> None \<Longrightarrow> streams isn S sid (fold erase_key ks ss)"
proof (induction ks arbitrary: ss)
  case (Cons k ks)
  have gone: "find_key sid (fold erase_key ks m) = None" if "find_key sid m = None" for m :: sessions
    using that by (induction ks arbitrary: m) (simp_all add: find_erase_key)
  have "find_key sid (erase_key k ss) \<noteq> None"
  proof
    assume "find_key sid (erase_key k ss) = None"
    from gone[OF this] show False using Cons.prems(2) by simp
  qed
  from streams_erase[OF Cons.prems(1) this] show ?case using Cons.IH Cons.prems(2) by simp
qed simp

lemma tcp_open_stream:
  assumes "tcp_open shm out a shm_meta ports sq m da dp nm ss ps w = Inr (ss', ps', w')" "streams isn S sid ss"
  shows "streams isn S sid ss'"
  using assms
  by (auto simp: tcp_open_def Let_def res_bind_eq_Inr streams_def find_insert_key insert_key_ok split: option.splits if_splits)

lemma tcp_close_stream:
  assumes "tcp_close shm out sid0 ss ps w = Inr (ss', ps', w')" "streams isn S sid ss" "find_key sid ss' \<noteq> None"
  shows "streams isn S sid ss'"
  using assms streams_erase[OF assms(2), of sid0]
  by (auto simp: tcp_close_def Let_def res_bind_eq_Inr split: option.splits if_splits)

lemma tcp_run_meta_shape:
  assumes "tcp_run_meta shm out a shm_meta junk ports sq m ss ps w = Inr (n, ss', ps', w')"
  shows "ss' = ss \<or> (\<exists>da dp nm. tcp_open shm out a shm_meta ports sq m da dp nm ss ps w = Inr (ss', ps', w'))
    \<or> (\<exists>sid. tcp_close shm out sid ss ps w = Inr (ss', ps', w'))"
proof -
  obtain d where d: "load_n (msg_data m) 0 (unat (msg_size m)) = Inr d"
    using assms by (auto simp: tcp_run_meta_def res_bind_eq_Inr)
  show ?thesis
  proof (cases "length (split (of_bytes d) [CHR 0x0A]) < 2")
    case True
    then show ?thesis using assms d by (simp add: tcp_run_meta_def Let_def)
  next
    case False
    then obtain r where r: "tcp_meta_lines junk (split (of_bytes d) [CHR 0x0A])
        \<lparr> mr_open = False, mr_sid = None, mr_addr = None, mr_port = None, mr_shm = None \<rparr> = Inr r"
      using assms d by (auto simp: tcp_run_meta_def Let_def res_bind_eq_Inr)
    show ?thesis
    proof (cases r)
      case None
      then show ?thesis using assms d False r by (simp add: tcp_run_meta_def Let_def)
    next
      case (Some q)
      then show ?thesis using assms d False r
        by (cases "mr_open q"; cases "mr_port q"; cases "mr_addr q"; cases "mr_shm q"; cases "mr_sid q")
          (auto simp: tcp_run_meta_def Let_def res_bind_eq_Inr)
    qed
  qed
qed

lemma tcp_run_meta_stream:
  assumes "tcp_run_meta shm out a shm_meta junk ports sq m ss ps w = Inr (n, ss', ps', w')" "streams isn S sid ss"
    and "find_key sid ss' \<noteq> None"
  shows "streams isn S sid ss'"
  using tcp_run_meta_shape[OF assms(1)] tcp_open_stream[OF _ assms(2), where shm = shm and w = w]
    tcp_close_stream[OF _ assms(2,3), where shm = shm and w = w] assms(2) by blast

section \<open>Runs of the server\<close>

text \<open>A step of the server: one turn of one of its threads; its label is what it adds to the
  stream of session \<open>sid\<close>.\<close>

inductive tcp_step :: "'w shm_queue \<Rightarrow> string \<Rightarrow> (u16 \<Rightarrow> string option) \<Rightarrow> bytes \<Rightarrow> u64 \<Rightarrow> sessions \<times> 'w \<Rightarrow> bytes \<Rightarrow> sessions \<times> 'w \<Rightarrow> bool"
  for shm out mappings salt sid where
  receives: "tcp_run_in shm out mappings salt now now_us m ss w = Inr (n, ss', w') \<Longrightarrow>
    tcp_step shm out mappings salt sid (ss, w) [] (ss', w')"
| writes: "tcp_run_out m ss = Inr (n, ss') \<Longrightarrow>
    tcp_step shm out mappings salt sid (ss, w) (written sid m) (ss', w)"
| sends: "tcp_sender_pass shm out ss w = Inr (ss', w') \<Longrightarrow>
    tcp_step shm out mappings salt sid (ss, w) [] (ss', w')"
| cleans: "tcp_step shm out mappings salt sid (ss, w) [] (tcp_run_clean now ss, w)"
| managed: "tcp_run_meta shm out a shm_meta junk ports sq m ss ps w = Inr (n, ss', ps', w') \<Longrightarrow>
    tcp_step shm out mappings salt sid (ss, w) [] (ss', w')"

text \<open>Steps during which the session \<open>sid\<close> lives; \<open>S\<close> collects what is written to it.\<close>

inductive tcp_life :: "'w shm_queue \<Rightarrow> string \<Rightarrow> (u16 \<Rightarrow> string option) \<Rightarrow> bytes \<Rightarrow> u64 \<Rightarrow> sessions \<times> 'w \<Rightarrow> bytes \<Rightarrow> sessions \<times> 'w \<Rightarrow> bool"
  for shm out mappings salt sid x where
  born: "tcp_life shm out mappings salt sid x [] x"
| lives: "tcp_life shm out mappings salt sid x S (ss, w) \<Longrightarrow> tcp_step shm out mappings salt sid (ss, w) d (ss', w') \<Longrightarrow>
    find_key sid ss' \<noteq> None \<Longrightarrow> tcp_life shm out mappings salt sid x (S @ d) (ss', w')"

lemma tcp_step_stream:
  assumes "tcp_step shm out mappings salt sid (ss, w) d (ss', w')" "streams isn S sid ss" "find_key sid ss' \<noteq> None"
  shows "streams isn (S @ d) sid ss'"
  using assms(1)
proof (cases rule: tcp_step.cases)
  case (receives now now_us m n)
  then show ?thesis using assms(2,3) tcp_segment_stream[OF _ assms(2,3)]
    by (auto simp: tcp_run_in_def res_bind_eq_Inr split: option.splits)
next
  case (writes m n)
  then show ?thesis using tcp_run_out_stream assms(2) by blast
next
  case sends
  then show ?thesis using tcp_sender_pass_stream assms(2) by auto
next
  case (cleans now)
  then show ?thesis using erase_keys_stream assms(2,3) by (simp add: tcp_run_clean_def)
next
  case (managed a shm_meta junk ports sq m ps n ps')
  from tcp_run_meta_stream[OF managed(2) assms(2,3)] managed(1) show ?thesis by simp
qed

lemma tcp_life_stream:
  assumes "tcp_life shm out mappings salt sid (ss0, w0) S (ss, w)" "streams isn [] sid ss0"
  shows "streams isn S sid ss"
  using assms(1)
proof (induction S "(ss, w)" arbitrary: ss w rule: tcp_life.induct)
  case born
  then show ?case by (rule assms(2))
next
  case (lives S ss w d ss' w')
  from tcp_step_stream[OF lives.hyps(3,2,4)] show ?case .
qed

section \<open>Properties of the stream\<close>

text \<open>A session as it is after opening: nothing written, nothing in flight.\<close>

definition fresh_session :: "u64 \<Rightarrow> u32 \<Rightarrow> sessions \<Rightarrow> bool" where
  "fresh_session sid isn ss \<longleftrightarrow> map_ok ss \<and> (case find_key sid ss of None \<Rightarrow> False | Some s \<Rightarrow>
     td_bytes (l7_to_tcp s) = [] \<and> in_flight s = 0 \<and> \<not> fin_sent s \<and> local_seq s = isn)"

lemma fresh_session_streams: "fresh_session sid isn ss \<Longrightarrow> streams isn [] sid ss"
  by (auto simp: fresh_session_def streams_def stream_inv_def split: option.splits)

context transport
begin

lemma sender_sends_stream:
  assumes "ok w" "streams isn S sid ss" "find_key sid ss = Some s" "st_state s \<noteq> Closed" "in_flight s = 0" "\<not> fin_sent s"
    and "td_bytes (l7_to_tcp s) \<noteq> []" "0 < mss s" "length (local_addr s) = 4" "length (peer_addr s) = 4"
  shows "\<exists>k n r s' w'. k + n \<le> length S \<and> 0 < n \<and> n \<le> unat (mss s)
    \<and> tcp_sender_session shm out s w = Inr (Some s', w') \<and> ok w' \<and> in_flight s' = n
    \<and> posted ib cap lid w out (wrap_message_down (local_addr s) (peer_addr s)
        (tcp_pkt (local_addr s) (peer_addr s) (local_port s) (peer_port s) (isn + word_of_nat k) (peer_seq s)
           ((if k + n = length S \<and> l7_send_fin s then FLAG_FIN else 0) OR FLAG_ACK OR FLAG_PSH)
           (local_window_size s) (take n (drop k S))) None) r w'"
proof -
  obtain k where k: "k \<le> length S" "td_bytes (l7_to_tcp s) = drop k S" "local_seq s = isn + word_of_nat k"
    using assms(2-4,6) by (auto simp: streams_def stream_inv_def)
  let ?m = "unat (mss s)"
  define n where "n = min (length S - k) ?m"
  define D where "D = take n (drop k S)"
  define fin where "fin \<longleftrightarrow> k + n = length S \<and> l7_send_fin s"
  let ?flags = "(if fin then FLAG_FIN else 0) OR FLAG_ACK OR FLAG_PSH"
  have m: "min 65536 ?m = ?m" "0 < ?m" using u16_le[of "mss s"] assms(8) by (auto simp: unat_gt_0)
  have n: "k + n \<le> length S" "0 < n" "n \<le> ?m" using k assms(7) m by (auto simp: n_def)
  have D: "length D = n" "min (length D) ?m = n" "take n D = D" using n by (auto simp: D_def)
  have pk: "td_peek (min 65536 ?m) (l7_to_tcp s) = (D, k + n = length S)"
    unfolding m(1) using k(1,2) by (auto simp: td_peek_def Let_def n_def D_def)
  obtain r w' where w': "ok w'"
    "posted ib cap lid w out (wrap_message_down (local_addr s) (peer_addr s)
        (tcp_pkt (local_addr s) (peer_addr s) (local_port s) (peer_port s) (local_seq s) (peer_seq s)
           ?flags (local_window_size s) D) None) r w'"
    "send_tcp_packet shm out (local_addr s) (peer_addr s) (local_port s) (peer_port s) (local_seq s) (peer_seq s)
           ?flags (local_window_size s) D (mss s) w = Inr (int n, w')"
    using send_tcp_step[OF assms(1,9,10) D(2)[symmetric], of out "local_port s" "peer_port s" "local_seq s" "peer_seq s"
        ?flags "local_window_size s" "length D" 0] n(2) D(1,3)
    unfolding send_tcp_packet_def by auto
  have "(if k + n = length S then l7_send_fin s else False) = fin" by (simp add: fin_def)
  then have "\<exists>s'. tcp_sender_session shm out s w = Inr (Some s', w') \<and> in_flight s' = n"
    using assms(5,6) w'(3) n(2) D(1) unfolding tcp_sender_session_def pk by (auto simp: Let_def)
  then show ?thesis using w'(1,2) n k(3) unfolding fin_def D_def by (intro exI[of _ k] exI[of _ n]) auto
qed

end

text \<open>C7: Take a session from its opening through any sequence of turns of the server's threads
  (segments from anyone, writes, sender passes, meta requests, clean-ups) as long as it lives
  and is not closed.  The next segment its sender emits carries bytes of what the application
  has written so far, at the sequence number of their position in the stream.\<close>

theorem tcp_sends_the_stream:
  assumes "fresh_session sid isn ss0" "tcp_life (send_message lid) out mappings salt sid (ss0, w0) S (ss, w)"
    and "net_ok w" "length lid < max_id_length" "find_key sid ss = Some s" "st_state s \<noteq> Closed"
    and "in_flight s = 0" "\<not> fin_sent s" "td_bytes (l7_to_tcp s) \<noteq> []" "0 < mss s"
    and "length (local_addr s) = 4" "length (peer_addr s) = 4"
  shows "\<exists>k n r s' w'. k + n \<le> length S \<and> 0 < n \<and> n \<le> unat (mss s)
    \<and> tcp_sender_session (send_message lid) out s w = Inr (Some s', w') \<and> net_ok w' \<and> in_flight s' = n
    \<and> posted inbox capacity lid w out (wrap_message_down (local_addr s) (peer_addr s)
        (tcp_pkt (local_addr s) (peer_addr s) (local_port s) (peer_port s) (isn + word_of_nat k) (peer_seq s)
           ((if k + n = length S \<and> l7_send_fin s then FLAG_FIN else 0) OR FLAG_ACK OR FLAG_PSH)
           (local_window_size s) (take n (drop k S))) None) r w'"
  using tcp_life_stream[OF assms(2) fresh_session_streams[OF assms(1)]] assms
  by (intro transport.sender_sends_stream[OF shm_transport])

definition sample_session :: "bytes \<Rightarrow> session_t" where
  "sample_session d = new_session_t\<lparr> st_state := Established, local_seq := 5000, peer_seq := 1000, mss := 536,
     local_addr := [10, 0, 0, 2], peer_addr := [10, 0, 0, 1], local_port := 80, peer_port := 4711, shm_peer := ''http'',
     l7_to_tcp := \<lparr> td_seq = 0, td_bytes = d \<rparr> \<rparr>"

lemma sample_life:
  "tcp_life (send_message lid) out mappings salt 99 ([(99, sample_session [])], w) [104, 105] ([(99, sample_session [104, 105])], w)"
proof -
  let ?m = "hello\<lparr> msg_size := 14, msg_data := [99, 0, 0, 0, 0, 0, 0, 0, 0, 0, 0, 0, 104, 105] \<rparr>"
  have "written 99 ?m = [104, 105]" by (simp add: written_def)
  moreover have "tcp_run_out ?m [(99, sample_session [])] = Inr (1, [(99, sample_session [104, 105])])"
    by (simp add: tcp_run_out_def Let_def load_n_def slice_at_def find_key_def sample_session_def td_add_def new_session_t_def)
  ultimately have "tcp_step (send_message lid) out mappings salt 99 ([(99, sample_session [])], w) [104, 105] ([(99, sample_session [104, 105])], w)"
    using tcp_step.writes[of ?m _ _ _ "send_message lid" out mappings salt 99 w] by metis
  from tcp_life.lives[OF tcp_life.born this] show ?thesis by (simp add: find_key_def)
qed

theorem tcp_sends_the_stream_witness:
  "(let s = sample_session [104, 105] in
    \<exists>k n r s' w'. k + n \<le> length ([104, 105] :: bytes) \<and> 0 < n \<and> n \<le> unat (mss s)
    \<and> tcp_sender_session (send_message ''tcp'') ''ip4'' s idle_net = Inr (Some s', w') \<and> net_ok w' \<and> in_flight s' = n
    \<and> posted inbox capacity ''tcp'' idle_net ''ip4'' (wrap_message_down (local_addr s) (peer_addr s)
        (tcp_pkt (local_addr s) (peer_addr s) (local_port s) (peer_port s) (5000 + word_of_nat k) (peer_seq s)
           ((if k + n = length ([104, 105] :: bytes) \<and> l7_send_fin s then FLAG_FIN else 0) OR FLAG_ACK OR FLAG_PSH)
           (local_window_size s) (take n (drop k [104, 105]))) None) r w')"
  unfolding Let_def
  by (rule tcp_sends_the_stream[OF _ sample_life[where salt = "replicate 16 7" and mappings = "\<lambda>_. None"]])
    (simp_all add: idle_net_ok max_id_length_def fresh_session_def find_key_def sample_session_def new_session_t_def map_ok_def)

text \<open>The clean-up removes exactly the sessions that have been quiet for 30 seconds and are
  closed or ended by both sides, and leaves the others as they are.\<close>

theorem tcp_clean_removes_finished:
  assumes "map_ok ss"
  shows "find_key sid (tcp_run_clean now ss) =
    (case find_key sid ss of None \<Rightarrow> None | Some s \<Rightarrow> if tcp_finished now s then None else Some s)"
proof -
  have f: "find_key sid (fold erase_key ks m) = (if sid \<in> set ks then None else find_key sid m)" for ks and m :: sessions
    by (induction ks arbitrary: m) (simp_all add: find_erase_key)
  have "sid \<in> set (map fst (filter (\<lambda>(k, s). tcp_finished now s) ss)) \<longleftrightarrow>
      (case find_key sid ss of None \<Rightarrow> False | Some s \<Rightarrow> tcp_finished now s)"
    using assms unfolding map_ok_def find_key_def
    by (induction ss) (auto split: option.splits if_splits dest: map_of_SomeD simp: rev_image_eqI)
  then show ?thesis by (auto simp: tcp_run_clean_def f split: option.splits)
qed

theorem tcp_clean_removes_finished_witness:
  "(let ss = [(98, (sample_session [])\<lparr> st_state := Closed \<rparr>), (99, sample_session [])] in
    find_key 98 (tcp_run_clean 40000000 ss) =
    (case find_key 98 ss of None \<Rightarrow> None | Some s \<Rightarrow> if tcp_finished 40000000 s then None else Some s))"
  unfolding Let_def by (rule tcp_clean_removes_finished) (simp add: map_ok_def)

end
