(* ===== verification/Vnc_Encode.thy ===== *)
theory Vnc_Encode
  imports Vnc_Frame
begin

text \<open>
  How \<^verbatim>\<open>src/vnc_server.cpp\<close> encodes a rectangle: \<open>encode_pixel\<close>, \<open>hextile\<close> and
  \<open>calculate_fb_update\<close>.  A buffer that is written from the front is the list of what has been
  written, with its size as a capacity.
\<close>

section \<open>Pixels and tiles\<close>

type_synonym pixel = "byte \<times> byte \<times> byte"

definition encode_pixel :: "nat \<Rightarrow> pixel \<Rightarrow> bytes" where
  "encode_pixel depth p =
     (let (r, g, b) = p in
      if depth = 32 \<or> depth = 24 then [b, g, r, 255]
      else if depth = 8 then [(r AND 0xe0) OR (drop_bit 3 g AND 0x1c) OR drop_bit 6 b]
      else [])"

definition emit :: "nat \<Rightarrow> bytes \<Rightarrow> bytes \<Rightarrow> bytes res" where
  "emit cap d out = (if length out + length d \<le> cap then Inr (out @ d) else Inl Out_of_bounds)"

definition pixel_at :: "bytes \<Rightarrow> nat \<Rightarrow> pixel res" where
  "pixel_at dat ofs = res_bind (load_n dat ofs 3) (\<lambda>p. Inr (p ! 0, p ! 1, p ! 2))"

fun encode_pixels :: "nat \<Rightarrow> nat \<Rightarrow> bytes \<Rightarrow> nat list \<Rightarrow> bytes \<Rightarrow> bytes res" where
  "encode_pixels cap depth dat [] out = Inr out"
| "encode_pixels cap depth dat (ofs # ofss) out =
     res_bind (pixel_at dat ofs) (\<lambda>p.
     res_bind (emit cap (encode_pixel depth p) out) (\<lambda>out.
     encode_pixels cap depth dat ofss out))"

text \<open>The offsets of a rectangle, as far as the code computes them: line by line, with the width of
  the rectangle as the width of the picture.\<close>

definition tile_offsets :: "nat \<Rightarrow> nat \<Rightarrow> nat \<Rightarrow> nat list" where
  "tile_offsets w y x = concat (map (\<lambda>ty. map (\<lambda>tx. (y + ty) * w * 3 + (x + tx) * 3) [0..<16]) [0..<16])"

fun tile_differs :: "bytes \<Rightarrow> pixel \<Rightarrow> nat list \<Rightarrow> bool res" where
  "tile_differs dat s [] = Inr False"
| "tile_differs dat s (ofs # ofss) =
     res_bind (pixel_at dat ofs) (\<lambda>p. if p \<noteq> s then Inr True else tile_differs dat s ofss)"

definition hextile_tile :: "nat \<Rightarrow> nat \<Rightarrow> bytes \<Rightarrow> nat \<Rightarrow> nat \<times> nat \<Rightarrow> bytes \<Rightarrow> bytes res" where
  "hextile_tile cap depth dat w pos out =
     (let (y, x) = pos in
      res_bind (pixel_at dat (y * w * 3 + x * 3)) (\<lambda>s.
      res_bind (tile_differs dat s (tile_offsets w y x)) (\<lambda>different.
      if different then
        res_bind (emit cap [1] out) (\<lambda>out. encode_pixels cap depth dat (tile_offsets w y x) out)
      else
        res_bind (emit cap [2] out) (\<lambda>out. emit cap (encode_pixel depth s) out))))"

fun hextile_tiles :: "nat \<Rightarrow> nat \<Rightarrow> bytes \<Rightarrow> nat \<Rightarrow> (nat \<times> nat) list \<Rightarrow> bytes \<Rightarrow> bytes res" where
  "hextile_tiles cap depth dat w [] out = Inr out"
| "hextile_tiles cap depth dat w (pos # poss) out =
     res_bind (hextile_tile cap depth dat w pos out) (\<lambda>out. hextile_tiles cap depth dat w poss out)"

definition tile_positions :: "nat \<Rightarrow> nat \<Rightarrow> (nat \<times> nat) list" where
  "tile_positions w h =
     concat (map (\<lambda>j. map (\<lambda>i. (16 * j, 16 * i)) [0..<(w + 15) div 16]) [0..<(h + 15) div 16])"

definition hextile :: "nat \<Rightarrow> bytes \<Rightarrow> bytes \<Rightarrow> nat \<Rightarrow> nat \<Rightarrow> nat \<Rightarrow> bytes res" where
  "hextile cap out dat w h depth = hextile_tiles cap depth dat w (tile_positions w h) out"

section \<open>The update message\<close>

text \<open>The client's list of encodings: hextile and JPEG overrule what came before, zlib ends the search.\<close>

fun choose_encoding :: "nat \<Rightarrow> u32 list \<Rightarrow> nat" where
  "choose_encoding ce [] = ce"
| "choose_encoding ce (e # es) =
     (if e = 6 then 6
      else choose_encoding (if e = 5 then 5 else if e = 21 then 21 else ce) es)"

definition update_header :: "nat \<Rightarrow> nat \<Rightarrow> nat \<Rightarrow> nat \<Rightarrow> nat \<Rightarrow> bytes" where
  "update_header x y w h ce =
     [0, 0, 0, 1]
     @ [word_of_nat (x div 256), word_of_nat (x mod 256), word_of_nat (y div 256), word_of_nat (y mod 256),
        word_of_nat (w div 256), word_of_nat (w mod 256), word_of_nat (h div 256), word_of_nat (h mod 256)]
     @ [word_of_nat (ce div 2 ^ 24), word_of_nat (ce div 2 ^ 16), word_of_nat (ce div 2 ^ 8), word_of_nat ce]"

definition region_offsets :: "nat \<Rightarrow> nat \<Rightarrow> nat \<Rightarrow> nat \<Rightarrow> nat list" where
  "region_offsets x y w h = concat (map (\<lambda>yo. map (\<lambda>xo. yo * w * 3 + xo * 3) [x..<x + w]) [y..<y + h])"

text \<open>One bit per pixel: the byte so far and the number of bits in it.  Bits that do not fill a byte
  are dropped.\<close>

fun encode_bits :: "nat \<Rightarrow> bytes \<Rightarrow> nat list \<Rightarrow> byte \<Rightarrow> nat \<Rightarrow> bytes \<Rightarrow> bytes res" where
  "encode_bits cap dat [] b_out b_n out = Inr out"
| "encode_bits cap dat (ofs # ofss) b_out b_n out =
     res_bind (pixel_at dat ofs) (\<lambda>(r, g, b).
     let gray = (unat r + unat g + unat b) div 3;
         b_out = push_bit 1 b_out OR (if 128 \<le> gray then 1 else 0)
     in if b_n + 1 = 8 then res_bind (emit cap [b_out] out) (\<lambda>out. encode_bits cap dat ofss b_out 0 out)
        else encode_bits cap dat ofss b_out (b_n + 1) out)"

definition raw_pixels :: "frame_buffer \<Rightarrow> nat \<Rightarrow> nat \<Rightarrow> nat \<Rightarrow> nat \<Rightarrow> nat \<Rightarrow> bytes res" where
  "raw_pixels fb x y w h depth =
     (let cap = w * h * 3 * 2; ofss = region_offsets x y w h in
      if depth = 32 \<or> depth = 24 \<or> depth = 8 then encode_pixels cap depth (fb_buffer fb) ofss []
      else if depth = 1 then encode_bits cap (fb_buffer fb) ofss 0 0 []
      else Inr [])"

text \<open>The compressors: what \<^verbatim>\<open>deflate\<close> produces for an input and room for so many bytes, the total
  it has produced so far, and the JPEG image (empty when that fails).\<close>

record 'z codecs =
  cd_deflate :: "'z \<Rightarrow> bytes \<Rightarrow> nat \<Rightarrow> bytes \<times> 'z"
  cd_total_out :: "'z \<Rightarrow> u64"
  cd_jpeg :: "bytes \<Rightarrow> nat \<Rightarrow> nat \<Rightarrow> bytes"

definition zlib_update :: "'z codecs \<Rightarrow> nat \<Rightarrow> nat \<Rightarrow> bytes \<Rightarrow> bytes \<Rightarrow> u32 \<times> 'z \<Rightarrow> (bytes \<times> u32 \<times> 'z) res" where
  "zlib_update cd cap avail_out temp message st =
     (let (prev_zsize, strm) = st;
          (d, strm) = cd_deflate cd strm temp avail_out;
          total_out = ucast (cd_total_out cd strm);
          size = total_out - prev_zsize;
          size_bytes = [ucast (drop_bit 24 size), ucast (drop_bit 16 size), ucast (drop_bit 8 size), ucast size]
      in res_bind (emit cap (size_bytes @ d) message) (\<lambda>message.
         res_bind (load_n message 0 (16 + unat size + 4)) (\<lambda>message.
         Inr (message, total_out, strm))))"

text \<open>Nothing for a rectangle that is not inside the picture.\<close>

definition calculate_fb_update ::
  "'z codecs \<Rightarrow> frame_buffer \<Rightarrow> u32 list \<Rightarrow> nat \<Rightarrow> nat \<Rightarrow> nat \<Rightarrow> nat \<Rightarrow> nat \<Rightarrow> u32 \<times> 'z \<Rightarrow> (bytes option \<times> u32 \<times> 'z) res" where
  "calculate_fb_update cd fb encodings x y w h depth st =
     (if fb_w fb < x + w \<or> fb_h fb < y + h then Inr (None, st)
      else
        let ce = choose_encoding 0 encodings;
            cap = 4 + 12 * 1 + w * h * 4;
            message = update_header x y w h ce
        in res_bind (if ce \<noteq> 5 \<and> ce \<noteq> 21 then raw_pixels fb x y w h depth else Inr []) (\<lambda>temp.
           if ce = 0 then res_bind (emit cap temp message) (\<lambda>message. Inr (Some message, st))
           else if ce = 5 then res_bind (hextile cap message (fb_buffer fb) w h depth) (\<lambda>message. Inr (Some message, st))
           else if ce = 6 then res_bind (zlib_update cd cap (w * h * 3 * 2) temp message st) (\<lambda>(message, st). Inr (Some message, st))
           else res_bind (emit cap (cd_jpeg cd (fb_buffer fb) w h) message) (\<lambda>message. Inr (Some message, st))))"

section \<open>Lemmas\<close>

definition pix :: "bytes \<Rightarrow> nat \<Rightarrow> pixel" where
  "pix dat ofs = (dat ! ofs, dat ! (ofs + 1), dat ! (ofs + 2))"

definition bytes_per_pixel :: "nat \<Rightarrow> nat" where
  "bytes_per_pixel depth = (if depth = 32 \<or> depth = 24 then 4 else if depth = 8 then 1 else 0)"

lemma length_encode_pixel [simp]: "length (encode_pixel depth p) = bytes_per_pixel depth"
  by (simp add: encode_pixel_def bytes_per_pixel_def split: prod.split)

lemma pixel_at_pix: "ofs + 2 < length dat \<Longrightarrow> pixel_at dat ofs = Inr (pix dat ofs)"
  by (simp add: pixel_at_def pix_def slice_at_def)

lemma emit_fits: "length out + length d \<le> cap \<Longrightarrow> emit cap d out = Inr (out @ d)"
  by (simp add: emit_def)

lemma emit_emit: "length out \<le> cap \<Longrightarrow> res_bind (emit cap d out) (emit cap e) = emit cap (d @ e) out"
  by (auto simp: emit_def)

lemma emit_Nil: "length out \<le> cap \<Longrightarrow> emit cap [] out = Inr out"
  by (simp add: emit_def)

text \<open>A writer that appends what it produces, or runs over the end, composes.\<close>

lemma emit_then:
  assumes "\<And>out'. length out' \<le> cap \<Longrightarrow> f out' = emit cap e out'" "length out \<le> cap"
  shows "res_bind (emit cap d out) f = emit cap (d @ e) out"
  using assms by (auto simp: emit_def)

definition in_picture :: "bytes \<Rightarrow> nat list \<Rightarrow> bool" where
  "in_picture dat ofss = list_all (\<lambda>ofs. ofs + 2 < length dat) ofss"

lemma encode_pixels_emit:
  assumes "in_picture dat ofss" "length out \<le> cap"
  shows "encode_pixels cap depth dat ofss out = emit cap (concat (map (encode_pixel depth \<circ> pix dat) ofss)) out"
  using assms
proof (induction ofss arbitrary: out)
  case (Cons ofs ofss)
  then have "pixel_at dat ofs = Inr (pix dat ofs)" by (intro pixel_at_pix) (simp add: in_picture_def)
  moreover have "res_bind (emit cap (encode_pixel depth (pix dat ofs)) out) (encode_pixels cap depth dat ofss)
    = emit cap (encode_pixel depth (pix dat ofs) @ concat (map (encode_pixel depth \<circ> pix dat) ofss)) out"
    using Cons by (intro emit_then) (auto simp: in_picture_def comp_def)
  ultimately show ?case by (simp add: comp_def)
qed (simp add: emit_Nil)

lemma tile_differs_pix:
  "in_picture dat ofss \<Longrightarrow> tile_differs dat s ofss = Inr (\<exists>ofs \<in> set ofss. pix dat ofs \<noteq> s)"
  by (induction ofss) (auto simp: pixel_at_pix in_picture_def)

section \<open>Hextile\<close>

definition tile_pixels :: "nat \<Rightarrow> bytes \<Rightarrow> nat \<Rightarrow> nat \<times> nat \<Rightarrow> bytes list" where
  "tile_pixels depth dat w pos = map (encode_pixel depth \<circ> pix dat) (tile_offsets w (fst pos) (snd pos))"

definition uniform :: "bytes \<Rightarrow> nat \<Rightarrow> nat \<times> nat \<Rightarrow> bool" where
  "uniform dat w pos = (\<forall>ofs \<in> set (tile_offsets w (fst pos) (snd pos)). pix dat ofs = pix dat (fst pos * w * 3 + snd pos * 3))"

definition tile_bytes :: "nat \<Rightarrow> bytes \<Rightarrow> nat \<Rightarrow> nat \<times> nat \<Rightarrow> bytes" where
  "tile_bytes depth dat w pos =
     (if uniform dat w pos then 2 # encode_pixel depth (pix dat (fst pos * w * 3 + snd pos * 3))
      else 1 # concat (tile_pixels depth dat w pos))"

lemma first_offset: "y * w * 3 + x * 3 \<in> set (tile_offsets w y x)"
  by (auto simp: tile_offsets_def intro!: bexI[of _ 0])

lemma length_tile_offsets [simp]: "length (tile_offsets w y x) = 256"
  by (simp add: tile_offsets_def length_concat comp_def sum_list_triv)

lemma hextile_tile_emit:
  assumes "in_picture dat (tile_offsets w (fst pos) (snd pos))" "length out \<le> cap"
  shows "hextile_tile cap depth dat w pos out = emit cap (tile_bytes depth dat w pos) out"
proof -
  obtain y x where pos: "pos = (y, x)" by (cases pos)
  define ofss where "ofss = tile_offsets w y x"
  have i: "in_picture dat ofss" using assms(1) by (simp add: ofss_def pos)
  have "y * w * 3 + x * 3 + 2 < length dat" using i first_offset[of y w x] by (auto simp: ofss_def in_picture_def list_all_iff)
  then have "hextile_tile cap depth dat w pos out =
    (if \<exists>ofs \<in> set ofss. pix dat ofs \<noteq> pix dat (y * w * 3 + x * 3) then res_bind (emit cap [1] out) (\<lambda>out. encode_pixels cap depth dat ofss out)
     else res_bind (emit cap [2] out) (\<lambda>out. emit cap (encode_pixel depth (pix dat (y * w * 3 + x * 3))) out))"
    using i by (simp add: hextile_tile_def pos pixel_at_pix tile_differs_pix ofss_def)
  moreover have "res_bind (emit cap [1] out) (\<lambda>out. encode_pixels cap depth dat ofss out)
    = emit cap ([1] @ concat (map (encode_pixel depth \<circ> pix dat) ofss)) out"
    using i assms(2) by (intro emit_then encode_pixels_emit)
  ultimately show ?thesis using assms(2)
    by (auto simp: tile_bytes_def uniform_def tile_pixels_def pos emit_emit simp flip: ofss_def)
qed

lemma hextile_tiles_emit:
  assumes "\<And>pos. pos \<in> set poss \<Longrightarrow> in_picture dat (tile_offsets w (fst pos) (snd pos))" "length out \<le> cap"
  shows "hextile_tiles cap depth dat w poss out = emit cap (concat (map (tile_bytes depth dat w) poss)) out"
  using assms
proof (induction poss arbitrary: out)
  case (Cons pos poss)
  have "hextile_tiles cap depth dat w (pos # poss) out
    = res_bind (emit cap (tile_bytes depth dat w pos) out) (\<lambda>out. hextile_tiles cap depth dat w poss out)"
    using Cons.prems by (simp add: hextile_tile_emit)
  also have "\<dots> = emit cap (tile_bytes depth dat w pos @ concat (map (tile_bytes depth dat w) poss)) out"
    using Cons by (intro emit_then) auto
  finally show ?case by simp
qed (simp add: emit_Nil)

lemma tile_in_picture:
  assumes "pos \<in> set (tile_positions (16 * a) (16 * b))" "(16 * a) * (16 * b) * 3 \<le> length dat"
  shows "in_picture dat (tile_offsets (16 * a) (fst pos) (snd pos))"
proof -
  obtain i j where p: "pos = (16 * j, 16 * i)" "i < a" "j < b" using assms(1) by (auto simp: tile_positions_def)
  have "(16 * j + ty) * (16 * a) * 3 + (16 * i + tx) * 3 + 2 < (16 * a) * (16 * b) * 3" if "ty < 16" "tx < 16" for tx ty
    using p that by (intro pixel_offset_bound) simp_all
  then show ?thesis using assms(2) p(1) by (fastforce simp: in_picture_def list_all_iff tile_offsets_def)
qed

lemma length_tile_positions: "length (tile_positions (16 * a) (16 * b)) = a * b"
  by (simp add: tile_positions_def length_concat comp_def sum_list_triv)

text \<open>What a client makes of the data, after RFC 6143, 7.7.4, for the two kinds of tile in use: the
  encoded pixels of every tile.\<close>

fun decode_tiles :: "nat \<Rightarrow> nat \<Rightarrow> bytes \<Rightarrow> bytes list list option" where
  "decode_tiles bpp 0 d = (if d = [] then Some [] else None)"
| "decode_tiles bpp (Suc n) d =
     (case d of
        [] \<Rightarrow> None
      | t # d \<Rightarrow>
          if t = 1 then map_option ((#) (map (\<lambda>i. take bpp (drop (i * bpp) d)) [0..<256])) (decode_tiles bpp n (drop (256 * bpp) d))
          else if t = 2 then map_option ((#) (replicate 256 (take bpp d))) (decode_tiles bpp n (drop bpp d))
          else None)"

lemma chunks_of_concat:
  assumes "list_all (\<lambda>x. length x = n) xss"
  shows "map (\<lambda>i. take n (drop (i * n) (concat xss @ r))) [0..<length xss] = xss" "length (concat xss) = length xss * n"
proof -
  show l: "length (concat xss) = length xss * n" using assms by (induction xss) auto
  show "map (\<lambda>i. take n (drop (i * n) (concat xss @ r))) [0..<length xss] = xss" using assms
  proof (induction xss)
    case (Cons x xss)
    have "take n (drop (Suc i * n) (concat (x # xss) @ r)) = take n (drop (i * n) (concat xss @ r))" for i
      using Cons.prems by simp
    moreover have "take n (concat (x # xss) @ r) = x" using Cons.prems by simp
    ultimately show ?case using Cons unfolding length_Cons map_upt_Suc by simp
  qed simp
qed

lemma tile_pixels_uniform:
  "uniform dat w pos \<Longrightarrow> tile_pixels depth dat w pos = replicate 256 (encode_pixel depth (pix dat (fst pos * w * 3 + snd pos * 3)))"
  unfolding uniform_def tile_pixels_def by (intro replicate_eqI) auto

lemma decode_tiles_bytes:
  "decode_tiles (bytes_per_pixel depth) (length poss) (concat (map (tile_bytes depth dat w) poss))
    = Some (map (tile_pixels depth dat w) poss)"
proof (induction poss)
  case (Cons pos poss)
  let ?n = "bytes_per_pixel depth" and ?r = "concat (map (tile_bytes depth dat w) poss)"
  have l: "list_all (\<lambda>x. length x = ?n) (tile_pixels depth dat w pos)" "length (tile_pixels depth dat w pos) = 256"
    by (auto simp: tile_pixels_def list_all_iff)
  show ?case
  proof (cases "uniform dat w pos")
    case True
    then show ?thesis using Cons.IH tile_pixels_uniform[OF True, of depth] by (simp add: tile_bytes_def)
  next
    case False
    then show ?thesis using Cons.IH chunks_of_concat[OF l(1)] l(2) by (simp add: tile_bytes_def)
  qed
qed simp

lemma length_tile_bytes: "length (tile_bytes depth dat w pos) = (if uniform dat w pos then 1 + bytes_per_pixel depth else 1 + 256 * bytes_per_pixel depth)"
proof -
  have "list_all (\<lambda>x. length x = bytes_per_pixel depth) (tile_pixels depth dat w pos)" "length (tile_pixels depth dat w pos) = 256"
    by (auto simp: tile_pixels_def list_all_iff)
  then show ?thesis using chunks_of_concat(2)[of "bytes_per_pixel depth" "tile_pixels depth dat w pos"] by (simp add: tile_bytes_def)
qed

lemma hextile_emit:
  assumes "(16 * a) * (16 * b) * 3 \<le> length dat" "length out \<le> cap"
  shows "hextile cap out dat (16 * a) (16 * b) depth
    = emit cap (concat (map (tile_bytes depth dat (16 * a)) (tile_positions (16 * a) (16 * b)))) out"
  unfolding hextile_def using assms by (intro hextile_tiles_emit tile_in_picture)

lemma rectangle_fits:
  assumes "fb_ok fb" "x + w \<le> fb_w fb" "y + h \<le> fb_h fb"
  shows "w * h * 3 \<le> length (fb_buffer fb)"
proof -
  have "w * h \<le> fb_w fb * fb_h fb" using assms(2,3) by (intro mult_le_mono) simp_all
  then show ?thesis using assms(1) by (simp add: fb_ok_def)
qed

text \<open>Compressors for the examples: \<open>deflate\<close> stores, there is no JPEG.\<close>

definition stored :: "u64 codecs" where
  "stored = \<lparr> cd_deflate = (\<lambda>z d n. (take n d, z + word_of_nat (length (take n d)))), cd_total_out = (\<lambda>z. z), cd_jpeg = (\<lambda>d w h. []) \<rparr>"

text \<open>Where a client puts the tiles, \<open>a\<close> in a row, and the pixels in a tile: from left to right, from top to bottom.\<close>

definition shown :: "nat \<Rightarrow> bytes list list \<Rightarrow> nat \<Rightarrow> nat \<Rightarrow> bytes" where
  "shown a tiles px py = tiles ! (py div 16 * a + px div 16) ! (py mod 16 * 16 + px mod 16)"

text \<open>The pixel of the picture with these coordinates.\<close>

definition picture :: "frame_buffer \<Rightarrow> nat \<Rightarrow> nat \<Rightarrow> pixel" where
  "picture fb px py = pix (fb_buffer fb) ((py * fb_w fb + px) * 3)"

lemma grid_nth: "i < n \<Longrightarrow> j < m \<Longrightarrow> concat (map (\<lambda>j. map (f j) [0..<n]) [0..<m]) ! (j * n + i) = f j i"
proof (induction m)
  case (Suc m)
  let ?c = "concat (map (\<lambda>j. map (f j) [0..<n]) [0..<m])"
  have l: "length ?c = m * n" by (simp add: length_concat comp_def sum_list_triv)
  show ?case
  proof (cases "j = m")
    case True
    then show ?thesis using Suc.prems l by (simp add: nth_append)
  next
    case False
    then have "j < m" using Suc.prems(2) by simp
    then have "Suc j * n \<le> m * n" by (intro mult_le_mono1) simp
    then have "j * n + i < length ?c" using Suc.prems(1) l by simp
    then show ?thesis using Suc.IH[OF Suc.prems(1) \<open>j < m\<close>] by (simp add: nth_append)
  qed
qed simp

lemma shown_tiles:
  assumes "px < 16 * a" "py < 16 * b"
  shows "shown a (map (tile_pixels depth dat (16 * a)) (tile_positions (16 * a) (16 * b))) px py
    = encode_pixel depth (pix dat ((py * (16 * a) + px) * 3))"
proof -
  have d: "px div 16 < a" "py div 16 < b" using assms by (simp_all add: div_less_iff_less_mult mult.commute)
  then have "Suc (py div 16) * a \<le> b * a" by (intro mult_le_mono1) simp
  then have k: "py div 16 * a + px div 16 < length (tile_positions (16 * a) (16 * b))" unfolding length_tile_positions using d(1) by (simp add: mult.commute)
  have "(16 * n + 15) div 16 = n" for n :: nat by simp
  then have pos: "tile_positions (16 * a) (16 * b) ! (py div 16 * a + px div 16) = (16 * (py div 16), 16 * (px div 16))"
    unfolding tile_positions_def using grid_nth[OF d] by simp
  have m: "py mod 16 < 16" "px mod 16 < 16" by simp_all
  have "16 * (py div 16) + py mod 16 = py" "16 * (px div 16) + px mod 16 = px" by simp_all
  then have ofs: "tile_offsets (16 * a) (16 * (py div 16)) (16 * (px div 16)) ! (py mod 16 * 16 + px mod 16) = py * (16 * a) * 3 + px * 3"
    unfolding tile_offsets_def by (simp only: grid_nth[OF m(2,1)])
  have l: "py mod 16 * 16 + px mod 16 < 256" using m by linarith
  have "(py * (16 * a) + px) * 3 = py * (16 * a) * 3 + px * 3" by (simp add: add_mult_distrib)
  then show ?thesis using k l unfolding shown_def tile_pixels_def by (simp only: nth_map pos ofs fst_conv snd_conv comp_def length_tile_offsets)
qed

lemma hextile_update:
  assumes "fb_ok fb" "x + 16 * a \<le> fb_w fb" "y + 16 * b \<le> fb_h fb" "choose_encoding 0 encodings = 5"
  shows "\<exists>d tiles. calculate_fb_update cd fb encodings x y (16 * a) (16 * b) 8 st = Inr (Some (update_header x y (16 * a) (16 * b) 5 @ d), st)
    \<and> decode_tiles 1 (a * b) d = Some tiles
    \<and> (\<forall>px < 16 * a. \<forall>py < 16 * b. shown a tiles px py = encode_pixel 8 (pix (fb_buffer fb) ((py * (16 * a) + px) * 3)))"
proof -
  let ?poss = "tile_positions (16 * a) (16 * b)" and ?h = "update_header x y (16 * a) (16 * b) 5"
  define d where "d = concat (map (tile_bytes 8 (fb_buffer fb) (16 * a)) ?poss)"
  have h: "length ?h = 16" by (simp add: update_header_def)
  have i: "(16 * a) * (16 * b) * 3 \<le> length (fb_buffer fb)" using assms(1-3) by (rule rectangle_fits)
  have "length d \<le> sum_list (map (\<lambda>_. 257) ?poss)" unfolding d_def length_concat map_map
    by (rule sum_list_mono) (simp add: length_tile_bytes bytes_per_pixel_def)
  also have "\<dots> = 257 * (a * b)" by (simp add: sum_list_triv length_tile_positions)
  finally have "emit (16 + 16 * a * (16 * b) * 4) d ?h = Inr (?h @ d)" by (intro emit_fits) (simp add: h)
  then have "calculate_fb_update cd fb encodings x y (16 * a) (16 * b) 8 st = Inr (Some (?h @ d), st)"
    using assms(2-4) hextile_emit[OF i, of ?h "16 + 16 * a * (16 * b) * 4" 8] h
    by (simp add: calculate_fb_update_def d_def)
  moreover have "decode_tiles 1 (a * b) d = Some (map (tile_pixels 8 (fb_buffer fb) (16 * a)) ?poss)"
    using decode_tiles_bytes[of 8 ?poss "fb_buffer fb" "16 * a"] by (simp add: d_def length_tile_positions bytes_per_pixel_def)
  ultimately show ?thesis using shown_tiles by blast
qed

text \<open>C38: With 8 bits per pixel a hextile update for the upper part of the picture, in its full width (both in whole
  tiles), fits in the message, and a client that decodes it after the RFC shows at every position the pixel the picture
  has there, in the client's colours.\<close>

theorem hextile_roundtrip:
  assumes "fb_ok fb" "fb_w fb = 16 * a" "16 * b \<le> fb_h fb" "choose_encoding 0 encodings = 5"
  shows "\<exists>d tiles. calculate_fb_update cd fb encodings 0 0 (16 * a) (16 * b) 8 st = Inr (Some (update_header 0 0 (16 * a) (16 * b) 5 @ d), st)
    \<and> decode_tiles 1 (a * b) d = Some tiles
    \<and> (\<forall>px < fb_w fb. \<forall>py < 16 * b. shown a tiles px py = encode_pixel 8 (picture fb px py))"
  using hextile_update[OF assms(1) _ _ assms(4), of 0 a 0 b cd st] assms(2,3) by (simp add: picture_def)

theorem hextile_roundtrip_witness:
  "\<exists>d tiles. calculate_fb_update stored (black 640 480) [0, 5] 0 0 (16 * 40) (16 * 30) 8 (0, 0)
      = Inr (Some (update_header 0 0 (16 * 40) (16 * 30) 5 @ d), (0, 0))
    \<and> decode_tiles 1 (40 * 30) d = Some tiles
    \<and> (\<forall>px < fb_w (black 640 480). \<forall>py < 16 * 30. shown 40 tiles px py = encode_pixel 8 (picture (black 640 480) px py))"
  by (rule hextile_roundtrip) (simp_all add: fb_ok_def black_def)

text \<open>Any other rectangle is not what was asked for: its position is ignored and its width taken as that of the
  picture, so that the client's pixel in line \<open>py\<close>, column \<open>px\<close> is the one at \<open>py * 16 * a + px\<close> from the start of the picture.  A
  rectangle one tile down shows the upper tile.\<close>

lemma hextile_ignores_position:
  assumes "fb_ok fb" "fb_w fb = 16" "32 \<le> fb_h fb"
  shows "\<exists>d tiles. calculate_fb_update cd fb [5] 0 16 (16 * 1) (16 * 1) 8 st = Inr (Some (update_header 0 16 (16 * 1) (16 * 1) 5 @ d), st)
    \<and> decode_tiles 1 (1 * 1) d = Some tiles \<and> (\<forall>px < 16. \<forall>py < 16. shown 1 tiles px py = encode_pixel 8 (picture fb px py))"
  using hextile_update[OF assms(1), of 0 1 16 1 "[5]" cd st] assms(2,3) by (simp add: picture_def)

text \<open>C39: With 24 or 32 bits per pixel, a rectangle of whole tiles none of which has a single colour
  needs one byte per tile more than the message has: the update is written beyond its end.\<close>

theorem hextile_overflow:
  assumes "fb_ok fb" "x + 16 * a \<le> fb_w fb" "y + 16 * b \<le> fb_h fb" "choose_encoding 0 encodings = 5" "0 < a" "0 < b"
    and "depth = 24 \<or> depth = 32"
    and "list_all (\<lambda>pos. \<not> uniform (fb_buffer fb) (16 * a) pos) (tile_positions (16 * a) (16 * b))"
  shows "calculate_fb_update cd fb encodings x y (16 * a) (16 * b) depth st = Inl Out_of_bounds"
proof -
  let ?poss = "tile_positions (16 * a) (16 * b)" and ?h = "update_header x y (16 * a) (16 * b) 5"
  define d where "d = concat (map (tile_bytes depth (fb_buffer fb) (16 * a)) ?poss)"
  have h: "length ?h = 16" by (simp add: update_header_def)
  have i: "(16 * a) * (16 * b) * 3 \<le> length (fb_buffer fb)" using assms(1-3) by (rule rectangle_fits)
  have "map (length \<circ> tile_bytes depth (fb_buffer fb) (16 * a)) ?poss = map (\<lambda>_. 1025) ?poss"
    using assms(7,8) by (auto simp: length_tile_bytes bytes_per_pixel_def list_all_iff)
  from arg_cong[OF this, of sum_list] have "length d = 1025 * (a * b)"
    unfolding d_def length_concat map_map by (simp add: sum_list_triv length_tile_positions)
  moreover have "0 < a * b" using assms(5,6) by simp
  ultimately have "emit (16 + 16 * a * (16 * b) * 4) d ?h = Inl Out_of_bounds" by (simp add: emit_def h)
  then show ?thesis
    using assms(2-4) hextile_emit[OF i, of ?h "16 + 16 * a * (16 * b) * 4" depth] h
    by (simp add: calculate_fb_update_def d_def)
qed

definition speckled :: frame_buffer where
  "speckled = \<lparr> fb_w = 16, fb_h = 16, fb_buffer = 255 # replicate 767 0 \<rparr>"

theorem hextile_overflow_witness:
  "calculate_fb_update stored speckled [5] 0 0 (16 * 1) (16 * 1) 32 (0, 0) = Inl Out_of_bounds"
proof (rule hextile_overflow)
  have "45 \<in> set (tile_offsets 16 0 0)" by (auto simp: tile_offsets_def intro!: bexI[of _ 0] image_eqI[of _ _ 15])
  then have "\<not> uniform (fb_buffer speckled) 16 (0, 0)" by (auto simp: uniform_def speckled_def pix_def intro!: bexI[of _ 45])
  then show "list_all (\<lambda>pos. \<not> uniform (fb_buffer speckled) (16 * 1) pos) (tile_positions (16 * 1) (16 * 1))"
    by (simp add: tile_positions_def)
qed (simp_all add: fb_ok_def speckled_def)

section \<open>Raw and zlib\<close>

lemma region_in_picture:
  assumes "fb_ok fb" "x + w \<le> fb_w fb" "y + h \<le> fb_h fb"
  shows "in_picture (fb_buffer fb) (region_offsets x y w h)"
proof -
  have "yo * w * 3 + xo * 3 + 2 < fb_w fb * fb_h fb * 3" if "yo < y + h" "xo < x + w" for xo yo
  proof -
    have "yo * w * 3 + xo * 3 + 2 \<le> yo * fb_w fb * 3 + xo * 3 + 2" using assms(2) by simp
    also have "\<dots> < fb_w fb * fb_h fb * 3" using that assms by (intro pixel_offset_bound) simp_all
    finally show ?thesis .
  qed
  then show ?thesis using assms(1) by (auto simp: in_picture_def list_all_iff region_offsets_def fb_ok_def)
qed

lemma length_region_offsets: "length (region_offsets x y w h) = w * h"
  by (simp add: region_offsets_def length_concat comp_def sum_list_triv)

lemma encode_bits_ok:
  assumes "in_picture dat ofss" "length out + length ofss \<le> cap"
  shows "\<exists>d. encode_bits cap dat ofss b_out b_n out = Inr (out @ d) \<and> length d \<le> length ofss"
  using assms
proof (induction ofss arbitrary: b_out b_n out)
  case (Cons ofs ofss)
  obtain r g b where p: "pixel_at dat ofs = Inr (r, g, b)" using Cons.prems(1) by (cases "pix dat ofs") (simp add: in_picture_def pixel_at_pix)
  define b1 where "b1 = push_bit 1 b_out OR (if 128 \<le> (unat r + unat g + unat b) div 3 then 1 else 0)"
  have e: "encode_bits cap dat (ofs # ofss) b_out b_n out =
    (if b_n + 1 = 8 then encode_bits cap dat ofss b1 0 (out @ [b1]) else encode_bits cap dat ofss b1 (b_n + 1) out)"
    using Cons.prems(2) p by (simp add: emit_def b1_def Let_def)
  have i: "in_picture dat ofss" using Cons.prems(1) by (simp add: in_picture_def)
  show ?case
  proof (cases "b_n + 1 = 8")
    case True
    then show ?thesis using Cons.IH[OF i, of "out @ [b1]" b1 0] Cons.prems(2) unfolding e by auto
  next
    case False
    then show ?thesis using Cons.IH[OF i, of out b1 "b_n + 1"] Cons.prems(2) unfolding e by (simp add: le_SucI) (metis le_SucI)
  qed
qed simp

lemma raw_pixels_ok:
  assumes "fb_ok fb" "x + w \<le> fb_w fb" "y + h \<le> fb_h fb"
  shows "\<exists>d. raw_pixels fb x y w h depth = Inr d \<and> length d \<le> w * h * 4"
    and "depth \<in> {8, 24, 32} \<Longrightarrow> raw_pixels fb x y w h depth = Inr (concat (map (encode_pixel depth \<circ> pix (fb_buffer fb)) (region_offsets x y w h)))"
proof -
  let ?ofss = "region_offsets x y w h"
  have i: "in_picture (fb_buffer fb) ?ofss" using assms by (rule region_in_picture)
  have l: "length (concat (map (encode_pixel depth \<circ> pix (fb_buffer fb)) ?ofss)) = w * h * bytes_per_pixel depth"
    by (simp add: length_concat comp_def sum_list_triv length_region_offsets)
  have b: "bytes_per_pixel depth \<le> 4" by (simp add: bytes_per_pixel_def)
  then have e: "encode_pixels (w * h * 3 * 2) depth (fb_buffer fb) ?ofss []
    = Inr (concat (map (encode_pixel depth \<circ> pix (fb_buffer fb)) ?ofss))"
    using i l by (simp add: encode_pixels_emit emit_def)
  then show "depth \<in> {8, 24, 32} \<Longrightarrow> raw_pixels fb x y w h depth = Inr (concat (map (encode_pixel depth \<circ> pix (fb_buffer fb)) ?ofss))"
    by (auto simp: raw_pixels_def Let_def)
  show "\<exists>d. raw_pixels fb x y w h depth = Inr d \<and> length d \<le> w * h * 4"
    using e l b encode_bits_ok[OF i, of "[]" "w * h * 3 * 2" 0 0]
    by (force simp: raw_pixels_def Let_def length_region_offsets)
qed

text \<open>The pixels of a rectangle of the picture.\<close>

definition rectangle :: "frame_buffer \<Rightarrow> nat \<Rightarrow> nat \<Rightarrow> nat \<Rightarrow> nat \<Rightarrow> pixel list" where
  "rectangle fb x y w h = concat (map (\<lambda>yo. map (\<lambda>xo. pix (fb_buffer fb) ((yo * fb_w fb + xo) * 3)) [x..<x + w]) [y..<y + h])"

text \<open>A raw update never reads or writes outside a buffer, whatever rectangle of the picture is
  asked for and whatever the depth; with 8, 24 or 32 bits and the full width of the picture it
  carries the pixels of that rectangle, line by line.\<close>

theorem raw_update:
  assumes "fb_ok fb" "x + w \<le> fb_w fb" "y + h \<le> fb_h fb" "choose_encoding 0 encodings = 0"
  shows "\<exists>d. calculate_fb_update cd fb encodings x y w h depth st = Inr (Some (update_header x y w h 0 @ d), st)
    \<and> (w = fb_w fb \<and> depth \<in> {8, 24, 32} \<longrightarrow> d = concat (map (encode_pixel depth) (rectangle fb x y w h)))"
proof -
  obtain d where d: "raw_pixels fb x y w h depth = Inr d" "length d \<le> w * h * 4" using raw_pixels_ok(1)[OF assms(1-3)] by blast
  have "length (update_header x y w h 0) = 16" by (simp add: update_header_def)
  then have "calculate_fb_update cd fb encodings x y w h depth st = Inr (Some (update_header x y w h 0 @ d), st)"
    using assms(2-4) d by (simp add: calculate_fb_update_def emit_fits)
  moreover have "d = concat (map (encode_pixel depth) (rectangle fb x y w h))" if "w = fb_w fb" "depth \<in> {8, 24, 32}"
    using raw_pixels_ok(2)[OF assms(1-3) that(2)] d(1) that(1)
    by (simp add: rectangle_def region_offsets_def map_concat comp_def algebra_simps)
  ultimately show ?thesis by blast
qed

theorem raw_update_witness:
  "\<exists>d. calculate_fb_update stored (black 640 480) [] 0 16 640 16 24 (0, 0)
      = Inr (Some (update_header 0 16 640 16 0 @ d), (0, 0))
    \<and> (640 = fb_w (black 640 480) \<and> 24 \<in> {8, 24, 32 :: nat} \<longrightarrow> d = concat (map (encode_pixel 24) (rectangle (black 640 480) 0 16 640 16)))"
  by (rule raw_update) (simp_all add: fb_ok_def black_def)

text \<open>A narrower rectangle is read with its own width as the length of a line: of four pixels in two
  lines, the last is asked for and the third is sent.\<close>

lemma raw_update_narrow:
  "calculate_fb_update stored \<lparr> fb_w = 2, fb_h = 2, fb_buffer = [1, 1, 1, 2, 2, 2, 3, 3, 3, 4, 4, 4] \<rparr> [] 1 1 1 1 24 (0, 0)
    = Inr (Some (update_header 1 1 1 1 0 @ [3, 3, 3, 255]), (0, 0))"
  by (simp add: calculate_fb_update_def raw_pixels_def region_offsets_def pixel_at_def slice_at_def emit_def encode_pixel_def
      update_header_def)

lemma ucast_add_diff: "ucast (a + word_of_nat n :: u64) - (ucast a :: u32) = word_of_nat n"
proof -
  have "(ucast (a + b) :: u32) = ucast a + ucast b" for b :: u64
    by transfer (simp, subst (1 2) take_bit_add [symmetric], simp)
  moreover have "(ucast (word_of_nat n :: u64) :: u32) = word_of_nat n" by transfer simp
  ultimately show ?thesis by simp
qed

text \<open>As long as \<^verbatim>\<open>deflate\<close> counts what it produces and the output fits, a zlib update announces
  exactly the bytes produced now, however often the 32-bit count of earlier bytes has wrapped.\<close>

theorem zlib_update_announces:
  assumes "cd_deflate cd strm temp n = (d, strm')" "cd_total_out cd strm' = cd_total_out cd strm + word_of_nat (length d)"
    and "prev_zsize = ucast (cd_total_out cd strm)" "length message = 16" "20 + length d \<le> cap" "length d < 2 ^ 32"
  shows "\<exists>prev_zsize'. zlib_update cd cap n temp message (prev_zsize, strm)
      = Inr (message @ put_uint32 (word_of_nat (length d)) @ d, prev_zsize', strm')
    \<and> prev_zsize' = ucast (cd_total_out cd strm')"
proof -
  define size :: u32 where "size = word_of_nat (length d)"
  have s: "ucast (cd_total_out cd strm') - prev_zsize = size" unfolding assms(2,3) size_def by (rule ucast_add_diff)
  have u: "unat size = length d" unfolding size_def using assms(6) by (rule unat_of_nat_u32)
  have "zlib_update cd cap n temp message (prev_zsize, strm)
    = res_bind (emit cap (put_uint32 size @ d) message) (\<lambda>message.
      res_bind (load_n message 0 (16 + unat size + 4)) (\<lambda>message. Inr (message, ucast (cd_total_out cd strm'), strm')))"
    unfolding zlib_update_def put_uint32_def Let_def using assms(1) s by simp
  also have "\<dots> = Inr (message @ put_uint32 size @ d, ucast (cd_total_out cd strm'), strm')"
    using assms(4,5) u by (simp add: emit_fits slice_at_def)
  finally show ?thesis by (simp add: size_def)
qed

theorem zlib_update_announces_witness:
  "\<exists>prev_zsize'. zlib_update stored 1000 300 [1, 2, 3] (replicate 16 0) (0xFFFFFFFE, 0x1FFFFFFFE)
      = Inr (replicate 16 0 @ put_uint32 (word_of_nat (length [1, 2, 3 :: byte])) @ [1, 2, 3], prev_zsize', 0x200000001)
    \<and> prev_zsize' = ucast (cd_total_out stored 0x200000001)"
  by (rule zlib_update_announces) (simp_all add: stored_def)

end
