(* ===== verification/Vnc.thy ===== *)
theory Vnc
  imports Vnc_Encode Apps
begin

text \<open>
  The sessions of \<^verbatim>\<open>src/vnc_server.cpp\<close>: the RFB handshake and the commands of a client, as the
  state machine \<open>process_vnc_request\<close> runs it.  A block of its loop is a function on the state
  of the run, with the flag whether the loop goes on (\<^verbatim>\<open>break\<close> clears it).
\<close>

datatype vnc_state_t =
    vs_initial_handshake_server_send | vs_initial_handshake_client_resp | vs_security_handshake_server
  | vs_security_handshake_client_resp | vs_client_init | vs_server_init | vs_running_waiting_cmd
  | vs_running_waiting_data | vs_running_waiting_data_extra | vs_running_waiting_data_ignore | vs_terminate

record 'z vnc_session_t = tcp_l7_session_t +
  vs_state :: vnc_state_t
  vs_prev_zsize :: u32
  vs_strm :: 'z
  vs_depth :: byte

text \<open>The session, the variables of \<open>process_vnc_request\<close>, what will arrive and the world.\<close>

record ('z, 'w) vnc_run =
  vr_session :: "'z vnc_session_t"
  vr_encodings :: "u32 list"
  vr_n_encodings :: int
  vr_running_cmd :: int
  vr_ignore_data_n :: int
  vr_arrives :: "(bytes list \<times> bool) list"
  vr_world :: 'w

definition vr_state :: "('z, 'w) vnc_run \<Rightarrow> vnc_state_t" where
  "vr_state r = vs_state (vr_session r)"

definition goto_state :: "vnc_state_t \<Rightarrow> ('z, 'w) vnc_run \<Rightarrow> ('z, 'w) vnc_run" where
  "goto_state s r = r\<lparr> vr_session := (vr_session r)\<lparr> vs_state := s \<rparr> \<rparr>"

section \<open>Blocks\<close>

definition recv_alloc :: "nat \<Rightarrow> ('z, 'w) vnc_run \<Rightarrow> (bytes option \<times> ('z, 'w) vnc_run) res" where
  "recv_alloc n r =
     res_bind (recv_func (vr_arrives r) (vr_session r) n) (\<lambda>(got, session, arrives).
     Inr (if length got = n then Some got else None, r\<lparr> vr_session := session, vr_arrives := arrives \<rparr>))"

definition vnc_send :: "'w shm_queue \<Rightarrow> bytes \<Rightarrow> ('z, 'w) vnc_run \<Rightarrow> (bool \<times> ('z, 'w) vnc_run) res" where
  "vnc_send shm d r =
     res_bind (send_func shm (vr_session r) d (vr_world r)) (\<lambda>(n, w). Inr (n \<noteq> -1, r\<lparr> vr_world := w \<rparr>))"

type_synonym ('z, 'w) vnc_block = "('z, 'w) vnc_run \<Rightarrow> (bool \<times> ('z, 'w) vnc_run) res"

text \<open>A block that receives \<open>n\<close> bytes first, and breaks when there are fewer.\<close>

definition receiving :: "nat \<Rightarrow> (bytes \<Rightarrow> ('z, 'w) vnc_block) \<Rightarrow> ('z, 'w) vnc_block" where
  "receiving n f r =
     res_bind (recv_alloc n r) (\<lambda>(got, r). case got of None \<Rightarrow> Inr (False, r) | Some d \<Rightarrow> f d r)"

text \<open>A block that sends, and breaks when that fails.\<close>

definition sending :: "'w shm_queue \<Rightarrow> bytes \<Rightarrow> ('z, 'w) vnc_block \<Rightarrow> ('z, 'w) vnc_block" where
  "sending shm d f r = res_bind (vnc_send shm d r) (\<lambda>(sent, r). if sent then f r else Inr (False, r))"

definition go_to :: "vnc_state_t \<Rightarrow> ('z, 'w) vnc_block" where
  "go_to s r = Inr (True, goto_state s r)"

definition in_state :: "vnc_state_t \<Rightarrow> ('z, 'w) vnc_block \<Rightarrow> ('z, 'w) vnc_block" where
  "in_state s f r = (if vr_state r = s then f r else Inr (True, r))"

definition and_then :: "('z, 'w) vnc_block \<Rightarrow> ('z, 'w) vnc_block \<Rightarrow> ('z, 'w) vnc_block" where
  "and_then f g r = res_bind (f r) (\<lambda>(go, r). if go then g r else Inr (False, r))"

section \<open>The handshake\<close>

definition initial_message :: bytes where
  "initial_message = to_bytes (''RFB 003.008'' @ [CHR 0x0A])"

definition server_init_message :: "frame_buffer \<Rightarrow> bytes" where
  "server_init_message fb =
     [word_of_nat (fb_w fb div 256), word_of_nat (fb_w fb mod 256), word_of_nat (fb_h fb div 256), word_of_nat (fb_h fb mod 256),
      32, 24, 1, 1, 0, 255, 0, 255, 0, 255, 16, 8, 0, 0, 0, 0, 0, 0, 0, 8] @ to_bytes ''MyIP(NG)''"

definition vnc_initial_server :: "'w shm_queue \<Rightarrow> ('z, 'w) vnc_block" where
  "vnc_initial_server shm = in_state vs_initial_handshake_server_send
     (sending shm initial_message (go_to vs_initial_handshake_client_resp))"

definition vnc_initial_client :: "('z, 'w) vnc_block" where
  "vnc_initial_client = in_state vs_initial_handshake_client_resp
     (receiving 12 (\<lambda>handshake r.
        if take 3 handshake = to_bytes ''RFB'' then go_to vs_security_handshake_server r else Inr (False, r)))"

definition vnc_security_server :: "'w shm_queue \<Rightarrow> ('z, 'w) vnc_block" where
  "vnc_security_server shm = in_state vs_security_handshake_server
     (sending shm [1, 1] (go_to vs_security_handshake_client_resp))"

definition vnc_security_client :: "'w shm_queue \<Rightarrow> ('z, 'w) vnc_block" where
  "vnc_security_client shm = in_state vs_security_handshake_client_resp
     (receiving 1 (\<lambda>chosen_sec.
        if chosen_sec ! 0 = 1 then sending shm [0, 0, 0, 0] (go_to vs_client_init)
        else sending shm [0, 0, 0, 1] (\<lambda>r. Inr (False, r))))"

definition vnc_client_init :: "('z, 'w) vnc_block" where
  "vnc_client_init = in_state vs_client_init (receiving 1 (\<lambda>client_init. go_to vs_server_init))"

definition vnc_server_init :: "'w shm_queue \<Rightarrow> frame_buffer \<Rightarrow> ('z, 'w) vnc_block" where
  "vnc_server_init shm fb = in_state vs_server_init (sending shm (server_init_message fb) (go_to vs_running_waiting_cmd))"

definition vnc_handshake :: "'w shm_queue \<Rightarrow> frame_buffer \<Rightarrow> ('z, 'w) vnc_block" where
  "vnc_handshake shm fb =
     and_then (vnc_initial_server shm) (and_then vnc_initial_client (and_then (vnc_security_server shm)
       (and_then (vnc_security_client shm) (and_then vnc_client_init (vnc_server_init shm fb)))))"

section \<open>Commands\<close>

definition vnc_wait_cmd :: "('z, 'w) vnc_block" where
  "vnc_wait_cmd = in_state vs_running_waiting_cmd
     (receiving 1 (\<lambda>cmd r. go_to vs_running_waiting_data (r\<lparr> vr_running_cmd := int (unat (cmd ! 0)) \<rparr>)))"

definition proceed :: "('z, 'w) vnc_block" where
  "proceed r = go_to vs_running_waiting_cmd (r\<lparr> vr_running_cmd := -1 \<rparr>)"

definition be16 :: "bytes \<Rightarrow> nat \<Rightarrow> nat" where
  "be16 d i = unat (d ! i) * 256 + unat (d ! (i + 1))"

definition be32 :: "bytes \<Rightarrow> nat \<Rightarrow> u32" where
  "be32 d i = push_bit 24 (ucast (d ! i)) OR push_bit 16 (ucast (d ! (i + 1))) OR push_bit 8 (ucast (d ! (i + 2))) OR ucast (d ! (i + 3))"

definition vnc_update_request :: "'w shm_queue \<Rightarrow> 'z codecs \<Rightarrow> frame_buffer \<Rightarrow> bytes \<Rightarrow> ('z, 'w) vnc_block" where
  "vnc_update_request shm cd fb p r =
     res_bind (calculate_fb_update cd fb (vr_encodings r) (be16 p 1) (be16 p 3) (be16 p 5) (be16 p 7)
        (unat (vs_depth (vr_session r))) (vs_prev_zsize (vr_session r), vs_strm (vr_session r))) (\<lambda>(fb_message, prev_zsize, strm).
     let r = r\<lparr> vr_session := (vr_session r)\<lparr> vs_prev_zsize := prev_zsize, vs_strm := strm \<rparr> \<rparr> in
     sending shm (case fb_message of None \<Rightarrow> [] | Some d \<Rightarrow> d) proceed r)"

definition vnc_command_data :: "'w shm_queue \<Rightarrow> 'z codecs \<Rightarrow> frame_buffer \<Rightarrow> ('z, 'w) vnc_block" where
  "vnc_command_data shm cd fb = in_state vs_running_waiting_data (\<lambda>r.
     let running_cmd = vr_running_cmd r in
     if running_cmd = 0 then
       receiving 19 (\<lambda>pf r.
         go_to vs_running_waiting_cmd (r\<lparr> vr_session := (vr_session r)\<lparr> vs_depth := pf ! (3 + 1) \<rparr> \<rparr>)) r
     else if running_cmd = 2 then
       receiving 3 (\<lambda>p r. go_to vs_running_waiting_data_extra (r\<lparr> vr_n_encodings := int (be16 p 1) \<rparr>)) r
     else if running_cmd = 3 then receiving 9 (vnc_update_request shm cd fb) r
     else if running_cmd = 4 then receiving 7 (\<lambda>_. proceed) r
     else if running_cmd = 5 then receiving 5 (\<lambda>_. proceed) r
     else if running_cmd = 6 then
       receiving 7 (\<lambda>p r.
         let ignore_data_n = sint (be32 p 3) in
         go_to (if ignore_data_n \<noteq> 0 then vs_running_waiting_data_ignore else vs_running_waiting_cmd)
           (r\<lparr> vr_ignore_data_n := ignore_data_n \<rparr>)) r
     else Inr (False, r))"

definition vnc_ignore_data :: "('z, 'w) vnc_block" where
  "vnc_ignore_data = in_state vs_running_waiting_data_ignore (\<lambda>r.
     res_bind (assert_that (0 < vr_ignore_data_n r)) (\<lambda>_.
     receiving (nat (vr_ignore_data_n r)) (\<lambda>_ r. go_to vs_running_waiting_cmd (r\<lparr> vr_ignore_data_n := -1 \<rparr>)) r))"

definition vnc_data_extra :: "('z, 'w) vnc_block" where
  "vnc_data_extra = in_state vs_running_waiting_data_extra (\<lambda>r.
     if vr_running_cmd r = 2 then
       let n_encodings = nat (vr_n_encodings r) in
       receiving (n_encodings * 4) (\<lambda>d r.
         go_to vs_running_waiting_cmd
           (r\<lparr> vr_encodings := map (\<lambda>i. be32 d (i * 4)) [0..<n_encodings], vr_n_encodings := -1 \<rparr>)) r
     else Inr (False, r))"

definition vnc_command :: "'w shm_queue \<Rightarrow> 'z codecs \<Rightarrow> frame_buffer \<Rightarrow> ('z, 'w) vnc_block" where
  "vnc_command shm cd fb =
     and_then vnc_wait_cmd (and_then (vnc_command_data shm cd fb) (and_then vnc_ignore_data vnc_data_extra))"

definition vnc_turn :: "'w shm_queue \<Rightarrow> 'z codecs \<Rightarrow> frame_buffer \<Rightarrow> ('z, 'w) vnc_block" where
  "vnc_turn shm cd fb = and_then (vnc_handshake shm fb) (vnc_command shm cd fb)"

text \<open>\<open>stop k\<close>: a stop flag is set when the loop is entered with \<open>k\<close> arrivals to come.\<close>

fun vnc_loop :: "'w shm_queue \<Rightarrow> 'z codecs \<Rightarrow> frame_buffer \<Rightarrow> (nat \<Rightarrow> bool) \<Rightarrow> nat \<Rightarrow> ('z, 'w) vnc_run \<Rightarrow> ('z, 'w) vnc_run res" where
  "vnc_loop shm cd fb stop 0 r = Inl Fuel_exhausted"
| "vnc_loop shm cd fb stop (Suc fuel) r =
     (if stop (length (vr_arrives r)) then Inr r
      else res_bind (vnc_turn shm cd fb r) (\<lambda>(go, r). if go then vnc_loop shm cd fb stop fuel r else Inr r))"

definition process_vnc_request ::
  "'w shm_queue \<Rightarrow> 'z codecs \<Rightarrow> frame_buffer \<Rightarrow> (nat \<Rightarrow> bool) \<Rightarrow> nat \<Rightarrow> (bytes list \<times> bool) list \<Rightarrow> 'z vnc_session_t \<Rightarrow> 'w
    \<Rightarrow> ('z vnc_session_t \<times> 'w) res" where
  "process_vnc_request shm cd fb stop fuel arrives session w =
     res_bind (vnc_loop shm cd fb stop fuel
       \<lparr> vr_session = session, vr_encodings = [], vr_n_encodings = -1, vr_running_cmd = -1, vr_ignore_data_n = -1,
         vr_arrives = arrives, vr_world = w \<rparr>) (\<lambda>r.
     res_bind (fin_func shm (vr_session r) (vr_world r)) (\<lambda>w.
     Inr ((vr_session r)\<lparr> l7_finished := True \<rparr>, w)))"

section \<open>Sessions\<close>

definition new_vnc_session :: "'z \<Rightarrow> string \<Rightarrow> u64 \<Rightarrow> addr \<Rightarrow> u16 \<Rightarrow> addr \<Rightarrow> u16 \<Rightarrow> 'z vnc_session_t" where
  "new_vnc_session strm out_name session_id from_a from_port to_a to_port =
     tcp_l7_session_t.extend (new_l7_session out_name session_id from_a from_port to_a to_port)
       (vnc_session_t.fields vs_initial_handshake_server_send 0 strm 8)"

definition vnc_run_in ::
  "'z \<Rightarrow> string \<Rightarrow> message \<Rightarrow> ('z, unit) vnc_session_t_ext app_sessions
    \<Rightarrow> (nat \<times> ('z, unit) vnc_session_t_ext app_sessions) res" where
  "vnc_run_in strm out_name = app_run_in (new_vnc_session strm out_name) note_close"


definition vnc_run_meta ::
  "message \<Rightarrow> ('z, unit) vnc_session_t_ext app_sessions \<Rightarrow> (nat \<times> ('z, unit) vnc_session_t_ext app_sessions) res" where
  "vnc_run_meta = app_run_meta"

interpretation vnc_app: app_server "new_vnc_session strm out_name" note_close for strm out_name
  by unfold_locales (simp_all add: new_vnc_session_def new_l7_session_def tcp_l7_session_t.defs vnc_session_t.defs)

section \<open>Lemmas\<close>

lemma recv_loop_shorter:
  "recv_loop arrives q todo got = Inr (got', q', arrives') \<Longrightarrow>
    length arrives' \<le> length arrives \<and> (0 < todo \<longrightarrow> length arrives' < length arrives)"
proof (induction arrives q todo got rule: recv_loop.induct)
  case (3 pushed stop arrives q todo got)
  show ?case
  proof (cases "stop \<or> q @ pushed = []")
    case True
    then show ?thesis using 3(1)[of "q @ pushed" None "[]"] 3(4) by (auto simp: queue_pop_def split: if_splits)
  next
    case False
    then obtain v q1 where v: "q @ pushed = v # q1" by (cases "q @ pushed") auto
    then show ?thesis using 3(3)[of "q @ pushed" "Some v" q1 v] 3(4) False
      by (auto simp: queue_pop_def split: if_splits)
  qed
qed auto

lemma recv_alloc_fields:
  assumes "recv_alloc n r = Inr (got, r')"
  shows "vr_state r' = vr_state r" "vr_world r' = vr_world r" "vr_running_cmd r' = vr_running_cmd r"
    "length (vr_arrives r') \<le> length (vr_arrives r)" "0 < n \<Longrightarrow> length (vr_arrives r') < length (vr_arrives r)"
  using assms recv_loop_shorter[of "vr_arrives r" _ n]
  by (auto simp: recv_alloc_def recv_func_def vr_state_def res_bind_eq_Inr split: if_splits)

text \<open>\<open>leads S f S'\<close>: when block \<open>f\<close> is entered in a state of \<open>S\<close> and the loop goes on, the state
  is in \<open>S'\<close>, and nothing that has arrived comes again.\<close>

definition leads :: "vnc_state_t set \<Rightarrow> ('z, 'w) vnc_block \<Rightarrow> vnc_state_t set \<Rightarrow> bool" where
  "leads S f S' \<longleftrightarrow> (\<forall>r r'. vr_state r \<in> S \<longrightarrow> f r = Inr (True, r') \<longrightarrow>
     vr_state r' \<in> S' \<and> length (vr_arrives r') \<le> length (vr_arrives r))"

lemma leadsD:
  assumes "leads S f T" "f r = Inr (True, r')" "vr_state r \<in> S"
  shows "vr_state r' \<in> T" "length (vr_arrives r') \<le> length (vr_arrives r)"
  using assms by (auto simp: leads_def)

lemma leads_and_then: "leads S f T \<Longrightarrow> leads T g U \<Longrightarrow> leads S (and_then f g) U"
  unfolding leads_def and_then_def res_bind_eq_Inr
  by (fastforce split: if_splits)

lemma leads_go_to: "s \<in> T \<Longrightarrow> leads S (go_to s) T"
  by (simp add: leads_def go_to_def goto_state_def vr_state_def)

lemma leads_sending:
  assumes "leads S f T"
  shows "leads S (sending shm d f) T"
  unfolding leads_def
proof (intro allI impI)
  fix r r' assume "vr_state r \<in> S" "sending shm d f r = Inr (True, r')"
  then obtain w where "f (r\<lparr> vr_world := w \<rparr>) = Inr (True, r')" "vr_state (r\<lparr> vr_world := w \<rparr>) \<in> S"
    by (auto simp: sending_def vnc_send_def res_bind_eq_Inr vr_state_def split: if_splits)
  with assms show "vr_state r' \<in> T \<and> length (vr_arrives r') \<le> length (vr_arrives r)"
    unfolding leads_def by fastforce
qed

lemma leads_receiving:
  assumes "\<And>d. leads S (f d) T"
  shows "leads S (receiving n f) T"
  unfolding leads_def
proof (intro allI impI)
  fix r r' assume "vr_state r \<in> S" "receiving n f r = Inr (True, r')"
  then obtain d r1 where r1: "recv_alloc n r = Inr (Some d, r1)" "f d r1 = Inr (True, r')"
    by (auto simp: receiving_def res_bind_eq_Inr split: option.splits)
  with recv_alloc_fields[OF r1(1)] \<open>vr_state r \<in> S\<close> leadsD[OF assms r1(2)]
  show "vr_state r' \<in> T \<and> length (vr_arrives r') \<le> length (vr_arrives r)" by simp
qed

lemma leads_update: "leads S f T \<Longrightarrow> (\<And>r. vr_state (u r) = vr_state r) \<Longrightarrow> (\<And>r. vr_arrives (u r) = vr_arrives r) \<Longrightarrow> leads S (\<lambda>r. f (u r)) T"
  unfolding leads_def by metis

lemma leads_break: "leads S (\<lambda>r. Inr (False, r)) T"
  by (simp add: leads_def)

lemma leads_if: "(c \<Longrightarrow> leads S f T) \<Longrightarrow> (\<not> c \<Longrightarrow> leads S g T) \<Longrightarrow> leads S (if c then f else g) T"
  by simp

lemma leads_if_run: "leads S f T \<Longrightarrow> leads S g T \<Longrightarrow> leads S (\<lambda>r. if c r then f r else g r) T"
  unfolding leads_def by metis

lemma leads_in:
  assumes "s \<in> S \<Longrightarrow> leads {s} f T" "S - {s} \<subseteq> T"
  shows "leads S (in_state s f) T"
  using assms by (auto simp: leads_def in_state_def split: if_splits)

lemma leads_handshake:
  "leads {vs_initial_handshake_server_send, vs_running_waiting_cmd} (vnc_handshake shm fb) {vs_running_waiting_cmd}"
  unfolding vnc_handshake_def
proof (intro leads_and_then)
  show "leads {vs_initial_handshake_server_send, vs_running_waiting_cmd} (vnc_initial_server shm) {vs_initial_handshake_client_resp, vs_running_waiting_cmd}"
    unfolding vnc_initial_server_def by (intro leads_in leads_sending leads_go_to) auto
  show "leads {vs_initial_handshake_client_resp, vs_running_waiting_cmd} vnc_initial_client {vs_security_handshake_server, vs_running_waiting_cmd}"
    unfolding vnc_initial_client_def by (intro leads_in leads_receiving leads_if_run leads_go_to leads_break) auto
  show "leads {vs_security_handshake_server, vs_running_waiting_cmd} (vnc_security_server shm) {vs_security_handshake_client_resp, vs_running_waiting_cmd}"
    unfolding vnc_security_server_def by (intro leads_in leads_sending leads_go_to) auto
  show "leads {vs_security_handshake_client_resp, vs_running_waiting_cmd} (vnc_security_client shm) {vs_client_init, vs_running_waiting_cmd}"
    unfolding vnc_security_client_def by (intro leads_in leads_receiving leads_if leads_sending leads_go_to leads_break) auto
  show "leads {vs_client_init, vs_running_waiting_cmd} vnc_client_init {vs_server_init, vs_running_waiting_cmd}"
    unfolding vnc_client_init_def by (intro leads_in leads_receiving leads_go_to) auto
  show "leads {vs_server_init, vs_running_waiting_cmd} (vnc_server_init shm fb) {vs_running_waiting_cmd}"
    unfolding vnc_server_init_def by (intro leads_in leads_sending leads_go_to) auto
qed

lemma leads_proceed: "vs_running_waiting_cmd \<in> T \<Longrightarrow> leads S proceed T"
  unfolding proceed_def by (rule leads_update[OF leads_go_to]) (simp_all add: vr_state_def)

lemma leads_update_request:
  assumes "vs_running_waiting_cmd \<in> T"
  shows "leads S (vnc_update_request shm cd fb p) T"
  unfolding leads_def
proof (intro allI impI)
  fix r r' assume "vr_state r \<in> S" "vnc_update_request shm cd fb p r = Inr (True, r')"
  then obtain d z strm where "sending shm d proceed (r\<lparr> vr_session := (vr_session r)\<lparr> vs_prev_zsize := z, vs_strm := strm \<rparr> \<rparr>) = Inr (True, r')"
    by (auto simp: vnc_update_request_def res_bind_eq_Inr Let_def)
  from leadsD[OF leads_sending[OF leads_proceed[OF assms], of UNIV] this]
  show "vr_state r' \<in> T \<and> length (vr_arrives r') \<le> length (vr_arrives r)" by simp
qed

lemma leads_param: "(\<And>x. leads S (f x) T) \<Longrightarrow> leads S (\<lambda>r. f (g r) r) T"
  unfolding leads_def by blast

lemma leads_assert: "leads S f T \<Longrightarrow> leads S (\<lambda>r. res_bind (assert_that (c r)) (\<lambda>_. f r)) T"
  unfolding leads_def by (auto simp: assert_that_def)

lemma leads_command_data:
  "leads {vs_running_waiting_data} (vnc_command_data shm cd fb)
    {vs_running_waiting_cmd, vs_running_waiting_data_ignore, vs_running_waiting_data_extra}"
  unfolding vnc_command_data_def Let_def
  by (intro leads_in leads_if_run leads_receiving leads_break leads_proceed leads_update_request leads_update[OF leads_go_to])
     (auto simp: vr_state_def)

lemma leads_ignore_data:
  "leads {vs_running_waiting_cmd, vs_running_waiting_data_ignore, vs_running_waiting_data_extra} vnc_ignore_data
    {vs_running_waiting_cmd, vs_running_waiting_data_extra}"
  unfolding vnc_ignore_data_def
  by (rule leads_in, rule leads_assert, rule leads_param[of _ "\<lambda>n. receiving n (\<lambda>_ r. go_to vs_running_waiting_cmd (r\<lparr> vr_ignore_data_n := -1 \<rparr>))"],
      rule leads_receiving, rule leads_update[OF leads_go_to]) (auto simp: vr_state_def)

lemma leads_data_extra:
  "leads {vs_running_waiting_cmd, vs_running_waiting_data_extra} vnc_data_extra {vs_running_waiting_cmd}"
  unfolding vnc_data_extra_def Let_def
  by (rule leads_in, rule leads_if_run, rule leads_param[of _ "\<lambda>n. receiving (n * 4) (\<lambda>d r. go_to vs_running_waiting_cmd
           (r\<lparr> vr_encodings := map (\<lambda>i. be32 d (i * 4)) [0..<n], vr_n_encodings := -1 \<rparr>))"],
      rule leads_receiving, rule leads_update[OF leads_go_to]) (auto simp: vr_state_def leads_break)

lemmas leads_commands = leads_and_then[OF leads_command_data leads_and_then[OF leads_ignore_data leads_data_extra]]

lemma wait_cmd_progress:
  assumes "vnc_wait_cmd r = Inr (True, r')" "vr_state r = vs_running_waiting_cmd"
  shows "vr_state r' = vs_running_waiting_data" "length (vr_arrives r') < length (vr_arrives r)"
proof -
  obtain d r1 where "recv_alloc 1 r = Inr (Some d, r1)" "r' = goto_state vs_running_waiting_data (r1\<lparr> vr_running_cmd := int (unat (d ! 0)) \<rparr>)"
    using assms by (auto simp: vnc_wait_cmd_def in_state_def receiving_def go_to_def res_bind_eq_Inr split: option.splits)
  then show "vr_state r' = vs_running_waiting_data" "length (vr_arrives r') < length (vr_arrives r)"
    using recv_alloc_fields(5)[of 1 r "Some d" r1] by (simp_all add: goto_state_def vr_state_def)
qed

text \<open>Between turns a session waits for its first or its next command, and every turn uses up something that arrived.\<close>

lemma vnc_turn_progress:
  assumes "vnc_turn shm cd fb r = Inr (True, r')" "vr_state r \<in> {vs_initial_handshake_server_send, vs_running_waiting_cmd}"
  shows "vr_state r' = vs_running_waiting_cmd" "length (vr_arrives r') < length (vr_arrives r)"
proof -
  obtain r1 r2 where r1: "vnc_handshake shm fb r = Inr (True, r1)" and r2: "vnc_wait_cmd r1 = Inr (True, r2)"
    and r': "and_then (vnc_command_data shm cd fb) (and_then vnc_ignore_data vnc_data_extra) r2 = Inr (True, r')"
    using assms(1) unfolding vnc_turn_def vnc_command_def and_then_def[of "vnc_handshake shm fb"] and_then_def[of vnc_wait_cmd]
    by (auto simp: res_bind_eq_Inr split: if_splits)
  note h = leadsD[OF leads_handshake r1 assms(2)]
  have "vr_state r1 = vs_running_waiting_cmd" using h(1) by simp
  note c = wait_cmd_progress[OF r2 this]
  note d = leadsD[OF leads_commands r']
  show "vr_state r' = vs_running_waiting_cmd" "length (vr_arrives r') < length (vr_arrives r)" using h c d by auto
qed

section \<open>Properties\<close>

lemma vnc_loop_fuel:
  assumes "vr_state r \<in> {vs_initial_handshake_server_send, vs_running_waiting_cmd}" "length (vr_arrives r) < fuel"
  shows "vnc_loop shm cd fb stop (fuel + k) r = vnc_loop shm cd fb stop fuel r"
  using assms
proof (induction fuel arbitrary: r)
  case (Suc fuel)
  have "(if go then vnc_loop shm cd fb stop (fuel + k) r1 else Inr r1) = (if go then vnc_loop shm cd fb stop fuel r1 else Inr r1)"
    if "vnc_turn shm cd fb r = Inr (go, r1)" for go r1
    using Suc.IH[of r1] vnc_turn_progress[of shm cd fb r r1] Suc.prems that by (cases go) auto
  then show ?case by (cases "vnc_turn shm cd fb r") (auto split: prod.split)
qed simp

text \<open>The loop of a VNC session ends: every turn uses up something that has arrived, so that a
  session with \<open>n\<close> arrivals to come takes at most \<open>n + 1\<close> turns, and more fuel than that does not
  change what it does.\<close>

theorem vnc_request_ends:
  assumes "vs_state session = vs_initial_handshake_server_send" "length arrives < fuel"
  shows "process_vnc_request shm cd fb stop (fuel + k) arrives session w = process_vnc_request shm cd fb stop fuel arrives session w"
  using assms by (simp add: process_vnc_request_def vnc_loop_fuel vr_state_def)

text \<open>The bytes of the client that are still to be read.\<close>

definition vr_stream :: "('z, 'w) vnc_run \<Rightarrow> bytes" where
  "vr_stream r = stream_of (vr_arrives r) (l7_incoming (vr_session r))"

lemma and_then_True: "and_then f g r = Inr (True, r') \<longleftrightarrow> (\<exists>r1. f r = Inr (True, r1) \<and> g r1 = Inr (True, r'))"
  by (auto simp: and_then_def res_bind_eq_Inr split: if_splits)

lemma in_state_True: "in_state s f r = Inr (True, r') \<Longrightarrow> vr_state r = s \<Longrightarrow> f r = Inr (True, r')"
  by (simp add: in_state_def)

text \<open>What a block cannot change: the peer of the session and where its messages go.\<close>

definition same_peer :: "('z, 'w) vnc_run \<Rightarrow> ('z, 'w) vnc_run \<Rightarrow> bool" where
  "same_peer r r' \<longleftrightarrow> l7_session_id (vr_session r') = l7_session_id (vr_session r) \<and> l7_out_name (vr_session r') = l7_out_name (vr_session r)"

lemma receiving_takes:
  assumes "receiving n f r = Inr (True, r')"
  obtains d r1 where "f d r1 = Inr (True, r')" "length d = n" "vr_stream r = d @ vr_stream r1" "same_peer r r1"
    "vr_world r1 = vr_world r"
proof -
  obtain d r1 where r1: "recv_alloc n r = Inr (Some d, r1)" "f d r1 = Inr (True, r')"
    using assms by (auto simp: receiving_def res_bind_eq_Inr split: option.splits)
  from r1(1) obtain session' arrives' where f: "recv_func (vr_arrives r) (vr_session r) n = Inr (d, session', arrives')" "length d = n"
    "r1 = r\<lparr> vr_session := session', vr_arrives := arrives' \<rparr>"
    by (auto simp: recv_alloc_def res_bind_eq_Inr split: if_splits)
  have "stream_of (vr_arrives r) (l7_incoming (vr_session r)) = d @ stream_of arrives' (l7_incoming session')"
    "l7_session_id session' = l7_session_id (vr_session r)" "l7_out_name session' = l7_out_name (vr_session r)"
    using f(1) recv_loop_stream[of "vr_arrives r" "l7_incoming (vr_session r)" n "[]"]
    by (auto simp: recv_func_def res_bind_eq_Inr split: if_splits)
  then show ?thesis using that[OF r1(2)] f(2,3) by (simp add: vr_stream_def same_peer_def)
qed

context blocking_transport
begin

lemma sending_posts:
  assumes "sending shm d (go_to s) r = Inr (True, r')" "ok (vr_world r)" "small (length d)"
  shows "ok (vr_world r')" "vr_state r' = s" "vr_stream r' = vr_stream r" "same_peer r r'"
    "posted ib cap lid (vr_world r) (l7_out_name (vr_session r)) (app_message (vr_session r) 0 d) True (vr_world r')"
proof -
  obtain w n where w: "send_func shm (vr_session r) d (vr_world r) = Inr (n, w)" "n \<noteq> -1" "r' = goto_state s (r\<lparr> vr_world := w \<rparr>)"
    using assms(1) by (auto simp: sending_def vnc_send_def go_to_def res_bind_eq_Inr split: if_splits)
  have "ok w \<and> posted ib cap lid (vr_world r) (l7_out_name (vr_session r)) (app_message (vr_session r) 0 d) True w"
    using send_func_cases[OF assms(2,3), of "vr_session r"] w(1,2) by (auto split: if_splits)
  then show "ok (vr_world r')" "vr_state r' = s" "vr_stream r' = vr_stream r" "same_peer r r'"
    "posted ib cap lid (vr_world r) (l7_out_name (vr_session r)) (app_message (vr_session r) 0 d) True (vr_world r')"
    unfolding w(3) by (simp_all add: goto_state_def vr_state_def vr_stream_def same_peer_def)
qed

end

lemma app_message_same_peer: "same_peer r r' \<Longrightarrow> app_message (vr_session r') flags d = app_message (vr_session r) flags d"
  by (simp add: app_message_def same_peer_def)

lemma same_peer_trans: "same_peer r r' \<Longrightarrow> same_peer r' r'' \<Longrightarrow> same_peer r r''"
  by (simp add: same_peer_def)

lemma go_to_fields:
  "vr_state (goto_state s r) = s" "vr_stream (goto_state s r) = vr_stream r" "vr_world (goto_state s r) = vr_world r"
  "same_peer r' (goto_state s r) = same_peer r' r"
  by (simp_all add: goto_state_def vr_state_def vr_stream_def same_peer_def)

lemma initial_client_takes:
  assumes "vnc_initial_client r = Inr (True, r')" "vr_state r = vs_initial_handshake_client_resp"
  obtains v where "length v = 12" "take 3 v = to_bytes ''RFB''" "vr_stream r = v @ vr_stream r'" "same_peer r r'"
    "vr_world r' = vr_world r" "vr_state r' = vs_security_handshake_server"
proof -
  from receiving_takes[OF in_state_True[OF assms[unfolded vnc_initial_client_def]]] obtain v r1 where
    v: "(if take 3 v = to_bytes ''RFB'' then go_to vs_security_handshake_server r1 else Inr (False, r1)) = Inr (True, r')"
      "length v = 12" "vr_stream r = v @ vr_stream r1" "same_peer r r1" "vr_world r1 = vr_world r" .
  then show ?thesis using that[of v] by (auto simp: go_to_def go_to_fields split: if_splits)
qed

lemma client_init_takes:
  assumes "vnc_client_init r = Inr (True, r')" "vr_state r = vs_client_init"
  obtains c where "vr_stream r = c # vr_stream r'" "same_peer r r'" "vr_world r' = vr_world r" "vr_state r' = vs_server_init"
proof -
  from receiving_takes[OF in_state_True[OF assms[unfolded vnc_client_init_def]]] obtain v r1 where
    v: "go_to vs_server_init r1 = Inr (True, r')" "length v = 1" "vr_stream r = v @ vr_stream r1" "same_peer r r1"
      "vr_world r1 = vr_world r" .
  then obtain c where "v = [c]" by (metis One_nat_def length_0_conv length_Suc_conv)
  with v show ?thesis using that[of c] by (auto simp: go_to_def go_to_fields)
qed

context blocking_transport
begin

lemma security_client_takes:
  assumes "vnc_security_client shm r = Inr (True, r')" "vr_state r = vs_security_handshake_client_resp" "ok (vr_world r)"
  shows "vr_stream r = 1 # vr_stream r'" "same_peer r r'" "ok (vr_world r')" "vr_state r' = vs_client_init"
    "posted ib cap lid (vr_world r) (l7_out_name (vr_session r)) (app_message (vr_session r) 0 [0, 0, 0, 0]) True (vr_world r')"
proof -
  from receiving_takes[OF in_state_True[OF assms(1,2)[unfolded vnc_security_client_def]]] obtain v r1 where
    v: "(if v ! 0 = 1 then sending shm [0, 0, 0, 0] (go_to vs_client_init) else sending shm [0, 0, 0, 1] (\<lambda>r. Inr (False, r))) r1 = Inr (True, r')"
      "length v = 1" "vr_stream r = v @ vr_stream r1" "same_peer r r1" "vr_world r1 = vr_world r" .
  have one: "v ! 0 = 1" using v(1) by (auto simp: sending_def res_bind_eq_Inr split: if_splits)
  then have "v = [1]" using v(2) by (cases v) auto
  have s: "sending shm [0, 0, 0, 0] (go_to vs_client_init) r1 = Inr (True, r')" using v(1) one by simp
  have "ok (vr_world r1)" using assms(3) v(5) by simp
  note p = sending_posts[OF s this]
  have "l7_out_name (vr_session r1) = l7_out_name (vr_session r)" using v(4) by (simp add: same_peer_def)
  then show "vr_stream r = 1 # vr_stream r'" "same_peer r r'" "ok (vr_world r')" "vr_state r' = vs_client_init"
    "posted ib cap lid (vr_world r) (l7_out_name (vr_session r)) (app_message (vr_session r) 0 [0, 0, 0, 0]) True (vr_world r')"
    using p v(3,4,5) \<open>v = [1]\<close> app_message_same_peer[OF v(4), of 0] same_peer_trans[OF v(4)] by (simp_all add: small_def)
qed

lemma handshake_takes:
  assumes "vnc_handshake shm fb r = Inr (True, r')" "vr_state r = vs_initial_handshake_server_send" "ok (vr_world r)"
  shows "vr_state r' = vs_running_waiting_cmd \<and> ok (vr_world r')
    \<and> (\<exists>v c. length v = 12 \<and> take 3 v = to_bytes ''RFB'' \<and> vr_stream r = v @ 1 # c # vr_stream r')
    \<and> enqueued lid (ib (vr_world r)) (l7_out_name (vr_session r))
        (map (app_message (vr_session r) 0) [initial_message, [1, 1], [0, 0, 0, 0], server_init_message fb]) (ib (vr_world r'))"
proof -
  obtain r1 r2 r3 r4 r5 where
    b1: "vnc_initial_server shm r = Inr (True, r1)" and b2: "vnc_initial_client r1 = Inr (True, r2)"
    and b3: "vnc_security_server shm r2 = Inr (True, r3)" and b4: "vnc_security_client shm r3 = Inr (True, r4)"
    and b5: "vnc_client_init r4 = Inr (True, r5)" and b6: "vnc_server_init shm fb r5 = Inr (True, r')"
    using assms(1) unfolding vnc_handshake_def and_then_True by blast
  have sm: "small (length initial_message)" "small (length [1, 1 :: byte])" "small (length (server_init_message fb))"
    by (simp_all add: small_def initial_message_def server_init_message_def)
  note p1 = sending_posts[OF in_state_True[OF b1[unfolded vnc_initial_server_def] assms(2)] assms(3) sm(1)]
  from initial_client_takes[OF b2 p1(2)] obtain v where v: "length v = 12" "take 3 v = to_bytes ''RFB''" "vr_stream r1 = v @ vr_stream r2"
    "same_peer r1 r2" "vr_world r2 = vr_world r1" "vr_state r2 = vs_security_handshake_server" .
  have "ok (vr_world r2)" using p1(1) v(5) by simp
  note p3 = sending_posts[OF in_state_True[OF b3[unfolded vnc_security_server_def] v(6)] this sm(2)]
  note p4 = security_client_takes[OF b4 p3(2,1)]
  from client_init_takes[OF b5 p4(4)] obtain c where c: "vr_stream r4 = c # vr_stream r5" "same_peer r4 r5" "vr_world r5 = vr_world r4"
    "vr_state r5 = vs_server_init" .
  have "ok (vr_world r5)" using p4(3) c(3) by simp
  note p6 = sending_posts[OF in_state_True[OF b6[unfolded vnc_server_init_def] c(4)] this sm(3)]
  have sp: "same_peer r r2" "same_peer r r3" "same_peer r r5"
    using p1(4) v(4) p3(4) p4(2) c(2) by (simp_all add: same_peer_def)
  have o: "l7_out_name (vr_session x) = l7_out_name (vr_session r)" "app_message (vr_session x) 0 d = app_message (vr_session r) 0 d"
    if "same_peer r x" for x d using that app_message_same_peer[OF that] by (simp_all add: same_peer_def)
  have "enqueued lid (ib (vr_world r)) (l7_out_name (vr_session r))
    [app_message (vr_session r) 0 initial_message, app_message (vr_session r) 0 [1, 1], app_message (vr_session r) 0 [0, 0, 0, 0],
     app_message (vr_session r) 0 (server_init_message fb)] (ib (vr_world r'))"
    using p1(5) p3(5) p4(5) p6(5) v(5) c(3) o[OF sp(1)] o[OF sp(2)] o[OF sp(3)]
    by (intro enqueued_Cons[where ib = ib and cap = cap]) (auto simp: enqueued_Nil)
  moreover have "vr_stream r = v @ 1 # c # vr_stream r'" using p1(3) v(3) p3(3) p4(1) c(1) p6(3) by simp
  ultimately show ?thesis using p6(1,2) v(1,2) by auto
qed

end

text \<open>C36: Only a client that has sent twelve bytes beginning with \<^verbatim>\<open>RFB\<close>, the security type 1 and one byte
  more gets through the handshake, and what it has then been sent is the server's version, the
  list of security types, the result and the description of the picture, in this order.\<close>

theorem vnc_handshake_sound:
  assumes "net_ok (vr_world r)" "length lid < max_id_length" "vr_state r = vs_initial_handshake_server_send"
    and "vnc_handshake (send_message lid) fb r = Inr (True, r')"
  shows "vr_state r' = vs_running_waiting_cmd
    \<and> (\<exists>v c. length v = 12 \<and> take 3 v = to_bytes ''RFB'' \<and> vr_stream r = v @ 1 # c # vr_stream r')
    \<and> enqueued lid (inbox (vr_world r)) (l7_out_name (vr_session r))
        (map (app_message (vr_session r) 0) [initial_message, [1, 1], [0, 0, 0, 0], server_init_message fb]) (inbox (vr_world r'))"
  using blocking_transport.handshake_takes[OF shm_blocking_transport[OF assms(2)] assms(4,3,1)] by simp

text \<open>The other direction: a client whose first message holds all of that is let through.\<close>

definition sample_run :: "bytes \<Rightarrow> 'z \<Rightarrow> 'w \<Rightarrow> ('z, 'w) vnc_run" where
  "sample_run d strm w =
     \<lparr> vr_session = (new_vnc_session strm ''tcp-out'' 99 [10, 0, 0, 1] 4711 [10, 0, 0, 2] 5900)\<lparr> l7_incoming := [d] \<rparr>,
       vr_encodings = [], vr_n_encodings = -1, vr_running_cmd = -1, vr_ignore_data_n = -1,
       vr_arrives = replicate 5 ([], False), vr_world = w \<rparr>"

lemma recv_alloc_first:
  assumes "l7_incoming (vr_session r) = [d @ e]" "length d = n" "0 < n" "vr_arrives r = replicate (Suc k) ([], False)"
  shows "recv_alloc n r = Inr (Some d, r\<lparr> vr_session := (vr_session r)\<lparr> l7_incoming := (if e = [] then [] else [e]) \<rparr>, vr_arrives := replicate k ([], False) \<rparr>)"
proof -
  obtain m where n: "n = Suc m" using assms(3) by (cases n) auto
  have "recv_loop (replicate (Suc k) ([], False)) [d @ e] n [] = Inr (d, if e = [] then [] else [e], replicate k ([], False))"
    using assms(2) unfolding n by (auto simp: queue_pop_def queue_unpop_def)
  then show ?thesis using assms by (simp add: recv_alloc_def recv_func_def)
qed

lemma receiving_first:
  assumes "l7_incoming (vr_session r) = [d @ e]" "length d = n" "0 < n" "vr_arrives r = replicate (Suc k) ([], False)"
  shows "receiving n f r = f d (r\<lparr> vr_session := (vr_session r)\<lparr> l7_incoming := (if e = [] then [] else [e]) \<rparr>, vr_arrives := replicate k ([], False) \<rparr>)"
  using recv_alloc_first[OF assms] by (simp add: receiving_def)

lemma be32_negative: "128 \<le> d ! i \<Longrightarrow> sint (be32 d i) < 0"
proof -
  assume "128 \<le> d ! i"
  then have "128 \<le> unat (d ! i)" by (simp add: word_le_nat_alt)
  moreover have "unat (d ! i) < 256" using unsigned_less[of "d ! i"] by simp
  ultimately have "unat (d ! i) div 2 ^ 7 = 1" by simp
  then have "bit (unat (d ! i)) 7" by (simp add: bit_iff_odd)
  then have "bit (d ! i) 7" by (simp add: bit_simps)
  then have "bit (be32 d i) 31" by (simp add: be32_def bit_simps)
  then show ?thesis using bit_last_iff[of "be32 d i"] by simp
qed

text \<open>A client that announces a text of 2 GB or more for the clipboard makes the server
  stop: the length is read as a signed number, and the assertion that it is positive fails.\<close>

theorem vnc_cut_text_aborts:
  assumes "vr_state r = vs_running_waiting_cmd" "vr_arrives r = replicate 2 ([], False)"
    and "l7_incoming (vr_session r) = [[6, pa, pb, pc, na, nb, nc, nd]]" "128 \<le> na"
  shows "vnc_turn shm cd fb r = Inl Assert_failed"
proof -
  have neg: "sint (be32 [pa, pb, pc, na, nb, nc, nd] 3) < 0" using be32_negative[of "[pa, pb, pc, na, nb, nc, nd]" 3] assms(4) by simp
  have h: "vnc_handshake shm fb r = Inr (True, r)"
    using assms(1) by (simp add: vnc_handshake_def and_then_def in_state_def vnc_initial_server_def vnc_initial_client_def
        vnc_security_server_def vnc_security_client_def vnc_client_init_def vnc_server_init_def)
  have a: "vr_arrives r = replicate (Suc 1) ([], False)" using assms(2) by (simp add: numeral_2_eq_2)
  define r1 where "r1 = goto_state vs_running_waiting_data (r\<lparr> vr_session := (vr_session r)\<lparr> l7_incoming := [[pa, pb, pc, na, nb, nc, nd]] \<rparr>,
     vr_arrives := replicate 1 ([], False), vr_running_cmd := 6 \<rparr>)"
  have "vnc_wait_cmd r = Inr (True, r1)"
    using assms(1) receiving_first[of r "[6]" "[pa, pb, pc, na, nb, nc, nd]" 1 1] assms(3) a
    by (simp add: vnc_wait_cmd_def in_state_def go_to_def r1_def)
  moreover have "\<exists>r2. vnc_command_data shm cd fb r1 = Inr (True, r2) \<and> vr_state r2 = vs_running_waiting_data_ignore \<and> vr_ignore_data_n r2 < 0"
    using receiving_first[of r1 "[pa, pb, pc, na, nb, nc, nd]" "[]" 7 0] neg
    by (simp add: vnc_command_data_def in_state_def r1_def goto_state_def vr_state_def go_to_def Let_def)
  ultimately show ?thesis using h
    by (auto simp: vnc_turn_def vnc_command_def and_then_def vnc_ignore_data_def in_state_def)
qed

theorem vnc_cut_text_aborts_witness:
  "vnc_turn (send_message ''vnc'') stored (black 640 480)
      ((sample_run [6, 0, 0, 0, 128, 0, 0, 0] 0 idle_net)\<lparr> vr_session := (vr_session (sample_run [6, 0, 0, 0, 128, 0, 0, 0] 0 idle_net))
        \<lparr> vs_state := vs_running_waiting_cmd \<rparr>, vr_arrives := replicate 2 ([], False) \<rparr>) = Inl Assert_failed"
  by (rule vnc_cut_text_aborts[where na = 128 and pa = 0 and pb = 0 and pc = 0 and nb = 0 and nc = 0 and nd = 0])
     (simp_all add: sample_run_def vr_state_def)

theorem vnc_request_ends_witness:
  "process_vnc_request (send_message ''vnc'') stored (black 640 480) (\<lambda>_. False) (1 + 5) []
      (new_vnc_session 0 ''tcp-out'' 99 [10, 0, 0, 1] 4711 [10, 0, 0, 2] 5900) idle_net
    = process_vnc_request (send_message ''vnc'') stored (black 640 480) (\<lambda>_. False) 1 []
      (new_vnc_session 0 ''tcp-out'' 99 [10, 0, 0, 1] 4711 [10, 0, 0, 2] 5900) idle_net"
  by (rule vnc_request_ends)
     (simp_all add: new_vnc_session_def new_l7_session_def tcp_l7_session_t.defs vnc_session_t.defs)

section \<open>A handshake that succeeds\<close>

context blocking_transport
begin

text \<open>Where a run stands: its state, what it can read in how many turns, and the messages there is still room for.\<close>

definition ready :: "('z, 'a) vnc_run \<Rightarrow> ('z, 'a) vnc_run \<Rightarrow> vnc_state_t \<Rightarrow> bytes list \<Rightarrow> nat \<Rightarrow> bytes list \<Rightarrow> bool" where
  "ready r0 r s q k ds \<longleftrightarrow> vr_state r = s \<and> ok (vr_world r) \<and> same_peer r0 r \<and> l7_incoming (vr_session r) = q
     \<and> vr_arrives r = replicate k ([], False)
     \<and> room_for (ib (vr_world r)) (cap (vr_world r)) (l7_out_name (vr_session r0)) (map (app_message (vr_session r0) 0) ds)"

lemma ready_goto: "ready r0 r s q k ds \<Longrightarrow> ready r0 (goto_state s' r) s' q k ds"
  by (simp add: ready_def go_to_fields) (simp add: goto_state_def)

lemma ready_sending:
  assumes "ready r0 r s q k (d # ds)" "small (length d)"
  shows "\<exists>r'. sending shm d (go_to s') r = Inr (True, r') \<and> ready r0 r' s' q k ds"
proof -
  have p: "same_peer r0 r" and o: "ok (vr_world r)" using assms(1) by (simp_all add: ready_def)
  have n: "l7_out_name (vr_session r) = l7_out_name (vr_session r0)" "app_message (vr_session r) 0 = app_message (vr_session r0) 0"
    using p app_message_same_peer[OF p] by (auto simp: same_peer_def)
  have "room_for (ib (vr_world r)) (cap (vr_world r)) (l7_out_name (vr_session r)) (app_message (vr_session r) 0 d # map (app_message (vr_session r0) 0) ds)"
    using assms(1) n by (simp add: ready_def)
  from send_func_room[OF o assms(2) this] obtain w where w: "send_func shm (vr_session r) d (vr_world r) = Inr (int (length d), w)" "ok w"
    "room_for (ib w) (cap w) (l7_out_name (vr_session r)) (map (app_message (vr_session r0) 0) ds)" by blast
  have "ready r0 (r\<lparr> vr_world := w \<rparr>) s q k ds" using assms(1) w(2,3) n by (simp add: ready_def vr_state_def same_peer_def)
  then show ?thesis using w(1) ready_goto by (simp add: sending_def vnc_send_def go_to_def)
qed

lemma ready_receiving:
  assumes "ready r0 r s [d @ e] (Suc k) ds" "length d = n" "0 < n"
  shows "\<exists>r1. receiving n f r = f d r1 \<and> ready r0 r1 s (if e = [] then [] else [e]) k ds"
  using assms receiving_first[of r d e n k f] by (auto simp: ready_def vr_state_def same_peer_def)

lemma ready_receiving_goto:
  assumes "ready r0 r s [d @ e] (Suc k) ds" "length d = n" "0 < n" "\<And>r1. f d r1 = go_to s' r1"
  shows "\<exists>r'. receiving n f r = Inr (True, r') \<and> ready r0 r' s' (if e = [] then [] else [e]) k ds"
  using ready_receiving[OF assms(1-3), of f] ready_goto assms(4) by (auto simp: go_to_def)

lemma handshake_succeeds:
  assumes "ready r r vs_initial_handshake_server_send [v @ [1] @ [c]] (Suc (Suc (Suc k))) [initial_message, [1, 1], [0, 0, 0, 0], server_init_message fb]"
    and "length v = 12" "take 3 v = to_bytes ''RFB''"
  shows "\<exists>r'. vnc_handshake shm fb r = Inr (True, r')"
proof -
  have sm: "small (length initial_message)" "small (length [1, 1 :: byte])" "small (length [0, 0, 0, 0 :: byte])" "small (length (server_init_message fb))"
    by (simp_all add: small_def initial_message_def server_init_message_def)
  have st: "ready r0 r1 s q k ds \<Longrightarrow> in_state s f r1 = f r1" for r0 r1 s q k ds and f :: "('c, 'a) vnc_block"
    by (simp add: ready_def in_state_def)
  obtain r1 where r1: "vnc_initial_server shm r = Inr (True, r1)"
    "ready r r1 vs_initial_handshake_client_resp [v @ [1] @ [c]] (Suc (Suc (Suc k))) [[1, 1], [0, 0, 0, 0], server_init_message fb]"
    using ready_sending[OF assms(1) sm(1)] unfolding vnc_initial_server_def st[OF assms(1)] by blast
  obtain r2 where r2: "vnc_initial_client r1 = Inr (True, r2)"
    "ready r r2 vs_security_handshake_server [[1] @ [c]] (Suc (Suc k)) [[1, 1], [0, 0, 0, 0], server_init_message fb]"
    using ready_receiving_goto[OF r1(2) assms(2), of "\<lambda>handshake r. if take 3 handshake = to_bytes ''RFB'' then go_to vs_security_handshake_server r
        else Inr (False, r)" vs_security_handshake_server] assms(3)
    unfolding vnc_initial_client_def st[OF r1(2)] by auto
  obtain r3 where r3: "vnc_security_server shm r2 = Inr (True, r3)"
    "ready r r3 vs_security_handshake_client_resp [[1] @ [c]] (Suc (Suc k)) [[0, 0, 0, 0], server_init_message fb]"
    using ready_sending[OF r2(2) sm(2)] unfolding vnc_security_server_def st[OF r2(2)] by blast
  obtain r3' where r3': "vnc_security_client shm r3 = sending shm [0, 0, 0, 0] (go_to vs_client_init) r3'"
    "ready r r3' vs_security_handshake_client_resp [[c] @ []] (Suc k) [[0, 0, 0, 0], server_init_message fb]"
    using ready_receiving[OF r3(2), of 1 "\<lambda>chosen_sec. if chosen_sec ! 0 = 1 then sending shm [0, 0, 0, 0] (go_to vs_client_init)
        else sending shm [0, 0, 0, 1] (\<lambda>r. Inr (False, r))"]
    unfolding vnc_security_client_def st[OF r3(2)] by auto
  obtain r4 where r4: "vnc_security_client shm r3 = Inr (True, r4)" "ready r r4 vs_client_init [[c] @ []] (Suc k) [server_init_message fb]"
    using ready_sending[OF r3'(2) sm(3)] r3'(1) by metis
  obtain r5 where r5: "vnc_client_init r4 = Inr (True, r5)" "ready r r5 vs_server_init [] k [server_init_message fb]"
    using ready_receiving_goto[OF r4(2), of 1 "\<lambda>client_init. go_to vs_server_init" vs_server_init]
    unfolding vnc_client_init_def st[OF r4(2)] by auto
  obtain r6 where "vnc_server_init shm fb r5 = Inr (True, r6)"
    using ready_sending[OF r5(2) sm(4)] unfolding vnc_server_init_def st[OF r5(2)] by blast
  then show ?thesis unfolding vnc_handshake_def and_then_True using r1(1) r2(1) r3(1) r4(1) r5(1) by blast
qed

end

interpretation vnc_tr: blocking_transport "send_message ''vnc''" inbox capacity net_ok "''vnc''"
  by (rule shm_blocking_transport) (simp add: max_id_length_def)

theorem vnc_handshake_sound_witness:
  "\<exists>r'. vnc_handshake (send_message ''vnc'') (black 640 480) (sample_run (to_bytes ''RFB 003.008.'' @ [1] @ [0]) (0 :: u64) idle_net) = Inr (True, r')
    \<and> vr_state r' = vs_running_waiting_cmd
    \<and> enqueued ''vnc'' (inbox idle_net) ''tcp-out''
        (map (app_message (vr_session (sample_run (to_bytes ''RFB 003.008.'' @ [1] @ [0]) (0 :: u64) idle_net)) 0)
          [initial_message, [1, 1], [0, 0, 0, 0], server_init_message (black 640 480)]) (inbox (vr_world r'))"
proof -
  define r :: "(u64, net) vnc_run" where "r = sample_run (to_bytes ''RFB 003.008.'' @ [1] @ [0]) 0 idle_net"
  have r: "vr_world r = idle_net" "vr_state r = vs_initial_handshake_server_send" "l7_out_name (vr_session r) = ''tcp-out''"
    "l7_incoming (vr_session r) = [to_bytes ''RFB 003.008.'' @ [1] @ [0]]" "vr_arrives r = replicate 5 ([], False)"
    by (simp_all add: r_def sample_run_def vr_state_def new_vnc_session_def new_l7_session_def tcp_l7_session_t.defs vnc_session_t.defs)
  have "room_for (inbox idle_net) (capacity idle_net) ''tcp-out''
      (map (app_message (vr_session r) 0) [initial_message, [1, 1], [0, 0, 0, 0], server_init_message (black 640 480)])"
    using padded_length_app_message[of initial_message "vr_session r" 0] padded_length_app_message[of "[1, 1]" "vr_session r" 0]
      padded_length_app_message[of "[0, 0, 0, 0]" "vr_session r" 0] padded_length_app_message[of "server_init_message (black 640 480)" "vr_session r" 0]
    by (simp add: room_for_def inbox_def capacity_def idle_net_def begin_segment_empty total_size_begin_segment
        initial_message_def server_init_message_def small_def sizeof_message_def)
  then have "vnc_tr.ready r r vs_initial_handshake_server_send [to_bytes ''RFB 003.008.'' @ [1] @ [0]] (Suc (Suc (Suc 2)))
    [initial_message, [1, 1], [0, 0, 0, 0], server_init_message (black 640 480)]"
    unfolding vnc_tr.ready_def same_peer_def using r idle_net_ok by (simp add: numeral_eq_Suc)
  then obtain r' where r': "vnc_handshake (send_message ''vnc'') (black 640 480) r = Inr (True, r')"
    using vnc_tr.handshake_succeeds[of r "to_bytes ''RFB 003.008.''" 0 2 "black 640 480"] by (auto simp: to_bytes_def)
  from vnc_handshake_sound[OF _ _ r(2) r'] show ?thesis unfolding r_def[symmetric] using r' r(1,3) idle_net_ok
    by (intro exI[of _ r']) (simp add: max_id_length_def)
qed

end
