(* ===== verification/Vnc_Font.thy ===== *)
theory Vnc_Font
  imports Vnc_Frame
begin

text \<open>
  \<^verbatim>\<open>src/font.cpp\<close>: the table of glyphs, and what \<^verbatim>\<open>draw_text\<close> makes of a text with it, pixel by pixel.
\<close>

section \<open>The table\<close>

definition font_0 :: "bytes list list" where
  "font_0 = [
     [[0, 0, 0, 0, 0, 0, 0, 0],
      [0, 0, 0, 0, 0, 0, 0, 0],
      [0, 0, 0, 0, 0, 0, 0, 0],
      [0, 0, 0, 0, 0, 0, 0, 0],
      [0, 0, 0, 0, 0, 0, 0, 0],
      [0, 0, 0, 0, 0, 0, 0, 0],
      [0, 0, 0, 0, 0, 0, 0, 0],
      [0, 0, 0, 0, 0, 0, 0, 0]],
     [[0, 0, 255, 255, 255, 255, 0, 0],
      [0, 255, 0, 0, 0, 0, 255, 0],
      [255, 0, 255, 0, 0, 255, 0, 255],
      [255, 0, 0, 0, 0, 0, 0, 255],
      [255, 0, 255, 0, 0, 255, 0, 255],
      [255, 0, 0, 255, 255, 0, 0, 255],
      [0, 255, 0, 0, 0, 0, 255, 0],
      [0, 0, 255, 255, 255, 255, 0, 0]],
     [[0, 0, 255, 255, 255, 255, 0, 0],
      [0, 255, 255, 255, 255, 255, 255, 0],
      [255, 255, 0, 255, 255, 0, 255, 255],
      [255, 255, 255, 255, 255, 255, 255, 255],
      [255, 255, 255, 255, 255, 255, 255, 255],
      [255, 255, 0, 255, 255, 0, 255, 255],
      [0, 255, 255, 0, 0, 255, 255, 0],
      [0, 0, 255, 255, 255, 255, 0, 0]],
     [[0, 255, 255, 0, 255, 255, 0, 0],
      [255, 255, 255, 255, 255, 255, 255, 0],
      [255, 255, 255, 255, 255, 255, 255, 0],
      [255, 255, 255, 255, 255, 255, 255, 0],
      [0, 255, 255, 255, 255, 255, 0, 0],
      [0, 0, 255, 255, 255, 0, 0, 0],
      [0, 0, 0, 255, 0, 0, 0, 0],
      [0, 0, 0, 0, 0, 0, 0, 0]],
     [[0, 0, 0, 255, 0, 0, 0, 0],
      [0, 0, 255, 255, 255, 0, 0, 0],
      [0, 255, 255, 255, 255, 255, 0, 0],
      [255, 255, 255, 255, 255, 255, 255, 0],
      [0, 255, 255, 255, 255, 255, 0, 0],
      [0, 0, 255, 255, 255, 0, 0, 0],
      [0, 0, 0, 255, 0, 0, 0, 0],
      [0, 0, 0, 0, 0, 0, 0, 0]],
     [[0, 0, 0, 255, 0, 0, 0, 0],
      [0, 0, 255, 255, 255, 0, 0, 0],
      [0, 255, 0, 255, 0, 255, 0, 0],
      [255, 255, 255, 255, 255, 255, 255, 0],
      [0, 255, 0, 255, 0, 255, 0, 0],
      [0, 0, 0, 255, 0, 0, 0, 0],
      [0, 0, 255, 255, 255, 0, 0, 0],
      [0, 0, 0, 0, 0, 0, 0, 0]],
     [[0, 0, 0, 255, 0, 0, 0, 0],
      [0, 0, 255, 255, 255, 0, 0, 0],
      [0, 255, 255, 255, 255, 255, 0, 0],
      [255, 255, 255, 255, 255, 255, 255, 0],
      [255, 255, 255, 255, 255, 255, 255, 0],
      [0, 0, 0, 255, 0, 0, 0, 0],
      [0, 0, 255, 255, 255, 0, 0, 0],
      [0, 0, 0, 0, 0, 0, 0, 0]],
     [[0, 0, 0, 0, 0, 0, 0, 0],
      [0, 0, 0, 0, 0, 0, 0, 0],
      [0, 0, 0, 0, 0, 0, 0, 0],
      [0, 0, 255, 255, 0, 0, 0, 0],
      [0, 0, 255, 255, 0, 0, 0, 0],
      [0, 0, 0, 0, 0, 0, 0, 0],
      [0, 0, 0, 0, 0, 0, 0, 0],
      [0, 0, 0, 0, 0, 0, 0, 0]],
     [[255, 255, 255, 255, 255, 255, 255, 255],
      [255, 255, 255, 255, 255, 255, 255, 255],
      [255, 255, 255, 255, 255, 255, 255, 255],
      [255, 255, 255, 0, 0, 255, 255, 255],
      [255, 255, 255, 0, 0, 255, 255, 255],
      [255, 255, 255, 255, 255, 255, 255, 255],
      [255, 255, 255, 255, 255, 255, 255, 255],
      [255, 255, 255, 255, 255, 255, 255, 255]],
     [[0, 0, 255, 255, 255, 0, 0, 0],
      [0, 255, 0, 0, 0, 255, 0, 0],
      [255, 0, 0, 0, 0, 0, 255, 0],
      [255, 0, 0, 0, 0, 0, 255, 0],
      [255, 0, 0, 0, 0, 0, 255, 0],
      [0, 255, 0, 0, 0, 255, 0, 0],
      [0, 0, 255, 255, 255, 0, 0, 0],
      [0, 0, 0, 0, 0, 0, 0, 0]],
     [[255, 255, 0, 0, 0, 255, 255, 255],
      [255, 0, 255, 255, 255, 0, 255, 255],
      [0, 255, 255, 255, 255, 255, 0, 255],
      [0, 255, 255, 255, 255, 255, 0, 255],
      [0, 255, 255, 255, 255, 255, 0, 255],
      [255, 0, 255, 255, 255, 0, 255, 255],
      [255, 255, 0, 0, 0, 255, 255, 255],
      [255, 255, 255, 255, 255, 255, 255, 255]],
     [[0, 0, 0, 0, 255, 255, 255, 255],
      [0, 0, 0, 0, 0, 0, 255, 255],
      [0, 0, 0, 0, 0, 255, 0, 255],
      [0, 255, 255, 255, 255, 0, 0, 255],
      [255, 0, 0, 0, 255, 0, 0, 0],
      [255, 0, 0, 0, 255, 0, 0, 0],
      [255, 0, 0, 0, 255, 0, 0, 0],
      [0, 255, 255, 255, 0, 0, 0, 0]],
     [[0, 0, 255, 255, 255, 0, 0, 0],
      [0, 255, 0, 0, 0, 255, 0, 0],
      [0, 255, 0, 0, 0, 255, 0, 0],
      [0, 255, 0, 0, 0, 255, 0, 0],
      [0, 0, 255, 255, 255, 0, 0, 0],
      [0, 0, 0, 255, 0, 0, 0, 0],
      [0, 255, 255, 255, 255, 255, 0, 0],
      [0, 0, 0, 255, 0, 0, 0, 0]]]"

definition font_13 :: "bytes list list" where
  "font_13 = [
     [[0, 0, 255, 255, 0, 0, 0, 0],
      [0, 0, 255, 0, 255, 0, 0, 0],
      [0, 0, 255, 0, 0, 255, 0, 0],
      [0, 0, 255, 0, 0, 255, 0, 0],
      [0, 0, 255, 0, 255, 0, 0, 0],
      [0, 0, 255, 0, 0, 0, 0, 0],
      [255, 255, 255, 0, 0, 0, 0, 0],
      [255, 255, 0, 0, 0, 0, 0, 0]],
     [[0, 0, 255, 255, 255, 255, 0, 0],
      [0, 0, 255, 0, 0, 255, 0, 0],
      [0, 0, 255, 255, 255, 255, 0, 0],
      [0, 0, 255, 0, 0, 255, 0, 0],
      [0, 0, 255, 0, 0, 255, 0, 0],
      [255, 255, 255, 0, 0, 255, 0, 0],
      [255, 255, 0, 255, 255, 255, 0, 0],
      [0, 0, 0, 255, 255, 0, 0, 0]],
     [[0, 0, 0, 255, 0, 0, 0, 0],
      [0, 255, 0, 255, 0, 255, 0, 0],
      [0, 0, 255, 255, 255, 0, 0, 0],
      [255, 255, 255, 0, 255, 255, 255, 0],
      [0, 0, 255, 255, 255, 0, 0, 0],
      [0, 255, 0, 255, 0, 255, 0, 0],
      [0, 0, 0, 255, 0, 0, 0, 0],
      [0, 0, 0, 0, 0, 0, 0, 0]],
     [[0, 0, 0, 255, 0, 0, 0, 0],
      [0, 0, 0, 255, 0, 0, 0, 0],
      [0, 0, 0, 255, 0, 0, 0, 0],
      [0, 255, 255, 255, 255, 255, 0, 0],
      [0, 0, 0, 255, 0, 0, 0, 0],
      [0, 0, 0, 255, 0, 0, 0, 0],
      [0, 0, 0, 255, 0, 0, 0, 0],
      [0, 0, 0, 255, 0, 0, 0, 0]],
     [[0, 0, 0, 255, 0, 0, 0, 0],
      [0, 0, 0, 255, 0, 0, 0, 0],
      [0, 0, 0, 255, 0, 0, 0, 0],
      [255, 255, 255, 255, 255, 255, 255, 255],
      [0, 0, 0, 0, 0, 0, 0, 0],
      [0, 0, 0, 0, 0, 0, 0, 0],
      [0, 0, 0, 0, 0, 0, 0, 0],
      [0, 0, 0, 0, 0, 0, 0, 0]],
     [[0, 0, 0, 0, 0, 0, 0, 0],
      [0, 0, 0, 0, 0, 0, 0, 0],
      [0, 0, 0, 0, 0, 0, 0, 0],
      [255, 255, 255, 255, 255, 255, 255, 255],
      [0, 0, 0, 255, 0, 0, 0, 0],
      [0, 0, 0, 255, 0, 0, 0, 0],
      [0, 0, 0, 255, 0, 0, 0, 0],
      [0, 0, 0, 255, 0, 0, 0, 0]],
     [[0, 0, 0, 255, 0, 0, 0, 0],
      [0, 0, 0, 255, 0, 0, 0, 0],
      [0, 0, 0, 255, 0, 0, 0, 0],
      [255, 255, 255, 255, 0, 0, 0, 0],
      [0, 0, 0, 255, 0, 0, 0, 0],
      [0, 0, 0, 255, 0, 0, 0, 0],
      [0, 0, 0, 255, 0, 0, 0, 0],
      [0, 0, 0, 255, 0, 0, 0, 0]],
     [[0, 0, 0, 255, 0, 0, 0, 0],
      [0, 0, 0, 255, 0, 0, 0, 0],
      [0, 0, 0, 255, 0, 0, 0, 0],
      [0, 0, 0, 255, 255, 255, 255, 255],
      [0, 0, 0, 255, 0, 0, 0, 0],
      [0, 0, 0, 255, 0, 0, 0, 0],
      [0, 0, 0, 255, 0, 0, 0, 0],
      [0, 0, 0, 255, 0, 0, 0, 0]],
     [[0, 0, 0, 255, 0, 0, 0, 0],
      [0, 0, 0, 255, 0, 0, 0, 0],
      [0, 0, 0, 255, 0, 0, 0, 0],
      [255, 255, 255, 255, 255, 255, 255, 255],
      [0, 0, 0, 255, 0, 0, 0, 0],
      [0, 0, 0, 255, 0, 0, 0, 0],
      [0, 0, 0, 255, 0, 0, 0, 0],
      [0, 0, 0, 255, 0, 0, 0, 0]],
     [[0, 0, 0, 255, 0, 0, 0, 0],
      [0, 0, 0, 255, 0, 0, 0, 0],
      [0, 0, 0, 255, 0, 0, 0, 0],
      [0, 0, 0, 255, 0, 0, 0, 0],
      [0, 0, 0, 255, 0, 0, 0, 0],
      [0, 0, 0, 255, 0, 0, 0, 0],
      [0, 0, 0, 255, 0, 0, 0, 0],
      [0, 0, 0, 255, 0, 0, 0, 0]],
     [[0, 0, 0, 0, 0, 0, 0, 0],
      [0, 0, 0, 0, 0, 0, 0, 0],
      [0, 0, 0, 0, 0, 0, 0, 0],
      [255, 255, 255, 255, 255, 255, 255, 255],
      [0, 0, 0, 0, 0, 0, 0, 0],
      [0, 0, 0, 0, 0, 0, 0, 0],
      [0, 0, 0, 0, 0, 0, 0, 0],
      [0, 0, 0, 0, 0, 0, 0, 0]],
     [[0, 0, 0, 0, 0, 0, 0, 0],
      [0, 0, 0, 0, 0, 0, 0, 0],
      [0, 0, 0, 0, 0, 0, 0, 0],
      [0, 0, 0, 255, 255, 255, 255, 255],
      [0, 0, 0, 255, 0, 0, 0, 0],
      [0, 0, 0, 255, 0, 0, 0, 0],
      [0, 0, 0, 255, 0, 0, 0, 0],
      [0, 0, 0, 255, 0, 0, 0, 0]],
     [[0, 0, 0, 0, 0, 0, 0, 0],
      [0, 0, 0, 0, 0, 0, 0, 0],
      [0, 0, 0, 0, 0, 0, 0, 0],
      [255, 255, 255, 255, 0, 0, 0, 0],
      [0, 0, 0, 255, 0, 0, 0, 0],
      [0, 0, 0, 255, 0, 0, 0, 0],
      [0, 0, 0, 255, 0, 0, 0, 0],
      [0, 0, 0, 255, 0, 0, 0, 0]]]"

definition font_26 :: "bytes list list" where
  "font_26 = [
     [[0, 0, 0, 255, 0, 0, 0, 0],
      [0, 0, 0, 255, 0, 0, 0, 0],
      [0, 0, 0, 255, 0, 0, 0, 0],
      [0, 0, 0, 255, 255, 255, 255, 255],
      [0, 0, 0, 0, 0, 0, 0, 0],
      [0, 0, 0, 0, 0, 0, 0, 0],
      [0, 0, 0, 0, 0, 0, 0, 0],
      [0, 0, 0, 0, 0, 0, 0, 0]],
     [[0, 0, 0, 255, 0, 0, 0, 0],
      [0, 0, 0, 255, 0, 0, 0, 0],
      [0, 0, 0, 255, 0, 0, 0, 0],
      [255, 255, 255, 255, 0, 0, 0, 0],
      [0, 0, 0, 0, 0, 0, 0, 0],
      [0, 0, 0, 0, 0, 0, 0, 0],
      [0, 0, 0, 0, 0, 0, 0, 0],
      [0, 0, 0, 0, 0, 0, 0, 0]],
     [[255, 0, 0, 0, 0, 0, 0, 255],
      [0, 255, 0, 0, 0, 0, 255, 0],
      [0, 0, 255, 0, 0, 255, 0, 0],
      [0, 0, 0, 255, 255, 0, 0, 0],
      [0, 0, 0, 255, 255, 0, 0, 0],
      [0, 0, 255, 0, 0, 255, 0, 0],
      [0, 255, 0, 0, 0, 0, 255, 0],
      [255, 0, 0, 0, 0, 0, 0, 255]],
     [[0, 0, 0, 0, 0, 0, 0, 255],
      [0, 0, 0, 0, 0, 0, 255, 0],
      [0, 0, 0, 0, 0, 255, 0, 0],
      [0, 0, 0, 0, 255, 0, 0, 0],
      [0, 0, 0, 255, 0, 0, 0, 0],
      [0, 0, 255, 0, 0, 0, 0, 0],
      [0, 255, 0, 0, 0, 0, 0, 0],
      [255, 0, 0, 0, 0, 0, 0, 0]],
     [[255, 0, 0, 0, 0, 0, 0, 0],
      [0, 255, 0, 0, 0, 0, 0, 0],
      [0, 0, 255, 0, 0, 0, 0, 0],
      [0, 0, 0, 255, 0, 0, 0, 0],
      [0, 0, 0, 0, 255, 0, 0, 0],
      [0, 0, 0, 0, 0, 255, 0, 0],
      [0, 0, 0, 0, 0, 0, 255, 0],
      [0, 0, 0, 0, 0, 0, 0, 255]],
     [[0, 0, 0, 0, 0, 0, 0, 0],
      [0, 0, 0, 255, 0, 0, 0, 0],
      [0, 0, 0, 255, 0, 0, 0, 0],
      [255, 255, 255, 255, 255, 255, 255, 255],
      [0, 0, 0, 255, 0, 0, 0, 0],
      [0, 0, 0, 255, 0, 0, 0, 0],
      [0, 0, 0, 0, 0, 0, 0, 0],
      [0, 0, 0, 0, 0, 0, 0, 0]],
     [[0, 0, 0, 0, 0, 0, 0, 0],
      [0, 0, 0, 0, 0, 0, 0, 0],
      [0, 0, 0, 0, 0, 0, 0, 0],
      [0, 0, 0, 0, 0, 0, 0, 0],
      [0, 0, 0, 0, 0, 0, 0, 0],
      [0, 0, 0, 0, 0, 0, 0, 0],
      [0, 0, 0, 0, 0, 0, 0, 0],
      [0, 0, 0, 0, 0, 0, 0, 0]],
     [[0, 0, 255, 0, 0, 0, 0, 0],
      [0, 0, 255, 0, 0, 0, 0, 0],
      [0, 0, 255, 0, 0, 0, 0, 0],
      [0, 0, 255, 0, 0, 0, 0, 0],
      [0, 0, 0, 0, 0, 0, 0, 0],
      [0, 0, 0, 0, 0, 0, 0, 0],
      [0, 0, 255, 0, 0, 0, 0, 0],
      [0, 0, 0, 0, 0, 0, 0, 0]],
     [[0, 255, 0, 255, 0, 0, 0, 0],
      [0, 255, 0, 255, 0, 0, 0, 0],
      [0, 255, 0, 255, 0, 0, 0, 0],
      [0, 0, 0, 0, 0, 0, 0, 0],
      [0, 0, 0, 0, 0, 0, 0, 0],
      [0, 0, 0, 0, 0, 0, 0, 0],
      [0, 0, 0, 0, 0, 0, 0, 0],
      [0, 0, 0, 0, 0, 0, 0, 0]],
     [[0, 255, 0, 255, 0, 0, 0, 0],
      [0, 255, 0, 255, 0, 0, 0, 0],
      [255, 255, 255, 255, 255, 0, 0, 0],
      [0, 255, 0, 255, 0, 0, 0, 0],
      [255, 255, 255, 255, 255, 0, 0, 0],
      [0, 255, 0, 255, 0, 0, 0, 0],
      [0, 255, 0, 255, 0, 0, 0, 0],
      [0, 0, 0, 0, 0, 0, 0, 0]],
     [[0, 0, 255, 0, 0, 0, 0, 0],
      [0, 255, 255, 255, 255, 0, 0, 0],
      [255, 0, 255, 0, 0, 0, 0, 0],
      [0, 255, 255, 255, 0, 0, 0, 0],
      [0, 0, 255, 0, 255, 0, 0, 0],
      [255, 255, 255, 255, 0, 0, 0, 0],
      [0, 0, 255, 0, 0, 0, 0, 0],
      [0, 0, 0, 0, 0, 0, 0, 0]],
     [[255, 255, 0, 0, 0, 0, 0, 0],
      [255, 255, 0, 0, 255, 0, 0, 0],
      [0, 0, 0, 255, 0, 0, 0, 0],
      [0, 0, 255, 0, 0, 0, 0, 0],
      [0, 255, 0, 0, 0, 0, 0, 0],
      [255, 0, 0, 255, 255, 0, 0, 0],
      [0, 0, 0, 255, 255, 0, 0, 0],
      [0, 0, 0, 0, 0, 0, 0, 0]],
     [[0, 255, 0, 0, 0, 0, 0, 0],
      [255, 0, 255, 0, 0, 0, 0, 0],
      [0, 255, 0, 0, 0, 0, 0, 0],
      [255, 0, 255, 0, 255, 0, 0, 0],
      [255, 0, 0, 255, 0, 0, 0, 0],
      [255, 0, 0, 255, 255, 0, 0, 0],
      [0, 255, 255, 0, 0, 0, 0, 0],
      [0, 0, 0, 0, 0, 0, 0, 0]]]"

definition font_39 :: "bytes list list" where
  "font_39 = [
     [[0, 0, 0, 255, 0, 0, 0, 0],
      [0, 0, 255, 0, 0, 0, 0, 0],
      [0, 255, 0, 0, 0, 0, 0, 0],
      [0, 0, 0, 0, 0, 0, 0, 0],
      [0, 0, 0, 0, 0, 0, 0, 0],
      [0, 0, 0, 0, 0, 0, 0, 0],
      [0, 0, 0, 0, 0, 0, 0, 0],
      [0, 0, 0, 0, 0, 0, 0, 0]],
     [[0, 0, 0, 255, 0, 0, 0, 0],
      [0, 0, 255, 0, 0, 0, 0, 0],
      [0, 255, 0, 0, 0, 0, 0, 0],
      [0, 255, 0, 0, 0, 0, 0, 0],
      [0, 255, 0, 0, 0, 0, 0, 0],
      [0, 0, 255, 0, 0, 0, 0, 0],
      [0, 0, 0, 255, 0, 0, 0, 0],
      [0, 0, 0, 0, 0, 0, 0, 0]],
     [[0, 255, 0, 0, 0, 0, 0, 0],
      [0, 0, 255, 0, 0, 0, 0, 0],
      [0, 0, 0, 255, 0, 0, 0, 0],
      [0, 0, 0, 255, 0, 0, 0, 0],
      [0, 0, 0, 255, 0, 0, 0, 0],
      [0, 0, 255, 0, 0, 0, 0, 0],
      [0, 255, 0, 0, 0, 0, 0, 0],
      [0, 0, 0, 0, 0, 0, 0, 0]],
     [[0, 0, 255, 0, 0, 0, 0, 0],
      [255, 0, 255, 0, 255, 0, 0, 0],
      [0, 255, 255, 255, 0, 0, 0, 0],
      [0, 0, 255, 0, 0, 0, 0, 0],
      [0, 255, 255, 255, 0, 0, 0, 0],
      [255, 0, 255, 0, 255, 0, 0, 0],
      [0, 0, 255, 0, 0, 0, 0, 0],
      [0, 0, 0, 0, 0, 0, 0, 0]],
     [[0, 0, 0, 0, 0, 0, 0, 0],
      [0, 0, 255, 0, 0, 0, 0, 0],
      [0, 0, 255, 0, 0, 0, 0, 0],
      [255, 255, 255, 255, 255, 0, 0, 0],
      [0, 0, 255, 0, 0, 0, 0, 0],
      [0, 0, 255, 0, 0, 0, 0, 0],
      [0, 0, 0, 0, 0, 0, 0, 0],
      [0, 0, 0, 0, 0, 0, 0, 0]],
     [[0, 0, 0, 0, 0, 0, 0, 0],
      [0, 0, 0, 0, 0, 0, 0, 0],
      [0, 0, 0, 0, 0, 0, 0, 0],
      [0, 0, 0, 0, 0, 0, 0, 0],
      [0, 0, 0, 0, 0, 0, 0, 0],
      [0, 0, 255, 0, 0, 0, 0, 0],
      [0, 0, 255, 0, 0, 0, 0, 0],
      [0, 255, 0, 0, 0, 0, 0, 0]],
     [[0, 0, 0, 0, 0, 0, 0, 0],
      [0, 0, 0, 0, 0, 0, 0, 0],
      [0, 0, 0, 0, 0, 0, 0, 0],
      [0, 255, 255, 255, 255, 0, 0, 0],
      [0, 0, 0, 0, 0, 0, 0, 0],
      [0, 0, 0, 0, 0, 0, 0, 0],
      [0, 0, 0, 0, 0, 0, 0, 0],
      [0, 0, 0, 0, 0, 0, 0, 0]],
     [[0, 0, 0, 0, 0, 0, 0, 0],
      [0, 0, 0, 0, 0, 0, 0, 0],
      [0, 0, 0, 0, 0, 0, 0, 0],
      [0, 0, 0, 0, 0, 0, 0, 0],
      [0, 0, 0, 0, 0, 0, 0, 0],
      [0, 255, 255, 0, 0, 0, 0, 0],
      [0, 255, 255, 0, 0, 0, 0, 0],
      [0, 0, 0, 0, 0, 0, 0, 0]],
     [[0, 0, 0, 0, 0, 0, 0, 0],
      [0, 0, 0, 0, 0, 0, 0, 0],
      [0, 0, 0, 0, 255, 0, 0, 0],
      [0, 0, 0, 255, 0, 0, 0, 0],
      [0, 0, 255, 0, 0, 0, 0, 0],
      [0, 255, 0, 0, 0, 0, 0, 0],
      [255, 0, 0, 0, 0, 0, 0, 0],
      [0, 0, 0, 0, 0, 0, 0, 0]],
     [[0, 255, 255, 255, 0, 0, 0, 0],
      [255, 0, 0, 0, 255, 0, 0, 0],
      [255, 0, 0, 255, 255, 0, 0, 0],
      [255, 0, 255, 0, 255, 0, 0, 0],
      [255, 255, 0, 0, 255, 0, 0, 0],
      [255, 0, 0, 0, 255, 0, 0, 0],
      [0, 255, 255, 255, 0, 0, 0, 0],
      [0, 0, 0, 0, 0, 0, 0, 0]],
     [[0, 0, 255, 0, 0, 0, 0, 0],
      [0, 255, 255, 0, 0, 0, 0, 0],
      [255, 0, 255, 0, 0, 0, 0, 0],
      [0, 0, 255, 0, 0, 0, 0, 0],
      [0, 0, 255, 0, 0, 0, 0, 0],
      [0, 0, 255, 0, 0, 0, 0, 0],
      [255, 255, 255, 255, 255, 0, 0, 0],
      [0, 0, 0, 0, 0, 0, 0, 0]],
     [[0, 255, 255, 255, 0, 0, 0, 0],
      [255, 0, 0, 0, 255, 0, 0, 0],
      [0, 0, 0, 0, 255, 0, 0, 0],
      [0, 0, 0, 255, 0, 0, 0, 0],
      [0, 255, 255, 0, 0, 0, 0, 0],
      [255, 0, 0, 0, 0, 0, 0, 0],
      [255, 255, 255, 255, 255, 0, 0, 0],
      [0, 0, 0, 0, 0, 0, 0, 0]],
     [[0, 255, 255, 255, 0, 0, 0, 0],
      [255, 0, 0, 0, 255, 0, 0, 0],
      [0, 0, 0, 0, 255, 0, 0, 0],
      [0, 0, 255, 255, 0, 0, 0, 0],
      [0, 0, 0, 0, 255, 0, 0, 0],
      [255, 0, 0, 0, 255, 0, 0, 0],
      [0, 255, 255, 255, 0, 0, 0, 0],
      [0, 0, 0, 0, 0, 0, 0, 0]]]"

definition font_52 :: "bytes list list" where
  "font_52 = [
     [[0, 0, 0, 255, 0, 0, 0, 0],
      [0, 0, 255, 255, 0, 0, 0, 0],
      [0, 255, 0, 255, 0, 0, 0, 0],
      [255, 0, 0, 255, 0, 0, 0, 0],
      [255, 255, 255, 255, 255, 0, 0, 0],
      [0, 0, 0, 255, 0, 0, 0, 0],
      [0, 0, 0, 255, 0, 0, 0, 0],
      [0, 0, 0, 0, 0, 0, 0, 0]],
     [[255, 255, 255, 255, 255, 0, 0, 0],
      [255, 0, 0, 0, 0, 0, 0, 0],
      [255, 255, 255, 0, 0, 0, 0, 0],
      [0, 0, 0, 255, 0, 0, 0, 0],
      [0, 0, 0, 0, 255, 0, 0, 0],
      [0, 0, 0, 255, 0, 0, 0, 0],
      [255, 255, 255, 0, 0, 0, 0, 0],
      [0, 0, 0, 0, 0, 0, 0, 0]],
     [[0, 0, 255, 255, 0, 0, 0, 0],
      [0, 255, 0, 0, 0, 0, 0, 0],
      [255, 0, 0, 0, 0, 0, 0, 0],
      [255, 255, 255, 255, 0, 0, 0, 0],
      [255, 0, 0, 0, 255, 0, 0, 0],
      [255, 0, 0, 0, 255, 0, 0, 0],
      [0, 255, 255, 255, 0, 0, 0, 0],
      [0, 0, 0, 0, 0, 0, 0, 0]],
     [[255, 255, 255, 255, 255, 0, 0, 0],
      [255, 0, 0, 0, 255, 0, 0, 0],
      [0, 0, 0, 255, 0, 0, 0, 0],
      [0, 0, 255, 0, 0, 0, 0, 0],
      [0, 0, 255, 0, 0, 0, 0, 0],
      [0, 0, 255, 0, 0, 0, 0, 0],
      [0, 0, 255, 0, 0, 0, 0, 0],
      [0, 0, 0, 0, 0, 0, 0, 0]],
     [[0, 255, 255, 255, 0, 0, 0, 0],
      [255, 0, 0, 0, 255, 0, 0, 0],
      [255, 0, 0, 0, 255, 0, 0, 0],
      [0, 255, 255, 255, 0, 0, 0, 0],
      [255, 0, 0, 0, 255, 0, 0, 0],
      [255, 0, 0, 0, 255, 0, 0, 0],
      [0, 255, 255, 255, 0, 0, 0, 0],
      [0, 0, 0, 0, 0, 0, 0, 0]],
     [[0, 255, 255, 255, 0, 0, 0, 0],
      [255, 0, 0, 0, 255, 0, 0, 0],
      [255, 0, 0, 0, 255, 0, 0, 0],
      [0, 255, 255, 255, 255, 0, 0, 0],
      [0, 0, 0, 0, 255, 0, 0, 0],
      [0, 0, 0, 255, 0, 0, 0, 0],
      [0, 255, 255, 0, 0, 0, 0, 0],
      [0, 0, 0, 0, 0, 0, 0, 0]],
     [[0, 0, 0, 0, 0, 0, 0, 0],
      [0, 0, 0, 0, 0, 0, 0, 0],
      [0, 0, 255, 0, 0, 0, 0, 0],
      [0, 0, 0, 0, 0, 0, 0, 0],
      [0, 0, 0, 0, 0, 0, 0, 0],
      [0, 0, 255, 0, 0, 0, 0, 0],
      [0, 0, 0, 0, 0, 0, 0, 0],
      [0, 0, 0, 0, 0, 0, 0, 0]],
     [[0, 0, 0, 0, 0, 0, 0, 0],
      [0, 0, 0, 0, 0, 0, 0, 0],
      [0, 0, 255, 0, 0, 0, 0, 0],
      [0, 0, 0, 0, 0, 0, 0, 0],
      [0, 0, 0, 0, 0, 0, 0, 0],
      [0, 0, 255, 0, 0, 0, 0, 0],
      [0, 0, 255, 0, 0, 0, 0, 0],
      [0, 255, 0, 0, 0, 0, 0, 0]],
     [[0, 0, 0, 255, 255, 0, 0, 0],
      [0, 0, 255, 255, 0, 0, 0, 0],
      [0, 255, 255, 0, 0, 0, 0, 0],
      [255, 255, 0, 0, 0, 0, 0, 0],
      [0, 255, 255, 0, 0, 0, 0, 0],
      [0, 0, 255, 255, 0, 0, 0, 0],
      [0, 0, 0, 255, 255, 0, 0, 0],
      [0, 0, 0, 0, 0, 0, 0, 0]],
     [[0, 0, 0, 0, 0, 0, 0, 0],
      [0, 0, 0, 0, 0, 0, 0, 0],
      [255, 255, 255, 255, 255, 0, 0, 0],
      [0, 0, 0, 0, 0, 0, 0, 0],
      [255, 255, 255, 255, 255, 0, 0, 0],
      [0, 0, 0, 0, 0, 0, 0, 0],
      [0, 0, 0, 0, 0, 0, 0, 0],
      [0, 0, 0, 0, 0, 0, 0, 0]],
     [[255, 255, 0, 0, 0, 0, 0, 0],
      [0, 255, 255, 0, 0, 0, 0, 0],
      [0, 0, 255, 255, 0, 0, 0, 0],
      [0, 0, 0, 255, 255, 0, 0, 0],
      [0, 0, 255, 255, 0, 0, 0, 0],
      [0, 255, 255, 0, 0, 0, 0, 0],
      [255, 255, 0, 0, 0, 0, 0, 0],
      [0, 0, 0, 0, 0, 0, 0, 0]],
     [[0, 255, 255, 255, 0, 0, 0, 0],
      [255, 0, 0, 0, 255, 0, 0, 0],
      [0, 0, 0, 0, 255, 0, 0, 0],
      [0, 0, 0, 255, 0, 0, 0, 0],
      [0, 0, 255, 0, 0, 0, 0, 0],
      [0, 0, 0, 0, 0, 0, 0, 0],
      [0, 0, 255, 0, 0, 0, 0, 0],
      [0, 0, 0, 0, 0, 0, 0, 0]],
     [[0, 255, 255, 255, 0, 0, 0, 0],
      [255, 0, 0, 0, 255, 0, 0, 0],
      [0, 0, 0, 0, 255, 0, 0, 0],
      [0, 255, 255, 0, 255, 0, 0, 0],
      [255, 0, 255, 0, 255, 0, 0, 0],
      [255, 0, 255, 0, 255, 0, 0, 0],
      [0, 255, 255, 255, 0, 0, 0, 0],
      [0, 0, 0, 0, 0, 0, 0, 0]]]"

definition font_65 :: "bytes list list" where
  "font_65 = [
     [[0, 0, 255, 0, 0, 0, 0, 0],
      [0, 255, 0, 255, 0, 0, 0, 0],
      [255, 0, 0, 0, 255, 0, 0, 0],
      [255, 0, 0, 0, 255, 0, 0, 0],
      [255, 255, 255, 255, 255, 0, 0, 0],
      [255, 0, 0, 0, 255, 0, 0, 0],
      [255, 0, 0, 0, 255, 0, 0, 0],
      [0, 0, 0, 0, 0, 0, 0, 0]],
     [[255, 255, 255, 255, 0, 0, 0, 0],
      [0, 255, 0, 0, 255, 0, 0, 0],
      [0, 255, 0, 0, 255, 0, 0, 0],
      [0, 255, 255, 255, 0, 0, 0, 0],
      [0, 255, 0, 0, 255, 0, 0, 0],
      [0, 255, 0, 0, 255, 0, 0, 0],
      [255, 255, 255, 255, 0, 0, 0, 0],
      [0, 0, 0, 0, 0, 0, 0, 0]],
     [[0, 0, 255, 255, 0, 0, 0, 0],
      [0, 255, 0, 0, 255, 0, 0, 0],
      [255, 0, 0, 0, 0, 0, 0, 0],
      [255, 0, 0, 0, 0, 0, 0, 0],
      [255, 0, 0, 0, 0, 0, 0, 0],
      [0, 255, 0, 0, 255, 0, 0, 0],
      [0, 0, 255, 255, 0, 0, 0, 0],
      [0, 0, 0, 0, 0, 0, 0, 0]],
     [[255, 255, 255, 0, 0, 0, 0, 0],
      [0, 255, 0, 255, 0, 0, 0, 0],
      [0, 255, 0, 0, 255, 0, 0, 0],
      [0, 255, 0, 0, 255, 0, 0, 0],
      [0, 255, 0, 0, 255, 0, 0, 0],
      [0, 255, 0, 255, 0, 0, 0, 0],
      [255, 255, 255, 0, 0, 0, 0, 0],
      [0, 0, 0, 0, 0, 0, 0, 0]],
     [[255, 255, 255, 255, 255, 0, 0, 0],
      [255, 0, 0, 0, 0, 0, 0, 0],
      [255, 0, 0, 0, 0, 0, 0, 0],
      [255, 255, 255, 255, 0, 0, 0, 0],
      [255, 0, 0, 0, 0, 0, 0, 0],
      [255, 0, 0, 0, 0, 0, 0, 0],
      [255, 255, 255, 255, 255, 0, 0, 0],
      [0, 0, 0, 0, 0, 0, 0, 0]],
     [[255, 255, 255, 255, 255, 0, 0, 0],
      [255, 0, 0, 0, 0, 0, 0, 0],
      [255, 0, 0, 0, 0, 0, 0, 0],
      [255, 255, 255, 255, 0, 0, 0, 0],
      [255, 0, 0, 0, 0, 0, 0, 0],
      [255, 0, 0, 0, 0, 0, 0, 0],
      [255, 0, 0, 0, 0, 0, 0, 0],
      [0, 0, 0, 0, 0, 0, 0, 0]],
     [[0, 255, 255, 255, 0, 0, 0, 0],
      [255, 0, 0, 0, 255, 0, 0, 0],
      [255, 0, 0, 0, 0, 0, 0, 0],
      [255, 0, 255, 255, 255, 0, 0, 0],
      [255, 0, 0, 0, 255, 0, 0, 0],
      [255, 0, 0, 0, 255, 0, 0, 0],
      [0, 255, 255, 255, 0, 0, 0, 0],
      [0, 0, 0, 0, 0, 0, 0, 0]],
     [[255, 0, 0, 0, 255, 0, 0, 0],
      [255, 0, 0, 0, 255, 0, 0, 0],
      [255, 0, 0, 0, 255, 0, 0, 0],
      [255, 255, 255, 255, 255, 0, 0, 0],
      [255, 0, 0, 0, 255, 0, 0, 0],
      [255, 0, 0, 0, 255, 0, 0, 0],
      [255, 0, 0, 0, 255, 0, 0, 0],
      [0, 0, 0, 0, 0, 0, 0, 0]],
     [[0, 255, 255, 255, 0, 0, 0, 0],
      [0, 0, 255, 0, 0, 0, 0, 0],
      [0, 0, 255, 0, 0, 0, 0, 0],
      [0, 0, 255, 0, 0, 0, 0, 0],
      [0, 0, 255, 0, 0, 0, 0, 0],
      [0, 0, 255, 0, 0, 0, 0, 0],
      [0, 255, 255, 255, 0, 0, 0, 0],
      [0, 0, 0, 0, 0, 0, 0, 0]],
     [[0, 0, 255, 255, 255, 0, 0, 0],
      [0, 0, 0, 255, 0, 0, 0, 0],
      [0, 0, 0, 255, 0, 0, 0, 0],
      [0, 0, 0, 255, 0, 0, 0, 0],
      [255, 0, 0, 255, 0, 0, 0, 0],
      [255, 0, 0, 255, 0, 0, 0, 0],
      [0, 255, 255, 0, 0, 0, 0, 0],
      [0, 0, 0, 0, 0, 0, 0, 0]],
     [[255, 0, 0, 0, 255, 0, 0, 0],
      [255, 0, 0, 255, 0, 0, 0, 0],
      [255, 0, 255, 0, 0, 0, 0, 0],
      [255, 255, 0, 0, 0, 0, 0, 0],
      [255, 0, 255, 0, 0, 0, 0, 0],
      [255, 0, 0, 255, 0, 0, 0, 0],
      [255, 0, 0, 0, 255, 0, 0, 0],
      [0, 0, 0, 0, 0, 0, 0, 0]],
     [[255, 0, 0, 0, 0, 0, 0, 0],
      [255, 0, 0, 0, 0, 0, 0, 0],
      [255, 0, 0, 0, 0, 0, 0, 0],
      [255, 0, 0, 0, 0, 0, 0, 0],
      [255, 0, 0, 0, 0, 0, 0, 0],
      [255, 0, 0, 0, 0, 0, 0, 0],
      [255, 255, 255, 255, 255, 0, 0, 0],
      [0, 0, 0, 0, 0, 0, 0, 0]],
     [[255, 0, 0, 0, 255, 0, 0, 0],
      [255, 255, 0, 255, 255, 0, 0, 0],
      [255, 0, 255, 0, 255, 0, 0, 0],
      [255, 0, 255, 0, 255, 0, 0, 0],
      [255, 0, 0, 0, 255, 0, 0, 0],
      [255, 0, 0, 0, 255, 0, 0, 0],
      [255, 0, 0, 0, 255, 0, 0, 0],
      [0, 0, 0, 0, 0, 0, 0, 0]]]"

definition font_78 :: "bytes list list" where
  "font_78 = [
     [[255, 0, 0, 0, 255, 0, 0, 0],
      [255, 255, 0, 0, 255, 0, 0, 0],
      [255, 255, 0, 0, 255, 0, 0, 0],
      [255, 0, 255, 0, 255, 0, 0, 0],
      [255, 0, 0, 255, 255, 0, 0, 0],
      [255, 0, 0, 255, 255, 0, 0, 0],
      [255, 0, 0, 0, 255, 0, 0, 0],
      [0, 0, 0, 0, 0, 0, 0, 0]],
     [[0, 255, 255, 255, 0, 0, 0, 0],
      [255, 0, 0, 0, 255, 0, 0, 0],
      [255, 0, 0, 0, 255, 0, 0, 0],
      [255, 0, 0, 0, 255, 0, 0, 0],
      [255, 0, 0, 0, 255, 0, 0, 0],
      [255, 0, 0, 0, 255, 0, 0, 0],
      [0, 255, 255, 255, 0, 0, 0, 0],
      [0, 0, 0, 0, 0, 0, 0, 0]],
     [[255, 255, 255, 255, 0, 0, 0, 0],
      [255, 0, 0, 0, 255, 0, 0, 0],
      [255, 0, 0, 0, 255, 0, 0, 0],
      [255, 255, 255, 255, 0, 0, 0, 0],
      [255, 0, 0, 0, 0, 0, 0, 0],
      [255, 0, 0, 0, 0, 0, 0, 0],
      [255, 0, 0, 0, 0, 0, 0, 0],
      [0, 0, 0, 0, 0, 0, 0, 0]],
     [[0, 255, 255, 255, 0, 0, 0, 0],
      [255, 0, 0, 0, 255, 0, 0, 0],
      [255, 0, 0, 0, 255, 0, 0, 0],
      [255, 0, 0, 0, 255, 0, 0, 0],
      [255, 0, 255, 0, 255, 0, 0, 0],
      [255, 0, 0, 255, 0, 0, 0, 0],
      [0, 255, 255, 0, 255, 0, 0, 0],
      [0, 0, 0, 0, 0, 0, 0, 0]],
     [[255, 255, 255, 255, 0, 0, 0, 0],
      [255, 0, 0, 0, 255, 0, 0, 0],
      [255, 0, 0, 0, 255, 0, 0, 0],
      [255, 255, 255, 255, 0, 0, 0, 0],
      [255, 0, 255, 0, 0, 0, 0, 0],
      [255, 0, 0, 255, 0, 0, 0, 0],
      [255, 0, 0, 0, 255, 0, 0, 0],
      [0, 0, 0, 0, 0, 0, 0, 0]],
     [[0, 255, 255, 255, 0, 0, 0, 0],
      [255, 0, 0, 0, 255, 0, 0, 0],
      [255, 0, 0, 0, 0, 0, 0, 0],
      [0, 255, 255, 255, 0, 0, 0, 0],
      [0, 0, 0, 0, 255, 0, 0, 0],
      [255, 0, 0, 0, 255, 0, 0, 0],
      [0, 255, 255, 255, 0, 0, 0, 0],
      [0, 0, 0, 0, 0, 0, 0, 0]],
     [[255, 255, 255, 255, 255, 0, 0, 0],
      [0, 0, 255, 0, 0, 0, 0, 0],
      [0, 0, 255, 0, 0, 0, 0, 0],
      [0, 0, 255, 0, 0, 0, 0, 0],
      [0, 0, 255, 0, 0, 0, 0, 0],
      [0, 0, 255, 0, 0, 0, 0, 0],
      [0, 0, 255, 0, 0, 0, 0, 0],
      [0, 0, 0, 0, 0, 0, 0, 0]],
     [[255, 0, 0, 0, 255, 0, 0, 0],
      [255, 0, 0, 0, 255, 0, 0, 0],
      [255, 0, 0, 0, 255, 0, 0, 0],
      [255, 0, 0, 0, 255, 0, 0, 0],
      [255, 0, 0, 0, 255, 0, 0, 0],
      [255, 0, 0, 0, 255, 0, 0, 0],
      [0, 255, 255, 255, 0, 0, 0, 0],
      [0, 0, 0, 0, 0, 0, 0, 0]],
     [[255, 0, 0, 0, 255, 0, 0, 0],
      [255, 0, 0, 0, 255, 0, 0, 0],
      [255, 0, 0, 0, 255, 0, 0, 0],
      [255, 0, 0, 0, 255, 0, 0, 0],
      [0, 255, 0, 255, 0, 0, 0, 0],
      [0, 255, 0, 255, 0, 0, 0, 0],
      [0, 0, 255, 0, 0, 0, 0, 0],
      [0, 0, 0, 0, 0, 0, 0, 0]],
     [[255, 0, 0, 0, 255, 0, 0, 0],
      [255, 0, 0, 0, 255, 0, 0, 0],
      [255, 0, 0, 0, 255, 0, 0, 0],
      [255, 0, 255, 0, 255, 0, 0, 0],
      [255, 0, 255, 0, 255, 0, 0, 0],
      [255, 255, 0, 255, 255, 0, 0, 0],
      [255, 0, 0, 0, 255, 0, 0, 0],
      [0, 0, 0, 0, 0, 0, 0, 0]],
     [[255, 0, 0, 0, 255, 0, 0, 0],
      [255, 0, 0, 0, 255, 0, 0, 0],
      [0, 255, 0, 255, 0, 0, 0, 0],
      [0, 0, 255, 0, 0, 0, 0, 0],
      [0, 255, 0, 255, 0, 0, 0, 0],
      [255, 0, 0, 0, 255, 0, 0, 0],
      [255, 0, 0, 0, 255, 0, 0, 0],
      [0, 0, 0, 0, 0, 0, 0, 0]],
     [[255, 0, 0, 0, 255, 0, 0, 0],
      [255, 0, 0, 0, 255, 0, 0, 0],
      [255, 0, 0, 0, 255, 0, 0, 0],
      [0, 255, 255, 255, 0, 0, 0, 0],
      [0, 0, 255, 0, 0, 0, 0, 0],
      [0, 0, 255, 0, 0, 0, 0, 0],
      [0, 0, 255, 0, 0, 0, 0, 0],
      [0, 0, 0, 0, 0, 0, 0, 0]],
     [[255, 255, 255, 255, 255, 0, 0, 0],
      [0, 0, 0, 0, 255, 0, 0, 0],
      [0, 0, 0, 255, 0, 0, 0, 0],
      [0, 0, 255, 0, 0, 0, 0, 0],
      [0, 255, 0, 0, 0, 0, 0, 0],
      [255, 0, 0, 0, 0, 0, 0, 0],
      [255, 255, 255, 255, 255, 0, 0, 0],
      [0, 0, 0, 0, 0, 0, 0, 0]]]"

definition font_91 :: "bytes list list" where
  "font_91 = [
     [[0, 255, 255, 255, 0, 0, 0, 0],
      [0, 255, 0, 0, 0, 0, 0, 0],
      [0, 255, 0, 0, 0, 0, 0, 0],
      [0, 255, 0, 0, 0, 0, 0, 0],
      [0, 255, 0, 0, 0, 0, 0, 0],
      [0, 255, 0, 0, 0, 0, 0, 0],
      [0, 255, 255, 255, 0, 0, 0, 0],
      [0, 0, 0, 0, 0, 0, 0, 0]],
     [[0, 0, 0, 0, 0, 0, 0, 0],
      [0, 0, 0, 0, 0, 0, 0, 0],
      [255, 0, 0, 0, 0, 0, 0, 0],
      [0, 255, 0, 0, 0, 0, 0, 0],
      [0, 0, 255, 0, 0, 0, 0, 0],
      [0, 0, 0, 255, 0, 0, 0, 0],
      [0, 0, 0, 0, 255, 0, 0, 0],
      [0, 0, 0, 0, 0, 0, 0, 0]],
     [[0, 255, 255, 255, 0, 0, 0, 0],
      [0, 0, 0, 255, 0, 0, 0, 0],
      [0, 0, 0, 255, 0, 0, 0, 0],
      [0, 0, 0, 255, 0, 0, 0, 0],
      [0, 0, 0, 255, 0, 0, 0, 0],
      [0, 0, 0, 255, 0, 0, 0, 0],
      [0, 255, 255, 255, 0, 0, 0, 0],
      [0, 0, 0, 0, 0, 0, 0, 0]],
     [[0, 0, 255, 0, 0, 0, 0, 0],
      [0, 255, 0, 255, 0, 0, 0, 0],
      [255, 0, 0, 0, 255, 0, 0, 0],
      [0, 0, 0, 0, 0, 0, 0, 0],
      [0, 0, 0, 0, 0, 0, 0, 0],
      [0, 0, 0, 0, 0, 0, 0, 0],
      [0, 0, 0, 0, 0, 0, 0, 0],
      [0, 0, 0, 0, 0, 0, 0, 0]],
     [[0, 0, 0, 0, 0, 0, 0, 0],
      [0, 0, 0, 0, 0, 0, 0, 0],
      [0, 0, 0, 0, 0, 0, 0, 0],
      [0, 0, 0, 0, 0, 0, 0, 0],
      [0, 0, 0, 0, 0, 0, 0, 0],
      [0, 0, 0, 0, 0, 0, 0, 0],
      [255, 255, 255, 255, 255, 0, 0, 0],
      [0, 0, 0, 0, 0, 0, 0, 0]],
     [[0, 255, 0, 0, 0, 0, 0, 0],
      [0, 0, 255, 0, 0, 0, 0, 0],
      [0, 0, 0, 255, 0, 0, 0, 0],
      [0, 0, 0, 0, 0, 0, 0, 0],
      [0, 0, 0, 0, 0, 0, 0, 0],
      [0, 0, 0, 0, 0, 0, 0, 0],
      [0, 0, 0, 0, 0, 0, 0, 0],
      [0, 0, 0, 0, 0, 0, 0, 0]],
     [[0, 0, 0, 0, 0, 0, 0, 0],
      [0, 0, 0, 0, 0, 0, 0, 0],
      [0, 255, 255, 255, 0, 0, 0, 0],
      [0, 0, 0, 0, 255, 0, 0, 0],
      [0, 255, 255, 255, 255, 0, 0, 0],
      [255, 0, 0, 0, 255, 0, 0, 0],
      [0, 255, 255, 255, 255, 0, 0, 0],
      [0, 0, 0, 0, 0, 0, 0, 0]],
     [[255, 0, 0, 0, 0, 0, 0, 0],
      [255, 0, 0, 0, 0, 0, 0, 0],
      [255, 0, 255, 255, 0, 0, 0, 0],
      [255, 255, 0, 0, 255, 0, 0, 0],
      [255, 0, 0, 0, 255, 0, 0, 0],
      [255, 255, 0, 0, 255, 0, 0, 0],
      [255, 0, 255, 255, 0, 0, 0, 0],
      [0, 0, 0, 0, 0, 0, 0, 0]],
     [[0, 0, 0, 0, 0, 0, 0, 0],
      [0, 0, 0, 0, 0, 0, 0, 0],
      [0, 255, 255, 255, 0, 0, 0, 0],
      [255, 0, 0, 0, 255, 0, 0, 0],
      [255, 0, 0, 0, 0, 0, 0, 0],
      [255, 0, 0, 0, 255, 0, 0, 0],
      [0, 255, 255, 255, 0, 0, 0, 0],
      [0, 0, 0, 0, 0, 0, 0, 0]],
     [[0, 0, 0, 0, 255, 0, 0, 0],
      [0, 0, 0, 0, 255, 0, 0, 0],
      [0, 255, 255, 0, 255, 0, 0, 0],
      [255, 0, 0, 255, 255, 0, 0, 0],
      [255, 0, 0, 0, 255, 0, 0, 0],
      [255, 0, 0, 255, 255, 0, 0, 0],
      [0, 255, 255, 0, 255, 0, 0, 0],
      [0, 0, 0, 0, 0, 0, 0, 0]],
     [[0, 0, 0, 0, 0, 0, 0, 0],
      [0, 0, 0, 0, 0, 0, 0, 0],
      [0, 255, 255, 255, 0, 0, 0, 0],
      [255, 0, 0, 0, 255, 0, 0, 0],
      [255, 255, 255, 255, 255, 0, 0, 0],
      [255, 0, 0, 0, 0, 0, 0, 0],
      [0, 255, 255, 255, 0, 0, 0, 0],
      [0, 0, 0, 0, 0, 0, 0, 0]],
     [[0, 0, 0, 255, 0, 0, 0, 0],
      [0, 0, 255, 0, 255, 0, 0, 0],
      [0, 0, 255, 0, 0, 0, 0, 0],
      [255, 255, 255, 255, 255, 0, 0, 0],
      [0, 0, 255, 0, 0, 0, 0, 0],
      [0, 0, 255, 0, 0, 0, 0, 0],
      [0, 0, 255, 0, 0, 0, 0, 0],
      [0, 0, 0, 0, 0, 0, 0, 0]],
     [[0, 0, 0, 0, 0, 0, 0, 0],
      [0, 0, 0, 0, 0, 0, 0, 0],
      [0, 255, 255, 0, 255, 0, 0, 0],
      [255, 0, 0, 255, 255, 0, 0, 0],
      [255, 0, 0, 255, 255, 0, 0, 0],
      [0, 255, 255, 0, 255, 0, 0, 0],
      [0, 0, 0, 0, 255, 0, 0, 0],
      [0, 255, 255, 255, 0, 0, 0, 0]]]"

definition font_104 :: "bytes list list" where
  "font_104 = [
     [[255, 0, 0, 0, 0, 0, 0, 0],
      [255, 0, 0, 0, 0, 0, 0, 0],
      [255, 255, 255, 255, 0, 0, 0, 0],
      [255, 0, 0, 0, 255, 0, 0, 0],
      [255, 0, 0, 0, 255, 0, 0, 0],
      [255, 0, 0, 0, 255, 0, 0, 0],
      [255, 0, 0, 0, 255, 0, 0, 0],
      [0, 0, 0, 0, 0, 0, 0, 0]],
     [[0, 0, 255, 0, 0, 0, 0, 0],
      [0, 0, 0, 0, 0, 0, 0, 0],
      [0, 255, 255, 0, 0, 0, 0, 0],
      [0, 0, 255, 0, 0, 0, 0, 0],
      [0, 0, 255, 0, 0, 0, 0, 0],
      [0, 0, 255, 0, 0, 0, 0, 0],
      [0, 255, 255, 255, 0, 0, 0, 0],
      [0, 0, 0, 0, 0, 0, 0, 0]],
     [[0, 0, 0, 255, 0, 0, 0, 0],
      [0, 0, 0, 0, 0, 0, 0, 0],
      [0, 0, 255, 255, 0, 0, 0, 0],
      [0, 0, 0, 255, 0, 0, 0, 0],
      [0, 0, 0, 255, 0, 0, 0, 0],
      [0, 0, 0, 255, 0, 0, 0, 0],
      [255, 0, 0, 255, 0, 0, 0, 0],
      [0, 255, 255, 0, 0, 0, 0, 0]],
     [[0, 255, 0, 0, 0, 0, 0, 0],
      [0, 255, 0, 0, 0, 0, 0, 0],
      [0, 255, 0, 0, 255, 0, 0, 0],
      [0, 255, 0, 255, 0, 0, 0, 0],
      [0, 255, 255, 0, 0, 0, 0, 0],
      [0, 255, 0, 255, 0, 0, 0, 0],
      [0, 255, 0, 0, 255, 0, 0, 0],
      [0, 0, 0, 0, 0, 0, 0, 0]],
     [[0, 255, 255, 0, 0, 0, 0, 0],
      [0, 0, 255, 0, 0, 0, 0, 0],
      [0, 0, 255, 0, 0, 0, 0, 0],
      [0, 0, 255, 0, 0, 0, 0, 0],
      [0, 0, 255, 0, 0, 0, 0, 0],
      [0, 0, 255, 0, 0, 0, 0, 0],
      [0, 255, 255, 255, 0, 0, 0, 0],
      [0, 0, 0, 0, 0, 0, 0, 0]],
     [[0, 0, 0, 0, 0, 0, 0, 0],
      [0, 0, 0, 0, 0, 0, 0, 0],
      [255, 255, 0, 255, 0, 0, 0, 0],
      [255, 0, 255, 0, 255, 0, 0, 0],
      [255, 0, 255, 0, 255, 0, 0, 0],
      [255, 0, 255, 0, 255, 0, 0, 0],
      [255, 0, 255, 0, 255, 0, 0, 0],
      [0, 0, 0, 0, 0, 0, 0, 0]],
     [[0, 0, 0, 0, 0, 0, 0, 0],
      [0, 0, 0, 0, 0, 0, 0, 0],
      [255, 0, 255, 255, 0, 0, 0, 0],
      [255, 255, 0, 0, 255, 0, 0, 0],
      [255, 0, 0, 0, 255, 0, 0, 0],
      [255, 0, 0, 0, 255, 0, 0, 0],
      [255, 0, 0, 0, 255, 0, 0, 0],
      [0, 0, 0, 0, 0, 0, 0, 0]],
     [[0, 0, 0, 0, 0, 0, 0, 0],
      [0, 0, 0, 0, 0, 0, 0, 0],
      [0, 255, 255, 255, 0, 0, 0, 0],
      [255, 0, 0, 0, 255, 0, 0, 0],
      [255, 0, 0, 0, 255, 0, 0, 0],
      [255, 0, 0, 0, 255, 0, 0, 0],
      [0, 255, 255, 255, 0, 0, 0, 0],
      [0, 0, 0, 0, 0, 0, 0, 0]],
     [[0, 0, 0, 0, 0, 0, 0, 0],
      [0, 0, 0, 0, 0, 0, 0, 0],
      [255, 0, 255, 255, 0, 0, 0, 0],
      [255, 255, 0, 0, 255, 0, 0, 0],
      [255, 255, 0, 0, 255, 0, 0, 0],
      [255, 0, 255, 255, 0, 0, 0, 0],
      [255, 0, 0, 0, 0, 0, 0, 0],
      [255, 0, 0, 0, 0, 0, 0, 0]],
     [[0, 0, 0, 0, 0, 0, 0, 0],
      [0, 0, 0, 0, 0, 0, 0, 0],
      [0, 255, 255, 0, 255, 0, 0, 0],
      [255, 0, 0, 255, 255, 0, 0, 0],
      [255, 0, 0, 255, 255, 0, 0, 0],
      [0, 255, 255, 0, 255, 0, 0, 0],
      [0, 0, 0, 0, 255, 0, 0, 0],
      [0, 0, 0, 0, 255, 0, 0, 0]],
     [[0, 0, 0, 0, 0, 0, 0, 0],
      [0, 0, 0, 0, 0, 0, 0, 0],
      [255, 0, 255, 255, 0, 0, 0, 0],
      [255, 255, 0, 0, 255, 0, 0, 0],
      [255, 0, 0, 0, 0, 0, 0, 0],
      [255, 0, 0, 0, 0, 0, 0, 0],
      [255, 0, 0, 0, 0, 0, 0, 0],
      [0, 0, 0, 0, 0, 0, 0, 0]],
     [[0, 0, 0, 0, 0, 0, 0, 0],
      [0, 0, 0, 0, 0, 0, 0, 0],
      [0, 255, 255, 255, 255, 0, 0, 0],
      [255, 0, 0, 0, 0, 0, 0, 0],
      [255, 255, 255, 255, 0, 0, 0, 0],
      [0, 0, 0, 0, 255, 0, 0, 0],
      [255, 255, 255, 255, 0, 0, 0, 0],
      [0, 0, 0, 0, 0, 0, 0, 0]],
     [[0, 255, 0, 0, 0, 0, 0, 0],
      [0, 255, 0, 0, 0, 0, 0, 0],
      [255, 255, 255, 255, 0, 0, 0, 0],
      [0, 255, 0, 0, 0, 0, 0, 0],
      [0, 255, 0, 0, 0, 0, 0, 0],
      [0, 255, 0, 0, 255, 0, 0, 0],
      [0, 0, 255, 255, 0, 0, 0, 0],
      [0, 0, 0, 0, 0, 0, 0, 0]]]"

definition font_117 :: "bytes list list" where
  "font_117 = [
     [[0, 0, 0, 0, 0, 0, 0, 0],
      [0, 0, 0, 0, 0, 0, 0, 0],
      [255, 0, 0, 255, 0, 0, 0, 0],
      [255, 0, 0, 255, 0, 0, 0, 0],
      [255, 0, 0, 255, 0, 0, 0, 0],
      [255, 0, 0, 255, 0, 0, 0, 0],
      [0, 255, 255, 0, 255, 0, 0, 0],
      [0, 0, 0, 0, 0, 0, 0, 0]],
     [[0, 0, 0, 0, 0, 0, 0, 0],
      [0, 0, 0, 0, 0, 0, 0, 0],
      [255, 0, 0, 0, 255, 0, 0, 0],
      [255, 0, 0, 0, 255, 0, 0, 0],
      [255, 0, 0, 0, 255, 0, 0, 0],
      [0, 255, 0, 255, 0, 0, 0, 0],
      [0, 0, 255, 0, 0, 0, 0, 0],
      [0, 0, 0, 0, 0, 0, 0, 0]],
     [[0, 0, 0, 0, 0, 0, 0, 0],
      [0, 0, 0, 0, 0, 0, 0, 0],
      [255, 0, 0, 0, 255, 0, 0, 0],
      [255, 0, 255, 0, 255, 0, 0, 0],
      [255, 0, 255, 0, 255, 0, 0, 0],
      [255, 0, 255, 0, 255, 0, 0, 0],
      [0, 255, 0, 255, 0, 0, 0, 0],
      [0, 0, 0, 0, 0, 0, 0, 0]],
     [[0, 0, 0, 0, 0, 0, 0, 0],
      [0, 0, 0, 0, 0, 0, 0, 0],
      [255, 0, 0, 0, 255, 0, 0, 0],
      [0, 255, 0, 255, 0, 0, 0, 0],
      [0, 0, 255, 0, 0, 0, 0, 0],
      [0, 255, 0, 255, 0, 0, 0, 0],
      [255, 0, 0, 0, 255, 0, 0, 0],
      [0, 0, 0, 0, 0, 0, 0, 0]],
     [[0, 0, 0, 0, 0, 0, 0, 0],
      [0, 0, 0, 0, 0, 0, 0, 0],
      [255, 0, 0, 0, 255, 0, 0, 0],
      [255, 0, 0, 0, 255, 0, 0, 0],
      [255, 0, 0, 255, 255, 0, 0, 0],
      [0, 255, 255, 0, 255, 0, 0, 0],
      [0, 0, 0, 0, 255, 0, 0, 0],
      [0, 255, 255, 255, 0, 0, 0, 0]],
     [[0, 0, 0, 0, 0, 0, 0, 0],
      [0, 0, 0, 0, 0, 0, 0, 0],
      [255, 255, 255, 255, 255, 0, 0, 0],
      [0, 0, 0, 255, 0, 0, 0, 0],
      [0, 0, 255, 0, 0, 0, 0, 0],
      [0, 255, 0, 0, 0, 0, 0, 0],
      [255, 255, 255, 255, 255, 0, 0, 0],
      [0, 0, 0, 0, 0, 0, 0, 0]],
     [[0, 0, 0, 255, 255, 0, 0, 0],
      [0, 0, 255, 0, 0, 0, 0, 0],
      [0, 0, 255, 0, 0, 0, 0, 0],
      [0, 255, 0, 0, 0, 0, 0, 0],
      [0, 0, 255, 0, 0, 0, 0, 0],
      [0, 0, 255, 0, 0, 0, 0, 0],
      [0, 0, 0, 255, 255, 0, 0, 0],
      [0, 0, 0, 0, 0, 0, 0, 0]],
     [[0, 0, 255, 0, 0, 0, 0, 0],
      [0, 0, 255, 0, 0, 0, 0, 0],
      [0, 0, 255, 0, 0, 0, 0, 0],
      [0, 0, 0, 0, 0, 0, 0, 0],
      [0, 0, 255, 0, 0, 0, 0, 0],
      [0, 0, 255, 0, 0, 0, 0, 0],
      [0, 0, 255, 0, 0, 0, 0, 0],
      [0, 0, 0, 0, 0, 0, 0, 0]],
     [[255, 255, 0, 0, 0, 0, 0, 0],
      [0, 0, 255, 0, 0, 0, 0, 0],
      [0, 0, 255, 0, 0, 0, 0, 0],
      [0, 0, 0, 255, 0, 0, 0, 0],
      [0, 0, 255, 0, 0, 0, 0, 0],
      [0, 0, 255, 0, 0, 0, 0, 0],
      [255, 255, 0, 0, 0, 0, 0, 0],
      [0, 0, 0, 0, 0, 0, 0, 0]],
     [[0, 255, 0, 0, 0, 0, 0, 0],
      [255, 0, 255, 0, 255, 0, 0, 0],
      [0, 0, 0, 255, 0, 0, 0, 0],
      [0, 0, 0, 0, 0, 0, 0, 0],
      [0, 0, 0, 0, 0, 0, 0, 0],
      [0, 0, 0, 0, 0, 0, 0, 0],
      [0, 0, 0, 0, 0, 0, 0, 0],
      [0, 0, 0, 0, 0, 0, 0, 0]]]"

text \<open>The table has room for 128 glyphs and initialisers for 127: the last one is zero.\<close>

definition font_8x8 :: "bytes list list" where
  "font_8x8 = font_0 @ font_13 @ font_26 @ font_39 @ font_52 @ font_65 @ font_78 @ font_91 @ font_104 @ font_117
     @ [replicate 8 (replicate 8 0)]"

lemmas font_defs = font_0_def font_13_def font_26_def font_39_def font_52_def font_65_def font_78_def font_91_def font_104_def font_117_def

text \<open>Eight rows of eight, each pixel off or on.\<close>

definition glyphs_ok :: "bytes list list \<Rightarrow> bool" where
  "glyphs_ok gs \<longleftrightarrow> list_all (\<lambda>g. length g = 8 \<and> list_all (\<lambda>r. length r = 8 \<and> list_all (\<lambda>p. p = 0 \<or> p = 255) r) g) gs"

lemma font_parts_ok:
  "glyphs_ok font_0"
  "glyphs_ok font_13"
  "glyphs_ok font_26"
  "glyphs_ok font_39"
  "glyphs_ok font_52"
  "glyphs_ok font_65"
  "glyphs_ok font_78"
  "glyphs_ok font_91"
  "glyphs_ok font_104"
  "glyphs_ok font_117"
  by (simp_all add: glyphs_ok_def font_defs)

lemma font_parts_length:
  "length font_0 = 13"
  "length font_13 = 13"
  "length font_26 = 13"
  "length font_39 = 13"
  "length font_52 = 13"
  "length font_65 = 13"
  "length font_78 = 13"
  "length font_91 = 13"
  "length font_104 = 13"
  "length font_117 = 10"
  by (simp_all add: font_defs)

lemma glyphs_ok_append: "glyphs_ok (gs @ gs') \<longleftrightarrow> glyphs_ok gs \<and> glyphs_ok gs'" "glyphs_ok [replicate 8 (replicate 8 0)]"
  by (auto simp: glyphs_ok_def list_all_iff)

lemma font_8x8_ok: "glyphs_ok font_8x8" "length font_8x8 = 128"
  using font_parts_ok by (simp_all add: font_8x8_def glyphs_ok_append font_parts_length)

definition glyph :: "nat \<Rightarrow> nat \<Rightarrow> nat \<Rightarrow> byte res" where
  "glyph c cy cx = res_bind (load font_8x8 c) (\<lambda>g. res_bind (load g cy) (\<lambda>row. load row cx))"

lemma glyph_read:
  assumes "c < 128" "cy < 8" "cx < 8"
  shows "glyph c cy cx = Inr 0 \<or> glyph c cy cx = Inr 255"
proof -
  have "font_8x8 ! c \<in> set font_8x8" using font_8x8_ok(2) assms(1) by simp
  then have g: "length (font_8x8 ! c) = 8" "\<forall>r \<in> set (font_8x8 ! c). length r = 8 \<and> (\<forall>p \<in> set r. p = 0 \<or> p = 255)"
    using font_8x8_ok(1) by (auto simp: glyphs_ok_def list_all_iff)
  then have "length (font_8x8 ! c ! cy) = 8" "\<forall>p \<in> set (font_8x8 ! c ! cy). p = 0 \<or> p = 255" using assms(2) by (metis nth_mem)+
  then show ?thesis using assms g(1) font_8x8_ok(2) nth_mem[of cx "font_8x8 ! c ! cy"] by (auto simp: glyph_def load_def)
qed

lemma glyph_total: "font_total glyph"
  unfolding font_total_def using glyph_read by blast

section \<open>Pixels\<close>

type_synonym rgb = "byte \<times> byte \<times> byte"

definition px_at :: "bytes \<Rightarrow> nat \<Rightarrow> rgb" where
  "px_at buf k = (buf ! (3 * k), buf ! (3 * k + 1), buf ! (3 * k + 2))"

definition shade :: "rgb \<Rightarrow> byte res \<Rightarrow> rgb" where
  "shade col v = (if v \<noteq> Inr 0 then col else (0, 0, 0))"

lemma set_pixel_px:
  assumes "length buf = 3 * n" "k < n"
  shows "\<exists>buf'. set_pixel buf (3 * int k) r g b = Inr buf' \<and> length buf' = 3 * n
    \<and> (\<forall>j < n. px_at buf' j = (if j = k then (r, g, b) else px_at buf j))"
proof -
  let ?b = "buf[3 * k := r, 3 * k + 1 := g, 3 * k + 2 := b]"
  have "nat (3 * int k) = 3 * k" by (simp add: nat_mult_distrib)
  then have "set_pixel buf (3 * int k) r g b = Inr ?b" using assms by (simp add: set_pixel_def)
  moreover have "px_at ?b j = (if j = k then (r, g, b) else px_at buf j)" if "j < n" for j
    using that assms by (auto simp: px_at_def nth_list_update)
  ultimately show ?thesis using assms(1) by auto
qed

lemma draw_row_px:
  assumes "length buf = 3 * n" "maxo = int (3 * n)" "list_all (\<lambda>cx. k + cx < n) cxs" "base + 3 * x = 3 * int k" "\<forall>cx \<in> set cxs. \<exists>v. gl cx = Inr v"
  shows "\<exists>buf'. draw_row gl maxo base x col cxs buf = Inr buf' \<and> length buf' = 3 * n
    \<and> (\<forall>j < n. px_at buf' j = (if k \<le> j \<and> j - k \<in> set cxs then shade col (gl (j - k)) else px_at buf j))"
  using assms(1,3,5)
proof (induction cxs arbitrary: buf)
  case (Cons cx cxs)
  have o: "base + (x + int cx) * 3 = 3 * int (k + cx)" using assms(4) by simp
  have c: "\<not> maxo \<le> 3 * int (k + cx)" "k + cx < n" using assms(2) Cons.prems by simp_all
  obtain v where v: "gl cx = Inr v" using Cons.prems(3) by auto
  obtain r g b where rgb: "(if v \<noteq> 0 then col else (0, 0, 0)) = (r, g, b)" by (metis prod_cases3)
  from set_pixel_px[OF Cons.prems(1) c(2), of r g b] obtain b1 where b1: "set_pixel buf (3 * int (k + cx)) r g b = Inr b1" "length b1 = 3 * n"
    "\<forall>j < n. px_at b1 j = (if j = k + cx then (r, g, b) else px_at buf j)" by blast
  from Cons.IH[OF b1(2)] Cons.prems(2,3) obtain b2 where b2: "draw_row gl maxo base x col cxs b1 = Inr b2" "length b2 = 3 * n"
    "\<forall>j < n. px_at b2 j = (if k \<le> j \<and> j - k \<in> set cxs then shade col (gl (j - k)) else px_at b1 j)" by auto
  have "draw_row gl maxo base x col (cx # cxs) buf = Inr b2"
    using b1(1) b2(1) c(1) unfolding draw_row.simps o v res_bind_Inr rgb Let_def by simp
  moreover have "px_at b2 j = (if k \<le> j \<and> j - k \<in> set (cx # cxs) then shade col (gl (j - k)) else px_at buf j)" if "j < n" for j
    using b1(3) b2(3) that rgb v by (auto simp: shade_def)
  ultimately show ?case using b2(2) by blast
qed auto

text \<open>A pixel by its coordinates.\<close>

definition pixel :: "nat \<Rightarrow> bytes \<Rightarrow> nat \<Rightarrow> nat \<Rightarrow> rgb" where
  "pixel w buf px py = px_at buf (py * w + px)"

lemma pixel_index: "px < w \<Longrightarrow> py < h \<Longrightarrow> py * w + px < w * (h :: nat)"
proof -
  assume "px < w" "py < h"
  then have "py * w + px < Suc py * w" "Suc py * w \<le> h * w" by (simp, intro mult_le_mono1, simp)
  then show ?thesis by (simp add: mult.commute)
qed

lemma same_index:
  assumes "px < w" "x + cx < (w :: nat)"
  shows "(py * w + px = (y + cy) * w + (x + cx)) \<longleftrightarrow> py = y + cy \<and> px = x + cx"
proof
  assume e: "py * w + px = (y + cy) * w + (x + cx)"
  have "py = (py * w + px) div w" "px = (py * w + px) mod w" using assms(1) by simp_all
  then show "py = y + cy \<and> px = x + cx" unfolding e using assms(2) by simp
qed simp

lemma draw_rows_px:
  assumes "length buf = 3 * (w * h)" "x + 8 \<le> w" "list_all (\<lambda>cy. y + cy < h) cys" "\<forall>cy \<in> set cys. \<forall>cx < 8. \<exists>v. gl cy cx = Inr v"
  shows "\<exists>buf'. draw_rows gl (int (3 * (w * h))) w (int x) (int y) col cys buf = Inr buf' \<and> length buf' = 3 * (w * h)
    \<and> (\<forall>px < w. \<forall>py < h. pixel w buf' px py =
        (if y \<le> py \<and> py - y \<in> set cys \<and> x \<le> px \<and> px < x + 8 then shade col (gl (py - y) (px - x)) else pixel w buf px py))"
  using assms(1,3,4)
proof (induction cys arbitrary: buf)
  case (Cons cy cys)
  let ?k = "(y + cy) * w + x"
  have k: "list_all (\<lambda>cx. ?k + cx < w * h) [0..<8]"
    using pixel_index[of _ w "y + cy" h] assms(2) Cons.prems(2) by (auto simp: list_all_iff add.assoc)
  have "(int cy + int y) * int w * 3 + 3 * int x = 3 * int ?k" by (simp add: algebra_simps)
  moreover have "\<forall>cx \<in> set [0..<8]. \<exists>v. gl cy cx = Inr v" using Cons.prems(3) by simp
  ultimately obtain b1 where
    b1: "draw_row (gl cy) (int (3 * (w * h))) ((int cy + int y) * int w * 3) (int x) col [0..<8] buf = Inr b1" "length b1 = 3 * (w * h)"
      "\<forall>j < w * h. px_at b1 j = (if ?k \<le> j \<and> j - ?k \<in> set [0..<8] then shade col (gl cy (j - ?k)) else px_at buf j)"
    using draw_row_px[OF Cons.prems(1) refl k] by blast
  have p1: "pixel w b1 px py = (if py = y + cy \<and> x \<le> px \<and> px < x + 8 then shade col (gl cy (px - x)) else pixel w buf px py)"
    if "px < w" "py < h" for px py
  proof -
    have "(?k \<le> py * w + px \<and> py * w + px - ?k < 8) \<longleftrightarrow> (\<exists>cx < 8. py * w + px = (y + cy) * w + (x + cx))"
      by (auto intro: exI[of _ "py * w + px - ?k"])
    also have "\<dots> \<longleftrightarrow> (\<exists>cx < 8. py = y + cy \<and> px = x + cx)" using same_index[OF that(1)] assms(2) by auto
    also have "\<dots> \<longleftrightarrow> py = y + cy \<and> x \<le> px \<and> px < x + 8" by (auto intro: exI[of _ "px - x"])
    finally have e: "(?k \<le> py * w + px \<and> py * w + px - ?k < 8) \<longleftrightarrow> py = y + cy \<and> x \<le> px \<and> px < x + 8" .
    show ?thesis using b1(3) pixel_index[OF that] e by (auto simp: pixel_def)
  qed
  from Cons.IH[OF b1(2)] Cons.prems(2,3) obtain b2 where b2: "draw_rows gl (int (3 * (w * h))) w (int x) (int y) col cys b1 = Inr b2" "length b2 = 3 * (w * h)"
    "\<forall>px < w. \<forall>py < h. pixel w b2 px py =
        (if y \<le> py \<and> py - y \<in> set cys \<and> x \<le> px \<and> px < x + 8 then shade col (gl (py - y) (px - x)) else pixel w b1 px py)" by auto
  have "draw_rows gl (int (3 * (w * h))) w (int x) (int y) col (cy # cys) buf = Inr b2" using b1(1) b2(1) by simp
  moreover have "pixel w b2 px py = (if y \<le> py \<and> py - y \<in> set (cy # cys) \<and> x \<le> px \<and> px < x + 8
      then shade col (gl (py - y) (px - x)) else pixel w buf px py)" if "px < w" "py < h" for px py
    using b2(3) p1[OF that] that by auto
  ultimately show ?case using b2(2) by blast
qed auto

definition code :: "char \<Rightarrow> nat" where
  "code ch = unat (byte_of_char ch AND 127)"

lemma draw_chars_px:
  assumes "length buf = 3 * (w * h)" "x + 8 * (i + length str) \<le> w" "y + 8 \<le> h" "font_total font"
  shows "\<exists>buf'. draw_chars font (int (3 * (w * h))) w (int x) (int y) col i str buf = Inr buf' \<and> length buf' = 3 * (w * h)
    \<and> (\<forall>px < w. \<forall>py < h. pixel w buf' px py =
        (if y \<le> py \<and> py < y + 8 \<and> x + 8 * i \<le> px \<and> px < x + 8 * (i + length str)
         then shade col (font (code (str ! ((px - x) div 8 - i))) (py - y) ((px - x) mod 8)) else pixel w buf px py))"
  using assms(1,2)
proof (induction str arbitrary: i buf)
  case (Cons ch str)
  have "list_all (\<lambda>cy. y + cy < h) [0..<8]" "x + 8 * i + 8 \<le> w" using assms(3) Cons.prems(2) by (auto simp: list_all_iff)
  moreover have "\<forall>cy \<in> set [0..<8]. \<forall>cx < 8. \<exists>v. font (code ch) cy cx = Inr v"
    using assms(4) char_code_bound[of ch] by (simp add: font_total_def code_def)
  ultimately obtain b1 where
    b1: "draw_rows (font (code ch)) (int (3 * (w * h))) w (int (x + 8 * i)) (int y) col [0..<8] buf = Inr b1" "length b1 = 3 * (w * h)"
      "\<forall>px < w. \<forall>py < h. pixel w b1 px py = (if y \<le> py \<and> py - y \<in> set [0..<8] \<and> x + 8 * i \<le> px \<and> px < x + 8 * i + 8
          then shade col (font (code ch) (py - y) (px - (x + 8 * i))) else pixel w buf px py)"
    using draw_rows_px[OF Cons.prems(1), of "x + 8 * i" y "[0..<8]" "font (code ch)" col] by blast
  from Cons.IH[OF b1(2), of "i + 1"] Cons.prems(2) obtain b2 where
    b2: "draw_chars font (int (3 * (w * h))) w (int x) (int y) col (i + 1) str b1 = Inr b2" "length b2 = 3 * (w * h)"
      "\<forall>px < w. \<forall>py < h. pixel w b2 px py = (if y \<le> py \<and> py < y + 8 \<and> x + 8 * (i + 1) \<le> px \<and> px < x + 8 * (i + 1 + length str)
         then shade col (font (code (str ! ((px - x) div 8 - (i + 1)))) (py - y) ((px - x) mod 8)) else pixel w b1 px py)" by auto
  have "draw_chars font (int (3 * (w * h))) w (int x) (int y) col i (ch # str) buf = Inr b2"
    using b1(1) b2(1) by (simp add: code_def algebra_simps)
  moreover have "pixel w b2 px py = (if y \<le> py \<and> py < y + 8 \<and> x + 8 * i \<le> px \<and> px < x + 8 * (i + length (ch # str))
      then shade col (font (code ((ch # str) ! ((px - x) div 8 - i))) (py - y) ((px - x) mod 8)) else pixel w buf px py)"
    if "px < w" "py < h" for px py
  proof (cases "x + 8 * i \<le> px \<and> px < x + 8 * i + 8")
    case True
    then have d: "(px - x) div 8 = i" by (auto intro: div_nat_eqI)
    then have "(px - x) mod 8 = px - (x + 8 * i)" by (simp add: modulo_nat_def mult.commute)
    with d show ?thesis using b1(3) b2(3) that True by auto
  next
    case False
    have "i < (px - x) div 8" if "x + 8 * i + 8 \<le> px"
      using div_le_mono[of "8 * Suc i" "px - x" 8] that by simp
    then show ?thesis using b1(3) b2(3) that False by (auto simp: nth_Cons' not_le)
  qed
  ultimately show ?case using b2(2) by blast
qed auto

text \<open>C33: A text that fits into the picture is drawn exactly: in the rectangle of eight rows and eight columns per
  character each pixel has the colour or is black, as the glyph of the table says, and every pixel outside is as it was.
  No character, whatever its code, reads outside of the table.\<close>

theorem vnc_text_is_drawn:
  assumes "fb_ok fb" "x + 8 * length str \<le> fb_w fb" "y + 8 \<le> fb_h fb"
  shows "\<exists>fb'. draw_text glyph fb (int x) (int y) str col = Inr fb' \<and> fb_w fb' = fb_w fb \<and> fb_h fb' = fb_h fb \<and> fb_ok fb'
    \<and> (\<forall>px < fb_w fb. \<forall>py < fb_h fb. pixel (fb_w fb) (fb_buffer fb') px py =
        (if y \<le> py \<and> py < y + 8 \<and> x \<le> px \<and> px < x + 8 * length str
         then if glyph (code (str ! ((px - x) div 8))) (py - y) ((px - x) mod 8) = Inr 255 then col else (0, 0, 0)
         else pixel (fb_w fb) (fb_buffer fb) px py))"
proof -
  define w h where "w = fb_w fb" and "h = fb_h fb"
  have b: "length (fb_buffer fb) = 3 * (w * h)" "0 < w" "0 < h" using assms(1) by (simp_all add: fb_ok_def w_def h_def)
  have fit: "x + 8 * (0 + length str) \<le> w" "y + 8 \<le> h" using assms(2,3) by (simp_all add: w_def h_def)
  from draw_chars_px[OF b(1) fit glyph_total, of col] obtain buf where
    buf: "draw_chars glyph (int (3 * (w * h))) w (int x) (int y) col 0 str (fb_buffer fb) = Inr buf" "length buf = 3 * (w * h)"
      "\<forall>px < w. \<forall>py < h. pixel w buf px py = (if y \<le> py \<and> py < y + 8 \<and> x + 8 * 0 \<le> px \<and> px < x + 8 * (0 + length str)
         then shade col (glyph (code (str ! ((px - x) div 8 - 0))) (py - y) ((px - x) mod 8)) else pixel w (fb_buffer fb) px py)" by blast
  have g: "shade col (glyph (code ch) cy cx) = (if glyph (code ch) cy cx = Inr 255 then col else (0, 0, 0))" if "cy < 8" "cx < 8" for ch cy cx
    using glyph_read[OF _ that, of "code ch"] char_code_bound[of ch] by (auto simp: shade_def code_def)
  have "pixel w buf px py = (if y \<le> py \<and> py < y + 8 \<and> x \<le> px \<and> px < x + 8 * length str
         then if glyph (code (str ! ((px - x) div 8))) (py - y) ((px - x) mod 8) = Inr 255 then col else (0, 0, 0) else pixel w (fb_buffer fb) px py)"
    if "px < w" "py < h" for px py
  proof (cases "y \<le> py \<and> py < y + 8 \<and> x \<le> px \<and> px < x + 8 * length str")
    case True
    then have "py - y < 8" by auto
    from g[OF this, of "(px - x) mod 8" "str ! ((px - x) div 8)"] buf(3) that True show ?thesis by simp
  next
    case False
    then show ?thesis using buf(3) that by auto
  qed
  moreover have "draw_text glyph fb (int x) (int y) str col = Inr (fb\<lparr> fb_buffer := buf \<rparr>)"
    using buf(1) by (simp add: draw_text_def w_def h_def mult.commute)
  ultimately show ?thesis using buf(2) b by (simp add: fb_ok_def w_def h_def mult.commute)
qed

definition sample_fb :: frame_buffer where
  "sample_fb = \<lparr> fb_w = 20, fb_h = 10, fb_buffer = replicate 600 7 \<rparr>"

theorem vnc_text_is_drawn_witness:
  "\<exists>fb'. draw_text glyph sample_fb (int 2) (int 1) ''Hi'' (255, 255, 255) = Inr fb' \<and> fb_w fb' = fb_w sample_fb \<and> fb_h fb' = fb_h sample_fb \<and> fb_ok fb'
    \<and> (\<forall>px < fb_w sample_fb. \<forall>py < fb_h sample_fb. pixel (fb_w sample_fb) (fb_buffer fb') px py =
        (if 1 \<le> py \<and> py < 1 + 8 \<and> 2 \<le> px \<and> px < 2 + 8 * length ''Hi''
         then if glyph (code (''Hi'' ! ((px - 2) div 8))) (py - 1) ((px - 2) mod 8) = Inr 255 then (255, 255, 255) else (0, 0, 0)
         else pixel (fb_w sample_fb) (fb_buffer sample_fb) px py))"
  by (rule vnc_text_is_drawn) (simp_all add: sample_fb_def fb_ok_def)

text \<open>The characters of the clock can be told apart.\<close>

lemma clock_glyphs_distinct: "distinct (map (\<lambda>c. font_8x8 ! c) (58 # [48..<58]))"
  by (simp add: font_8x8_def nth_append font_parts_length upt_rec) (simp add: font_defs)

section \<open>The clock\<close>

text \<open>The text of the clock: hours, minutes and seconds of \<^verbatim>\<open>gmtime_r\<close>, with two digits each, in a buffer for 15
  characters and the terminator.\<close>

definition two_digits :: "nat \<Rightarrow> string" where
  "two_digits n = (if n < 10 then ''0'' else []) @ num_str 10 n"

definition clock_text :: "nat \<Rightarrow> string" where
  "clock_text t = take 15 (two_digits (t div 3600 mod 24) @ '':'' @ two_digits (t div 60 mod 60) @ '':'' @ two_digits (t mod 60) @ '' - MyIP'')"

lemma two_digits_eq: "n < 100 \<Longrightarrow> two_digits n = [digit_char (n div 10), digit_char (n mod 10)]"
proof -
  assume "n < 100"
  moreover have "digit_char 0 = CHR ''0''" by code_simp
  ultimately show ?thesis by (auto simp: two_digits_def num_str_def digits_of.simps)
qed

lemma clock_text_eq:
  "clock_text t = two_digits (t div 3600 mod 24) @ '':'' @ two_digits (t div 60 mod 60) @ '':'' @ two_digits (t mod 60) @ '' - MyIP''"
proof -
  have "t div 3600 mod 24 < 100" "t div 60 mod 60 < 100" "t mod 60 < 100"
    using mod_less_divisor[of 24 "t div 3600"] mod_less_divisor[of 60 "t div 60"] mod_less_divisor[of 60 t] by linarith+
  then show ?thesis by (simp add: clock_text_def two_digits_eq)
qed

lemma digit_char_inject: "d < 10 \<Longrightarrow> e < 10 \<Longrightarrow> digit_char d = digit_char e \<longleftrightarrow> d = e"
  using of_char_digit_char[of d] of_char_digit_char[of e] by (auto simp: digit_char_def)

lemma two_digits_inject: "m < 100 \<Longrightarrow> n < 100 \<Longrightarrow> two_digits m = two_digits n \<longleftrightarrow> m = n"
proof -
  assume l: "m < 100" "n < 100"
  then have "m div 10 < 10" "n div 10 < 10" by auto
  then have "two_digits m = two_digits n \<longleftrightarrow> m div 10 = n div 10 \<and> m mod 10 = n mod 10" using l by (simp add: two_digits_eq digit_char_inject)
  then show ?thesis by (metis div_mult_mod_eq)
qed

lemma time_of_day:
  "(t :: nat) mod 86400 = 60 * (t div 60 mod 1440) + t mod 60" "t div 60 mod 1440 = 60 * (t div 3600 mod 24) + t div 60 mod 60"
  using mod_mult2_eq[of t 60 1440] mod_mult2_eq[of "t div 60" 60 24] by (simp_all add: div_mult2_eq[of t 60 60, simplified])

lemma places_inject: "c < k \<Longrightarrow> d < k \<Longrightarrow> k * x + c = k * y + d \<longleftrightarrow> x = y \<and> c = (d :: nat)"
  by (metis div_mult_self4 add_left_cancel div_less add_0_right less_nat_zero_code neq0_conv)

text \<open>The clock shows the time of the day and nothing else.\<close>

lemma clock_text_inject: "clock_text t = clock_text u \<longleftrightarrow> t mod 86400 = u mod 86400"
proof -
  have b: "x div 3600 mod 24 < 100" "x div 60 mod 60 < 100" "x mod 60 < 100" for x :: nat
    using mod_less_divisor[of 24 "x div 3600"] mod_less_divisor[of 60 "x div 60"] mod_less_divisor[of 60 x] by linarith+
  have l: "length (two_digits (x mod 60)) = 2" "length (two_digits (x div 60 mod 60)) = 2" "length (two_digits (x div 3600 mod 24)) = 2" for x
    using b[of x] by (simp_all add: two_digits_eq)
  have "clock_text t = clock_text u \<longleftrightarrow> t div 3600 mod 24 = u div 3600 mod 24 \<and> t div 60 mod 60 = u div 60 mod 60 \<and> t mod 60 = u mod 60"
    unfolding clock_text_eq using b[of t] b[of u] l[of t] l[of u] by (simp add: append_eq_append_conv two_digits_inject)
  also have "\<dots> \<longleftrightarrow> t mod 86400 = u mod 86400"
    using places_inject[of "t mod 60" 60 "u mod 60" "t div 60 mod 1440" "u div 60 mod 1440"]
      places_inject[of "t div 60 mod 60" 60 "u div 60 mod 60" "t div 3600 mod 24" "u div 3600 mod 24"]
    by (simp add: time_of_day(1)[of t] time_of_day(1)[of u] time_of_day(2)[of t] time_of_day(2)[of u] conj_ac)
  finally show ?thesis .
qed

text \<open>\<open>run_fb\<close>: its turns, each with the random numbers, the time in microseconds and that in seconds it finds.\<close>

fun run_fb_turns :: "((nat \<Rightarrow> nat) \<times> u64 \<times> nat) list \<Rightarrow> bounce \<times> frame_buffer \<Rightarrow> (bounce \<times> frame_buffer) res" where
  "run_fb_turns [] st = Inr st"
| "run_fb_turns ((rnd, now, tnow) # turns) st = res_bind (run_fb_turn glyph rnd now (clock_text tnow) st) (run_fb_turns turns)"

definition run_fb :: "((nat \<Rightarrow> nat) \<times> u64 \<times> nat) list \<Rightarrow> frame_buffer \<Rightarrow> (bounce \<times> frame_buffer) res" where
  "run_fb turns fb = run_fb_turns turns (\<lparr> bn_x = int (fb_w fb div 2), bn_y = int (fb_h fb div 2), bn_dx = 1, bn_dy = 1, bn_latest = 0 \<rparr>, fb)"

lemma run_fb_turns_inside:
  assumes "fb_ok fb" "inside fb bn"
  shows "\<exists>bn' fb'. run_fb_turns turns (bn, fb) = Inr (bn', fb') \<and> fb_ok fb' \<and> inside fb' bn' \<and> fb_w fb' = fb_w fb \<and> fb_h fb' = fb_h fb"
  using assms
proof (induction turns arbitrary: bn fb)
  case (Cons turn turns)
  obtain rnd now tnow where t: "turn = (rnd, now, tnow)" by (cases turn)
  obtain bn1 fb1 where "run_fb_turn glyph rnd now (clock_text tnow) (bn, fb) = Inr (bn1, fb1)" "fb_ok fb1" "inside fb1 bn1"
    "fb_w fb1 = fb_w fb" "fb_h fb1 = fb_h fb" using run_fb_turn_inside[OF Cons.prems(1) glyph_total] by blast
  then show ?case using Cons.IH[of fb1 bn1] t by simp
qed simp



end
