(* ===== verification/Spec2Isabelle.thy ===== *)
theory Spec2Isabelle
  imports Ping Fragments_Across Http_Across Trace Tcp_Stream Icmp Services Gopher Vnc Vnc_Font
begin

text \<open>
  \<^bold>\<open>MyIP-NG\<close> is an IPv4 stack in user space.  Every layer is a process of its own, and the processes
  talk through message queues in shared memory: a link server (\<^verbatim>\<open>tap_server.cpp\<close> or
  \<^verbatim>\<open>promisc_server.cpp\<close>) moves Ethernet frames between a device and the queues, \<^verbatim>\<open>arp_server.cpp\<close> and
  \<^verbatim>\<open>ip4_server.cpp\<close> serve frame types, \<^verbatim>\<open>icmp_server.cpp\<close>, \<^verbatim>\<open>udp_server.cpp\<close> and \<^verbatim>\<open>tcp_server.cpp\<close>
  serve IP protocols, and \<^verbatim>\<open>ntp_server.cpp\<close>, \<^verbatim>\<open>time_server.cpp\<close>, \<^verbatim>\<open>http_server.cpp\<close>,
  \<^verbatim>\<open>gopher_server.cpp\<close> and \<^verbatim>\<open>vnc_server.cpp\<close> serve ports.  A packet travels up in the envelope of
  \<^verbatim>\<open>wrap_message_up\<close> and down in that of \<^verbatim>\<open>wrap_message_down\<close>; the IPv4 server asks the ARP server for
  hardware addresses by text messages.  Paths below are relative to the root of the repository.

  \<^bold>\<open>How the code is modelled.\<close>
  Bytes and unsigned integers are words of their width, so that sums wrap; what the code keeps
  in an \<open>int\<close> is an \<open>int\<close> with the conversion written out.  A buffer is a list of bytes, and reading or
  writing outside of it is an error of the result type \<open>res\<close>, as are a failed assertion, an uncaught
  exception and waiting without an end.  A \<^verbatim>\<open>std::map\<close> is the sorted list of its elements.  A
  server's thread is the function of one turn of its loop: it takes the message and the state
  and returns the new state, the new world of queues and how often the message is freed.  The mutex of a
  segment makes each operation on it one step; the places where a thread sleeps take a list of what the
  others did meanwhile.  (The schedules of the theorems on a queue have non-blocking sends; a blocking one makes the same step once there is room.)

  \<^bold>\<open>The theories\<close>, in the order of the layers.
  \<^item> \<open>Prelude\<close>: machine types, results, access to buffers, little-endian layout.  \<open>Net\<close>:
    \<^verbatim>\<open>src/utils/net.cpp\<close> and \<^verbatim>\<open>checksum.cpp\<close>; the checksums are those of RFC 1071, a filled-in checksum
    verifies, a change of one word is seen.  \<open>Text\<close>: \<^verbatim>\<open>str.cpp\<close> and \<^verbatim>\<open>stoi.cpp\<close>, with printing and
    reading back.  \<open>Addresses\<close>: \<^verbatim>\<open>addresses.h\<close>.  \<open>Siphash\<close>: \<^verbatim>\<open>src/3dparty/SipHash/siphash.c\<close>, with
    test vectors.  \<open>Std_Map\<close>: the laws of a map as the locale \<open>dictionary\<close>.
  \<^item> \<open>Shm\<close>: \<^verbatim>\<open>src/utils/shm.cpp\<close>, a segment byte by byte with sending, filtered receiving, waiting
    and deadlines.  The abstract queue it implements is a locale; its interpretation on the
    segment gives exactly-once delivery, order and safety of waiting on every interleaving.
    \<open>Shm_Message\<close>: the three envelopes and their round trips.  \<open>Transport\<close>: all segments together; the
    locales \<open>transport\<close> and \<open>blocking_transport\<close> are what the servers rely on when they send.  \<open>Servers\<close>:
    what the servers share.
  \<^item> \<open>Link\<close>: frames in and out of both link servers.  \<open>Arp\<close>: the cache, requests, replies and the
    resolver.  \<open>Ip4\<close>: the operations of \<^verbatim>\<open>ip4_server.cpp\<close>; \<open>Ip4_Fragments\<close> proves that sending
    ends, that the receiver reads what was sent, and reassembly in any order; \<open>Ip4_Out\<close> proves routing and the
    pending table.  \<open>Icmp\<close>, \<open>Udp\<close>: both directions, with the checksums of what is sent.
  \<^item> \<open>Tcp\<close>, \<open>Tcp_Session\<close>: the operations of \<^verbatim>\<open>tcp_server.cpp\<close>.  \<open>Tcp_Wire\<close>: the segments sent and that
    they are read back.  \<open>Tcp_Handshake\<close>: SYN cookies.  \<open>Tcp_Stream\<close>: over any sequence of turns of the
    threads a session holds exactly the bytes of the stream that are not acknowledged (a refinement of
    the stream).  \<open>Tcp_Receive\<close>: delivery in order, once, and acknowledgement.
  \<^item> \<open>L7\<close>: \<^verbatim>\<open>src/utils/queue.h\<close> and \<^verbatim>\<open>tcp-helpers.cpp\<close>, the stream as an application reads and
    writes it.  \<open>Apps\<close>: the registry of sessions of the applications, as the locale \<open>app_server\<close>, interpreted
    for each of them.  \<open>Http\<close>, \<open>Gopher\<close>: requests, the confinement of file access, and that a file reaches the TCP
    server complete.  \<open>Vnc_Frame\<close>, \<open>Vnc_Encode\<close>, \<open>Vnc\<close>: the picture, its encodings (hextile with a decoder), the
    handshake and the commands.  \<open>Services\<close>: NTP and TIME.
    \<open>Vnc_Font\<close>: the table of \<^verbatim>\<open>src/font.cpp\<close>, a text drawn with it pixel by pixel, the text of the clock and the
    thread that draws it.
  \<^item> \<open>Config\<close>: the mappings of \<^verbatim>\<open>src/common.cpp\<close>.  \<open>Log\<close>: \<^verbatim>\<open>src/utils/log.cpp\<close>.  \<open>Device\<close>: the opening and
    configuring of the device by both link servers, on Linux and FreeBSD, with the descriptors that stay open, and
    \<^verbatim>\<open>src/utils/random.cpp\<close> and \<^verbatim>\<open>time.cpp\<close>.  \<open>Startup\<close>: \<open>main\<close> of all twelve servers up to the start of their
    threads; each gives up, runs with its queues, or ends by an exception that nobody catches; the IPv4 server starts as its file says, the tap
    server without privileges.  \<open>Discovery\<close>: the servers that ask others for their addresses when they start, together with those that
    answer.  \<open>Trace\<close>: what is printed: flags, dumps, access logs, the dump of the sessions.
  \<^item> \<open>Stack\<close>: each layer applied to what the layer beside it sends.  \<open>Resolve\<close>: the questions of the IPv4 server to the ARP server
    and the answers, with their numbers.  \<open>Path\<close>: the way of a packet from the transport server of one host to that of another: the IPv4
    server (\<open>ip4_run_out\<close>, which asks for two hardware addresses), the ARP server (\<open>arp_run_resolver\<close>, which answers both from its table),
    the sender of the IPv4 server (\<open>ip4_sender\<close>, once for each answer), the link server, and on the other host the link and the
    IPv4 server; each finds its queues as the fields of the record \<open>path\<close> say.  \<open>Fragments_Across\<close>: a datagram
    larger than the MTU on this way, its frames in any order, and that it is lost when its last piece is below eight bytes.  \<open>Tcp_Across\<close>: opening a connection between two
    hosts, and that the bytes written at one end are those read at the other; \<open>Tcp_Fin\<close>: the same for a
    stream that ends; \<open>Http_Across\<close>: a file of the HTTP server received by an application of another host.  This
    theory: a datagram across two hosts, and the ARP and IPv4 servers of one host together.
  \<^item> \<open>Calm\<close>: weakest preconditions for results, with a rule for each operation the servers are composed of.
    \<open>Turns\<close>: every turn of every server below the applications keeps the queues and its own tables sound, for any
    message below 16 MiB.  \<open>Host\<close>: a host, the servers from the link to TCP with their queues, as a sequence of
    events: a frame comes, a thread takes its turn, another process sends or takes a message.  \<open>Ping\<close>: every such sequence
    keeps the host sound, and a host with the configuration of \<^verbatim>\<open>examples\<close> answers pings.

  \<^bold>\<open>Arguments of the model\<close>, for code that is not in the repository: wolfSSL, zlib and libjpeg (what they return),
  the file system (\<open>realpath\<close>, \<open>stat\<close>, directory entries, contents), the options \<open>getopt\<close> finds, the keys and values
  iniparser reads, the results of system calls, the clock, random numbers, what the device takes, and the
  bytes of memory the code does not initialise.

  \<^bold>\<open>Bounds.\<close>  Loops are structural or have a measure where the code's loop ends.  Three do not always
  end and take fuel: the loop that sends fragments (the length of the payload is enough once the MTU is 28;
  below, the code's loop does not end), the loop that sends segments (the length of the payload
  and one more is enough once the MSS is not 0) and the loop of a VNC session (one turn more than there are arrivals).
  \<open>small\<close>, below a million bytes, keeps the lengths of envelopes within 32 bits; IPv4 packets are
  below 64 KiB.  \<open>spare k\<close> asks for \<open>k\<close> free bytes in a queue.  The theorems about two hosts ask for room for one packet
  of the MTU with the frame it came in (\<open>path_room\<close>; about 3200 bytes for an MTU of 1500), for one segment of the MSS and an acknowledgement
  (\<open>endpoint_ok\<close>), and for two questions to the resolver, and are applied to queues of 16384 bytes, the size the servers choose when the configuration
  names none; \<open>ping_room\<close> for twice the data of one packet, less than the queues of \<^verbatim>\<open>examples\<close> have.  The sequence numbers of
  a stream must not wrap: \<^verbatim>\<open>tcp_server.cpp\<close> compares them as they are.

  \<^bold>\<open>Not modelled.\<close>  What a server does after its threads have ended (freeing its queues), the calls that write to the
  log (the log itself is), signals other than as the stop flag, failures of the calls that lock and
  unlock a mutex or wake a waiter in \<^verbatim>\<open>shm.cpp\<close>, \<open>send_icmp_error\<close> of
  \<^verbatim>\<open>tcp_server.cpp\<close>, which nothing calls, HalfSipHash and the test vectors (third-party code the servers do not
  call), the test programs.
\<close>

section \<open>Two hosts on one Ethernet\<close>

text \<open>C4: Two hosts on one Ethernet, of which the first knows the hardware address of the next hop, with room in the queues on the way.  A datagram
  that a service of the first host gives to its UDP server ends that server when its number of bytes is odd.  Otherwise, when it fits one packet, it
  passes the IPv4 server, which asks for the two hardware addresses, the ARP server, which answers, the IPv4 server's sender and the link server of that
  host, and on the second host the link server, the IPv4 server and the UDP server: the service the destination port belongs to gets one message, with
  the addresses, the ports and the data of the sender, followed by twelve bytes: the four at the end of the packet that
  the first UDP server never wrote, and the first eight of the IP packet, which the second one copies behind the data.\<close>

theorem udp_across_hosts:
  assumes there: "path_ok p udp 17" "src = from_addr p"
    and worlds: "net_ok w1" "net_ok w2" "length udp' < max_id_length"
    and data: "4 \<le> length pl" "8 + length pl \<le> use_mtu_size (from_mtu p)" "msg_data m = wrap_down src (to_addr p) pl @ pad"
    and port: "ports (get_uint16 (slice_at 2 2 pl)) = Some service"
    and room: "spare (length pl + 200) w1 out" "spare (2 * length pl + 240) w2 service"
  shows "if odd (length pl) then udp_run_out junk (send_message udp) out m w1 = Inl Assert_failed
    else \<exists>w1' m1 m2 w2' m3 c packet. udp_run_out junk (send_message udp) out m w1 = Inr (1, w1') \<and> adds out m1 w1 w1'
      \<and> carry p m1 = Inr m2
      \<and> udp_run_in (send_message udp') ports icmp m2 w2 = Inr (1, w2') \<and> adds service m3 w2 w2'
      \<and> packet = ip4_packet 17 (from_ident p) 0 False src (to_addr p) (udp_packet_of junk pl c)
      \<and> msg_data m3 = wrap_up packet src (to_addr p) (pl @ map junk [length pl + 4 ..< length pl + 8] @ take 8 packet)"
proof (cases "odd (length pl)")
  case True
  note ok = there(1)[unfolded path_parts]
  have "length src = 4" "length (to_addr p) = 4" "length pl < 65536" using ok there(2) data(2) use_mtu_size_bounds[of "from_mtu p"] by simp_all
  then show ?thesis using udp_run_out_odd[OF _ _ data(1) _ True data(3)] True by simp
next
  case even: False
  note ok = there(1)[unfolded path_parts]
  have l: "length src = 4" "length (to_addr p) = 4" "8 + length pl \<le> 65515"
    using ok there(2) data(2) use_mtu_size_bounds[of "from_mtu p"] by simp_all
  obtain c r w1' where s1: "udp_run_out junk (send_message udp) out m w1 = Inr (1, w1')"
    "tcp_udp_checksum src (to_addr p) (udp_packet_of junk pl c) (8 + length pl) 17 = 0"
    "posted inbox capacity udp w1 out (wrap_message_down src (to_addr p) (udp_packet_of junk pl c) None) r w1'"
    using transport.udp_run_out_sends[OF shm_transport worlds(1) l(1,2) data(1) _ _ data(3), of udp junk out] ok even l(3) by auto
  define dgram where "dgram = udp_packet_of junk pl c"
  define packet where "packet = ip4_packet 17 (from_ident p) 0 False src (to_addr p) dgram"
  have d: "length dgram = 8 + length pl" using data(1) by (simp add: dgram_def length_udp_packet_of)
  have pk: "length packet = 28 + length pl" using l d by (simp add: packet_def length_ip4_packet)
  have g: "udp_datagram src (to_addr p) dgram" "slice_at 2 2 dgram = slice_at 2 2 pl"
    using udp_packet_of_datagram[OF l(1,2) data(1) _ s1(2)] l(3) by (simp_all add: dgram_def)
  have "padded_length (wrap_message_down src (to_addr p) dgram None) \<le> length pl + 200"
    using padded_length_wrapped(1)[of src "to_addr p" dgram None] l d by simp
  with posted_spare[OF s1(3)[folded dgram_def] room(1)] obtain m1 where
    m1: "carries udp (wrap_message_down src (to_addr p) dgram None) m1" "adds out m1 w1 w1'" by blast
  obtain m2 where m2: "carry p m1 = Inr m2" "msg_data m2 = wrap_up packet src (to_addr p) dgram @ []"
    using carry_packet[OF there _ _ m1(1)] d data(2) by (auto simp: packet_def)
  have "spare (length packet + length dgram + 200) w2 service" by (rule spare_mono[OF room(2)]) (simp add: pk d)
  then obtain w2' m3 where m3: "udp_run_in (send_message udp') ports icmp m2 w2 = Inr (1, w2')"
    "msg_data m3 = wrap_up packet src (to_addr p) (take 4 dgram @ drop 8 dgram @ take 8 packet)" "adds service m3 w2 w2'"
    using udp_run_in_spare[where mappings = ports, OF worlds(2,3) g(1) _ _ m2(2), of service icmp] pk l(3) port g(2) by auto
  have "take 4 dgram @ drop 8 dgram = pl @ map junk [length pl + 4 ..< length pl + 8]"
    using data(1) by (simp add: dgram_def udp_packet_of_def put_uint16_def)
  with m3(2) have "msg_data m3 = wrap_up packet src (to_addr p) (pl @ map junk [length pl + 4 ..< length pl + 8] @ take 8 packet)" by (metis append.assoc)
  then show ?thesis using even s1(1) m1(2) m2(1) m3(1,3) unfolding packet_def dgram_def if_not_P[OF even] by blast
qed

definition sample_pl :: bytes where "sample_pl = [0x12, 0x67, 0, 123, 1, 2, 3, 4]"

definition sample_street :: path where
  "sample_street = sample_road\<lparr> from_mtu := 1500 \<rparr>"

theorem udp_across_hosts_witness:
  "\<exists>w1' m1 m2 w2' m3 c packet. udp_run_out (\<lambda>_. 0) (send_message ''udp'') ''ip4''
        (hello\<lparr> msg_data := wrap_down [10, 0, 0, 1] [10, 0, 0, 2] sample_pl \<rparr>) usual_net = Inr (1, w1')
    \<and> adds ''ip4'' m1 usual_net w1' \<and> carry sample_street m1 = Inr m2
    \<and> udp_run_in (send_message ''udp'') [123 \<mapsto> ''ntp''] ''icmp'' m2 usual_net = Inr (1, w2') \<and> adds ''ntp'' m3 usual_net w2'
    \<and> packet = ip4_packet 17 7 0 False [10, 0, 0, 1] [10, 0, 0, 2] (udp_packet_of (\<lambda>_. 0) sample_pl c)
    \<and> msg_data m3 = wrap_up packet [10, 0, 0, 1] [10, 0, 0, 2] (sample_pl @ [0, 0, 0, 0] @ take 8 packet)"
proof -
  have u: "use_mtu_size (from_mtu sample_street) = 1480" by (simp add: use_mtu_size_eq sample_street_def)
  have "path_ok sample_street ''udp'' 17"
    unfolding path_parts u by (simp add: sample_street_def sample_road_def next_hop_known_def free_numbers_def usual_net_ok spare_usual_net
        max_id_length_def sample_hops)
  moreover have "get_uint16 (slice_at 2 2 sample_pl) = 123" by code_simp
  moreover have "map (\<lambda>_. 0 :: byte) [8 + 4 ..< 8 + 8] = [0, 0, 0, 0]" by (simp add: upt_rec)
  moreover have "from_addr sample_street = [10, 0, 0, 1]" "to_addr sample_street = [10, 0, 0, 2]" "from_ident sample_street = 7" "length sample_pl = 8"
    by (simp_all add: sample_street_def sample_road_def sample_pl_def)
  ultimately show ?thesis
    using udp_across_hosts[of sample_street "''udp''" "[10, 0, 0, 1]" usual_net usual_net "''udp''" sample_pl
        "hello\<lparr> msg_data := wrap_down [10, 0, 0, 1] [10, 0, 0, 2] sample_pl \<rparr>" "[]" "[123 \<mapsto> ''ntp'']" "''ntp''" "''ip4''" "\<lambda>_. 0" "''icmp''"] u
    by (simp add: usual_net_ok spare_usual_net max_id_length_def)
qed

section \<open>The IPv4 server and the resolver\<close>

text \<open>C24: When the IPv4 server asks for the own address or one the ARP server knows, the answer it finds
  in its queue is one that its sender understands: it resolves the number of the question to the
  hardware address.\<close>

theorem arp_answer_resolves:
  assumes "net_ok w" "length lid < max_id_length" "search_mac ip m" "length ip = 4" "length own = 4" "length a = 6"
    and "(if ip = own then Some mac else map_of (arp_cache st) ip) = Some a" "spare 300 w (c_str (sender m))"
  shows "\<exists>w' m'. arp_run_resolver (send_message lid) own mac out shm_out junk junk_nr m st w = Inr (1, st, w')
    \<and> adds (c_str (sender m)) m' w w' \<and> resolves junk' m' (msg_nr m) a"
  using resolver_replies[where mac = mac and own = own and st = st, OF assms] by metis

theorem arp_answer_resolves_witness:
  "\<exists>w' m'. arp_run_resolver (send_message ''res'') [10, 0, 0, 2] (replicate 6 2) ''tap'' (send_message ''arp'') (\<lambda>_. 0) 99 sample_search
      \<lparr> requests = [], arp_cache = [] \<rparr> usual_net = Inr (1, \<lparr> requests = [], arp_cache = [] \<rparr>, w')
    \<and> adds (c_str (sender sample_search)) m' usual_net w' \<and> resolves (\<lambda>_. 0) m' (msg_nr sample_search) (replicate 6 2)"
  by (rule arp_answer_resolves) (simp_all add: usual_net_ok max_id_length_def sample_search_ok spare_usual_net)

end
